(* ===== verification/Prelude.thy ===== *)
theory Prelude
  imports Main "HOL-Library.Word" "HOL-Library.AList"
begin

unbundle bit_operations_syntax

text \<open>
  What every component of the development shares: the machine integers and byte strings of
  the C++ sources, the exceptions the code throws as values, the operations of the standard
  containers the code uses, decimal printing and parsing as \<^verbatim>\<open>std::to_string\<close> and
  \<^verbatim>\<open>std::from_chars\<close> do them, the bit lemmas behind the byte-order functions, and two
  interfaces that several components implement (a codec and an event machine).
\<close>

section \<open>Types\<close>

type_synonym u8 = "8 word"
type_synonym u16 = "16 word"
type_synonym u32 = "32 word"
type_synonym u64 = "64 word"
type_synonym bytes = "u8 list"

text \<open>
  \<^verbatim>\<open>std::size_t\<close> values are lengths of objects in memory; they are \<open>nat\<close>. The code of
  the protocol library throws exceptions of four classes; \<^verbatim>\<open>ProtocolError\<close> derives from
  \<^verbatim>\<open>std::runtime_error\<close>. \<open>Undefined_behaviour\<close> is not an exception: it marks the points
  where C++ gives the program no meaning (a null pointer is dereferenced), so that a theorem
  can exclude them.
\<close>

datatype ProtocolErrorCode =
    InvalidMagic
  | UnsupportedVersion
  | UnknownMessageType
  | UnsupportedFlags
  | PayloadTooLarge
  | DecoderFailed

datatype cxx_exception =
    Invalid_argument string
  | Runtime_error string
  | Logic_error string
  | Protocol_error ProtocolErrorCode string
  | Undefined_behaviour

type_synonym 'a result = "cxx_exception + 'a"

fun what :: "cxx_exception \<Rightarrow> string" where
  "what (Invalid_argument message) = message"
| "what (Runtime_error message) = message"
| "what (Logic_error message) = message"
| "what (Protocol_error code message) = message"
| "what Undefined_behaviour = []"

text \<open>Sequencing of computations that may throw.\<close>

fun and_then :: "'a result \<Rightarrow> ('a \<Rightarrow> 'b result) \<Rightarrow> 'b result" where
  "and_then (Inl e) f = Inl e"
| "and_then (Inr x) f = f x"

definition require :: "bool \<Rightarrow> cxx_exception \<Rightarrow> unit result" where
  "require holds e = (if holds then Inr () else Inl e)"

section \<open>Named collections\<close>

named_theorems wire_simps \<open>byte-order reads and writes, and the codecs built from them\<close>
named_theorems inv_simps \<open>definitions of the component invariants\<close>

section \<open>Results\<close>

lemma and_then_Inr_iff: "and_then r f = Inr y \<longleftrightarrow> (\<exists>x. r = Inr x \<and> f x = Inr y)"
  by (cases r) auto

lemma and_then_Inl_iff: "and_then r f = Inl e \<longleftrightarrow> r = Inl e \<or> (\<exists>x. r = Inr x \<and> f x = Inl e)"
  by (cases r) auto

lemma require_Inr_iff [simp]: "require holds e = Inr u \<longleftrightarrow> holds"
  by (simp add: require_def)

lemma require_True [simp]: "require True e = Inr ()"
  by (simp add: require_def)

lemma require_False [simp]: "require False e = Inl e"
  by (simp add: require_def)

lemma require_Inl_iff: "require holds e = Inl e' \<longleftrightarrow> \<not> holds \<and> e' = e"
  by (auto simp: require_def)

section \<open>Bits and bytes\<close>

lemma bit_255_iff: "bit (255 :: 'a::len word) n \<longleftrightarrow> n < 8 \<and> n < LENGTH('a)"
proof -
  have "(255 :: 'a word) = mask 8" by (simp add: mask_eq_exp_minus_1)
  then show ?thesis by (simp only: bit_simps) auto
qed

lemma bit_low_byte: "bit (ucast (x AND (255 :: 'a::len word)) :: u8) n \<longleftrightarrow> n < 8 \<and> bit x n"
  using bit_255_iff [where 'a='a]
  by (auto simp: bit_simps dest: bit_imp_le_length)

text \<open>The mask \<^verbatim>\<open>& 0xFFU\<close> before a cast to \<^verbatim>\<open>std::uint8_t\<close> changes nothing.\<close>

lemma ucast_and_255: "(ucast (x AND (255 :: 'a::len word)) :: u8) = ucast x"
  by (rule bit_word_eqI) (simp only: bit_low_byte, simp add: bit_simps)

lemma bit_u8_out [simp]: "8 \<le> n \<Longrightarrow> \<not> bit (b :: u8) n"
  using bit_imp_le_length [of b n] by auto

text \<open>A bit position of a value of at most 64 bits lies in one of its eight bytes.\<close>

lemma byte_split:
  assumes "(n :: nat) < 64"
  obtains r where "r < 8" "n = r" | r where "r < 8" "n = 8 + r"
    | r where "r < 8" "n = 16 + r" | r where "r < 8" "n = 24 + r"
    | r where "r < 8" "n = 32 + r" | r where "r < 8" "n = 40 + r"
    | r where "r < 8" "n = 48 + r" | r where "r < 8" "n = 56 + r"
proof -
  consider "n < 8" | "8 \<le> n" "n < 16" | "16 \<le> n" "n < 24" | "24 \<le> n" "n < 32"
    | "32 \<le> n" "n < 40" | "40 \<le> n" "n < 48" | "48 \<le> n" "n < 56" | "56 \<le> n" "n < 64"
    using assms by linarith
  then show thesis
    by cases (use that(1) [of n] that(2) [of "n - 8"] that(3) [of "n - 16"]
      that(4) [of "n - 24"] that(5) [of "n - 32"] that(6) [of "n - 40"]
      that(7) [of "n - 48"] that(8) [of "n - 56"] in auto)
qed

lemma upt_8: "[0..<8] = [0, 1, 2, 3, 4, 5, 6, 7 :: nat]"
  by (simp add: upt_rec)

lemma upt_4: "[0..<4] = [0, 1, 2, 3 :: nat]"
  by (simp add: upt_rec)

text \<open>Characters of a \<^verbatim>\<open>std::string\<close> are bytes.\<close>

definition byte_of_char :: "char \<Rightarrow> u8" where
  "byte_of_char c = word_of_nat (of_char c)"

definition char_of_byte :: "u8 \<Rightarrow> char" where
  "char_of_byte b = char_of (unat b)"

lemma char_of_byte_of_char [simp]: "char_of_byte (byte_of_char c) = c"
proof -
  have "of_char c < (256 :: nat)" by simp
  then have "unat (word_of_nat (of_char c) :: u8) = of_char c"
    by (simp add: unat_of_nat)
  then show ?thesis by (simp add: byte_of_char_def char_of_byte_def)
qed

lemma byte_of_char_of_byte [simp]: "byte_of_char (char_of_byte b) = b"
proof -
  have "unat b < 256" using unsigned_less [where 'a=nat, of b] by simp
  then show ?thesis by (simp add: byte_of_char_def char_of_byte_def)
qed

lemma map_char_byte [simp]: "map char_of_byte (map byte_of_char s) = s"
  by (simp add: comp_def)

lemma map_byte_char [simp]: "map byte_of_char (map char_of_byte bs) = bs"
  by (simp add: comp_def)

section \<open>Standard containers\<close>

text \<open>
  \<^verbatim>\<open>std::unordered_map\<close> and \<^verbatim>\<open>std::map\<close> as association lists with distinct keys: \<open>map_of\<close>
  is \<^verbatim>\<open>find\<close>, \<^verbatim>\<open>emplace\<close> inserts only a key that is absent, \<^verbatim>\<open>erase\<close> is
  \<open>AList.delete\<close>, and \<^verbatim>\<open>size\<close> is the length. No operation of the code depends on the
  iteration order.
\<close>

definition map_emplace :: "'k \<Rightarrow> 'v \<Rightarrow> ('k \<times> 'v) list \<Rightarrow> ('k \<times> 'v) list" where
  "map_emplace k v m = (case map_of m k of None \<Rightarrow> (k, v) # m | Some _ \<Rightarrow> m)"

definition map_erase :: "'k \<Rightarrow> ('k \<times> 'v) list \<Rightarrow> ('k \<times> 'v) list" where
  "map_erase k m = AList.delete k m"

definition distinct_keys :: "('k \<times> 'v) list \<Rightarrow> bool" where
  "distinct_keys m \<longleftrightarrow> distinct (map fst m)"

lemma distinct_keys_Nil [simp]: "distinct_keys []"
  by (simp add: distinct_keys_def)

lemma map_of_emplace:
  "map_of (map_emplace k v m) = (if map_of m k = None then (map_of m)(k \<mapsto> v) else map_of m)"
  by (auto simp: map_emplace_def split: option.splits)

lemma distinct_keys_emplace [simp]: "distinct_keys m \<Longrightarrow> distinct_keys (map_emplace k v m)"
  by (auto simp: map_emplace_def distinct_keys_def map_of_eq_None_iff split: option.splits)

lemma map_of_erase [simp]: "map_of (map_erase k m) = (map_of m)(k := None)"
  by (simp add: map_erase_def delete_conv')

lemma distinct_keys_erase [simp]: "distinct_keys m \<Longrightarrow> distinct_keys (map_erase k m)"
  by (simp add: map_erase_def distinct_keys_def distinct_delete)

lemma distinct_keys_update [simp]: "distinct_keys m \<Longrightarrow> distinct_keys (AList.update k v m)"
  by (simp add: distinct_keys_def distinct_update)

lemma distinct_keys_filter [simp]: "distinct_keys m \<Longrightarrow> distinct_keys (filter P m)"
  by (simp add: distinct_keys_def distinct_map_filter)

lemma length_emplace:
  "length (map_emplace k v m) = (if map_of m k = None then Suc (length m) else length m)"
  by (auto simp: map_emplace_def split: option.splits)

lemma map_of_filter_distinct:
  assumes "distinct_keys m"
  shows "map_of (filter P m) k = (case map_of m k of None \<Rightarrow> None
           | Some v \<Rightarrow> if P (k, v) then Some v else None)"
  using assms
  by (induction m) (auto simp: distinct_keys_def map_of_eq_None_iff dom_map_of_conv_image_fst
      split: option.splits if_splits)

lemma card_distinct_keys: "distinct_keys m \<Longrightarrow> card (dom (map_of m)) = length m"
  by (metis distinct_card distinct_keys_def dom_map_of_conv_image_fst length_map list.set_map)

section \<open>Decimal numbers\<close>

text \<open>\<^verbatim>\<open>std::to_string\<close> of an unsigned value.\<close>

fun to_string :: "nat \<Rightarrow> string" where
  "to_string n =
     (if n < 10 then [char_of (48 + n)] else to_string (n div 10) @ [char_of (48 + n mod 10)])"

declare to_string.simps [simp del]

definition is_digit :: "char \<Rightarrow> bool" where
  "is_digit c \<longleftrightarrow> 48 \<le> (of_char c :: nat) \<and> (of_char c :: nat) \<le> 57"

definition digit_value :: "char \<Rightarrow> nat" where
  "digit_value c = of_char c - 48"

definition decimal_value :: "string \<Rightarrow> nat" where
  "decimal_value ds = foldl (\<lambda>v c. 10 * v + digit_value c) 0 ds"

text \<open>
  \<^verbatim>\<open>std::from_chars(first, last, value, 10)\<close> into an unsigned type of \<open>w\<close> bits: the longest
  prefix of digits is read (no sign, no white space); without a digit the error is
  \<^verbatim>\<open>invalid_argument\<close>, a value that does not fit gives \<^verbatim>\<open>result_out_of_range\<close>; the
  rest of the text is what \<^verbatim>\<open>result.ptr\<close> points at.
\<close>

datatype from_chars_result =
    Fc_invalid_argument
  | Fc_out_of_range string
  | Fc_ok nat string

definition from_chars :: "nat \<Rightarrow> string \<Rightarrow> from_chars_result" where
  "from_chars w s =
     (let ds = takeWhile is_digit s; rest = dropWhile is_digit s
      in if ds = [] then Fc_invalid_argument
         else if decimal_value ds < 2 ^ w then Fc_ok (decimal_value ds) rest
         else Fc_out_of_range rest)"

lemma is_digit_char_of: "(d :: nat) < 10 \<Longrightarrow> is_digit (char_of (48 + d))"
  by (simp add: is_digit_def)

lemma digit_value_char_of: "(d :: nat) < 10 \<Longrightarrow> digit_value (char_of (48 + d)) = d"
  by (simp add: digit_value_def)

lemma to_string_nonempty [simp]: "to_string n \<noteq> []"
  by (subst to_string.simps) simp

lemma to_string_digits: "c \<in> set (to_string n) \<Longrightarrow> is_digit c"
proof (induction n rule: to_string.induct)
  case (1 n)
  show ?case
  proof (cases "n < 10")
    case True
    with "1.prems" show ?thesis
      by (subst (asm) to_string.simps) (simp add: is_digit_char_of)
  next
    case False
    with "1" show ?thesis
      by (subst (asm) (2) to_string.simps) (auto simp: is_digit_char_of)
  qed
qed

lemma decimal_value_snoc:
  "decimal_value (ds @ [c]) = 10 * decimal_value ds + digit_value c"
  by (simp add: decimal_value_def)

lemma decimal_value_to_string [simp]: "decimal_value (to_string n) = n"
proof (induction n rule: to_string.induct)
  case (1 n)
  show ?case
  proof (cases "n < 10")
    case True
    then show ?thesis
      by (subst to_string.simps) (simp add: decimal_value_def digit_value_char_of)
  next
    case False
    with "1" show ?thesis
      by (subst to_string.simps) (simp add: decimal_value_snoc digit_value_char_of)
  qed
qed

lemma length_to_string: "n < 10 ^ k \<Longrightarrow> 0 < k \<Longrightarrow> length (to_string n) \<le> k"
proof (induction k arbitrary: n)
  case (Suc k)
  show ?case
  proof (cases "n < 10")
    case True
    then show ?thesis by (subst to_string.simps) simp
  next
    case False
    with Suc.prems have "0 < k" by (cases k) auto
    moreover have "n div 10 < 10 ^ k" using Suc.prems by (simp add: less_mult_imp_div_less mult.commute)
    ultimately show ?thesis using Suc.IH False by (subst to_string.simps) simp
  qed
qed simp

text \<open>A printed number is read back whole.\<close>

lemma from_chars_to_string:
  assumes "n < 2 ^ w" and "rest = [] \<or> \<not> is_digit (hd rest)"
  shows "from_chars w (to_string n @ rest) = Fc_ok n rest"
proof -
  have all: "\<forall>c \<in> set (to_string n). is_digit c" by (simp add: to_string_digits)
  have stop: "takeWhile is_digit rest = []" "dropWhile is_digit rest = rest"
    using assms(2) by (cases rest; simp)+
  from all have "takeWhile is_digit (to_string n @ rest) = to_string n"
    by (simp add: takeWhile_append2 stop)
  moreover from all have "dropWhile is_digit (to_string n @ rest) = rest"
    by (simp add: dropWhile_append2 stop)
  ultimately show ?thesis using assms(1) by (simp add: from_chars_def)
qed

section \<open>Interfaces\<close>

text \<open>
  A codec: an encoder that may refuse a message and a decoder that may refuse a byte string,
  each the inverse of the other where it succeeds. \<open>wf\<close> is what the C++ type of the message
  guarantees by itself (the length of a \<^verbatim>\<open>std::array\<close>).
\<close>

locale codec =
  fixes enc :: "'m \<Rightarrow> bytes result"
    and dec :: "bytes \<Rightarrow> 'm result"
    and wf :: "'m \<Rightarrow> bool"
  assumes dec_enc: "wf m \<Longrightarrow> enc m = Inr bs \<Longrightarrow> dec bs = Inr m"
    and enc_dec: "dec bs = Inr m \<Longrightarrow> enc m = Inr bs"
    and dec_wf: "dec bs = Inr m \<Longrightarrow> wf m"
begin

lemma enc_inj: "wf m \<Longrightarrow> wf m' \<Longrightarrow> enc m = Inr bs \<Longrightarrow> enc m' = Inr bs \<Longrightarrow> m = m'"
  using dec_enc [of m bs] dec_enc [of m' bs] by simp

lemma dec_inj: "dec bs = Inr m \<Longrightarrow> dec bs' = Inr m \<Longrightarrow> bs = bs'"
  using enc_dec [of bs m] enc_dec [of bs' m] by simp

lemma dec_iff_enc: "dec bs = Inr m \<longleftrightarrow> wf m \<and> enc m = Inr bs"
  using dec_enc enc_dec dec_wf by blast

end

text \<open>
  An event machine: a state, one function per event, and an invariant that every event keeps.
\<close>

locale event_machine =
  fixes step :: "'e \<Rightarrow> 's \<Rightarrow> 's"
    and invar :: "'s \<Rightarrow> bool"
  assumes step_invar: "invar s \<Longrightarrow> invar (step e s)"
begin

lemma run_invar: "invar s \<Longrightarrow> invar (fold step es s)"
  by (induction es arbitrary: s) (simp_all add: step_invar)

lemma run_prefix_invar: "invar s \<Longrightarrow> invar (fold step (take n es) s)"
  by (rule run_invar)

end

text \<open>What the events of a run contribute, in order.\<close>

fun trace :: "('e \<Rightarrow> 's \<Rightarrow> 's) \<Rightarrow> ('e \<Rightarrow> 's \<Rightarrow> 'b list) \<Rightarrow> 'e list \<Rightarrow> 's \<Rightarrow> 'b list" where
  "trace step f [] s = []"
| "trace step f (e # es) s = f e s @ trace step f es (step e s)"

lemma trace_append: "trace step f (es @ fs) s = trace step f es s @ trace step f fs (fold step es s)"
  by (induction es arbitrary: s) simp_all

end
