(* ===== verification/Wire.thy ===== *)
theory Wire
  imports Prelude
begin

unbundle bit_operations_syntax

text \<open>
  The tunnel frame format of \<^verbatim>\<open>src/protocol/protocol.cpp\<close>: the big-endian byte-order
  functions, \<^verbatim>\<open>encode_frame\<close> and the incremental \<^verbatim>\<open>FrameDecoder\<close>. The decoder's loop is
  related to a stream parser that reads one frame after the other; from it come the round
  trip, the canonicity of accepted byte strings and the independence of how the transport
  splits the stream.
\<close>

section \<open>Byte order\<close>

definition append_u16 :: "bytes \<Rightarrow> u16 \<Rightarrow> bytes" where
  "append_u16 output value =
     output @ [ucast (drop_bit 8 value AND 0xFF), ucast (value AND 0xFF)]"

definition append_u32 :: "bytes \<Rightarrow> u32 \<Rightarrow> bytes" where
  "append_u32 output value =
     output @ [ucast (drop_bit 24 value AND 0xFF), ucast (drop_bit 16 value AND 0xFF),
               ucast (drop_bit 8 value AND 0xFF), ucast (value AND 0xFF)]"

definition append_u64 :: "bytes \<Rightarrow> u64 \<Rightarrow> bytes" where
  "append_u64 output value =
     fold (\<lambda>shift out. out @ [ucast (drop_bit shift value AND 0xFF)])
       [56, 48, 40, 32, 24, 16, 8, 0] output"

definition read_u16 :: "bytes \<Rightarrow> u16" where
  "read_u16 data = (push_bit 8 (ucast (data ! 0)) OR ucast (data ! 1))"

definition read_u32 :: "bytes \<Rightarrow> u32" where
  "read_u32 data =
     (push_bit 24 (ucast (data ! 0)) OR push_bit 16 (ucast (data ! 1)) OR
      push_bit 8 (ucast (data ! 2)) OR ucast (data ! 3))"

definition read_u64 :: "bytes \<Rightarrow> u64" where
  "read_u64 data =
     fold (\<lambda>index value. push_bit 8 value OR ucast (data ! index)) [0..<8] 0"

section \<open>Frames\<close>

definition kMagic :: u32 where
  "kMagic = 0x5056504E"

definition kVersion :: u8 where
  "kVersion = 2"

definition kHeaderSize :: nat where
  "kHeaderSize = 20"

definition kMaxPayloadSize :: nat where
  "kMaxPayloadSize = 65535"

datatype MessageType =
    ClientHello | IpAssign | DataIpv4 | Ping | Pong | Error | Close | DataIpv6

fun raw_type :: "MessageType \<Rightarrow> u8" where
  "raw_type ClientHello = 1"
| "raw_type IpAssign = 2"
| "raw_type DataIpv4 = 3"
| "raw_type Ping = 4"
| "raw_type Pong = 5"
| "raw_type Error = 6"
| "raw_type Close = 7"
| "raw_type DataIpv6 = 8"

text \<open>\<^verbatim>\<open>static_cast<MessageType>(raw)\<close>, for the raw values \<^verbatim>\<open>is_known_message_type\<close> admits.\<close>

definition type_of_raw :: "u8 \<Rightarrow> MessageType" where
  "type_of_raw raw =
     (if raw = 1 then ClientHello else if raw = 2 then IpAssign else if raw = 3 then DataIpv4
      else if raw = 4 then Ping else if raw = 5 then Pong else if raw = 6 then Error
      else if raw = 7 then Close else DataIpv6)"

definition is_known_message_type :: "u8 \<Rightarrow> bool" where
  "is_known_message_type raw \<longleftrightarrow> raw_type ClientHello \<le> raw \<and> raw \<le> raw_type DataIpv6"

record Frame =
  frame_type :: MessageType
  frame_flags :: u16
  frame_sequence :: u64
  frame_payload :: bytes

definition encode_frame :: "Frame \<Rightarrow> bytes result" where
  "encode_frame frame =
     (if \<not> is_known_message_type (raw_type (frame_type frame)) then
        Inl (Protocol_error UnknownMessageType ''unknown message type'')
      else if frame_flags frame \<noteq> 0 then
        Inl (Protocol_error UnsupportedFlags ''protocol v1 requires zero flags'')
      else if length (frame_payload frame) > kMaxPayloadSize
              \<or> length (frame_payload frame) > 2 ^ 32 - 1 then
        Inl (Protocol_error PayloadTooLarge ''frame payload exceeds the protocol limit'')
      else
        (let encoded = append_u32 [] kMagic;
             encoded = encoded @ [kVersion];
             encoded = encoded @ [raw_type (frame_type frame)];
             encoded = append_u16 encoded (frame_flags frame);
             encoded = append_u32 encoded (word_of_nat (length (frame_payload frame)));
             encoded = append_u64 encoded (frame_sequence frame)
         in Inr (encoded @ frame_payload frame)))"

section \<open>The incremental decoder\<close>

record FrameDecoder =
  dec_buffer :: bytes
  dec_offset :: nat
  dec_failed :: bool

definition new_FrameDecoder :: FrameDecoder where
  "new_FrameDecoder = \<lparr>dec_buffer = [], dec_offset = 0, dec_failed = False\<rparr>"

text \<open>
  The \<^verbatim>\<open>while\<close> loop of \<^verbatim>\<open>FrameDecoder::push\<close>. It leaves with the offset it has reached,
  either because the buffer holds no further complete frame or because \<^verbatim>\<open>fail\<close> throws.
\<close>

datatype loop_exit =
    Loop_break nat "Frame list"
  | Loop_fail nat ProtocolErrorCode string

function decode_loop :: "bytes \<Rightarrow> nat \<Rightarrow> Frame list \<Rightarrow> loop_exit" where
  "decode_loop buffer offset frames =
     (if kHeaderSize \<le> length buffer - offset then
        (let header = drop offset buffer;
             flags = read_u16 (drop 6 header);
             payload_size = unat (read_u32 (drop 8 header))
         in if read_u32 header \<noteq> kMagic then
              Loop_fail offset InvalidMagic ''invalid tunnel frame magic''
            else if header ! 4 \<noteq> kVersion then
              Loop_fail offset UnsupportedVersion ''unsupported tunnel protocol version''
            else if \<not> is_known_message_type (header ! 5) then
              Loop_fail offset UnknownMessageType ''unknown tunnel message type''
            else if flags \<noteq> 0 then
              Loop_fail offset UnsupportedFlags ''unsupported tunnel frame flags''
            else if payload_size > kMaxPayloadSize then
              Loop_fail offset PayloadTooLarge ''declared payload exceeds the protocol limit''
            else if length buffer - offset < kHeaderSize + payload_size then
              Loop_break offset frames
            else
              decode_loop buffer (offset + (kHeaderSize + payload_size))
                (frames @ [\<lparr>frame_type = type_of_raw (header ! 5), frame_flags = flags,
                            frame_sequence = read_u64 (drop 12 header),
                            frame_payload = take payload_size (drop (offset + kHeaderSize) buffer)\<rparr>]))
      else Loop_break offset frames)"
  by pat_completeness auto
termination
  by (relation "measure (\<lambda>(buffer, offset, frames). length buffer - offset)")
    (auto simp: kHeaderSize_def)

declare decode_loop.simps [simp del]

text \<open>
  \<^verbatim>\<open>FrameDecoder::push(data, size)\<close>; \<open>None\<close> is a null pointer. The decoder after the call is
  returned beside the result, because a throwing call changes it too.
\<close>

definition push_raw :: "FrameDecoder \<Rightarrow> bytes option \<Rightarrow> nat \<Rightarrow> Frame list result \<times> FrameDecoder" where
  "push_raw d data sz =
     (if dec_failed d then
        (Inl (Protocol_error DecoderFailed ''decoder is in a failed state; reset it before reuse''), d)
      else if sz > 0 \<and> data = None then
        (Inl (Invalid_argument ''data must not be null when size is non-zero''), d)
      else
        (let buffer = (if dec_offset d > 0 then drop (dec_offset d) (dec_buffer d) else dec_buffer d);
             buffer = (if sz > 0 then buffer @ take sz (the data) else buffer)
         in case decode_loop buffer 0 [] of
              Loop_fail offset code message \<Rightarrow>
                (Inl (Protocol_error code message),
                 \<lparr>dec_buffer = buffer, dec_offset = offset, dec_failed = True\<rparr>)
            | Loop_break offset frames \<Rightarrow>
                (Inr frames,
                 if offset = length buffer
                 then \<lparr>dec_buffer = [], dec_offset = 0, dec_failed = False\<rparr>
                 else \<lparr>dec_buffer = buffer, dec_offset = offset, dec_failed = False\<rparr>)))"

definition push :: "FrameDecoder \<Rightarrow> bytes \<Rightarrow> Frame list result \<times> FrameDecoder" where
  "push d data = push_raw d (Some data) (length data)"

definition buffered_bytes :: "FrameDecoder \<Rightarrow> nat" where
  "buffered_bytes d = length (dec_buffer d) - dec_offset d"

definition reset :: "FrameDecoder \<Rightarrow> FrameDecoder" where
  "reset d = d\<lparr>dec_buffer := [], dec_offset := 0, dec_failed := False\<rparr>"

section \<open>Byte-order lemmas\<close>

lemma append_u16_eq: "append_u16 output value = output @ append_u16 [] value"
  by (simp add: append_u16_def)

lemma append_u32_eq: "append_u32 output value = output @ append_u32 [] value"
  by (simp add: append_u32_def)

lemma append_u64_eq: "append_u64 output value = output @ append_u64 [] value"
  by (simp add: append_u64_def)

lemma length_append_u16 [simp]: "length (append_u16 output v) = length output + 2"
  by (simp add: append_u16_def)

lemma length_append_u32 [simp]: "length (append_u32 output v) = length output + 4"
  by (simp add: append_u32_def)

lemma length_append_u64 [simp]: "length (append_u64 output v) = length output + 8"
  by (simp add: append_u64_def)

lemma read_append_u16 [simp]: "read_u16 (append_u16 [] v @ rest) = v"
  unfolding read_u16_def append_u16_def ucast_and_255
  apply (rule bit_word_eqI)
  subgoal for n by (rule byte_split [of n]) (auto simp: bit_simps)
  done

lemma read_append_u32 [simp]: "read_u32 (append_u32 [] v @ rest) = v"
  unfolding read_u32_def append_u32_def ucast_and_255
  apply (rule bit_word_eqI)
  subgoal for n by (rule byte_split [of n]) (auto simp: bit_simps)
  done

lemma read_append_u64 [simp]: "read_u64 (append_u64 [] v @ rest) = v"
  unfolding read_u64_def append_u64_def upt_8 ucast_and_255
  apply (rule bit_word_eqI)
  subgoal for n by (rule byte_split [of n]) (auto simp: bit_simps)
  done

lemma append_read_u16: "append_u16 [] (read_u16 (a # b # rest)) = [a, b]"
  unfolding read_u16_def append_u16_def ucast_and_255
  by (auto intro!: bit_word_eqI simp: bit_simps)

lemma append_read_u32: "append_u32 [] (read_u32 (a # b # c # d # rest)) = [a, b, c, d]"
  unfolding read_u32_def append_u32_def ucast_and_255
  by (auto intro!: bit_word_eqI simp: bit_simps)

lemma append_read_u64:
  "append_u64 [] (read_u64 (a # b # c # d # e # f # g # h # rest)) = [a, b, c, d, e, f, g, h]"
  unfolding read_u64_def append_u64_def upt_8 ucast_and_255
  by (auto intro!: bit_word_eqI simp: bit_simps)

lemmas byte_order = append_u16_eq append_u32_eq append_u64_eq

lemma raw_type_of_raw: "is_known_message_type b \<Longrightarrow> raw_type (type_of_raw b) = b"
proof -
  assume "is_known_message_type b"
  then have "unat b \<in> {1, 2, 3, 4, 5, 6, 7, 8}"
    by (auto simp: is_known_message_type_def word_le_nat_alt)
  then obtain n where "b = word_of_nat n" "n \<in> {1, 2, 3, 4, 5, 6, 7, 8}"
    using that [of "unat b"] by simp
  then show ?thesis by (auto simp: type_of_raw_def)
qed

lemma type_of_raw_type [simp]: "type_of_raw (raw_type t) = t"
  by (cases t) (simp_all add: type_of_raw_def)

lemma is_known_raw_type [simp]: "is_known_message_type (raw_type t)"
  by (cases t) (simp_all add: is_known_message_type_def)

section \<open>The stream parser\<close>

text \<open>
  The reference the decoder is compared with: one frame is parsed off the front of a byte
  string, and a stream is parsed by doing so until no complete frame is left.
\<close>

datatype frame_parse =
    Need_more
  | Malformed ProtocolErrorCode string
  | Parsed Frame bytes

definition parse_frame :: "bytes \<Rightarrow> frame_parse" where
  "parse_frame bs =
     (if length bs < kHeaderSize then Need_more
      else if read_u32 bs \<noteq> kMagic then Malformed InvalidMagic ''invalid tunnel frame magic''
      else if bs ! 4 \<noteq> kVersion then
        Malformed UnsupportedVersion ''unsupported tunnel protocol version''
      else if \<not> is_known_message_type (bs ! 5) then
        Malformed UnknownMessageType ''unknown tunnel message type''
      else if read_u16 (drop 6 bs) \<noteq> 0 then
        Malformed UnsupportedFlags ''unsupported tunnel frame flags''
      else if unat (read_u32 (drop 8 bs)) > kMaxPayloadSize then
        Malformed PayloadTooLarge ''declared payload exceeds the protocol limit''
      else if length bs < kHeaderSize + unat (read_u32 (drop 8 bs)) then Need_more
      else Parsed
        \<lparr>frame_type = type_of_raw (bs ! 5), frame_flags = 0,
         frame_sequence = read_u64 (drop 12 bs),
         frame_payload = take (unat (read_u32 (drop 8 bs))) (drop kHeaderSize bs)\<rparr>
        (drop (kHeaderSize + unat (read_u32 (drop 8 bs))) bs))"

lemma parse_frame_Parsed_length:
  "parse_frame bs = Parsed f rest \<Longrightarrow>
     rest = drop (kHeaderSize + length (frame_payload f)) bs
     \<and> kHeaderSize + length (frame_payload f) \<le> length bs"
  by (auto simp: parse_frame_def split: if_splits)

function parse_stream :: "bytes \<Rightarrow> Frame list \<times> bytes \<times> (ProtocolErrorCode \<times> string) option" where
  "parse_stream bs =
     (case parse_frame bs of
        Need_more \<Rightarrow> ([], bs, None)
      | Malformed code message \<Rightarrow> ([], bs, Some (code, message))
      | Parsed f rest \<Rightarrow>
          (case parse_stream rest of (fs, pending, err) \<Rightarrow> (f # fs, pending, err)))"
  by pat_completeness auto
termination
proof (relation "measure length")
  fix bs f rest
  assume "parse_frame bs = Parsed f rest"
  from parse_frame_Parsed_length [OF this] show "(rest, bs) \<in> measure length"
    by (auto simp: kHeaderSize_def)
qed simp

declare parse_stream.simps [simp del]

lemma decode_loop_parse:
  "decode_loop buffer offset frames =
     (case parse_frame (drop offset buffer) of
        Need_more \<Rightarrow> Loop_break offset frames
      | Malformed code message \<Rightarrow> Loop_fail offset code message
      | Parsed f rest \<Rightarrow>
          decode_loop buffer (offset + (kHeaderSize + length (frame_payload f))) (frames @ [f]))"
  by (subst decode_loop.simps) (auto simp: parse_frame_def Let_def add.commute)

text \<open>The decoder's loop computes the parse of the stream from its offset on.\<close>

lemma decode_loop_refines:
  assumes "offset \<le> length buffer"
  shows "decode_loop buffer offset frames =
     (case parse_stream (drop offset buffer) of (fs, pending, err) \<Rightarrow>
        (case err of
           None \<Rightarrow> Loop_break (length buffer - length pending) (frames @ fs)
         | Some (code, message) \<Rightarrow> Loop_fail (length buffer - length pending) code message))"
  using assms
proof (induction "length buffer - offset" arbitrary: offset frames rule: less_induct)
  case less
  show ?case
  proof (cases "parse_frame (drop offset buffer)")
    case Need_more
    with less.prems show ?thesis
      by (subst decode_loop_parse) (simp add: parse_stream.simps [of "drop offset buffer"])
  next
    case (Malformed code message)
    with less.prems show ?thesis
      by (subst decode_loop_parse) (simp add: parse_stream.simps [of "drop offset buffer"])
  next
    case (Parsed f rest)
    let ?next = "offset + (kHeaderSize + length (frame_payload f))"
    from parse_frame_Parsed_length [OF Parsed]
    have rest: "rest = drop ?next buffer" and bound: "?next \<le> length buffer"
      using less.prems by (auto simp: add.commute)
    have "length buffer - ?next < length buffer - offset"
      using bound by (simp add: kHeaderSize_def)
    from less.hyps [OF this bound, of "frames @ [f]"] show ?thesis
      using Parsed rest
      by (subst decode_loop_parse, subst parse_stream.simps)
        (auto split: prod.splits option.splits)
  qed
qed

lemma read_u16_take: "2 \<le> length xs \<Longrightarrow> read_u16 (xs @ ys) = read_u16 xs"
  by (auto simp: read_u16_def nth_append)

lemma read_u32_take: "4 \<le> length xs \<Longrightarrow> read_u32 (xs @ ys) = read_u32 xs"
  by (auto simp: read_u32_def nth_append)

lemma read_u64_take: "8 \<le> length xs \<Longrightarrow> read_u64 (xs @ ys) = read_u64 xs"
  by (auto simp: read_u64_def upt_8 nth_append)

lemmas read_take = read_u16_take read_u32_take read_u64_take

text \<open>Bytes that arrive later do not change what was parsed before.\<close>

lemma parse_frame_append:
  "parse_frame (xs @ ys) =
     (case parse_frame xs of
        Need_more \<Rightarrow> parse_frame (xs @ ys)
      | Malformed code message \<Rightarrow> Malformed code message
      | Parsed f rest \<Rightarrow> Parsed f (rest @ ys))"
proof (cases "length xs < kHeaderSize")
  case True
  then show ?thesis by (simp add: parse_frame_def [of xs])
next
  case False
  then have long: "20 \<le> length xs" by (simp add: kHeaderSize_def)
  then have eqs: "read_u32 (xs @ ys) = read_u32 xs" "(xs @ ys) ! 4 = xs ! 4" "(xs @ ys) ! 5 = xs ! 5"
    "read_u16 (drop 6 (xs @ ys)) = read_u16 (drop 6 xs)"
    "read_u32 (drop 8 (xs @ ys)) = read_u32 (drop 8 xs)"
    "read_u64 (drop 12 (xs @ ys)) = read_u64 (drop 12 xs)"
    by (simp_all add: nth_append read_take)
  show ?thesis
    unfolding parse_frame_def eqs using False by auto
qed

lemma parse_stream_append:
  "parse_stream (xs @ ys) =
     (case parse_stream xs of (fs, pending, err) \<Rightarrow>
        (case err of
           Some e \<Rightarrow> (fs, pending @ ys, Some e)
         | None \<Rightarrow> (case parse_stream (pending @ ys) of (gs, pending', err') \<Rightarrow>
             (fs @ gs, pending', err'))))"
proof (induction xs rule: parse_stream.induct)
  case (1 xs)
  show ?case
  proof (cases "parse_frame xs")
    case Need_more
    then show ?thesis by (simp add: parse_stream.simps [of xs] split: prod.splits)
  next
    case (Malformed code message)
    then show ?thesis
      using parse_frame_append [of xs ys]
      by (simp add: parse_stream.simps [of xs] parse_stream.simps [of "xs @ ys"])
  next
    case (Parsed f rest)
    then show ?thesis
      using "1.IH" [OF Parsed] parse_frame_append [of xs ys]
      by (simp add: parse_stream.simps [of xs] parse_stream.simps [of "xs @ ys"]
          split: prod.splits option.splits)
  qed
qed

lemma parse_stream_idem:
  "parse_stream bs = (fs, pending, err) \<Longrightarrow>
     parse_stream pending = ([], pending, err)"
proof (induction bs arbitrary: fs rule: parse_stream.induct)
  case (1 bs)
  show ?case
  proof (cases "parse_frame bs")
    case (Parsed f rest)
    with "1" show ?thesis
      by (subst (asm) (2) parse_stream.simps) (auto split: prod.splits)
  qed (use "1.prems" in \<open>auto simp: parse_stream.simps\<close>)
qed

section \<open>Encoding and parsing one frame\<close>

definition frame_header :: "Frame \<Rightarrow> bytes" where
  "frame_header f =
     append_u32 [] kMagic @ [kVersion] @ [raw_type (frame_type f)] @ append_u16 [] (frame_flags f)
     @ append_u32 [] (word_of_nat (length (frame_payload f))) @ append_u64 [] (frame_sequence f)"

lemma length_frame_header [simp]: "length (frame_header f) = kHeaderSize"
  by (simp add: frame_header_def kHeaderSize_def)

lemma encode_frame_Inr_iff:
  "encode_frame f = Inr bs \<longleftrightarrow>
     frame_flags f = 0 \<and> length (frame_payload f) \<le> kMaxPayloadSize
     \<and> bs = frame_header f @ frame_payload f"
proof -
  have "length (frame_payload f) > 2 ^ 32 - 1 \<Longrightarrow> length (frame_payload f) > kMaxPayloadSize"
    by (simp add: kMaxPayloadSize_def)
  then show ?thesis
    unfolding encode_frame_def Let_def frame_header_def
    by (subst append_u16_eq, subst append_u64_eq, subst (2) append_u32_eq) auto
qed

text \<open>An encoded frame is parsed back, whatever follows it.\<close>

lemma parse_encode_frame:
  assumes "encode_frame f = Inr bs"
  shows "parse_frame (bs @ rest) = Parsed f rest"
proof -
  from assms have flags: "frame_flags f = 0"
    and len: "length (frame_payload f) \<le> kMaxPayloadSize"
    and bs: "bs = frame_header f @ frame_payload f"
    by (auto simp: encode_frame_Inr_iff)
  let ?n = "word_of_nat (length (frame_payload f)) :: u32"
  have n: "unat ?n = length (frame_payload f)"
    using len by (simp add: unat_of_nat kMaxPayloadSize_def)
  have d4: "(bs @ rest) ! 4 = kVersion" and d5: "(bs @ rest) ! 5 = raw_type (frame_type f)"
    by (simp_all add: bs frame_header_def append_u32_def nth_append)
  have d6: "drop 6 (bs @ rest) =
      append_u16 [] (frame_flags f) @ append_u32 [] ?n @ append_u64 [] (frame_sequence f)
      @ frame_payload f @ rest"
    by (simp add: bs frame_header_def)
  have d8: "drop 8 (bs @ rest) =
      append_u32 [] ?n @ append_u64 [] (frame_sequence f) @ frame_payload f @ rest"
    by (simp add: bs frame_header_def)
  have d12: "drop 12 (bs @ rest) = append_u64 [] (frame_sequence f) @ frame_payload f @ rest"
    by (simp add: bs frame_header_def)
  have d20: "drop kHeaderSize (bs @ rest) = frame_payload f @ rest"
    by (simp add: bs)
  have d0: "read_u32 (bs @ rest) = kMagic"
    by (simp add: bs frame_header_def)
  have lb: "length (bs @ rest) = kHeaderSize + length (frame_payload f) + length rest"
    by (simp add: bs)
  have dall: "drop (kHeaderSize + length (frame_payload f)) (bs @ rest) = rest"
    by (simp add: bs)
  show ?thesis
    using flags len
    by (simp add: parse_frame_def d0 d4 d5 d6 d8 d12 d20 lb n dall del: drop_append length_append)
qed

lemma list_at_least_4:
  "4 \<le> length xs \<Longrightarrow> \<exists>a b c d rest. xs = a # b # c # d # rest"
  by (auto simp: numeral_eq_Suc Suc_le_length_iff)

lemma list_at_least_2: "2 \<le> length xs \<Longrightarrow> \<exists>a b rest. xs = a # b # rest"
  by (auto simp: numeral_eq_Suc Suc_le_length_iff)

lemma list_at_least_8:
  "8 \<le> length xs \<Longrightarrow> \<exists>a b c d e f g h rest. xs = a # b # c # d # e # f # g # h # rest"
  by (auto simp: numeral_eq_Suc Suc_le_length_iff)

lemma append_read_u16_take: "2 \<le> length xs \<Longrightarrow> append_u16 [] (read_u16 xs) = take 2 xs"
  using list_at_least_2 [of xs] by (auto simp: append_read_u16)

lemma append_read_u32_take: "4 \<le> length xs \<Longrightarrow> append_u32 [] (read_u32 xs) = take 4 xs"
  using list_at_least_4 [of xs] by (auto simp: append_read_u32)

lemma append_read_u64_take: "8 \<le> length xs \<Longrightarrow> append_u64 [] (read_u64 xs) = take 8 xs"
  using list_at_least_8 [of xs] by (auto simp: append_read_u64)

text \<open>What the parser accepts is exactly an encoded frame followed by the rest.\<close>

lemma parse_frame_canonical:
  assumes "parse_frame bs = Parsed f rest"
  shows "\<exists>enc. encode_frame f = Inr enc \<and> bs = enc @ rest"
proof -
  let ?n = "unat (read_u32 (drop 8 bs))"
  from assms have len: "kHeaderSize + ?n \<le> length bs" and magic: "read_u32 bs = kMagic"
    and ver: "bs ! 4 = kVersion" and known: "is_known_message_type (bs ! 5)"
    and flags: "read_u16 (drop 6 bs) = 0" and max: "?n \<le> kMaxPayloadSize"
    and f: "f = \<lparr>frame_type = type_of_raw (bs ! 5), frame_flags = 0,
         frame_sequence = read_u64 (drop 12 bs), frame_payload = take ?n (drop kHeaderSize bs)\<rparr>"
    and rest: "rest = drop (kHeaderSize + ?n) bs"
    by (auto simp: parse_frame_def split: if_splits)
  have l20: "20 \<le> length bs" using len by (simp add: kHeaderSize_def)
  have plen: "length (take ?n (drop kHeaderSize bs)) = ?n" using len by simp
  have "frame_header f = take 4 bs @ [bs ! 4] @ [bs ! 5] @ take 2 (drop 6 bs) @ take 4 (drop 8 bs)
      @ take 8 (drop 12 bs)"
    using l20 known plen
    by (simp add: frame_header_def f raw_type_of_raw ver magic [symmetric] flags [symmetric]
        append_read_u16_take append_read_u32_take append_read_u64_take)
  also have "\<dots> = take 20 bs"
  proof -
    have "take 20 bs = take 4 bs @ take 16 (drop 4 bs)"
      using take_add [of 4 16 bs] by simp
    moreover have "take 16 (drop 4 bs) = (bs ! 4) # (bs ! 5) # take 14 (drop 6 bs)"
      using l20 by (simp add: Cons_nth_drop_Suc [symmetric] numeral_eq_Suc)
    moreover have "take 14 (drop 6 bs) = take 2 (drop 6 bs) @ take 4 (drop 8 bs) @ take 8 (drop 12 bs)"
      using take_add [of 2 12 "drop 6 bs"] take_add [of 4 8 "drop 8 bs"] by simp
    ultimately show ?thesis by simp
  qed
  finally have header: "frame_header f = take 20 bs" .
  have "frame_payload f @ rest = drop 20 bs"
    using append_take_drop_id [of ?n "drop 20 bs"] by (simp add: f rest kHeaderSize_def add.commute)
  then have "frame_header f @ frame_payload f @ rest = bs"
    by (simp add: header)
  moreover have "frame_flags f = 0" "length (frame_payload f) \<le> kMaxPayloadSize"
    using max plen by (simp_all add: f)
  ultimately show ?thesis by (simp add: encode_frame_Inr_iff)
qed

section \<open>The decoder and the stream\<close>

text \<open>
  The bytes a decoder still holds, what its fields satisfy between calls, and the sequence of
  calls the transport makes with the chunks it reads.
\<close>

definition pending :: "FrameDecoder \<Rightarrow> bytes" where
  "pending d = drop (dec_offset d) (dec_buffer d)"

definition decoder_inv :: "FrameDecoder \<Rightarrow> bool" where
  "decoder_inv d \<longleftrightarrow>
     dec_offset d \<le> length (dec_buffer d)
     \<and> (\<not> dec_failed d \<longrightarrow> parse_stream (pending d) = ([], pending d, None))"

fun push_all :: "FrameDecoder \<Rightarrow> bytes list \<Rightarrow> Frame list result \<times> FrameDecoder" where
  "push_all d [] = (Inr [], d)"
| "push_all d (chunk # chunks) =
     (case push d chunk of
        (Inl e, d') \<Rightarrow> (Inl e, d')
      | (Inr frames, d') \<Rightarrow>
          (case push_all d' chunks of
             (Inl e, d'') \<Rightarrow> (Inl e, d'')
           | (Inr later, d'') \<Rightarrow> (Inr (frames @ later), d'')))"

fun encode_all :: "Frame list \<Rightarrow> bytes result" where
  "encode_all [] = Inr []"
| "encode_all (f # fs) = and_then (encode_frame f) (\<lambda>bs. and_then (encode_all fs) (\<lambda>cs. Inr (bs @ cs)))"

lemma pending_new [simp]: "pending new_FrameDecoder = []"
  by (simp add: pending_def new_FrameDecoder_def)

lemma parse_stream_Nil [simp]: "parse_stream [] = ([], [], None)"
  by (subst parse_stream.simps) (simp add: parse_frame_def kHeaderSize_def)

lemma parse_stream_pending_length:
  "parse_stream bs = (fs, rest, err) \<Longrightarrow> length rest \<le> length bs \<and> rest = drop (length bs - length rest) bs"
proof (induction bs arbitrary: fs rule: parse_stream.induct)
  case (1 bs)
  show ?case
  proof (cases "parse_frame bs")
    case (Parsed f bs')
    with "1.prems" obtain gs where "parse_stream bs' = (gs, rest, err)"
      by (subst (asm) parse_stream.simps) (auto split: prod.splits)
    from "1.IH" [OF Parsed this] parse_frame_Parsed_length [OF Parsed]
    show ?thesis by (auto simp: drop_drop)
  qed (use "1.prems" in \<open>auto simp: parse_stream.simps\<close>)
qed

lemma pending_make [simp]:
  "pending \<lparr>dec_buffer = b, dec_offset = n, dec_failed = failed\<rparr> = drop n b"
  by (simp add: pending_def)

lemma push_eq:
  assumes "\<not> dec_failed d"
  shows "push d data =
    (case decode_loop (pending d @ data) 0 [] of
       Loop_fail offset code message \<Rightarrow>
         (Inl (Protocol_error code message),
          \<lparr>dec_buffer = pending d @ data, dec_offset = offset, dec_failed = True\<rparr>)
     | Loop_break offset frames \<Rightarrow>
         (Inr frames,
          if offset = length (pending d @ data)
          then \<lparr>dec_buffer = [], dec_offset = 0, dec_failed = False\<rparr>
          else \<lparr>dec_buffer = pending d @ data, dec_offset = offset, dec_failed = False\<rparr>))"
proof -
  have buf: "(if dec_offset d > 0 then drop (dec_offset d) (dec_buffer d) else dec_buffer d) = pending d"
    by (simp add: pending_def)
  have ins: "(if 0 < length data then pending d @ take (length data) (the (Some data)) else pending d)
      = pending d @ data"
    by simp
  from assms show ?thesis by (simp only: push_def push_raw_def buf ins Let_def) simp
qed

text \<open>\<open>push\<close> in terms of the stream parser.\<close>

lemma push_refines:
  assumes "\<not> dec_failed d" and "decoder_inv d"
    and "parse_stream (pending d @ data) = (fs, rest, err)"
  shows "case err of
      None \<Rightarrow> fst (push d data) = Inr fs \<and> pending (snd (push d data)) = rest
        \<and> \<not> dec_failed (snd (push d data)) \<and> decoder_inv (snd (push d data))
    | Some (code, message) \<Rightarrow> fst (push d data) = Inl (Protocol_error code message)
        \<and> pending (snd (push d data)) = rest \<and> dec_failed (snd (push d data))
        \<and> decoder_inv (snd (push d data))"
proof -
  let ?buffer = "pending d @ data"
  have loop: "decode_loop ?buffer 0 [] =
      (case err of None \<Rightarrow> Loop_break (length ?buffer - length rest) fs
       | Some (code, message) \<Rightarrow> Loop_fail (length ?buffer - length rest) code message)"
    using decode_loop_refines [of 0 ?buffer "[]"] assms(3) by (simp split: option.splits)
  from parse_stream_pending_length [OF assms(3)]
  have rest: "length rest \<le> length ?buffer" "drop (length ?buffer - length rest) ?buffer = rest"
    by simp_all
  have idem: "parse_stream rest = ([], rest, err)"
    using parse_stream_idem [OF assms(3)] .
  show ?thesis
    using rest idem
    by (cases err)
      (auto simp: push_eq [OF assms(1)] loop decoder_inv_def simp del: drop_append length_append)
qed

lemma push_Inr:
  assumes "\<not> dec_failed d" "decoder_inv d" "push d data = (Inr fs, d')"
  shows "parse_stream (pending d @ data) = (fs, pending d', None)"
    and "\<not> dec_failed d'" and "decoder_inv d'"
proof -
  obtain gs rest err where p: "parse_stream (pending d @ data) = (gs, rest, err)"
    by (metis prod_cases3)
  from push_refines [OF assms(1,2) p] assms(3)
  show "parse_stream (pending d @ data) = (fs, pending d', None)"
    "\<not> dec_failed d'" "decoder_inv d'"
    using p by (auto split: option.splits)
qed

lemma decoder_inv_new [simp]: "decoder_inv new_FrameDecoder" "\<not> dec_failed new_FrameDecoder"
  by (simp_all add: decoder_inv_def) (simp_all add: new_FrameDecoder_def pending_def)

lemma decoder_inv_push: "decoder_inv d \<Longrightarrow> decoder_inv (snd (push d data))"
proof (cases "dec_failed d")
  case True
  assume "decoder_inv d"
  with True show ?thesis by (simp add: push_def push_raw_def)
next
  case False
  assume inv: "decoder_inv d"
  obtain gs rest err where p: "parse_stream (pending d @ data) = (gs, rest, err)"
    by (metis prod_cases3)
  from push_refines [OF False inv p] show ?thesis by (auto split: option.splits)
qed

lemma parse_stream_encoded:
  "encode_all fs = Inr bs \<Longrightarrow> parse_stream (bs @ rest) =
     (case parse_stream rest of (gs, pend, err) \<Rightarrow> (fs @ gs, pend, err))"
proof (induction fs arbitrary: bs)
  case Nil
  then show ?case by (simp split: prod.splits)
next
  case (Cons f fs)
  then obtain b c where b: "encode_frame f = Inr b" and c: "encode_all fs = Inr c" and bs: "bs = b @ c"
    by (auto simp: and_then_Inr_iff)
  from Cons.IH [OF c] parse_encode_frame [OF b, of "c @ rest"] show ?case
    by (subst parse_stream.simps) (simp add: bs split: prod.splits)
qed

lemma parse_stream_sound:
  "parse_stream bs = (fs, rest, err) \<Longrightarrow> \<exists>enc. encode_all fs = Inr enc \<and> bs = enc @ rest"
proof (induction bs arbitrary: fs rule: parse_stream.induct)
  case (1 bs)
  show ?case
  proof (cases "parse_frame bs")
    case (Parsed f bs')
    with "1.prems" obtain gs where gs: "parse_stream bs' = (gs, rest, err)" "fs = f # gs"
      by (subst (asm) parse_stream.simps) (auto split: prod.splits)
    with "1.IH" [OF Parsed] obtain enc where "encode_all gs = Inr enc" "bs' = enc @ rest" by blast
    with parse_frame_canonical [OF Parsed] gs(2) show ?thesis by (auto simp: and_then_Inr_iff)
  qed (use "1.prems" in \<open>auto simp: parse_stream.simps\<close>)
qed

lemma push_all_refines:
  assumes "\<not> dec_failed d" "decoder_inv d"
    and "parse_stream (pending d @ concat chunks) = (fs, rest, None)"
  shows "fst (push_all d chunks) = Inr fs \<and> pending (snd (push_all d chunks)) = rest
    \<and> \<not> dec_failed (snd (push_all d chunks)) \<and> decoder_inv (snd (push_all d chunks))"
  using assms
proof (induction chunks arbitrary: d fs)
  case Nil
  then show ?case by (simp add: decoder_inv_def)
next
  case (Cons chunk chunks)
  obtain gs mid err where p: "parse_stream (pending d @ chunk) = (gs, mid, err)"
    by (metis prod_cases3)
  with Cons.prems(3) parse_stream_append [of "pending d @ chunk" "concat chunks"]
  have err: "err = None" by (auto split: option.splits prod.splits)
  obtain hs where hs: "parse_stream (mid @ concat chunks) = (hs, rest, None)" "fs = gs @ hs"
    using Cons.prems(3) parse_stream_append [of "pending d @ chunk" "concat chunks"] p err
    by (auto split: prod.splits)
  obtain d' where d': "push d chunk = (Inr gs, d')" "pending d' = mid" "\<not> dec_failed d'" "decoder_inv d'"
    using push_refines [OF Cons.prems(1,2) p] err by (cases "push d chunk") auto
  from Cons.IH [OF d'(3,4)] hs(1) d'(2)
  have "fst (push_all d' chunks) = Inr hs \<and> pending (snd (push_all d' chunks)) = rest
    \<and> \<not> dec_failed (snd (push_all d' chunks)) \<and> decoder_inv (snd (push_all d' chunks))"
    by blast
  then show ?case
    by (cases "push_all d' chunks") (auto simp: d'(1) hs(2))
qed

lemma parse_frame_Need_more_bound:
  "parse_frame bs = Need_more \<Longrightarrow> length bs < kHeaderSize + kMaxPayloadSize"
  by (auto simp: parse_frame_def kHeaderSize_def kMaxPayloadSize_def split: if_splits)

lemma parse_stream_stuck_bound:
  "parse_stream bs = ([], bs, None) \<Longrightarrow> length bs < kHeaderSize + kMaxPayloadSize"
  by (subst (asm) parse_stream.simps)
    (auto intro: parse_frame_Need_more_bound split: frame_parse.splits prod.splits)

lemma push_all_refines_error:
  assumes "\<not> dec_failed d" "decoder_inv d"
    and "parse_stream (pending d @ concat chunks) = (fs, rest, Some (code, message))"
  shows "fst (push_all d chunks) = Inl (Protocol_error code message)"
  using assms
proof (induction chunks arbitrary: d fs)
  case Nil
  then show ?case by (simp add: decoder_inv_def)
next
  case (Cons chunk chunks)
  obtain gs mid err where p: "parse_stream (pending d @ chunk) = (gs, mid, err)"
    by (metis prod_cases3)
  note whole = Cons.prems(3) parse_stream_append [of "pending d @ chunk" "concat chunks"] p
  show ?case
  proof (cases err)
    case None
    obtain hs where hs: "parse_stream (mid @ concat chunks) = (hs, rest, Some (code, message))"
      using whole None by (auto split: prod.splits)
    obtain d' where d': "push d chunk = (Inr gs, d')" "pending d' = mid" "\<not> dec_failed d'" "decoder_inv d'"
      using push_refines [OF Cons.prems(1,2) p] None by (cases "push d chunk") auto
    from Cons.IH [OF d'(3,4)] hs d'(2)
    have "fst (push_all d' chunks) = Inl (Protocol_error code message)" by blast
    then show ?thesis by (cases "push_all d' chunks") (auto simp: d'(1))
  next
    case (Some e)
    with whole have "e = (code, message)" by auto
    with push_refines [OF Cons.prems(1,2) p] Some show ?thesis
      by (cases "push d chunk") auto
  qed
qed

lemma push_result:
  assumes "\<not> dec_failed d" "decoder_inv d"
  shows "fst (push d data) =
    (case parse_stream (pending d @ data) of
       (fs, rest, None) \<Rightarrow> Inr fs
     | (fs, rest, Some (code, message)) \<Rightarrow> Inl (Protocol_error code message))"
proof -
  obtain fs rest err where p: "parse_stream (pending d @ data) = (fs, rest, err)"
    by (metis prod_cases3)
  from push_refines [OF assms p] p show ?thesis by (auto split: option.splits prod.splits)
qed

text \<open>The calls a user of the decoder can make, as an event machine.\<close>

datatype decoder_call = Call_push bytes | Call_reset

fun decoder_step :: "decoder_call \<Rightarrow> FrameDecoder \<Rightarrow> FrameDecoder" where
  "decoder_step (Call_push data) d = snd (push d data)"
| "decoder_step Call_reset d = reset d"

lemma reset_new [simp]: "reset d = new_FrameDecoder"
  by (simp add: reset_def new_FrameDecoder_def)

interpretation decoder_machine: event_machine decoder_step decoder_inv
proof
  fix d e
  assume "decoder_inv d"
  then show "decoder_inv (decoder_step e d)"
    by (cases e) (simp_all add: decoder_inv_push)
qed

section \<open>Properties of the frame layer\<close>

text \<open>
  C1: frames that are encoded one after the other and cut by the transport into any chunks
  come out of a fresh decoder as the same frames in the same order, and leave nothing behind.
\<close>

theorem decode_encoded_stream:
  assumes "encode_all fs = Inr stream" and "concat chunks = stream"
  shows "fst (push_all new_FrameDecoder chunks) = Inr fs
    \<and> pending (snd (push_all new_FrameDecoder chunks)) = []"
  using push_all_refines [of new_FrameDecoder chunks fs "[]"]
    parse_stream_encoded [OF assms(1), of "[]"] assms(2)
  by simp

theorem decode_encoded_stream_witness:
  "fst (push_all new_FrameDecoder
     [[0x50, 0x56, 0x50], [0x4E, 2, 4, 0, 0, 0, 0, 0, 1, 0, 0, 0, 0, 0, 0],
      [0, 9, 7]]) =
   Inr [\<lparr>frame_type = Ping, frame_flags = 0, frame_sequence = 9, frame_payload = [7]\<rparr>]"
proof -
  let ?f = "\<lparr>frame_type = Ping, frame_flags = 0, frame_sequence = 9, frame_payload = [7]\<rparr> :: Frame"
  have enc: "encode_all [?f] = Inr ([0x50, 0x56, 0x50, 0x4E, 2, 4, 0, 0, 0, 0, 0, 1, 0, 0, 0, 0, 0, 0, 0, 9, 7])"
    by (simp add: encode_frame_def is_known_message_type_def kMaxPayloadSize_def kMagic_def
        kVersion_def append_u16_def append_u32_def append_u64_def Let_def)
  show ?thesis
    using decode_encoded_stream [OF enc, of "[[0x50, 0x56, 0x50],
      [0x4E, 2, 4, 0, 0, 0, 0, 0, 1, 0, 0, 0, 0, 0, 0], [0, 9, 7]]"] by simp
qed

text \<open>
  After any calls of \<open>push\<close> and \<open>reset\<close>, a decoder that has not failed answers the
  same, frames and errors alike, whether the following bytes arrive in one piece or in many.
\<close>

theorem push_segmentation_independent:
  assumes "d = fold decoder_step calls new_FrameDecoder" and "\<not> dec_failed d"
  shows "fst (push_all d chunks) = fst (push d (concat chunks))"
proof -
  have inv: "decoder_inv d"
    unfolding assms(1) by (rule decoder_machine.run_invar) simp
  obtain fs rest err where p: "parse_stream (pending d @ concat chunks) = (fs, rest, err)"
    by (metis prod_cases3)
  show ?thesis
  proof (cases err)
    case None
    with push_all_refines [OF assms(2) inv] push_result [OF assms(2) inv] p show ?thesis by simp
  next
    case (Some e)
    with push_all_refines_error [OF assms(2) inv] push_result [OF assms(2) inv] p show ?thesis
      by (cases e) simp
  qed
qed

theorem push_segmentation_independent_witness:
  "fst (push_all (fold decoder_step [Call_push [0x50]] new_FrameDecoder) [[0x56], [0x50, 0x4E]]) =
   fst (push (fold decoder_step [Call_push [0x50]] new_FrameDecoder) [0x56, 0x50, 0x4E])"
proof -
  have "\<not> dec_failed (fold decoder_step [Call_push [0x50]] new_FrameDecoder)"
    by (simp add: push_def push_raw_def new_FrameDecoder_def decode_loop.simps kHeaderSize_def)
  from push_segmentation_independent [OF refl this, of "[[0x56], [0x50, 0x4E]]"]
  show ?thesis by simp
qed

text \<open>
  What a successful \<open>push\<close> returns is exactly what stands in the stream: the bytes held
  before and the new bytes are the encodings of the returned frames followed by the bytes the
  decoder keeps, and what it keeps is less than one frame of the largest size.
\<close>

theorem push_sound:
  assumes "decoder_inv d" and "push d data = (Inr fs, d')"
  shows "\<exists>enc. encode_all fs = Inr enc \<and> pending d @ data = enc @ pending d'
    \<and> buffered_bytes d' < kHeaderSize + kMaxPayloadSize"
proof -
  have alive: "\<not> dec_failed d"
    using assms(2) by (auto simp: push_def push_raw_def split: if_splits)
  note p = push_Inr [OF alive assms(1,2)]
  from p(2,3) have "length (pending d') < kHeaderSize + kMaxPayloadSize"
    by (auto simp: decoder_inv_def intro: parse_stream_stuck_bound)
  moreover have "buffered_bytes d' = length (pending d')"
    by (simp add: buffered_bytes_def pending_def)
  ultimately show ?thesis using parse_stream_sound [OF p(1)] by auto
qed

theorem push_sound_witness:
  "\<exists>enc. encode_all [] = Inr enc \<and> pending new_FrameDecoder @ [0x50] =
     enc @ pending (snd (push new_FrameDecoder [0x50]))
    \<and> buffered_bytes (snd (push new_FrameDecoder [0x50])) < kHeaderSize + kMaxPayloadSize"
proof -
  have "push new_FrameDecoder [0x50] = (Inr [], snd (push new_FrameDecoder [0x50]))"
    by (simp add: push_def push_raw_def new_FrameDecoder_def decode_loop.simps kHeaderSize_def)
  from push_sound [OF decoder_inv_new(1) this] show ?thesis .
qed

text \<open>
  A decoder that has rejected its input stays rejected: every later \<open>push\<close> throws
  \<open>DecoderFailed\<close> and changes nothing, until \<open>reset\<close> makes it a fresh decoder.
\<close>

theorem push_failure_sticky:
  assumes "push d data = (Inl e, d')"
  shows "push d' later =
      (Inl (Protocol_error DecoderFailed ''decoder is in a failed state; reset it before reuse''), d')
    \<and> reset d' = new_FrameDecoder"
proof -
  have "dec_failed d'"
    using assms
    by (auto simp: push_def push_raw_def Let_def split: if_splits loop_exit.splits)
  then show ?thesis by (simp add: push_def push_raw_def)
qed

theorem push_failure_sticky_witness:
  "push (snd (push new_FrameDecoder [0, 0, 0, 0, 0, 0, 0, 0, 0, 0, 0, 0, 0, 0, 0, 0, 0, 0, 0, 0])) [1] =
      (Inl (Protocol_error DecoderFailed ''decoder is in a failed state; reset it before reuse''),
       snd (push new_FrameDecoder [0, 0, 0, 0, 0, 0, 0, 0, 0, 0, 0, 0, 0, 0, 0, 0, 0, 0, 0, 0]))"
proof -
  have "push new_FrameDecoder [0, 0, 0, 0, 0, 0, 0, 0, 0, 0, 0, 0, 0, 0, 0, 0, 0, 0, 0, 0] =
      (Inl (Protocol_error InvalidMagic ''invalid tunnel frame magic''),
       snd (push new_FrameDecoder [0, 0, 0, 0, 0, 0, 0, 0, 0, 0, 0, 0, 0, 0, 0, 0, 0, 0, 0, 0]))"
    by (simp add: push_def push_raw_def new_FrameDecoder_def decode_loop.simps kHeaderSize_def
        read_u32_def kMagic_def Let_def)
  from push_failure_sticky [OF this, of "[1]"] show ?thesis by simp
qed

text \<open>
  The abstract decoder: it holds the bytes that are not yet frames and whether it has failed, and
  answers by parsing the whole stream.
\<close>

definition decoder_abs :: "FrameDecoder \<Rightarrow> bytes \<times> bool" where
  "decoder_abs d = (pending d, dec_failed d)"

fun spec_push :: "bytes \<Rightarrow> bytes \<times> bool \<Rightarrow> Frame list result \<times> (bytes \<times> bool)" where
  "spec_push data (kept, failed) =
     (if failed then
        (Inl (Protocol_error DecoderFailed ''decoder is in a failed state; reset it before reuse''), (kept, True))
      else
        (case parse_stream (kept @ data) of
           (fs, rest, None) \<Rightarrow> (Inr fs, (rest, False))
         | (fs, rest, Some (code, message)) \<Rightarrow> (Inl (Protocol_error code message), (rest, True))))"

lemma push_simulates:
  assumes "decoder_inv d"
  shows "(fst (push d data), decoder_abs (snd (push d data))) = spec_push data (decoder_abs d)"
proof (cases "dec_failed d")
  case True
  then show ?thesis by (simp add: push_def push_raw_def decoder_abs_def)
next
  case False
  obtain fs rest err where p: "parse_stream (pending d @ data) = (fs, rest, err)"
    by (metis prod_cases3)
  from push_refines [OF False assms p] p False show ?thesis
    by (auto simp: decoder_abs_def split: option.splits)
qed

text \<open>
  C2: the decoder refines the abstract decoder. From every state that calls of \<open>push\<close> and \<open>reset\<close>
  can reach, a \<open>push\<close> answers what the parse of the held bytes followed by the new ones is, frames
  or the first error, and goes to the state that stands for the bytes left over; once it has failed
  it answers only \<open>DecoderFailed\<close> until \<open>reset\<close>, which empties it.
\<close>

theorem decoder_refines_parser:
  assumes "d = fold decoder_step calls new_FrameDecoder"
  shows "(fst (push d data), decoder_abs (snd (push d data))) = spec_push data (decoder_abs d)
    \<and> decoder_abs (reset d) = ([], False)"
proof -
  have "decoder_inv d" unfolding assms by (rule decoder_machine.run_invar) simp
  from push_simulates [OF this] show ?thesis by (simp add: decoder_abs_def pending_def new_FrameDecoder_def)
qed

theorem decoder_refines_parser_witness:
  "(fst (push (fold decoder_step [Call_push [0x50]] new_FrameDecoder) [0x56]),
    decoder_abs (snd (push (fold decoder_step [Call_push [0x50]] new_FrameDecoder) [0x56]))) =
   spec_push [0x56] (decoder_abs (fold decoder_step [Call_push [0x50]] new_FrameDecoder))"
  using decoder_refines_parser [OF refl, of "[Call_push [0x50]]" "[0x56]"] by simp

end
