(* ===== verification/Outbound_Queue.thy ===== *)
theory Outbound_Queue
  imports Wire "HOL-Library.Sublist"
begin

text \<open>
  The bounded queue of encoded frames of \<^verbatim>\<open>src/core/outbound_frame_queue.cpp\<close>, and the
  interface of a first-in-first-out channel that it and the write queue of the TUN device
  implement. A \<^verbatim>\<open>shared_ptr<const Buffer>\<close> is the byte string it points at.
\<close>

section \<open>First-in-first-out channels\<close>

text \<open>
  \<open>accepted\<close> is what an event appends to the channel, \<open>removed\<close> what it takes out of it to
  hand it on. An event may discard items (\<open>subseq\<close>); one that is \<open>lossless\<close> does not.
\<close>

locale fifo_channel = event_machine step invar
  for step :: "'e \<Rightarrow> 's \<Rightarrow> 's" and invar :: "'s \<Rightarrow> bool" +
  fixes items :: "'s \<Rightarrow> 'b list"
    and accepted :: "'e \<Rightarrow> 's \<Rightarrow> 'b list"
    and removed :: "'e \<Rightarrow> 's \<Rightarrow> 'b list"
    and lossless :: "'e \<Rightarrow> 's \<Rightarrow> bool"
  assumes fifo_step:
      "invar s \<Longrightarrow> subseq (removed e s @ items (step e s)) (items s @ accepted e s)"
    and fifo_step_lossless:
      "invar s \<Longrightarrow> lossless e s \<Longrightarrow> removed e s @ items (step e s) = items s @ accepted e s"
begin

lemma fifo_run:
  "invar s \<Longrightarrow>
     subseq (trace step removed es s @ items (fold step es s)) (items s @ trace step accepted es s)"
proof (induction es arbitrary: s)
  case (Cons e es)
  let ?s = "step e s"
  have "subseq (removed e s @ trace step removed es ?s @ items (fold step es ?s))
          (removed e s @ items ?s @ trace step accepted es ?s)"
    using Cons by (simp add: step_invar subseq_append')
  moreover have "subseq ((removed e s @ items ?s) @ trace step accepted es ?s)
          ((items s @ accepted e s) @ trace step accepted es ?s)"
    using fifo_step [OF Cons.prems] by (simp only: subseq_append)
  ultimately show ?case by (simp add: subseq_order.order_trans)
qed simp

lemma fifo_run_lossless:
  "invar s \<Longrightarrow> (\<And>n. n < length es \<Longrightarrow> lossless (es ! n) (fold step (take n es) s)) \<Longrightarrow>
     trace step removed es s @ items (fold step es s) = items s @ trace step accepted es s"
proof (induction es arbitrary: s)
  case (Cons e es)
  from Cons.prems(2) [of 0] have "removed e s @ items (step e s) = items s @ accepted e s"
    using Cons.prems(1) by (simp add: fifo_step_lossless)
  moreover have "trace step removed es (step e s) @ items (fold step es (step e s))
      = items (step e s) @ trace step accepted es (step e s)"
  proof (rule Cons.IH)
    show "invar (step e s)" using Cons.prems(1) by (rule step_invar)
    show "lossless (es ! n) (fold step (take n es) (step e s))" if "n < length es" for n
      using Cons.prems(2) [of "Suc n"] that by simp
  qed
  ultimately show ?case by (metis (no_types, lifting) append_assoc fold_simps(2) trace.simps(2))
qed simp

end

section \<open>The outbound frame queue\<close>

record OutboundFrameQueue =
  maximum_frames :: nat
  maximum_bytes :: nat
  queued_bytes :: nat
  frame_queue :: "bytes list"

definition new_OutboundFrameQueue :: "nat \<Rightarrow> nat \<Rightarrow> OutboundFrameQueue result" where
  "new_OutboundFrameQueue max_frames max_bytes =
     (if max_frames = 0 \<or> max_bytes < kHeaderSize then
        Inl (Invalid_argument ''outbound queue limits must allow at least one frame header'')
      else Inr \<lparr>maximum_frames = max_frames, maximum_bytes = max_bytes, queued_bytes = 0,
                frame_queue = []\<rparr>)"

definition try_enqueue_encoded :: "OutboundFrameQueue \<Rightarrow> bytes \<Rightarrow> bool result \<times> OutboundFrameQueue" where
  "try_enqueue_encoded q encoded_frame =
     (if encoded_frame = [] then
        (Inl (Invalid_argument ''outbound queue cannot contain an empty encoded frame''), q)
      else if length (frame_queue q) \<ge> maximum_frames q
              \<or> length encoded_frame > maximum_bytes q - queued_bytes q then
        (Inr False, q)
      else
        (Inr True, q\<lparr>queued_bytes := queued_bytes q + length encoded_frame,
                     frame_queue := frame_queue q @ [encoded_frame]\<rparr>))"

definition try_enqueue :: "OutboundFrameQueue \<Rightarrow> Frame \<Rightarrow> bool result \<times> OutboundFrameQueue" where
  "try_enqueue q frame =
     (case encode_frame frame of
        Inl e \<Rightarrow> (Inl e, q)
      | Inr encoded \<Rightarrow> try_enqueue_encoded q encoded)"

definition queue_front :: "OutboundFrameQueue \<Rightarrow> bytes result" where
  "queue_front q =
     (case frame_queue q of
        [] \<Rightarrow> Inl (Logic_error ''outbound queue is empty'')
      | b # _ \<Rightarrow> Inr b)"

definition pop_front :: "OutboundFrameQueue \<Rightarrow> unit result \<times> OutboundFrameQueue" where
  "pop_front q =
     (case frame_queue q of
        [] \<Rightarrow> (Inl (Logic_error ''outbound queue is empty''), q)
      | b # rest \<Rightarrow>
          (Inr (), q\<lparr>queued_bytes := queued_bytes q - length b, frame_queue := rest\<rparr>))"

definition queue_clear :: "OutboundFrameQueue \<Rightarrow> OutboundFrameQueue" where
  "queue_clear q = q\<lparr>frame_queue := [], queued_bytes := 0\<rparr>"

definition queue_empty :: "OutboundFrameQueue \<Rightarrow> bool" where
  "queue_empty q \<longleftrightarrow> frame_queue q = []"

definition queue_size :: "OutboundFrameQueue \<Rightarrow> nat" where
  "queue_size q = length (frame_queue q)"

section \<open>Invariant\<close>

text \<open>
  The byte count is the sum of the lengths, so the subtractions of the code never wrap; both
  limits hold; no buffer is empty.
\<close>

definition queue_inv :: "OutboundFrameQueue \<Rightarrow> bool" where
  "queue_inv q \<longleftrightarrow>
     queued_bytes q = sum_list (map length (frame_queue q))
     \<and> queued_bytes q \<le> maximum_bytes q
     \<and> length (frame_queue q) \<le> maximum_frames q
     \<and> (\<forall>b \<in> set (frame_queue q). b \<noteq> [])"

lemma queue_inv_new: "new_OutboundFrameQueue f b = Inr q \<Longrightarrow> queue_inv q"
  by (auto simp: new_OutboundFrameQueue_def queue_inv_def split: if_splits)

lemma queue_inv_enqueue_encoded: "queue_inv q \<Longrightarrow> queue_inv (snd (try_enqueue_encoded q b))"
  by (auto simp: queue_inv_def try_enqueue_encoded_def)

lemma queue_inv_enqueue: "queue_inv q \<Longrightarrow> queue_inv (snd (try_enqueue q f))"
  by (simp add: try_enqueue_def queue_inv_enqueue_encoded split: sum.splits)

lemma queue_inv_pop: "queue_inv q \<Longrightarrow> queue_inv (snd (pop_front q))"
  by (auto simp: queue_inv_def pop_front_def split: list.splits)

lemma queue_inv_clear [simp]: "queue_inv (queue_clear q)"
  by (simp add: queue_inv_def queue_clear_def)

lemma queue_limits [simp]:
  "maximum_frames (snd (try_enqueue q f)) = maximum_frames q"
  "maximum_bytes (snd (try_enqueue q f)) = maximum_bytes q"
  "maximum_frames (snd (pop_front q)) = maximum_frames q"
  "maximum_bytes (snd (pop_front q)) = maximum_bytes q"
  "maximum_frames (queue_clear q) = maximum_frames q"
  "maximum_bytes (queue_clear q) = maximum_bytes q"
  by (simp_all add: try_enqueue_def try_enqueue_encoded_def pop_front_def queue_clear_def
      split: sum.splits list.splits)

section \<open>The queue as a channel\<close>

datatype queue_event = Q_enqueue Frame | Q_pop | Q_clear

fun queue_step :: "queue_event \<Rightarrow> OutboundFrameQueue \<Rightarrow> OutboundFrameQueue" where
  "queue_step (Q_enqueue f) q = snd (try_enqueue q f)"
| "queue_step Q_pop q = snd (pop_front q)"
| "queue_step Q_clear q = queue_clear q"

fun queue_accepted :: "queue_event \<Rightarrow> OutboundFrameQueue \<Rightarrow> bytes list" where
  "queue_accepted (Q_enqueue f) q =
     (if fst (try_enqueue q f) = Inr True then [projr (encode_frame f)] else [])"
| "queue_accepted _ q = []"

fun queue_removed :: "queue_event \<Rightarrow> OutboundFrameQueue \<Rightarrow> bytes list" where
  "queue_removed Q_pop q = (case queue_front q of Inr b \<Rightarrow> [b] | Inl _ \<Rightarrow> [])"
| "queue_removed _ q = []"

lemma queue_step_inv: "queue_inv q \<Longrightarrow> queue_inv (queue_step e q)"
  by (cases e) (simp_all add: queue_inv_enqueue queue_inv_pop)

lemma queue_fifo_step:
  "e \<noteq> Q_clear \<Longrightarrow>
     queue_removed e q @ frame_queue (queue_step e q) = frame_queue q @ queue_accepted e q"
  by (cases e) (auto simp: try_enqueue_def try_enqueue_encoded_def pop_front_def queue_front_def
      split: sum.splits list.splits)

interpretation outbound: fifo_channel queue_step queue_inv frame_queue queue_accepted queue_removed
  "\<lambda>e _. e \<noteq> Q_clear"
proof
  fix q e
  show "subseq (queue_removed e q @ frame_queue (queue_step e q))
      (frame_queue q @ queue_accepted e q)"
    by (cases "e = Q_clear") (simp_all add: queue_fifo_step queue_clear_def)
qed (simp_all add: queue_step_inv queue_fifo_step)

lemma queue_run_limits [simp]:
  "maximum_frames (fold queue_step es q) = maximum_frames q"
  "maximum_bytes (fold queue_step es q) = maximum_bytes q"
proof (induction es arbitrary: q)
  case (Cons e es)
  { case 1 show ?case using Cons by (cases e) simp_all }
  { case 2 show ?case using Cons by (cases e) simp_all }
qed simp_all

section \<open>Properties\<close>

text \<open>
  C4: whatever is asked of an outbound queue, in any order, it never holds more frames or more
  bytes than its limits and its byte counter is exact (so its unsigned subtractions do not
  wrap); as long as it is not cleared, the frames popped followed by those still queued are
  the frames accepted, in the order they were accepted: none is lost, repeated or reordered.
  A frame is refused only when a limit would be exceeded.
\<close>

theorem outbound_queue_bounded_fifo:
  assumes "new_OutboundFrameQueue max_frames max_bytes = Inr q0"
    and "q = fold queue_step events q0"
  shows "length (frame_queue q) \<le> max_frames
    \<and> sum_list (map length (frame_queue q)) \<le> max_bytes
    \<and> queued_bytes q = sum_list (map length (frame_queue q))
    \<and> (Q_clear \<notin> set events \<longrightarrow>
         trace queue_step queue_removed events q0 @ frame_queue q
           = trace queue_step queue_accepted events q0)
    \<and> (fst (try_enqueue q frame) = Inr False \<longleftrightarrow>
         (\<exists>encoded. encode_frame frame = Inr encoded \<and>
           (length (frame_queue q) = max_frames
            \<or> sum_list (map length (frame_queue q)) + length encoded > max_bytes)))"
proof -
  have q0: "frame_queue q0 = []" "maximum_frames q0 = max_frames" "maximum_bytes q0 = max_bytes"
    using assms(1) by (auto simp: new_OutboundFrameQueue_def split: if_splits)
  then have lim: "maximum_frames q = max_frames" "maximum_bytes q = max_bytes"
    by (simp_all add: assms(2))
  have inv: "queue_inv q0" "queue_inv q"
    using queue_inv_new [OF assms(1)] outbound.run_invar by (simp_all add: assms(2))
  have "Q_clear \<notin> set events \<longrightarrow>
      trace queue_step queue_removed events q0 @ frame_queue q
        = trace queue_step queue_accepted events q0"
    using outbound.fifo_run_lossless [OF inv(1), of events] q0
    by (auto simp: assms(2)) (metis nth_mem)
  moreover have "encode_frame frame \<noteq> Inr []"
    by (auto simp: encode_frame_Inr_iff frame_header_def)
  then have "fst (try_enqueue q frame) = Inr False \<longleftrightarrow>
      (\<exists>encoded. encode_frame frame = Inr encoded \<and>
        (length (frame_queue q) = max_frames
         \<or> sum_list (map length (frame_queue q)) + length encoded > max_bytes))"
    using inv(2) lim
    by (auto simp: try_enqueue_def try_enqueue_encoded_def queue_inv_def split: sum.splits)
  ultimately show ?thesis using inv(2) lim by (simp add: queue_inv_def)
qed

theorem outbound_queue_bounded_fifo_witness:
  "\<exists>q0 events q. new_OutboundFrameQueue 1 64 = Inr q0
     \<and> events = [Q_enqueue \<lparr>frame_type = Close, frame_flags = 0, frame_sequence = 1, frame_payload = [0, 7]\<rparr>,
          Q_enqueue \<lparr>frame_type = Close, frame_flags = 0, frame_sequence = 2, frame_payload = [0, 7]\<rparr>,
          Q_pop]
     \<and> q = fold queue_step events q0 \<and> length (frame_queue q) \<le> 1
     \<and> trace queue_step queue_removed events q0 @ frame_queue q
         = trace queue_step queue_accepted events q0"
proof -
  define q0 where "q0 = \<lparr>maximum_frames = 1, maximum_bytes = 64, queued_bytes = 0, frame_queue = []\<rparr>"
  define events where "events =
    [Q_enqueue \<lparr>frame_type = Close, frame_flags = 0, frame_sequence = 1, frame_payload = [0, 7]\<rparr>,
     Q_enqueue \<lparr>frame_type = Close, frame_flags = 0, frame_sequence = 2, frame_payload = [0, 7]\<rparr>,
     Q_pop]"
  have q0: "new_OutboundFrameQueue 1 64 = Inr q0"
    by (simp add: new_OutboundFrameQueue_def kHeaderSize_def q0_def)
  moreover have "Q_clear \<notin> set events" by (simp add: events_def)
  ultimately show ?thesis
    using outbound_queue_bounded_fifo [OF q0 refl, of events]
    by (intro exI [of _ q0] exI [of _ events] exI [of _ "fold queue_step events q0"])
      (simp only: events_def simp_thms)
qed

end
