(* ===== verification/Ip_Address.thy ===== *)
theory Ip_Address
  imports Wire
begin

unbundle bit_operations_syntax

text \<open>
  The address functions of \<^verbatim>\<open>src/core/lease_manager.cpp\<close>: the textual form of IPv4 addresses
  and the conversion between \<^verbatim>\<open>std::array<std::uint8_t, 4>\<close> and the 32-bit integers the pool
  counts with. The textual form of IPv6 addresses is Boost.Asio's
  (\<^verbatim>\<open>make_address_v6\<close>, \<^verbatim>\<open>address_v6::to_string\<close>) and a parameter of the definitions.
\<close>

section \<open>Text\<close>

text \<open>\<^verbatim>\<open>std::string::find(c, begin)\<close>, relative to \<open>begin\<close>; \<open>None\<close> is \<^verbatim>\<open>npos\<close>.\<close>

definition string_find :: "char \<Rightarrow> string \<Rightarrow> nat option" where
  "string_find c s = (if c \<in> set s then Some (length (takeWhile (\<lambda>x. x \<noteq> c) s)) else None)"

text \<open>
  The loop of \<open>parse_ipv4_address\<close>: \<open>component\<close> counts the components, \<open>text\<close> is the input
  from \<open>begin\<close> on, \<open>address\<close> holds the components read so far.
\<close>

function parse_ipv4_loop :: "nat \<Rightarrow> string \<Rightarrow> bytes \<Rightarrow> bytes result" where
  "parse_ipv4_loop component text address =
     (if component < 4 then
        (let end_pos = string_find (CHR ''.'') text;
             component_end = (case end_pos of None \<Rightarrow> length text | Some k \<Rightarrow> k)
         in if component_end = 0 then
              Inl (Invalid_argument ''IPv4 address contains an empty component'')
            else
              (case from_chars 32 (take component_end text) of
                 Fc_ok value rest \<Rightarrow>
                   if rest \<noteq> [] \<or> value > 255 then
                     Inl (Invalid_argument ''IPv4 address contains an invalid component'')
                   else
                     (let address = address @ [word_of_nat value]
                      in if component < 3 then
                           (case end_pos of
                              None \<Rightarrow> Inl (Invalid_argument ''IPv4 address has too few components'')
                            | Some k \<Rightarrow> parse_ipv4_loop (Suc component) (drop (k + 1) text) address)
                         else
                           (case end_pos of
                              Some _ \<Rightarrow> Inl (Invalid_argument ''IPv4 address has too many components'')
                            | None \<Rightarrow> parse_ipv4_loop (Suc component) text address))
               | _ \<Rightarrow> Inl (Invalid_argument ''IPv4 address contains an invalid component'')))
      else Inr address)"
  by pat_completeness auto

termination
  by (relation "measure (\<lambda>(component, _). 4 - component)") auto

declare parse_ipv4_loop.simps [simp del]

definition parse_ipv4_address :: "string \<Rightarrow> bytes result" where
  "parse_ipv4_address text = parse_ipv4_loop 0 text []"

definition format_ipv4_address :: "bytes \<Rightarrow> string" where
  "format_ipv4_address address =
     to_string (unat (address ! 0)) @ ''.'' @ to_string (unat (address ! 1)) @ ''.''
     @ to_string (unat (address ! 2)) @ ''.'' @ to_string (unat (address ! 3))"

text \<open>
  \<open>make_address_v6\<close> stands for Boost.Asio's function: \<open>None\<close> when it reports an error,
  otherwise the bytes and the scope identifier.
\<close>

definition parse_ipv6_address :: "(string \<Rightarrow> (bytes \<times> u32) option) \<Rightarrow> string \<Rightarrow> bytes result" where
  "parse_ipv6_address make_address_v6 text =
     (case make_address_v6 text of
        None \<Rightarrow> Inl (Invalid_argument ''IPv6 address is invalid or has a scope identifier'')
      | Some (to_bytes, scope_id) \<Rightarrow>
          if scope_id \<noteq> 0
          then Inl (Invalid_argument ''IPv6 address is invalid or has a scope identifier'')
          else Inr to_bytes)"

text \<open>\<open>address_v6_to_string\<close> stands for \<^verbatim>\<open>address_v6(address).to_string()\<close>.\<close>

definition format_ipv6_address :: "(bytes \<Rightarrow> string) \<Rightarrow> bytes \<Rightarrow> string" where
  "format_ipv6_address address_v6_to_string address = address_v6_to_string address"

section \<open>Integers\<close>

definition to_integer :: "bytes \<Rightarrow> u32" where
  "to_integer address =
     (push_bit 24 (ucast (address ! 0)) OR push_bit 16 (ucast (address ! 1))
      OR push_bit 8 (ucast (address ! 2)) OR ucast (address ! 3))"

definition from_integer :: "u32 \<Rightarrow> bytes" where
  "from_integer address =
     [ucast (drop_bit 24 address AND 0xFF), ucast (drop_bit 16 address AND 0xFF),
      ucast (drop_bit 8 address AND 0xFF), ucast (address AND 0xFF)]"

lemma to_integer_read: "to_integer address = read_u32 address"
  by (simp add: to_integer_def read_u32_def or.assoc)

lemma from_integer_append: "from_integer address = append_u32 [] address"
  by (simp add: from_integer_def append_u32_def)

lemma length_from_integer [simp]: "length (from_integer a) = 4"
  by (simp add: from_integer_append)

lemma to_from_integer [simp]: "to_integer (from_integer a) = a"
  using read_append_u32 [of a "[]"] by (simp add: to_integer_read from_integer_append)

lemma from_to_integer: "length a = 4 \<Longrightarrow> from_integer (to_integer a) = a"
  by (simp add: to_integer_read from_integer_append append_read_u32_take)

lemma to_integer_inject:
  "length a = 4 \<Longrightarrow> length b = 4 \<Longrightarrow> to_integer a = to_integer b \<longleftrightarrow> a = b"
  by (metis from_to_integer)

section \<open>Parsing\<close>

text \<open>A component that is accepted: a non-empty string of digits of value at most 255.\<close>

definition octet_text :: "string \<Rightarrow> bool" where
  "octet_text s \<longleftrightarrow> s \<noteq> [] \<and> list_all is_digit s \<and> decimal_value s \<le> 255"

lemma dot_not_digit [simp]: "\<not> is_digit (CHR ''.'')"
  by (simp add: is_digit_def)

lemma octet_text_no_dot: "octet_text s \<Longrightarrow> CHR ''.'' \<notin> set s"
  by (auto simp: octet_text_def list_all_iff)

lemma octet_text_to_string: "n \<le> 255 \<Longrightarrow> octet_text (to_string n)"
  by (auto simp: octet_text_def list_all_iff to_string_digits)

lemma from_chars_octet:
  "(\<exists>value. from_chars 32 s = Fc_ok value [] \<and> value \<le> 255 \<and> v = value) \<longleftrightarrow>
     octet_text s \<and> v = decimal_value s"
proof (cases "list_all is_digit s")
  case True
  then have eqs: "takeWhile is_digit s = s" "dropWhile is_digit s = []"
    by (simp_all add: takeWhile_eq_all_conv dropWhile_eq_Nil_conv list_all_iff)
  show ?thesis using True by (auto simp: from_chars_def octet_text_def Let_def eqs)
next
  case False
  then have "dropWhile is_digit s \<noteq> []" by (auto simp: dropWhile_eq_Nil_conv list_all_iff)
  with False show ?thesis by (auto simp: from_chars_def octet_text_def Let_def)
qed

lemma from_chars_octet_text:
  "octet_text s \<Longrightarrow> from_chars 32 s = Fc_ok (decimal_value s) []"
  using from_chars_octet [of s "decimal_value s"] by auto

lemma find_dot: "octet_text s \<Longrightarrow> string_find (CHR ''.'') (s @ CHR ''.'' # rest) = Some (length s)"
proof -
  assume "octet_text s"
  then have "\<forall>x \<in> set s. x \<noteq> CHR ''.''" using octet_text_no_dot by blast
  then show ?thesis by (simp add: string_find_def takeWhile_append2)
qed

lemma find_no_dot: "octet_text s \<Longrightarrow> string_find (CHR ''.'') s = None"
  by (simp add: string_find_def octet_text_no_dot)

lemma string_find_Some:
  assumes "string_find c s = Some k"
  shows "s = take k s @ c # drop (k + 1) s"
proof -
  let ?p = "takeWhile (\<lambda>x. x \<noteq> c) s"
  have k: "k = length ?p" and c: "c \<in> set s"
    using assms by (auto simp: string_find_def split: if_splits)
  from c obtain p t where s: "s = p @ c # t" and "c \<notin> set p" by (auto dest: split_list_first)
  then have "?p = p" by (metis (mono_tags, lifting) append_self_conv takeWhile.simps(2) takeWhile_append2)
  then show ?thesis by (subst (1 2 3) s) (simp add: k)
qed

lemma parse_ipv4_step:
  assumes "octet_text s" "c < 3"
  shows "parse_ipv4_loop c (s @ CHR ''.'' # rest) a =
    parse_ipv4_loop (Suc c) rest (a @ [word_of_nat (decimal_value s)])"
  using assms
  by (subst parse_ipv4_loop.simps)
    (simp add: Let_def find_dot from_chars_octet_text, auto simp: octet_text_def)

lemma parse_ipv4_last:
  assumes "octet_text s"
  shows "parse_ipv4_loop 3 s a = Inr (a @ [word_of_nat (decimal_value s)])"
  using assms
  by (subst parse_ipv4_loop.simps)
    (simp add: Let_def find_no_dot from_chars_octet_text, simp add: octet_text_def
      parse_ipv4_loop.simps)

lemma parse_ipv4_stepD:
  assumes "parse_ipv4_loop c text a = Inr addr" "c < 3"
  obtains s rest where "octet_text s" "text = s @ CHR ''.'' # rest"
    "parse_ipv4_loop (Suc c) rest (a @ [word_of_nat (decimal_value s)]) = Inr addr"
proof (cases "string_find (CHR ''.'') text")
  case None
  with assms show thesis
    by (subst (asm) parse_ipv4_loop.simps)
      (auto simp: Let_def split: if_splits from_chars_result.splits)
next
  case (Some k)
  let ?s = "take k text"
  from Some assms obtain v where "from_chars 32 ?s = Fc_ok v []" "v \<le> 255"
    and rec: "parse_ipv4_loop (Suc c) (drop (k + 1) text) (a @ [word_of_nat v]) = Inr addr"
    by (subst (asm) parse_ipv4_loop.simps)
      (auto simp: Let_def split: if_splits from_chars_result.splits)
  then have "octet_text ?s" "v = decimal_value ?s"
    using from_chars_octet [of ?s v] by auto
  with rec string_find_Some [OF Some] show thesis by (auto intro: that)
qed

lemma parse_ipv4_lastD:
  assumes "parse_ipv4_loop 3 text a = Inr addr"
  shows "octet_text text \<and> addr = a @ [word_of_nat (decimal_value text)]"
proof (cases "string_find (CHR ''.'') text")
  case None
  with assms obtain v where "from_chars 32 text = Fc_ok v []" "v \<le> 255"
    and "addr = a @ [word_of_nat v]"
    by (subst (asm) parse_ipv4_loop.simps)
      (auto simp: Let_def parse_ipv4_loop.simps [of 4] split: if_splits from_chars_result.splits)
  then show ?thesis using from_chars_octet [of "text" v] by auto
next
  case (Some k)
  with assms show ?thesis
    by (subst (asm) parse_ipv4_loop.simps)
      (auto simp: Let_def split: if_splits from_chars_result.splits)
qed

lemma parse_ipv4_octets:
  "octet_text a \<Longrightarrow> octet_text b \<Longrightarrow> octet_text c \<Longrightarrow> octet_text d \<Longrightarrow>
     parse_ipv4_address (a @ ''.'' @ b @ ''.'' @ c @ ''.'' @ d) =
       Inr (map (\<lambda>s. word_of_nat (decimal_value s)) [a, b, c, d])"
  using parse_ipv4_step [of a 0] parse_ipv4_step [of b 1] parse_ipv4_step [of c 2] parse_ipv4_last [of d]
  by (simp add: parse_ipv4_address_def numeral_2_eq_2 numeral_3_eq_3)

lemma parse_ipv4_address_Inr_iff:
  "parse_ipv4_address text = Inr address \<longleftrightarrow>
     (\<exists>a b c d. octet_text a \<and> octet_text b \<and> octet_text c \<and> octet_text d
        \<and> text = a @ ''.'' @ b @ ''.'' @ c @ ''.'' @ d
        \<and> address = map (\<lambda>s. word_of_nat (decimal_value s)) [a, b, c, d])"
proof
  assume *: "parse_ipv4_address text = Inr address"
  then have "parse_ipv4_loop 0 text [] = Inr address" by (simp add: parse_ipv4_address_def)
  then obtain a ra where a: "octet_text a" "text = a @ CHR ''.'' # ra"
    "parse_ipv4_loop 1 ra [word_of_nat (decimal_value a)] = Inr address"
    by (rule parse_ipv4_stepD) (auto simp: numeral_eq_Suc)
  from a(3) obtain b rb where b: "octet_text b" "ra = b @ CHR ''.'' # rb"
    "parse_ipv4_loop 2 rb [word_of_nat (decimal_value a), word_of_nat (decimal_value b)] = Inr address"
    by (rule parse_ipv4_stepD) (auto simp: numeral_eq_Suc)
  from b(3) obtain c d where c: "octet_text c" "rb = c @ CHR ''.'' # d"
    "parse_ipv4_loop 3 d [word_of_nat (decimal_value a), word_of_nat (decimal_value b),
       word_of_nat (decimal_value c)] = Inr address"
    by (rule parse_ipv4_stepD) (auto simp: numeral_eq_Suc)
  from parse_ipv4_lastD [OF c(3)] a b c
  show "\<exists>a b c d. octet_text a \<and> octet_text b \<and> octet_text c \<and> octet_text d
        \<and> text = a @ ''.'' @ b @ ''.'' @ c @ ''.'' @ d
        \<and> address = map (\<lambda>s. word_of_nat (decimal_value s)) [a, b, c, d]"
    by (intro exI [of _ a] exI [of _ b] exI [of _ c] exI [of _ d]) simp
qed (use parse_ipv4_octets in blast)

lemma parse_ipv4_length: "parse_ipv4_address text = Inr address \<Longrightarrow> length address = 4"
  by (auto simp: parse_ipv4_address_Inr_iff)

lemma parse_format_ipv4: "parse_ipv4_address (format_ipv4_address [b0, b1, b2, b3]) = Inr [b0, b1, b2, b3]"
proof -
  have "octet_text (to_string (unat b))" for b :: u8
    using octet_text_to_string [of "unat b"] unsigned_less [where 'a=nat, of b] by simp
  then show ?thesis
    by (simp add: format_ipv4_address_def parse_ipv4_octets [simplified] numeral_2_eq_2 numeral_3_eq_3)
qed

section \<open>Properties\<close>

text \<open>
  The IPv4 parser accepts exactly the texts of four components separated by single dots,
  each a non-empty string of decimal digits of value at most 255, and returns their values in
  order; so an address that is printed is read back unchanged.
\<close>

theorem parse_ipv4_address_exact:
  "(parse_ipv4_address text = Inr address \<longleftrightarrow>
     (\<exists>a b c d. octet_text a \<and> octet_text b \<and> octet_text c \<and> octet_text d
        \<and> text = a @ ''.'' @ b @ ''.'' @ c @ ''.'' @ d
        \<and> address = map (\<lambda>s. word_of_nat (decimal_value s)) [a, b, c, d]))
   \<and> parse_ipv4_address (format_ipv4_address [b0, b1, b2, b3]) = Inr [b0, b1, b2, b3]"
  using parse_ipv4_address_Inr_iff parse_format_ipv4 by blast

end
