(* ===== verification/Control_Messages.thy ===== *)
theory Control_Messages
  imports Wire
begin

unbundle bit_operations_syntax

text \<open>
  The control payloads of \<^verbatim>\<open>src/protocol/control_messages.cpp\<close>: CLIENT_HELLO, IP_ASSIGN,
  the liveness probe of PING and PONG, ERROR and CLOSE. Each has an encoder that validates
  and a decoder that validates; each pair is an instance of the codec interface. The file's
  own copies of the byte-order functions are those of \<^verbatim>\<open>protocol.cpp\<close>, word for word, and are
  modelled by the definitions of the theory Wire.
\<close>

section \<open>Messages\<close>

definition kMinimumIpv4Mtu :: u16 where
  "kMinimumIpv4Mtu = 576"

definition kMinimumIpv6Mtu :: u16 where
  "kMinimumIpv6Mtu = 1280"

definition kMaximumTunnelMtu :: u16 where
  "kMaximumTunnelMtu = 9000"

definition kCapabilityIpv4 :: u32 where
  "kCapabilityIpv4 = push_bit 0 1"

definition kCapabilityIpv6 :: u32 where
  "kCapabilityIpv6 = push_bit 1 1"

definition kMaximumErrorMessageSize :: nat where
  "kMaximumErrorMessageSize = 1024"

record ClientHelloMessage =
  requested_mtu :: u16
  capabilities :: u32

record IpAssignment =
  client_address :: bytes
  gateway_address :: bytes
  prefix_length :: u8
  mtu :: u16
  lease_seconds :: u32
  client_ipv6_address :: bytes
  gateway_ipv6_address :: bytes
  ipv6_prefix_length :: u8

record LivenessProbe =
  nonce :: u64

record ErrorMessage =
  error_code :: u16
  error_text :: string

record CloseMessage =
  close_code :: u16

text \<open>The lengths the types \<^verbatim>\<open>std::array<std::uint8_t, N>\<close> of the struct guarantee.\<close>

definition wf_IpAssignment :: "IpAssignment \<Rightarrow> bool" where
  "wf_IpAssignment m \<longleftrightarrow>
     length (client_address m) = 4 \<and> length (gateway_address m) = 4
     \<and> length (client_ipv6_address m) = 16 \<and> length (gateway_ipv6_address m) = 16"

section \<open>Validation\<close>

definition validate_mtu :: "u16 \<Rightarrow> unit result" where
  "validate_mtu value =
     (if value < kMinimumIpv4Mtu \<or> value > kMaximumTunnelMtu
      then Inl (Invalid_argument ''tunnel MTU is outside the supported range'')
      else Inr ())"

definition require_size :: "bytes \<Rightarrow> nat \<Rightarrow> string \<Rightarrow> unit result" where
  "require_size payload expected message_name =
     (if length payload \<noteq> expected
      then Inl (Invalid_argument (message_name @ '' payload has an invalid length''))
      else Inr ())"

definition is_unspecified :: "bytes \<Rightarrow> bool" where
  "is_unspecified address \<longleftrightarrow>
     address ! 0 = 0 \<and> address ! 1 = 0 \<and> address ! 2 = 0 \<and> address ! 3 = 0"

definition validate_ip_assignment :: "IpAssignment \<Rightarrow> unit result" where
  "validate_ip_assignment message =
     (if is_unspecified (client_address message) \<or> is_unspecified (gateway_address message) then
        Inl (Invalid_argument ''IP assignment cannot contain an unspecified address'')
      else if prefix_length message = 0 \<or> prefix_length message > 32 then
        Inl (Invalid_argument ''IPv4 prefix length must be between 1 and 32'')
      else and_then (validate_mtu (mtu message)) (\<lambda>_.
        if lease_seconds message = 0 then
          Inl (Invalid_argument ''IP lease duration must be non-zero'')
        else
          let has_ipv6 = ipv6_prefix_length message \<noteq> 0;
              client_v6_unspecified = list_all (\<lambda>value. value = 0) (client_ipv6_address message);
              gateway_v6_unspecified = list_all (\<lambda>value. value = 0) (gateway_ipv6_address message)
          in if has_ipv6 \<and> (ipv6_prefix_length message > 128 \<or> client_v6_unspecified
                 \<or> gateway_v6_unspecified
                 \<or> client_ipv6_address message = gateway_ipv6_address message
                 \<or> mtu message < kMinimumIpv6Mtu) then
               Inl (Invalid_argument ''IPv6 assignment is invalid'')
             else if \<not> has_ipv6 \<and> (\<not> client_v6_unspecified \<or> \<not> gateway_v6_unspecified) then
               Inl (Invalid_argument ''IPv6 addresses require a non-zero prefix length'')
             else Inr ()))"

section \<open>Encoders and decoders\<close>

definition encode_client_hello :: "ClientHelloMessage \<Rightarrow> bytes result" where
  "encode_client_hello message =
     (if requested_mtu message < kMinimumIpv6Mtu \<or> requested_mtu message > kMaximumTunnelMtu then
        Inl (Invalid_argument ''dual-stack tunnel MTU is outside the supported range'')
      else if (capabilities message AND kCapabilityIpv4) = 0
              \<or> (capabilities message AND kCapabilityIpv6) = 0
              \<or> (capabilities message AND NOT (kCapabilityIpv4 OR kCapabilityIpv6)) \<noteq> 0 then
        Inl (Invalid_argument ''client must advertise supported IPv4 and IPv6 capabilities'')
      else
        (let output = append_u16 [] (requested_mtu message);
             output = append_u16 output 0
         in Inr (append_u32 output (capabilities message))))"

definition decode_client_hello :: "bytes \<Rightarrow> ClientHelloMessage result" where
  "decode_client_hello payload =
     and_then (require_size payload 8 ''CLIENT_HELLO'') (\<lambda>_.
       if read_u16 (drop 2 payload) \<noteq> 0 then
         Inl (Invalid_argument ''CLIENT_HELLO reserved field must be zero'')
       else
         (let message = \<lparr>requested_mtu = read_u16 payload, capabilities = read_u32 (drop 4 payload)\<rparr>
          in and_then (encode_client_hello message) (\<lambda>_. Inr message)))"

definition encode_ip_assignment :: "IpAssignment \<Rightarrow> bytes result" where
  "encode_ip_assignment message =
     and_then (validate_ip_assignment message) (\<lambda>_.
       let output = client_address message;
           output = output @ gateway_address message;
           output = output @ [prefix_length message];
           output = output @ [0];
           output = append_u16 output (mtu message);
           output = append_u32 output (lease_seconds message);
           output = output @ client_ipv6_address message;
           output = output @ gateway_ipv6_address message;
           output = output @ [ipv6_prefix_length message]
       in Inr (output @ [0, 0, 0]))"

definition decode_ip_assignment :: "bytes \<Rightarrow> IpAssignment result" where
  "decode_ip_assignment payload =
     and_then (require_size payload 52 ''IP_ASSIGN'') (\<lambda>_.
       if payload ! 9 \<noteq> 0 then
         Inl (Invalid_argument ''IP_ASSIGN reserved field must be zero'')
       else
         (let message =
            \<lparr>client_address = take 4 payload,
             gateway_address = take 4 (drop 4 payload),
             prefix_length = payload ! 8,
             mtu = read_u16 (drop 10 payload),
             lease_seconds = read_u32 (drop 12 payload),
             client_ipv6_address = take 16 (drop 16 payload),
             gateway_ipv6_address = take 16 (drop 32 payload),
             ipv6_prefix_length = payload ! 48\<rparr>
          in if payload ! 49 \<noteq> 0 \<or> payload ! 50 \<noteq> 0 \<or> payload ! 51 \<noteq> 0 then
               Inl (Invalid_argument ''IP_ASSIGN reserved fields must be zero'')
             else and_then (validate_ip_assignment message) (\<lambda>_. Inr message)))"

definition encode_liveness_probe :: "LivenessProbe \<Rightarrow> bytes" where
  "encode_liveness_probe message = append_u64 [] (nonce message)"

definition decode_liveness_probe :: "bytes \<Rightarrow> LivenessProbe result" where
  "decode_liveness_probe payload =
     and_then (require_size payload 8 ''liveness probe'') (\<lambda>_. Inr \<lparr>nonce = read_u64 payload\<rparr>)"

definition encode_error_message :: "ErrorMessage \<Rightarrow> bytes result" where
  "encode_error_message message =
     (if length (error_text message) > kMaximumErrorMessageSize then
        Inl (Invalid_argument ''ERROR message text exceeds the protocol limit'')
      else Inr (append_u16 [] (error_code message) @ map byte_of_char (error_text message)))"

definition decode_error_message :: "bytes \<Rightarrow> ErrorMessage result" where
  "decode_error_message payload =
     (if length payload < 2 \<or> length payload > 2 + kMaximumErrorMessageSize then
        Inl (Invalid_argument ''ERROR payload has an invalid length'')
      else Inr \<lparr>error_code = read_u16 payload, error_text = map char_of_byte (drop 2 payload)\<rparr>)"

definition encode_close_message :: "CloseMessage \<Rightarrow> bytes" where
  "encode_close_message message = append_u16 [] (close_code message)"

definition decode_close_message :: "bytes \<Rightarrow> CloseMessage result" where
  "decode_close_message payload =
     and_then (require_size payload 2 ''CLOSE'') (\<lambda>_. Inr \<lparr>close_code = read_u16 payload\<rparr>)"

section \<open>The codec laws\<close>

lemma require_size_Inr [simp]: "require_size p n m = Inr u \<longleftrightarrow> length p = n"
  by (simp add: require_size_def)

lemma encode_client_hello_bytes:
  "encode_client_hello m = Inr bs \<Longrightarrow>
     bs = append_u16 [] (requested_mtu m) @ append_u16 [] 0 @ append_u32 [] (capabilities m)"
  unfolding encode_client_hello_def Let_def
  by (subst (asm) (2) append_u16_eq, subst (asm) append_u32_eq) (auto split: if_splits)

lemma drop_append_u16 [simp]: "drop 2 (append_u16 [] v @ rest) = rest"
  by simp

lemma split_8: "length bs = 8 \<Longrightarrow> bs = take 2 bs @ take 2 (drop 2 bs) @ take 4 (drop 4 bs)"
  using take_add [of 2 2 bs] take_add [of 4 4 bs] by simp

interpretation client_hello: codec encode_client_hello decode_client_hello "\<lambda>_. True"
proof
  fix m bs
  assume enc: "encode_client_hello m = Inr bs"
  note bs = encode_client_hello_bytes [OF enc]
  have "drop 4 bs = append_u32 [] (capabilities m)" by (simp add: bs)
  then have "read_u32 (drop 4 bs) = capabilities m" using read_append_u32 [of _ "[]"] by simp
  moreover have "drop 2 bs = append_u16 [] 0 @ append_u32 [] (capabilities m)" by (simp add: bs)
  moreover have "read_u16 bs = requested_mtu m" by (simp add: bs)
  moreover have "length bs = 8" by (simp add: bs)
  ultimately show "decode_client_hello bs = Inr m"
    using enc by (cases m) (simp add: decode_client_hello_def and_then_Inr_iff Let_def)
next
  fix bs m
  assume dec: "decode_client_hello bs = Inr m"
  then have len: "length bs = 8" and zero: "read_u16 (drop 2 bs) = 0"
    and m: "m = \<lparr>requested_mtu = read_u16 bs, capabilities = read_u32 (drop 4 bs)\<rparr>"
    and ok: "\<exists>enc. encode_client_hello m = Inr enc"
    by (auto simp: decode_client_hello_def and_then_Inr_iff Let_def split: if_splits)
  from ok obtain enc where enc: "encode_client_hello m = Inr enc" by blast
  have "enc = take 2 bs @ take 2 (drop 2 bs) @ take 4 (drop 4 bs)"
    using encode_client_hello_bytes [OF enc] len
    by (simp add: m zero [symmetric] append_read_u16_take append_read_u32_take)
  with split_8 [OF len] enc show "encode_client_hello m = Inr bs" by simp
qed simp

lemma encode_ip_assignment_Inr_iff:
  "encode_ip_assignment m = Inr bs \<longleftrightarrow>
     validate_ip_assignment m = Inr () \<and>
     bs = client_address m @ gateway_address m @ [prefix_length m, 0] @ append_u16 [] (mtu m)
       @ append_u32 [] (lease_seconds m) @ client_ipv6_address m @ gateway_ipv6_address m
       @ [ipv6_prefix_length m, 0, 0, 0]"
  unfolding encode_ip_assignment_def Let_def
  by (subst append_u16_eq, subst append_u32_eq) (auto simp: and_then_Inr_iff)

lemma take_drop_join: "take k (drop n xs) @ drop (k + n) xs = drop n xs"
  by (simp flip: drop_drop)

lemma split_52:
  fixes bs :: bytes
  assumes "length bs = 52"
  shows "take 4 bs @ take 4 (drop 4 bs) @ [bs ! 8, bs ! 9] @ take 2 (drop 10 bs)
    @ take 4 (drop 12 bs) @ take 16 (drop 16 bs) @ take 16 (drop 32 bs)
    @ [bs ! 48, bs ! 49, bs ! 50, bs ! 51] = bs"
proof -
  have eqs: "[bs ! 48, bs ! 49, bs ! 50, bs ! 51] = drop 48 bs"
    "take 16 (drop 32 bs) @ drop 48 bs = drop 32 bs"
    "take 16 (drop 16 bs) @ drop 32 bs = drop 16 bs"
    "take 4 (drop 12 bs) @ drop 16 bs = drop 12 bs"
    "take 2 (drop 10 bs) @ drop 12 bs = drop 10 bs"
    "[bs ! 8, bs ! 9] @ drop 10 bs = drop 8 bs"
    "take 4 (drop 4 bs) @ drop 8 bs = drop 4 bs"
    using assms take_drop_join [of 16 32 bs] take_drop_join [of 16 16 bs]
      take_drop_join [of 4 12 bs] take_drop_join [of 2 10 bs] take_drop_join [of 4 4 bs]
    by (simp_all add: Cons_nth_drop_Suc [symmetric] numeral_eq_Suc)
  show ?thesis by (simp only: eqs append_take_drop_id)
qed

interpretation ip_assignment: codec encode_ip_assignment decode_ip_assignment wf_IpAssignment
proof
  fix m bs
  assume wf: "wf_IpAssignment m" and enc: "encode_ip_assignment m = Inr bs"
  then have valid: "validate_ip_assignment m = Inr ()"
    and bs: "bs = client_address m @ gateway_address m @ [prefix_length m, 0] @ append_u16 [] (mtu m)
       @ append_u32 [] (lease_seconds m) @ client_ipv6_address m @ gateway_ipv6_address m
       @ [ipv6_prefix_length m, 0, 0, 0]"
    by (simp_all add: encode_ip_assignment_Inr_iff)
  from wf have lens: "length (client_address m) = 4" "length (gateway_address m) = 4"
    "length (client_ipv6_address m) = 16" "length (gateway_ipv6_address m) = 16"
    by (simp_all add: wf_IpAssignment_def)
  have "length bs = 52" using lens by (simp add: bs)
  moreover have "take 4 bs = client_address m" "take 4 (drop 4 bs) = gateway_address m"
    "bs ! 8 = prefix_length m" "bs ! 9 = 0"
    "take 16 (drop 16 bs) = client_ipv6_address m" "take 16 (drop 32 bs) = gateway_ipv6_address m"
    "bs ! 48 = ipv6_prefix_length m" "bs ! 49 = 0" "bs ! 50 = 0" "bs ! 51 = 0"
    using lens by (simp_all add: bs nth_append)
  moreover have "drop 10 bs = append_u16 [] (mtu m) @ drop 12 bs"
    "drop 12 bs = append_u32 [] (lease_seconds m) @ drop 16 bs"
    using lens by (simp_all add: bs)
  then have "read_u16 (drop 10 bs) = mtu m" "read_u32 (drop 12 bs) = lease_seconds m"
    by (metis read_append_u16, metis read_append_u32)
  ultimately show "decode_ip_assignment bs = Inr m"
    using valid by (cases m) (simp add: decode_ip_assignment_def and_then_Inr_iff Let_def)
next
  fix bs m
  assume dec: "decode_ip_assignment bs = Inr m"
  then have len: "length bs = 52" and zero: "bs ! 9 = 0" "bs ! 49 = 0" "bs ! 50 = 0" "bs ! 51 = 0"
    and valid: "validate_ip_assignment m = Inr ()"
    and m: "m = \<lparr>client_address = take 4 bs, gateway_address = take 4 (drop 4 bs),
             prefix_length = bs ! 8, mtu = read_u16 (drop 10 bs),
             lease_seconds = read_u32 (drop 12 bs),
             client_ipv6_address = take 16 (drop 16 bs),
             gateway_ipv6_address = take 16 (drop 32 bs), ipv6_prefix_length = bs ! 48\<rparr>"
    by (auto simp: decode_ip_assignment_def and_then_Inr_iff Let_def split: if_splits)
  show "encode_ip_assignment m = Inr bs"
    using valid len split_52 [OF len]
    by (simp add: encode_ip_assignment_Inr_iff m zero append_read_u16_take append_read_u32_take)
  show "wf_IpAssignment m" using len by (simp add: m wf_IpAssignment_def)
qed

interpretation liveness_probe: codec "\<lambda>m. Inr (encode_liveness_probe m)" decode_liveness_probe "\<lambda>_. True"
proof
  fix m :: LivenessProbe and bs
  assume "Inr (encode_liveness_probe m) = (Inr bs :: bytes result)"
  then have bs: "bs = append_u64 [] (nonce m)" by (simp add: encode_liveness_probe_def)
  then show "decode_liveness_probe bs = Inr m"
    using read_append_u64 [of "nonce m" "[]"]
    by (cases m) (simp add: decode_liveness_probe_def require_size_def)
next
  fix bs m
  assume "decode_liveness_probe bs = Inr m"
  then show "Inr (encode_liveness_probe m) = (Inr bs :: bytes result)"
    by (auto simp: decode_liveness_probe_def encode_liveness_probe_def and_then_Inr_iff
        append_read_u64_take)
qed simp

interpretation error_message: codec encode_error_message decode_error_message "\<lambda>_. True"
proof
  fix m bs
  assume "encode_error_message m = Inr bs"
  then show "decode_error_message bs = Inr m"
    by (auto simp: encode_error_message_def decode_error_message_def comp_def split: if_splits)
next
  fix bs m
  assume "decode_error_message bs = Inr m"
  then show "encode_error_message m = Inr bs"
    by (auto simp: encode_error_message_def decode_error_message_def append_read_u16_take comp_def
        split: if_splits)
qed simp

interpretation close_message: codec "\<lambda>m. Inr (encode_close_message m)" decode_close_message "\<lambda>_. True"
proof
  fix m :: CloseMessage and bs
  assume "Inr (encode_close_message m) = (Inr bs :: bytes result)"
  then have bs: "bs = append_u16 [] (close_code m)" by (simp add: encode_close_message_def)
  then show "decode_close_message bs = Inr m"
    using read_append_u16 [of "close_code m" "[]"]
    by (cases m) (simp add: decode_close_message_def require_size_def)
next
  fix bs m
  assume "decode_close_message bs = Inr m"
  then show "Inr (encode_close_message m) = (Inr bs :: bytes result)"
    by (auto simp: decode_close_message_def encode_close_message_def and_then_Inr_iff
        append_read_u16_take)
qed simp

section \<open>Sizes\<close>

lemma length_client_hello: "encode_client_hello m = Inr bs \<Longrightarrow> length bs = 8"
  by (drule encode_client_hello_bytes) simp

lemma length_ip_assignment:
  "wf_IpAssignment m \<Longrightarrow> encode_ip_assignment m = Inr bs \<Longrightarrow> length bs = 52"
  by (simp add: encode_ip_assignment_Inr_iff wf_IpAssignment_def)

lemma length_liveness_probe [simp]: "length (encode_liveness_probe m) = 8"
  by (simp add: encode_liveness_probe_def)

lemma length_error_message: "encode_error_message m = Inr bs \<Longrightarrow> length bs \<le> 1026"
  by (auto simp: encode_error_message_def kMaximumErrorMessageSize_def split: if_splits)

lemma length_close_message [simp]: "length (encode_close_message m) = 2"
  by (simp add: encode_close_message_def)

section \<open>Properties\<close>

text \<open>
  C3: the five control codecs are exact. A payload decodes to a message if and only if it is
  the encoding of that message, so nothing is lost on the wire, no message has two encodings,
  and whatever a decoder accepts satisfies the checks of the encoder (reserved bytes are zero,
  MTU, prefix and lease bounds, capability bits, text length).
\<close>

theorem control_codecs_exact:
  "(decode_client_hello bs = Inr hello \<longleftrightarrow> encode_client_hello hello = Inr bs)
   \<and> (decode_ip_assignment bs = Inr ip \<longleftrightarrow> wf_IpAssignment ip \<and> encode_ip_assignment ip = Inr bs)
   \<and> (decode_liveness_probe bs = Inr probe \<longleftrightarrow> encode_liveness_probe probe = bs)
   \<and> (decode_error_message bs = Inr err \<longleftrightarrow> encode_error_message err = Inr bs)
   \<and> (decode_close_message bs = Inr closing \<longleftrightarrow> encode_close_message closing = bs)"
  using client_hello.dec_iff_enc [of bs hello] ip_assignment.dec_iff_enc [of bs ip]
    liveness_probe.dec_iff_enc [of bs probe] error_message.dec_iff_enc [of bs err]
    close_message.dec_iff_enc [of bs closing]
  by simp

end
