(* ===== verification/Lease_Manager.thy ===== *)
theory Lease_Manager
  imports Ip_Address Control_Messages
begin

unbundle bit_operations_syntax

text \<open>
  The class \<^verbatim>\<open>LeaseManager\<close> of \<^verbatim>\<open>src/core/lease_manager.cpp\<close>: the pool of virtual addresses of
  the server. A \<^verbatim>\<open>steady_clock::time_point\<close> is the integer number of its ticks (nanoseconds),
  an argument of every operation that looks at the clock. Every public operation holds the
  mutex for its whole body, so concurrent calls are a sequence of these functions.
\<close>

section \<open>State\<close>

record Lease =
  lease_id :: u64
  lease_identity :: string
  lease_address :: bytes
  lease_ipv6_address :: bytes
  expires_at :: int

record LeaseManager =
  first_address :: u32
  last_address :: u32
  lm_gateway_address :: bytes
  lm_prefix_length :: u8
  lm_mtu :: u16
  lease_duration :: int
  ipv6_prefix :: bytes
  ipv6_gateway :: bytes
  lm_ipv6_prefix_length :: u8
  leases_by_identity :: "(string \<times> Lease) list"
  identity_by_address :: "(u32 \<times> string) list"
  next_lease_id :: u64

text \<open>A \<^verbatim>\<open>std::chrono::seconds\<close> added to a time point.\<close>

definition plus_seconds :: "int \<Rightarrow> int \<Rightarrow> int" where
  "plus_seconds now seconds = now + seconds * 1000000000"

definition is_unspecified_v6 :: "bytes \<Rightarrow> bool" where
  "is_unspecified_v6 address \<longleftrightarrow> list_all (\<lambda>value. value = 0) address"

text \<open>The default \<^verbatim>\<open>Ipv6Address{}\<close>.\<close>

definition zero_ipv6 :: bytes where
  "zero_ipv6 = replicate 16 0"

section \<open>Operations\<close>

definition subnet_mask :: "u8 \<Rightarrow> u32" where
  "subnet_mask prefix = (if prefix = 32 then - 1 else push_bit (unat (32 - prefix)) (- 1))"

definition new_LeaseManager ::
    "bytes \<Rightarrow> bytes \<Rightarrow> bytes \<Rightarrow> u8 \<Rightarrow> u16 \<Rightarrow> int \<Rightarrow> bytes \<Rightarrow> bytes \<Rightarrow> u8 \<Rightarrow> LeaseManager result" where
  "new_LeaseManager first_arg last_arg gateway_addr prefix mtu' duration v6_prefix v6_gateway v6_prefix_length =
     (let first_addr = to_integer first_arg; last_addr = to_integer last_arg
      in
      if first_addr > last_addr then
        Inl (Invalid_argument ''first lease address must not exceed the last address'')
      else if is_unspecified gateway_addr then
        Inl (Invalid_argument ''lease gateway must not be unspecified'')
      else if prefix = 0 \<or> prefix > 32 then
        Inl (Invalid_argument ''lease prefix length must be between 1 and 32'')
      else if mtu' < kMinimumIpv4Mtu \<or> mtu' > kMaximumTunnelMtu then
        Inl (Invalid_argument ''lease MTU is outside the supported range'')
      else if duration \<le> 0 \<or> duration > 0xFFFFFFFF then
        Inl (Invalid_argument ''lease duration is outside the protocol range'')
      else if v6_prefix_length \<noteq> 0 \<and> (v6_prefix_length \<noteq> 64 \<or> is_unspecified_v6 v6_gateway) then
        Inl (Invalid_argument ''IPv6 lease pool requires a non-zero gateway and /64 prefix'')
      else if v6_prefix_length \<noteq> 0 \<and> list_ex (\<lambda>i. v6_prefix ! i \<noteq> v6_gateway ! i) [0..<8] then
        Inl (Invalid_argument ''IPv6 gateway must belong to the configured /64 prefix'')
      else if v6_prefix_length \<noteq> 0 \<and> \<not> list_all (\<lambda>value. value = 0) (drop 8 v6_prefix) then
        Inl (Invalid_argument ''IPv6 lease prefix must be canonical /64 network address'')
      else
       (let gateway = to_integer gateway_addr
        in
        if gateway \<ge> first_addr \<and> gateway \<le> last_addr then
          Inl (Invalid_argument ''lease pool must not contain the gateway address'')
        else
         (let mask = subnet_mask prefix; network = gateway AND mask
          in
          if (first_addr AND mask) \<noteq> network \<or> (last_addr AND mask) \<noteq> network then
            Inl (Invalid_argument ''lease pool and gateway must belong to the configured subnet'')
          else if prefix \<le> 30
                  \<and> (first_addr \<le> network \<or> last_addr \<ge> (network OR NOT mask)) then
            Inl (Invalid_argument ''lease pool must exclude network and broadcast addresses'')
          else
            Inr \<lparr>first_address = first_addr, last_address = last_addr,
                 lm_gateway_address = gateway_addr, lm_prefix_length = prefix, lm_mtu = mtu',
                 lease_duration = duration, ipv6_prefix = v6_prefix, ipv6_gateway = v6_gateway,
                 lm_ipv6_prefix_length = v6_prefix_length,
                 leases_by_identity = [], identity_by_address = [], next_lease_id = 1\<rparr>)))"

fun reap_loop :: "int \<Rightarrow> (string \<times> Lease) list \<Rightarrow> (u32 \<times> string) list
    \<Rightarrow> (string \<times> Lease) list \<times> (u32 \<times> string) list \<times> nat" where
  "reap_loop now [] ids = ([], ids, 0)"
| "reap_loop now ((key, lease) # leases) ids =
     (if expires_at lease \<le> now then
        (let (kept, ids', removed) =
           reap_loop now leases (map_erase (to_integer (lease_address lease)) ids)
         in (kept, ids', Suc removed))
      else
        (let (kept, ids', removed) = reap_loop now leases ids
         in ((key, lease) # kept, ids', removed)))"

definition reap_expired_locked :: "LeaseManager \<Rightarrow> int \<Rightarrow> nat \<times> LeaseManager" where
  "reap_expired_locked m now =
     (let (kept, ids, removed) = reap_loop now (leases_by_identity m) (identity_by_address m)
      in (removed, m\<lparr>leases_by_identity := kept, identity_by_address := ids\<rparr>))"

definition reap_expired :: "LeaseManager \<Rightarrow> int \<Rightarrow> nat \<times> LeaseManager" where
  "reap_expired m now = reap_expired_locked m now"

text \<open>The loop of \<open>acquire\<close> up to the first free address; \<open>None\<close> is its \<^verbatim>\<open>break\<close>.\<close>

function find_free :: "(u32 \<times> string) list \<Rightarrow> u32 \<Rightarrow> u32 \<Rightarrow> u32 option" where
  "find_free taken candidate last_addr =
     (if map_of taken candidate = None then Some candidate
      else if candidate = last_addr then None
      else find_free taken (candidate + 1) last_addr)"
  by pat_completeness auto

termination
proof (relation "measure (\<lambda>(_, candidate, last_addr). unat (last_addr - candidate))")
  fix taken :: "(u32 \<times> string) list" and candidate last_addr :: u32
  assume "candidate \<noteq> last_addr"
  then have "unat (last_addr - candidate - 1) < unat (last_addr - candidate)"
    by (metis eq_iff_diff_eq_0 measure_unat)
  then show "((taken, candidate + 1, last_addr), taken, candidate, last_addr)
      \<in> measure (\<lambda>(_, candidate, last_addr). unat (last_addr - candidate))"
    by (simp add: diff_diff_eq)
qed simp

declare find_free.simps [simp del]

definition derive_ipv6 :: "bytes \<Rightarrow> bytes \<Rightarrow> bytes" where
  "derive_ipv6 v6_prefix ipv4 = take 8 v6_prefix @ replicate 4 0 @ ipv4"

definition acquire :: "LeaseManager \<Rightarrow> string \<Rightarrow> int \<Rightarrow> Lease result \<times> LeaseManager" where
  "acquire m identity now =
     (if identity = [] then (Inl (Invalid_argument ''lease identity must not be empty''), m)
      else
       (let m = snd (reap_expired_locked m now)
        in
        if map_of (leases_by_identity m) identity \<noteq> None then
          (Inl (Runtime_error ''identity already has an active virtual IP lease''), m)
        else
         (case find_free (identity_by_address m) (first_address m) (last_address m) of
            None \<Rightarrow> (Inl (Runtime_error ''virtual IP lease pool is exhausted''), m)
          | Some candidate \<Rightarrow>
              if next_lease_id m = 0 then
                (Inl (Runtime_error ''virtual IP lease generation is exhausted''), m)
              else
               (let ipv4 = from_integer candidate;
                    ipv6 = (if lm_ipv6_prefix_length m \<noteq> 0 then derive_ipv6 (ipv6_prefix m) ipv4
                            else zero_ipv6)
                in
                if lm_ipv6_prefix_length m \<noteq> 0 \<and> ipv6 = ipv6_gateway m then
                  (Inl (Runtime_error ''derived IPv6 lease collides with gateway address''), m)
                else
                 (let lease = \<lparr>lease_id = next_lease_id m, lease_identity = identity,
                                lease_address = ipv4, lease_ipv6_address = ipv6,
                                expires_at = plus_seconds now (lease_duration m)\<rparr>
                  in (Inr lease,
                      m\<lparr>next_lease_id := next_lease_id m + 1,
                        leases_by_identity := map_emplace identity lease (leases_by_identity m),
                        identity_by_address := map_emplace candidate identity (identity_by_address m)\<rparr>))))))"

definition find_by_identity :: "LeaseManager \<Rightarrow> string \<Rightarrow> int \<Rightarrow> Lease option \<times> LeaseManager" where
  "find_by_identity m identity now =
     (let m = snd (reap_expired_locked m now)
      in (map_of (leases_by_identity m) identity, m))"

definition renew :: "LeaseManager \<Rightarrow> Lease \<Rightarrow> int \<Rightarrow> Lease option \<times> LeaseManager" where
  "renew m expected_lease now =
     (let m = snd (reap_expired_locked m now)
      in case map_of (leases_by_identity m) (lease_identity expected_lease) of
           None \<Rightarrow> (None, m)
         | Some lease \<Rightarrow>
             if lease_id lease \<noteq> lease_id expected_lease
                \<or> lease_address lease \<noteq> lease_address expected_lease then (None, m)
             else
              (let lease = lease\<lparr>expires_at := plus_seconds now (lease_duration m)\<rparr>
               in (Some lease,
                   m\<lparr>leases_by_identity :=
                       AList.update (lease_identity expected_lease) lease (leases_by_identity m)\<rparr>)))"

definition owns :: "LeaseManager \<Rightarrow> string \<Rightarrow> bytes \<Rightarrow> int \<Rightarrow> bool \<times> LeaseManager" where
  "owns m identity address now =
     (let m = snd (reap_expired_locked m now)
      in ((case map_of (leases_by_identity m) identity of
             None \<Rightarrow> False
           | Some lease \<Rightarrow> lease_address lease = address), m))"

definition release :: "LeaseManager \<Rightarrow> Lease \<Rightarrow> bool \<times> LeaseManager" where
  "release m expected_lease =
     (case map_of (leases_by_identity m) (lease_identity expected_lease) of
        None \<Rightarrow> (False, m)
      | Some lease \<Rightarrow>
          if lease_id lease \<noteq> lease_id expected_lease
             \<or> lease_address lease \<noteq> lease_address expected_lease then (False, m)
          else
            (True,
             m\<lparr>identity_by_address :=
                 map_erase (to_integer (lease_address lease)) (identity_by_address m),
               leases_by_identity :=
                 map_erase (lease_identity expected_lease) (leases_by_identity m)\<rparr>))"

definition active_count :: "LeaseManager \<Rightarrow> int \<Rightarrow> nat \<times> LeaseManager" where
  "active_count m now =
     (let m = snd (reap_expired_locked m now) in (length (leases_by_identity m), m))"

text \<open>The capacity is computed in 64 bits, where the difference of 32-bit values cannot wrap.\<close>

definition available_count :: "LeaseManager \<Rightarrow> int \<Rightarrow> nat \<times> LeaseManager" where
  "available_count m now =
     (let m = snd (reap_expired_locked m now);
          capacity = (ucast (last_address m) - ucast (first_address m) + 1 :: u64)
      in (unat (capacity - word_of_nat (length (leases_by_identity m))), m))"

definition to_assignment :: "LeaseManager \<Rightarrow> Lease \<Rightarrow> IpAssignment" where
  "to_assignment m lease =
     \<lparr>client_address = lease_address lease,
      gateway_address = lm_gateway_address m,
      prefix_length = lm_prefix_length m,
      mtu = lm_mtu m,
      lease_seconds = word_of_int (lease_duration m),
      client_ipv6_address = lease_ipv6_address lease,
      gateway_ipv6_address = ipv6_gateway m,
      ipv6_prefix_length = lm_ipv6_prefix_length m\<rparr>"

section \<open>Invariant\<close>

text \<open>What the constructor checks, with the lengths of the arrays.\<close>

definition lm_config :: "LeaseManager \<Rightarrow> bool" where
  "lm_config m \<longleftrightarrow>
     first_address m \<le> last_address m
     \<and> \<not> (first_address m \<le> to_integer (lm_gateway_address m)
          \<and> to_integer (lm_gateway_address m) \<le> last_address m)
     \<and> length (lm_gateway_address m) = 4 \<and> \<not> is_unspecified (lm_gateway_address m)
     \<and> 0 < lm_prefix_length m \<and> lm_prefix_length m \<le> 32
     \<and> kMinimumIpv4Mtu \<le> lm_mtu m \<and> lm_mtu m \<le> kMaximumTunnelMtu
     \<and> 0 < lease_duration m \<and> lease_duration m \<le> 0xFFFFFFFF
     \<and> length (ipv6_prefix m) = 16 \<and> length (ipv6_gateway m) = 16
     \<and> (lm_ipv6_prefix_length m \<noteq> 0 \<longrightarrow>
          lm_ipv6_prefix_length m = 64 \<and> \<not> is_unspecified_v6 (ipv6_gateway m)
          \<and> take 8 (ipv6_prefix m) = take 8 (ipv6_gateway m))
     \<and> (first_address m AND subnet_mask (lm_prefix_length m))
         = (to_integer (lm_gateway_address m) AND subnet_mask (lm_prefix_length m))
     \<and> (last_address m AND subnet_mask (lm_prefix_length m))
         = (to_integer (lm_gateway_address m) AND subnet_mask (lm_prefix_length m))
     \<and> (lm_prefix_length m \<le> 30 \<longrightarrow>
          (to_integer (lm_gateway_address m) AND subnet_mask (lm_prefix_length m)) < first_address m
          \<and> last_address m < (to_integer (lm_gateway_address m) AND subnet_mask (lm_prefix_length m)
               OR NOT (subnet_mask (lm_prefix_length m))))"

text \<open>A lease as the pool described by the other arguments hands it out.\<close>

definition pool_ipv6 :: "LeaseManager \<Rightarrow> bytes \<Rightarrow> bytes" where
  "pool_ipv6 m ipv4 =
     (if lm_ipv6_prefix_length m \<noteq> 0 then derive_ipv6 (ipv6_prefix m) ipv4 else zero_ipv6)"

definition lease_wf :: "LeaseManager \<Rightarrow> Lease \<Rightarrow> bool" where
  "lease_wf m l \<longleftrightarrow>
     lease_identity l \<noteq> [] \<and> length (lease_address l) = 4
     \<and> first_address m \<le> to_integer (lease_address l)
     \<and> to_integer (lease_address l) \<le> last_address m
     \<and> lease_ipv6_address l = pool_ipv6 m (lease_address l)
     \<and> (lm_ipv6_prefix_length m \<noteq> 0 \<longrightarrow> lease_ipv6_address l \<noteq> ipv6_gateway m)
     \<and> lease_id l \<noteq> 0 \<and> (next_lease_id m = 0 \<or> lease_id l < next_lease_id m)"

definition lm_tables :: "LeaseManager \<Rightarrow> bool" where
  "lm_tables m \<longleftrightarrow>
     distinct_keys (leases_by_identity m) \<and> distinct_keys (identity_by_address m)
     \<and> (\<forall>i l. map_of (leases_by_identity m) i = Some l \<longrightarrow>
          lease_identity l = i \<and> lease_wf m l
          \<and> map_of (identity_by_address m) (to_integer (lease_address l)) = Some i)
     \<and> (\<forall>a i. map_of (identity_by_address m) a = Some i \<longrightarrow>
          (\<exists>l. map_of (leases_by_identity m) i = Some l \<and> to_integer (lease_address l) = a))
     \<and> (\<forall>i j l k. map_of (leases_by_identity m) i = Some l
          \<longrightarrow> map_of (leases_by_identity m) j = Some k \<longrightarrow> lease_id l = lease_id k \<longrightarrow> i = j)"

definition lm_inv :: "LeaseManager \<Rightarrow> bool" where
  "lm_inv m \<longleftrightarrow> lm_config m \<and> lm_tables m"

text \<open>
  The manager holds a lease when the test of \<open>renew\<close> and \<open>release\<close> succeeds on it: the
  identity has a lease with the same id and address.
\<close>

definition holds :: "LeaseManager \<Rightarrow> Lease \<Rightarrow> bool" where
  "holds m l \<longleftrightarrow>
     (\<exists>cur. map_of (leases_by_identity m) (lease_identity l) = Some cur
        \<and> lease_id cur = lease_id l \<and> lease_address cur = lease_address l)"

lemma lm_tablesD:
  assumes "lm_tables m" "map_of (leases_by_identity m) i = Some l"
  shows "lease_identity l = i" "lease_wf m l"
    "map_of (identity_by_address m) (to_integer (lease_address l)) = Some i"
  using assms by (auto simp: lm_tables_def)

lemma lm_tables_addressD:
  assumes "lm_tables m" "map_of (identity_by_address m) a = Some i"
  obtains l where "map_of (leases_by_identity m) i = Some l" "to_integer (lease_address l) = a"
  using assms unfolding lm_tables_def by blast

lemma lm_tables_idD:
  assumes "lm_tables m" "map_of (leases_by_identity m) i = Some l"
    "map_of (leases_by_identity m) j = Some k" "lease_id l = lease_id k"
  shows "i = j"
  using assms by (auto simp: lm_tables_def)

lemma take_8_eq:
  assumes "\<not> list_ex (\<lambda>i. xs ! i \<noteq> ys ! i) [0..<8]" "length xs = 16" "length ys = (16 :: nat)"
  shows "take 8 xs = take 8 ys"
  using assms by (intro nth_equalityI) (auto simp: list_ex_iff)

lemma lm_inv_new:
  assumes "new_LeaseManager f l g p u d vp vg vl = Inr m"
    and "length g = 4" "length vp = 16" "length vg = 16"
  shows "lm_inv m"
proof -
  have m: "m = \<lparr>first_address = to_integer f, last_address = to_integer l,
        lm_gateway_address = g, lm_prefix_length = p, lm_mtu = u, lease_duration = d,
        ipv6_prefix = vp, ipv6_gateway = vg, lm_ipv6_prefix_length = vl,
        leases_by_identity = [], identity_by_address = [], next_lease_id = 1\<rparr>"
    and checks: "\<not> to_integer f > to_integer l" "\<not> is_unspecified g" "\<not> (p = 0 \<or> p > 32)"
      "\<not> (u < kMinimumIpv4Mtu \<or> u > kMaximumTunnelMtu)" "\<not> (d \<le> 0 \<or> d > 0xFFFFFFFF)"
      "\<not> (vl \<noteq> 0 \<and> (vl \<noteq> 64 \<or> is_unspecified_v6 vg))"
      "\<not> (vl \<noteq> 0 \<and> list_ex (\<lambda>i. vp ! i \<noteq> vg ! i) [0..<8])"
      "\<not> (to_integer g \<ge> to_integer f \<and> to_integer g \<le> to_integer l)"
      "(to_integer f AND subnet_mask p) = (to_integer g AND subnet_mask p)"
      "(to_integer l AND subnet_mask p) = (to_integer g AND subnet_mask p)"
      "\<not> (p \<le> 30 \<and> (to_integer f \<le> (to_integer g AND subnet_mask p)
          \<or> to_integer l \<ge> (to_integer g AND subnet_mask p OR NOT (subnet_mask p))))"
    using assms(1) unfolding new_LeaseManager_def Let_def by (simp_all split: if_splits)
  have "vl \<noteq> 0 \<Longrightarrow> take 8 vp = take 8 vg" using checks(7) assms(3,4) take_8_eq by blast
  moreover have "0 < p" using checks(3) by (simp add: word_neq_0_conv)
  ultimately have "lm_config m"
    using checks assms(2-4) unfolding lm_config_def m by (simp add: not_less not_le) (metis leD)
  then show ?thesis by (simp add: lm_inv_def lm_tables_def m)
qed

section \<open>Expiry\<close>

definition expired :: "int \<Rightarrow> Lease \<Rightarrow> bool" where
  "expired now l \<longleftrightarrow> expires_at l \<le> now"

lemma reap_loop_spec:
  assumes "reap_loop now ls ids = (kept, ids', n)"
  shows "kept = filter (\<lambda>e. \<not> expired now (snd e)) ls
    \<and> n = length (filter (\<lambda>e. expired now (snd e)) ls)
    \<and> map_of ids' = (\<lambda>a. if \<exists>e \<in> set ls. expired now (snd e) \<and> to_integer (lease_address (snd e)) = a
                         then None else map_of ids a)
    \<and> (distinct_keys ids \<longrightarrow> distinct_keys ids')"
  using assms
proof (induction now ls ids arbitrary: kept ids' n rule: reap_loop.induct)
  case (2 now key lease leases ids)
  then show ?case
    by (auto simp: expired_def fun_eq_iff split: if_splits prod.splits)
qed (simp add: fun_eq_iff)

lemma reap_fields [simp]:
  "first_address (snd (reap_expired_locked m now)) = first_address m"
  "last_address (snd (reap_expired_locked m now)) = last_address m"
  "lm_gateway_address (snd (reap_expired_locked m now)) = lm_gateway_address m"
  "lm_prefix_length (snd (reap_expired_locked m now)) = lm_prefix_length m"
  "lm_mtu (snd (reap_expired_locked m now)) = lm_mtu m"
  "lease_duration (snd (reap_expired_locked m now)) = lease_duration m"
  "ipv6_prefix (snd (reap_expired_locked m now)) = ipv6_prefix m"
  "ipv6_gateway (snd (reap_expired_locked m now)) = ipv6_gateway m"
  "lm_ipv6_prefix_length (snd (reap_expired_locked m now)) = lm_ipv6_prefix_length m"
  "next_lease_id (snd (reap_expired_locked m now)) = next_lease_id m"
  by (simp_all add: reap_expired_locked_def split: prod.splits)

lemma reap_leases:
  assumes "distinct_keys (leases_by_identity m)"
  shows "map_of (leases_by_identity (snd (reap_expired_locked m now))) i =
    (case map_of (leases_by_identity m) i of None \<Rightarrow> None
     | Some l \<Rightarrow> if expired now l then None else Some l)"
proof -
  obtain kept ids' n where
    r: "reap_loop now (leases_by_identity m) (identity_by_address m) = (kept, ids', n)"
    by (metis prod_cases3)
  show ?thesis
    using reap_loop_spec [OF r] map_of_filter_distinct [OF assms]
    by (simp add: reap_expired_locked_def r split: option.splits)
qed

lemma reap_addresses:
  assumes "lm_tables m"
  shows "map_of (identity_by_address (snd (reap_expired_locked m now))) a =
    (case map_of (identity_by_address m) a of None \<Rightarrow> None
     | Some i \<Rightarrow> (case map_of (leases_by_identity m) i of None \<Rightarrow> None
        | Some l \<Rightarrow> if expired now l then None else Some i))"
proof -
  let ?ls = "leases_by_identity m"
  obtain kept ids' n where
    r: "reap_loop now ?ls (identity_by_address m) = (kept, ids', n)"
    by (metis prod_cases3)
  have d: "distinct_keys ?ls" using assms by (simp add: lm_tables_def)
  have mem: "(i, l) \<in> set ?ls \<longleftrightarrow> map_of ?ls i = Some l" for i l
    using d by (simp add: distinct_keys_def)
  have ids': "map_of ids' a = (if \<exists>e \<in> set ?ls. expired now (snd e) \<and> to_integer (lease_address (snd e)) = a
      then None else map_of (identity_by_address m) a)"
    using fun_cong [OF conjunct1 [OF conjunct2 [OF conjunct2 [OF reap_loop_spec [OF r]]]], of a] .
  show ?thesis
  proof (cases "map_of (identity_by_address m) a")
    case None
    with ids' show ?thesis by (simp add: reap_expired_locked_def r)
  next
    case (Some i)
    then obtain l where l: "map_of ?ls i = Some l" "to_integer (lease_address l) = a"
      by (rule lm_tables_addressD [OF assms])
    have same: "k = l" if "(j, k) \<in> set ?ls" "to_integer (lease_address k) = a" for j k
    proof -
      from that have k: "map_of ?ls j = Some k" by (simp only: mem)
      with lm_tablesD(3) [OF assms k] that(2) Some have "j = i" by simp
      with k l show "k = l" by simp
    qed
    have "(i, l) \<in> set ?ls" using l by (simp only: mem)
    then have "(\<exists>e \<in> set ?ls. expired now (snd e) \<and> to_integer (lease_address (snd e)) = a)
        \<longleftrightarrow> expired now l"
      using same l(2) by force
    with ids' Some l show ?thesis by (simp add: reap_expired_locked_def r)
  qed
qed

lemma lease_wf_reap [simp]: "lease_wf (snd (reap_expired_locked m now)) l \<longleftrightarrow> lease_wf m l"
  by (simp add: lease_wf_def pool_ipv6_def)

lemma lm_inv_reap:
  assumes "lm_inv m"
  shows "lm_inv (snd (reap_expired_locked m now))"
proof -
  let ?m = "snd (reap_expired_locked m now)"
  from assms have t: "lm_tables m" and c: "lm_config m" by (simp_all add: lm_inv_def)
  then have d: "distinct_keys (leases_by_identity m)" by (simp add: lm_tables_def)
  obtain kept ids' n where
    r: "reap_loop now (leases_by_identity m) (identity_by_address m) = (kept, ids', n)"
    by (metis prod_cases3)
  have dist: "distinct_keys (leases_by_identity ?m)" "distinct_keys (identity_by_address ?m)"
    using reap_loop_spec [OF r] t by (simp_all add: reap_expired_locked_def r lm_tables_def)
  have lease: "map_of (leases_by_identity ?m) i = Some l \<longleftrightarrow>
      map_of (leases_by_identity m) i = Some l \<and> \<not> expired now l" for i l
    by (auto simp: reap_leases [OF d] split: option.splits)
  have addr: "map_of (identity_by_address ?m) a = Some i \<longleftrightarrow>
      map_of (identity_by_address m) a = Some i
      \<and> (\<exists>l. map_of (leases_by_identity m) i = Some l \<and> \<not> expired now l)" for a i
    by (auto simp: reap_addresses [OF t] split: option.splits)
  have "\<forall>i l. map_of (leases_by_identity m) i = Some l \<and> \<not> expired now l \<longrightarrow>
      lease_identity l = i \<and> lease_wf m l
      \<and> map_of (identity_by_address m) (to_integer (lease_address l)) = Some i
      \<and> (\<exists>l. map_of (leases_by_identity m) i = Some l \<and> \<not> expired now l)"
    using lm_tablesD [OF t] by blast
  moreover have "\<forall>a i. map_of (identity_by_address m) a = Some i
      \<and> (\<exists>l. map_of (leases_by_identity m) i = Some l \<and> \<not> expired now l) \<longrightarrow>
      (\<exists>l. (map_of (leases_by_identity m) i = Some l \<and> \<not> expired now l)
         \<and> to_integer (lease_address l) = a)"
    using lm_tables_addressD [OF t] by (metis option.inject)
  ultimately have "lm_tables ?m"
    unfolding lm_tables_def lease addr lease_wf_reap
    using dist lm_tables_idD [OF t] by (intro conjI) blast+
  with c show ?thesis by (simp add: lm_inv_def lm_config_def)
qed

section \<open>The search for a free address\<close>

lemma word_step_le:
  fixes c :: u32
  assumes "c \<le> l" "c \<noteq> l"
  shows "c + 1 \<le> l" "c \<le> c + 1" "c \<le> b \<longleftrightarrow> b = c \<or> c + 1 \<le> b"
proof -
  have lt: "c < l" using assms by simp
  then show "c + 1 \<le> l" by (rule inc_le)
  have "unat c + unat (1 :: u32) < 2 ^ LENGTH(32)"
    using lt unsigned_less [where 'a=nat, of l] by (simp add: word_less_nat_alt)
  then have "unat (c + 1) = Suc (unat c)" by (simp only: unat_add_lem) simp
  then show up: "c \<le> c + 1" by (simp add: word_le_nat_alt)
  show "c \<le> b \<longleftrightarrow> b = c \<or> c + 1 \<le> b"
  proof
    assume "c \<le> b"
    then show "b = c \<or> c + 1 \<le> b" using inc_le [of c b] by (cases "b = c") simp_all
  next
    assume "b = c \<or> c + 1 \<le> b"
    then show "c \<le> b" using up order.trans [of c "c + 1" b] by blast
  qed
qed

lemma find_free_spec:
  assumes "c \<le> l"
  shows "(case find_free taken c l of
            None \<Rightarrow> \<forall>b. c \<le> b \<longrightarrow> b \<le> l \<longrightarrow> map_of taken b \<noteq> None
          | Some a \<Rightarrow> c \<le> a \<and> a \<le> l \<and> map_of taken a = None
              \<and> (\<forall>b. c \<le> b \<longrightarrow> b < a \<longrightarrow> map_of taken b \<noteq> None))"
  using assms
proof (induction taken c l rule: find_free.induct)
  case (1 taken c l)
  show ?case
  proof (cases "map_of taken c = None \<or> c = l")
    case True
    with 1 show ?thesis by (auto simp: find_free.simps [of taken c])
  next
    case False
    then have eq: "find_free taken c l = find_free taken (c + 1) l"
      by (auto simp: find_free.simps [of taken c])
    from False have "c \<noteq> l" by blast
    note w = word_step_le [OF "1.prems" this]
    have "case find_free taken (c + 1) l of
            None \<Rightarrow> \<forall>b. c + 1 \<le> b \<longrightarrow> b \<le> l \<longrightarrow> map_of taken b \<noteq> None
          | Some a \<Rightarrow> c + 1 \<le> a \<and> a \<le> l \<and> map_of taken a = None
              \<and> (\<forall>b. c + 1 \<le> b \<longrightarrow> b < a \<longrightarrow> map_of taken b \<noteq> None)"
      using False w(1) by (intro "1.IH") auto
    then show ?thesis
      unfolding eq using False w(2,3) by (auto split: option.splits intro: order.trans)
  qed
qed

lemma find_free_Some:
  assumes "find_free taken c l = Some a" "c \<le> l"
  shows "c \<le> a" "a \<le> l" "map_of taken a = None" "c \<le> b \<Longrightarrow> b < a \<Longrightarrow> map_of taken b \<noteq> None"
  using find_free_spec [OF assms(2), of taken] assms(1) by auto

lemma find_free_None:
  assumes "c \<le> l"
  shows "find_free taken c l = None \<longleftrightarrow> (\<forall>b. c \<le> b \<longrightarrow> b \<le> l \<longrightarrow> map_of taken b \<noteq> None)"
  using find_free_spec [OF assms, of taken] by (auto split: option.splits)

section \<open>What each operation does\<close>

lemma acquire_InrE:
  assumes "acquire m i now = (Inr l, m')"
  obtains r c where "r = snd (reap_expired_locked m now)" "i \<noteq> []"
    "map_of (leases_by_identity r) i = None"
    "find_free (identity_by_address r) (first_address m) (last_address m) = Some c"
    "next_lease_id m \<noteq> 0"
    "lm_ipv6_prefix_length m \<noteq> 0 \<longrightarrow> pool_ipv6 m (from_integer c) \<noteq> ipv6_gateway m"
    "l = \<lparr>lease_id = next_lease_id m, lease_identity = i, lease_address = from_integer c,
          lease_ipv6_address = pool_ipv6 m (from_integer c),
          expires_at = plus_seconds now (lease_duration m)\<rparr>"
    "m' = r\<lparr>next_lease_id := next_lease_id m + 1,
            leases_by_identity := map_emplace i l (leases_by_identity r),
            identity_by_address := map_emplace c i (identity_by_address r)\<rparr>"
  using assms
  by (auto simp: acquire_def Let_def pool_ipv6_def split: if_splits option.splits)

lemma acquire_Inl_state:
  assumes "acquire m i now = (Inl e, m')"
  shows "m' = m \<or> m' = snd (reap_expired_locked m now)"
  using assms by (auto simp: acquire_def Let_def split: if_splits option.splits)

lemma renew_SomeE:
  assumes "renew m l now = (Some l', m')"
  obtains r cur where "r = snd (reap_expired_locked m now)"
    "map_of (leases_by_identity r) (lease_identity l) = Some cur"
    "lease_id cur = lease_id l" "lease_address cur = lease_address l"
    "l' = cur\<lparr>expires_at := plus_seconds now (lease_duration m)\<rparr>"
    "m' = r\<lparr>leases_by_identity := AList.update (lease_identity l) l' (leases_by_identity r)\<rparr>"
  using assms by (auto simp: renew_def Let_def split: if_splits option.splits)

lemma renew_None_state:
  "renew m l now = (None, m') \<Longrightarrow> m' = snd (reap_expired_locked m now)
     \<and> \<not> holds (snd (reap_expired_locked m now)) l"
  by (auto simp: renew_def Let_def holds_def split: if_splits option.splits)

lemma release_TrueE:
  assumes "release m l = (True, m')"
  obtains cur where "map_of (leases_by_identity m) (lease_identity l) = Some cur"
    "lease_id cur = lease_id l" "lease_address cur = lease_address l"
    "m' = m\<lparr>identity_by_address := map_erase (to_integer (lease_address l)) (identity_by_address m),
            leases_by_identity := map_erase (lease_identity l) (leases_by_identity m)\<rparr>"
  using assms by (auto simp: release_def split: if_splits option.splits)

lemma release_False: "release m l = (False, m') \<longleftrightarrow> m' = m \<and> \<not> holds m l"
  by (auto simp: release_def holds_def split: if_splits option.splits)

section \<open>Preservation\<close>

lemma u64_incr:
  fixes n :: u64
  assumes "n + 1 \<noteq> 0"
  shows "n < n + 1" "x < n \<Longrightarrow> x < n + 1"
proof -
  have "unat (n + 1) = Suc (unat n)" using unatSuc [of n] assms by (simp add: add.commute)
  then show "n < n + 1" "x < n \<Longrightarrow> x < n + 1" by (simp_all add: word_less_nat_alt)
qed

lemma lm_tables_insert:
  assumes t: "lm_tables r"
    and fresh: "map_of (leases_by_identity r) i = None" "map_of (identity_by_address r) c = None"
    and l: "lease_identity l = i" "to_integer (lease_address l) = c" "lease_wf m' l"
    and old: "\<And>k. lease_wf r k \<Longrightarrow> lease_wf m' k \<and> lease_id k \<noteq> lease_id l"
    and m': "leases_by_identity m' = map_emplace i l (leases_by_identity r)"
      "identity_by_address m' = map_emplace c i (identity_by_address r)"
  shows "lm_tables m'"
proof -
  have ls: "map_of (leases_by_identity m') = (map_of (leases_by_identity r))(i \<mapsto> l)"
    and as: "map_of (identity_by_address m') = (map_of (identity_by_address r))(c \<mapsto> i)"
    using fresh by (simp_all add: m' map_of_emplace)
  show ?thesis
    unfolding lm_tables_def ls as
  proof (intro conjI allI impI)
    show "distinct_keys (leases_by_identity m')" "distinct_keys (identity_by_address m')"
      using t by (simp_all add: m' lm_tables_def)
  next
    fix j k
    assume jk: "((map_of (leases_by_identity r))(i \<mapsto> l)) j = Some k"
    show "lease_identity k = j"
      using jk lm_tablesD(1) [OF t, of j k] l(1) by (cases "j = i") simp_all
    show "lease_wf m' k"
      using jk lm_tablesD(2) [OF t, of j k] old [of k] l(3) by (cases "j = i") simp_all
    show "((map_of (identity_by_address r))(c \<mapsto> i)) (to_integer (lease_address k)) = Some j"
      using jk lm_tablesD(3) [OF t, of j k] fresh(2) l(2) by (cases "j = i") auto
  next
    fix a j
    assume *: "((map_of (identity_by_address r))(c \<mapsto> i)) a = Some j"
    show "\<exists>k. ((map_of (leases_by_identity r))(i \<mapsto> l)) j = Some k \<and> to_integer (lease_address k) = a"
    proof (cases "a = c")
      case True
      with * l(2) show ?thesis by simp
    next
      case False
      with * have "map_of (identity_by_address r) a = Some j" by simp
      then obtain k where k: "map_of (leases_by_identity r) j = Some k" "to_integer (lease_address k) = a"
        by (rule lm_tables_addressD [OF t])
      with fresh(1) have "j \<noteq> i" by auto
      with k show ?thesis by simp
    qed
  next
    fix j j' k k'
    assume "((map_of (leases_by_identity r))(i \<mapsto> l)) j = Some k"
      "((map_of (leases_by_identity r))(i \<mapsto> l)) j' = Some k'" "lease_id k = lease_id k'"
    then show "j = j'"
      using lm_tables_idD [OF t, of j k j' k'] lm_tablesD(2) [OF t, of j k]
        lm_tablesD(2) [OF t, of j' k'] old [of k] old [of k']
      by (cases "j = i"; cases "j' = i") simp_all
  qed
qed

lemma lm_inv_acquire:
  assumes "lm_inv m"
  shows "lm_inv (snd (acquire m i now))"
proof (cases "acquire m i now")
  case (Pair res m')
  show ?thesis
  proof (cases res)
    case (Inl e)
    with Pair acquire_Inl_state [of m i now e m'] assms lm_inv_reap [OF assms]
    show ?thesis by auto
  next
    case (Inr l)
    with Pair have "acquire m i now = (Inr l, m')" by simp
    then obtain r c where r: "r = snd (reap_expired_locked m now)" and i: "i \<noteq> []"
        and fresh: "map_of (leases_by_identity r) i = None"
        and ff: "find_free (identity_by_address r) (first_address m) (last_address m) = Some c"
        and id: "next_lease_id m \<noteq> 0"
        and v6: "lm_ipv6_prefix_length m \<noteq> 0 \<longrightarrow> pool_ipv6 m (from_integer c) \<noteq> ipv6_gateway m"
        and l: "l = \<lparr>lease_id = next_lease_id m, lease_identity = i, lease_address = from_integer c,
          lease_ipv6_address = pool_ipv6 m (from_integer c),
          expires_at = plus_seconds now (lease_duration m)\<rparr>"
        and m': "m' = r\<lparr>next_lease_id := next_lease_id m + 1,
            leases_by_identity := map_emplace i l (leases_by_identity r),
            identity_by_address := map_emplace c i (identity_by_address r)\<rparr>"
      by (rule acquire_InrE)
    have t: "lm_tables r" and c: "lm_config r"
      using lm_inv_reap [OF assms] by (simp_all add: r lm_inv_def)
    have "first_address m \<le> last_address m" using assms by (simp add: lm_inv_def lm_config_def)
    note free = find_free_Some [OF ff this]
    have old: "lease_wf m' k \<and> lease_id k \<noteq> lease_id l" if "lease_wf r k" for k
      using that id u64_incr [of "next_lease_id m"]
      by (auto simp: lease_wf_def m' r pool_ipv6_def l)
    have new: "lease_wf m' l"
      using i free(1,2) id v6 u64_incr [of "next_lease_id m"]
      by (auto simp: lease_wf_def m' r l pool_ipv6_def)
    have "lm_tables m'"
      by (rule lm_tables_insert [OF t fresh free(3) _ _ new old]) (simp_all add: m' l)
    moreover have "lm_config m'" using c by (simp add: lm_config_def m')
    ultimately show ?thesis by (simp add: Pair lm_inv_def)
  qed
qed

lemma lm_tables_replace:
  assumes t: "lm_tables r" and cur: "map_of (leases_by_identity r) i = Some cur"
    and l: "lease_identity l = i" "lease_address l = lease_address cur" "lease_id l = lease_id cur"
      "lease_ipv6_address l = lease_ipv6_address cur"
  shows "lm_tables (r\<lparr>leases_by_identity := AList.update i l (leases_by_identity r)\<rparr>)"
proof -
  let ?m = "r\<lparr>leases_by_identity := AList.update i l (leases_by_identity r)\<rparr>"
  have wf: "lease_wf ?m k \<longleftrightarrow> lease_wf r k" for k by (simp add: lease_wf_def pool_ipv6_def)
  have ls: "map_of (leases_by_identity ?m) = (map_of (leases_by_identity r))(i \<mapsto> l)"
    by (simp add: update_conv')
  have l_wf: "lease_wf r l"
    using lm_tablesD(2) [OF t cur] unfolding lease_wf_def l lm_tablesD(1) [OF t cur] .
  show ?thesis
    unfolding lm_tables_def ls wf
  proof (intro conjI allI impI)
    show "distinct_keys (leases_by_identity ?m)" "distinct_keys (identity_by_address ?m)"
      using t by (simp_all add: lm_tables_def)
  next
    fix j k
    assume jk: "((map_of (leases_by_identity r))(i \<mapsto> l)) j = Some k"
    show "lease_identity k = j"
      using jk lm_tablesD(1) [OF t, of j k] l(1) by (cases "j = i") simp_all
    show "lease_wf r k"
      using jk lm_tablesD(2) [OF t, of j k] l_wf by (cases "j = i") simp_all
    show "map_of (identity_by_address ?m) (to_integer (lease_address k)) = Some j"
      using jk lm_tablesD(3) [OF t, of j k] lm_tablesD(3) [OF t cur] l(2)
      by (cases "j = i") simp_all
  next
    fix a j
    assume "map_of (identity_by_address ?m) a = Some j"
    then have "map_of (identity_by_address r) a = Some j" by simp
    then obtain k where "map_of (leases_by_identity r) j = Some k" "to_integer (lease_address k) = a"
      by (rule lm_tables_addressD [OF t])
    then show "\<exists>k. ((map_of (leases_by_identity r))(i \<mapsto> l)) j = Some k \<and> to_integer (lease_address k) = a"
      using cur l(2) by (cases "j = i") simp_all
  next
    fix j j' k k'
    assume jk: "((map_of (leases_by_identity r))(i \<mapsto> l)) j = Some k"
      "((map_of (leases_by_identity r))(i \<mapsto> l)) j' = Some k'" "lease_id k = lease_id k'"
    have old: "\<exists>k0. map_of (leases_by_identity r) n = Some k0 \<and> lease_id k0 = lease_id h"
      if "((map_of (leases_by_identity r))(i \<mapsto> l)) n = Some h" for n h
      using that cur l(3) by (cases "n = i") simp_all
    from old [OF jk(1)] old [OF jk(2)] jk(3) show "j = j'" by (metis lm_tables_idD [OF t])
  qed
qed

lemma lm_tables_remove:
  assumes t: "lm_tables m" and cur: "map_of (leases_by_identity m) i = Some cur"
  shows "lm_tables (m\<lparr>identity_by_address := map_erase (to_integer (lease_address cur)) (identity_by_address m),
      leases_by_identity := map_erase i (leases_by_identity m)\<rparr>)" (is "lm_tables ?m")
proof -
  have wf: "lease_wf ?m k \<longleftrightarrow> lease_wf m k" for k by (simp add: lease_wf_def pool_ipv6_def)
  have ls: "map_of (leases_by_identity ?m) j = Some k \<longleftrightarrow>
      map_of (leases_by_identity m) j = Some k \<and> j \<noteq> i" for j k by simp
  have as: "map_of (identity_by_address ?m) a = Some j \<longleftrightarrow>
      map_of (identity_by_address m) a = Some j \<and> j \<noteq> i" for a j
  proof -
    have "a = to_integer (lease_address cur) \<longleftrightarrow> j = i" if *: "map_of (identity_by_address m) a = Some j"
    proof -
      obtain k where "map_of (leases_by_identity m) j = Some k" "to_integer (lease_address k) = a"
        using * by (rule lm_tables_addressD [OF t])
      with cur lm_tablesD(3) [OF t cur] * show ?thesis by auto
    qed
    then show ?thesis by auto
  qed
  show ?thesis
    unfolding lm_tables_def ls as wf
  proof (intro conjI allI impI)
    show "distinct_keys (leases_by_identity ?m)" "distinct_keys (identity_by_address ?m)"
      using t by (simp_all add: lm_tables_def)
  next
    fix a j
    assume "map_of (identity_by_address m) a = Some j \<and> j \<noteq> i"
    then show "\<exists>k. (map_of (leases_by_identity m) j = Some k \<and> j \<noteq> i) \<and> to_integer (lease_address k) = a"
      by (metis lm_tables_addressD [OF t])
  next
    fix j j' k k'
    assume "map_of (leases_by_identity m) j = Some k \<and> j \<noteq> i"
      "map_of (leases_by_identity m) j' = Some k' \<and> j' \<noteq> i" "lease_id k = lease_id k'"
    then show "j = j'" by (metis lm_tables_idD [OF t])
  qed (auto dest: lm_tablesD [OF t])
qed

lemma lm_inv_renew: assumes "lm_inv m" shows "lm_inv (snd (renew m l now))"
proof (cases "renew m l now")
  case (Pair res m')
  have r: "lm_inv (snd (reap_expired_locked m now))" by (rule lm_inv_reap [OF assms])
  show ?thesis
  proof (cases res)
    case None
    with Pair renew_None_state [of m l now m'] r show ?thesis by simp
  next
    case (Some l')
    with Pair have "renew m l now = (Some l', m')" by simp
    then obtain r cur where *: "r = snd (reap_expired_locked m now)"
      "map_of (leases_by_identity r) (lease_identity l) = Some cur"
      "lease_id cur = lease_id l" "lease_address cur = lease_address l"
      "l' = cur\<lparr>expires_at := plus_seconds now (lease_duration m)\<rparr>"
      "m' = r\<lparr>leases_by_identity := AList.update (lease_identity l) l' (leases_by_identity r)\<rparr>"
      by (rule renew_SomeE)
    then have "lm_tables r" "lm_config r" using r by (simp_all add: lm_inv_def)
    with * lm_tables_replace [of r "lease_identity l" cur l'] lm_tablesD(1) [of r] Pair
    show ?thesis by (simp add: lm_inv_def lm_config_def)
  qed
qed

lemma lm_inv_release: assumes "lm_inv m" shows "lm_inv (snd (release m l))"
proof (cases "release m l")
  case (Pair res m')
  show ?thesis
  proof (cases res)
    case False
    with Pair assms release_False [of m l m'] show ?thesis by simp
  next
    case True
    with Pair have "release m l = (True, m')" by simp
    then obtain cur where "map_of (leases_by_identity m) (lease_identity l) = Some cur"
      "lease_address cur = lease_address l"
      "m' = m\<lparr>identity_by_address := map_erase (to_integer (lease_address l)) (identity_by_address m),
            leases_by_identity := map_erase (lease_identity l) (leases_by_identity m)\<rparr>"
      by (rule release_TrueE)
    with lm_tables_remove [of m "lease_identity l" cur] assms Pair
    show ?thesis by (simp add: lm_inv_def lm_config_def)
  qed
qed

section \<open>Lease identifiers\<close>

text \<open>An identifier that has been handed out before.\<close>

definition id_used :: "LeaseManager \<Rightarrow> u64 \<Rightarrow> bool" where
  "id_used m i \<longleftrightarrow> next_lease_id m = 0 \<or> i < next_lease_id m"

lemma id_used_acquire:
  "id_used m i \<Longrightarrow> acquire m j now = (Inr l, m') \<Longrightarrow>
     id_used m' i \<and> id_used m' (lease_id l) \<and> lease_id l \<noteq> i"
  using u64_incr [of "next_lease_id m"]
  by (elim acquire_InrE) (auto simp: id_used_def)

lemma lookup_reap:
  assumes "lm_inv m" "map_of (leases_by_identity (snd (reap_expired_locked m now))) i = Some l"
  shows "map_of (leases_by_identity m) i = Some l \<and> \<not> expired now l"
  using assms by (auto simp: lm_inv_def lm_tables_def reap_leases split: option.splits if_splits)

lemma holds_reapD: "lm_inv m \<Longrightarrow> holds (snd (reap_expired_locked m now)) l \<Longrightarrow> holds m l"
  by (auto simp: holds_def dest: lookup_reap)

lemma holds_renewD:
  assumes "lm_inv m" "holds (snd (renew m l now)) k"
  shows "holds m k"
proof (cases "renew m l now")
  case (Pair res m')
  show ?thesis
  proof (cases res)
    case None
    with Pair renew_None_state [of m l now m'] assms holds_reapD show ?thesis by auto
  next
    case (Some l')
    with Pair have "renew m l now = (Some l', m')" by simp
    then have "holds (snd (reap_expired_locked m now)) k"
      using assms(2) Pair by (elim renew_SomeE) (auto simp: holds_def update_conv' split: if_splits)
    with assms(1) show ?thesis by (rule holds_reapD)
  qed
qed

lemma holds_releaseD: "holds (snd (release m l)) k \<Longrightarrow> holds m k"
  by (auto simp: release_def holds_def split: option.splits if_splits)

lemma holds_acquireD:
  assumes "lm_inv m" "holds (snd (acquire m i now)) k" "id_used m (lease_id k)"
  shows "holds m k"
proof (cases "acquire m i now")
  case (Pair res m')
  show ?thesis
  proof (cases res)
    case (Inl e)
    with Pair acquire_Inl_state [of m i now e m'] assms holds_reapD show ?thesis by auto
  next
    case (Inr l)
    with Pair have acq: "acquire m i now = (Inr l, m')" by simp
    then have "lease_id l \<noteq> lease_id k" using id_used_acquire assms(3) by blast
    moreover have "holds m' k" using assms(2) Pair by simp
    ultimately have "holds (snd (reap_expired_locked m now)) k"
      using acq
      by (elim acquire_InrE) (auto simp: holds_def map_of_emplace split: if_splits)
    with assms(1) show ?thesis by (rule holds_reapD)
  qed
qed

section \<open>The service the sessions rely on\<close>

text \<open>
  What a session may assume of the manager, whatever other sessions do: an acquired or renewed
  lease is held, a released one is not, and no two identities hold the same address.
\<close>

locale lease_service =
  fixes invar :: "'s \<Rightarrow> bool"
    and held :: "'s \<Rightarrow> Lease \<Rightarrow> bool"
    and acq :: "'s \<Rightarrow> string \<Rightarrow> int \<Rightarrow> Lease result \<times> 's"
    and ren :: "'s \<Rightarrow> Lease \<Rightarrow> int \<Rightarrow> Lease option \<times> 's"
    and rel :: "'s \<Rightarrow> Lease \<Rightarrow> bool \<times> 's"
  assumes acq_invar: "invar s \<Longrightarrow> acq s i now = (res, s') \<Longrightarrow> invar s'"
    and ren_invar: "invar s \<Longrightarrow> ren s l now = (opt, s') \<Longrightarrow> invar s'"
    and rel_invar: "invar s \<Longrightarrow> rel s l = (b, s') \<Longrightarrow> invar s'"
    and acq_held: "invar s \<Longrightarrow> acq s i now = (Inr l, s') \<Longrightarrow> held s' l \<and> lease_identity l = i"
    and ren_held: "invar s \<Longrightarrow> ren s l now = (Some l', s') \<Longrightarrow>
      held s l \<and> held s' l' \<and> lease_identity l' = lease_identity l
      \<and> lease_address l' = lease_address l \<and> lease_id l' = lease_id l"
    and rel_not_held: "invar s \<Longrightarrow> rel s l = (b, s') \<Longrightarrow> \<not> held s' l"
    and rel_others: "invar s \<Longrightarrow> rel s l = (b, s') \<Longrightarrow> held s k \<Longrightarrow>
      lease_identity k \<noteq> lease_identity l \<Longrightarrow> held s' k"
    and held_exclusive: "invar s \<Longrightarrow> held s l \<Longrightarrow> held s k \<Longrightarrow>
      lease_address l = lease_address k \<Longrightarrow> lease_identity l = lease_identity k"
begin

text \<open>A successful renewal proves that nobody else holds the address at that moment.\<close>

lemma renewed_alone:
  "invar s \<Longrightarrow> ren s l now = (Some l', s') \<Longrightarrow> held s' k \<Longrightarrow>
     lease_address k = lease_address l \<Longrightarrow> lease_identity k = lease_identity l"
  using ren_held [of s l now l' s'] ren_invar [of s l now "Some l'" s']
    held_exclusive [of s' l' k] by auto

lemma acquired_alone:
  "invar s \<Longrightarrow> acq s i now = (Inr l, s') \<Longrightarrow> held s' k \<Longrightarrow>
     lease_address k = lease_address l \<Longrightarrow> lease_identity k = i"
  using acq_held [of s i now l s'] acq_invar [of s i now "Inr l" s']
    held_exclusive [of s' l k] by auto

end

lemma holds_exclusive:
  assumes "lm_inv m" "holds m l" "holds m k" "lease_address l = lease_address k"
  shows "lease_identity l = lease_identity k"
proof -
  from assms obtain cl ck where
    "map_of (leases_by_identity m) (lease_identity l) = Some cl"
    "map_of (leases_by_identity m) (lease_identity k) = Some ck"
    "lease_address cl = lease_address ck" by (auto simp: holds_def)
  with assms(1) lm_tablesD(3) show ?thesis by (metis lm_inv_def option.inject)
qed

interpretation lease_mgr: lease_service lm_inv holds acquire renew release
proof
  fix m i now l m' l' k b
  assume inv: "lm_inv m"
  show "lm_inv m'" if "acquire m i now = (res, m')" for res
    using lm_inv_acquire [OF inv, of i now] that by simp
  show "lm_inv m'" if "renew m l now = (opt, m')" for opt
    using lm_inv_renew [OF inv, of l now] that by simp
  show "lm_inv m'" if "release m l = (b, m')"
    using lm_inv_release [OF inv, of l] that by simp
  show "holds m' l \<and> lease_identity l = i" if "acquire m i now = (Inr l, m')"
    using that by (elim acquire_InrE) (auto simp: holds_def map_of_emplace)
  show "holds m l \<and> holds m' l' \<and> lease_identity l' = lease_identity l
      \<and> lease_address l' = lease_address l \<and> lease_id l' = lease_id l"
    if ren: "renew m l now = (Some l', m')"
  proof -
    obtain r cur where *: "r = snd (reap_expired_locked m now)"
      "map_of (leases_by_identity r) (lease_identity l) = Some cur"
      "lease_id cur = lease_id l" "lease_address cur = lease_address l"
      "l' = cur\<lparr>expires_at := plus_seconds now (lease_duration m)\<rparr>"
      "m' = r\<lparr>leases_by_identity := AList.update (lease_identity l) l' (leases_by_identity r)\<rparr>"
      using ren by (rule renew_SomeE)
    have "lease_identity cur = lease_identity l"
      using lm_tablesD(1) [of r] lm_inv_reap [OF inv, of now] * by (simp add: lm_inv_def)
    moreover have "holds r l" using * by (auto simp: holds_def)
    then have "holds m l" using holds_reapD [OF inv] *(1) by simp
    ultimately show ?thesis using * by (simp add: holds_def update_conv')
  qed
  show "\<not> holds m' l" if "release m l = (b, m')"
    using that release_False [of m l m']
    by (cases b) (auto elim!: release_TrueE simp: holds_def)
  show "holds m' k" if "release m l = (b, m')" "holds m k" "lease_identity k \<noteq> lease_identity l"
    using that release_False [of m l m']
    by (cases b) (auto elim!: release_TrueE simp: holds_def)
  show "lease_identity l = lease_identity k"
    if "holds m l" "holds m k" "lease_address l = lease_address k"
    using holds_exclusive [OF inv that] .
qed

text \<open>What a session sends to its client is well formed.\<close>

lemma acquired_wf:
  assumes "lm_inv m" "acquire m i now = (Inr l, m')"
  shows "lm_inv m' \<and> lease_wf m' l"
proof -
  have inv: "lm_inv m'" using lease_mgr.acq_invar [OF assms] .
  have "map_of (leases_by_identity m') i = Some l"
    using assms(2) by (elim acquire_InrE) (simp add: map_of_emplace)
  with inv show ?thesis by (simp add: lm_inv_def lm_tablesD(2))
qed

lemma to_assignment_wf: "lm_inv m \<Longrightarrow> lease_wf m l \<Longrightarrow> wf_IpAssignment (to_assignment m l)"
  by (simp add: lm_inv_def lm_config_def lease_wf_def pool_ipv6_def wf_IpAssignment_def
      to_assignment_def derive_ipv6_def zero_ipv6_def)

section \<open>Runs of the manager\<close>

datatype lease_event =
    Ev_acquire string int
  | Ev_find string int
  | Ev_renew Lease int
  | Ev_owns string bytes int
  | Ev_release Lease
  | Ev_reap int
  | Ev_active_count int
  | Ev_available_count int

fun lease_step :: "lease_event \<Rightarrow> LeaseManager \<Rightarrow> LeaseManager" where
  "lease_step (Ev_acquire identity now) m = snd (acquire m identity now)"
| "lease_step (Ev_find identity now) m = snd (find_by_identity m identity now)"
| "lease_step (Ev_renew lease now) m = snd (renew m lease now)"
| "lease_step (Ev_owns identity address now) m = snd (owns m identity address now)"
| "lease_step (Ev_release lease) m = snd (release m lease)"
| "lease_step (Ev_reap now) m = snd (reap_expired m now)"
| "lease_step (Ev_active_count now) m = snd (active_count m now)"
| "lease_step (Ev_available_count now) m = snd (available_count m now)"

lemmas only_reaps = find_by_identity_def owns_def reap_expired_def active_count_def
  available_count_def Let_def

lemma lease_step_inv: "lm_inv m \<Longrightarrow> lm_inv (lease_step e m)"
  by (cases e) (simp_all add: lm_inv_acquire lm_inv_renew lm_inv_release only_reaps lm_inv_reap)

interpretation lease_machine: event_machine lease_step lm_inv
  by unfold_locales (rule lease_step_inv)

lemma acquire_id_used: "acquire m i now = (Inr l, m') \<Longrightarrow> id_used m' (lease_id l)"
  using u64_incr [of "next_lease_id m"]
  by (cases "next_lease_id m + 1 = 0") (auto elim!: acquire_InrE simp: id_used_def)

lemma id_used_step: "id_used m i \<Longrightarrow> id_used (lease_step e m) i"
proof (cases e)
  case (Ev_acquire x now)
  assume used: "id_used m i"
  show ?thesis
  proof (cases "acquire m x now")
    case (Pair res m')
    with Ev_acquire used id_used_acquire [OF used, of x now _ m'] acquire_Inl_state [of m x now _ m']
    show ?thesis by (cases res) (auto simp: id_used_def)
  qed
qed (auto simp: renew_def release_def only_reaps id_used_def split: option.splits)

lemma id_used_run: "id_used m i \<Longrightarrow> id_used (fold lease_step es m) i"
  by (induction es arbitrary: m) (simp_all add: id_used_step)

lemma holds_stepD:
  "lm_inv m \<Longrightarrow> id_used m (lease_id l) \<Longrightarrow> holds (lease_step e m) l \<Longrightarrow> holds m l"
  by (cases e) (simp_all add: only_reaps holds_acquireD holds_renewD holds_releaseD holds_reapD)

lemma not_held_run:
  "lm_inv m \<Longrightarrow> id_used m (lease_id l) \<Longrightarrow> \<not> holds m l \<Longrightarrow> \<not> holds (fold lease_step es m) l"
proof (induction es arbitrary: m)
  case (Cons e es)
  then have "\<not> holds (lease_step e m) l" using holds_stepD by blast
  with Cons show ?case by (simp add: lease_step_inv id_used_step)
qed simp

text \<open>The constant members of the class.\<close>

definition config_of where
  "config_of m = (first_address m, last_address m, lm_gateway_address m, lm_prefix_length m, lm_mtu m,
     lease_duration m, ipv6_prefix m, ipv6_gateway m, lm_ipv6_prefix_length m)"

lemma config_of_reap [simp]: "config_of (snd (reap_expired_locked m now)) = config_of m"
  by (simp add: config_of_def)

lemma config_of_acquire [simp]: "config_of (snd (acquire m i now)) = config_of m"
  by (simp add: acquire_def Let_def config_of_def split: option.splits)

lemma config_of_renew [simp]: "config_of (snd (renew m l now)) = config_of m"
  by (simp add: renew_def Let_def config_of_def split: option.splits)

lemma config_of_release [simp]: "config_of (snd (release m l)) = config_of m"
  by (simp add: release_def Let_def config_of_def split: option.splits)

lemma config_of_step [simp]: "config_of (lease_step e m) = config_of m"
  by (cases e) (simp_all add: only_reaps)

lemma config_of_run [simp]: "config_of (fold lease_step es m) = config_of m"
  by (induction es arbitrary: m) simp_all

lemma config_of_new:
  "new_LeaseManager f l g p u d vp vg vl = Inr m \<Longrightarrow>
     config_of m = (to_integer f, to_integer l, g, p, u, d, vp, vg, vl)"
  by (auto simp: new_LeaseManager_def config_of_def Let_def split: if_splits)

lemma reachable_config:
  assumes "new_LeaseManager f l g p u d vp vg vl = Inr m0" "m = fold lease_step events m0"
  shows "first_address m = to_integer f" "last_address m = to_integer l"
    "lm_gateway_address m = g" "ipv6_gateway m = vg" "lm_ipv6_prefix_length m = vl"
    "ipv6_prefix m = vp" "lease_duration m = d" "lm_mtu m = u" "lm_prefix_length m = p"
  using config_of_new [OF assms(1)] config_of_run [of events m0]
  by (simp_all add: assms(2) config_of_def)

lemma reachable_inv:
  assumes "new_LeaseManager f l g p u d vp vg vl = Inr m0"
    "length g = 4" "length vp = 16" "length vg = 16" "m = fold lease_step events m0"
  shows "lm_inv m"
  unfolding assms(5) by (rule lease_machine.run_invar [OF lm_inv_new [OF assms(1-4)]])

text \<open>An address that an unexpired lease occupies.\<close>

definition in_use :: "LeaseManager \<Rightarrow> int \<Rightarrow> u32 \<Rightarrow> bool" where
  "in_use m now a \<longleftrightarrow>
     (\<exists>j k. map_of (leases_by_identity m) j = Some k \<and> now < expires_at k
        \<and> to_integer (lease_address k) = a)"

lemma in_use_reap:
  assumes "lm_inv m"
  shows "map_of (identity_by_address (snd (reap_expired_locked m now))) a \<noteq> None \<longleftrightarrow> in_use m now a"
proof -
  have t: "lm_tables m" using assms by (simp add: lm_inv_def)
  show ?thesis
  proof
    assume "map_of (identity_by_address (snd (reap_expired_locked m now))) a \<noteq> None"
    then obtain i l where *: "map_of (identity_by_address m) a = Some i"
      "map_of (leases_by_identity m) i = Some l" "\<not> expired now l"
      by (auto simp: reap_addresses [OF t] split: option.splits if_splits)
    then obtain k where "map_of (leases_by_identity m) i = Some k" "to_integer (lease_address k) = a"
      by (metis lm_tables_addressD [OF t])
    with * show "in_use m now a" unfolding in_use_def expired_def not_le by auto
  next
    assume "in_use m now a"
    then obtain j k where *: "map_of (leases_by_identity m) j = Some k" "now < expires_at k"
      "to_integer (lease_address k) = a" by (auto simp: in_use_def)
    with lm_tablesD(3) [OF t *(1)]
    show "map_of (identity_by_address (snd (reap_expired_locked m now))) a \<noteq> None"
      by (simp add: reap_addresses [OF t] expired_def)
  qed
qed

lemma active_reap:
  assumes "lm_inv m"
  shows "map_of (leases_by_identity (snd (reap_expired_locked m now))) i = Some l \<longleftrightarrow>
    map_of (leases_by_identity m) i = Some l \<and> now < expires_at l"
  using assms
  by (auto simp: lm_inv_def lm_tables_def reap_leases expired_def split: option.splits if_splits)

section \<open>Counting\<close>

lemma card_word_interval:
  fixes a :: u32
  assumes "a \<le> b"
  shows "card {a..b} = unat b - unat a + 1"
proof -
  have "unat ` {a..b} = {unat a..unat b}"
  proof
    show "{unat a..unat b} \<subseteq> unat ` {a..b}"
    proof
      fix n assume n: "n \<in> {unat a..unat b}"
      then have "n < 2 ^ 32" using unsigned_less [where 'a=nat, of b] by simp
      then have u: "unat (word_of_nat n :: u32) = n" by (simp add: unat_of_nat)
      with n show "n \<in> unat ` {a..b}"
        by (intro image_eqI [of _ _ "word_of_nat n"]) (auto simp: word_le_nat_alt)
    qed
  qed (auto simp: word_le_nat_alt)
  moreover have "inj_on unat {a..b}" by (simp add: inj_on_def word_unat_eq_iff)
  ultimately have "card {a..b} = card {unat a..unat b}" by (metis card_image)
  then show ?thesis using assms by (simp add: word_le_nat_alt)
qed

lemma same_size_tables:
  assumes "lm_inv m"
  shows "length (leases_by_identity m) = card (dom (map_of (identity_by_address m)))"
proof -
  have t: "lm_tables m" using assms by (simp add: lm_inv_def)
  let ?L = "map_of (leases_by_identity m)" and ?A = "map_of (identity_by_address m)"
  have L: "?A (to_integer (lease_address l)) = Some i" if "?L i = Some l" for i l
    using lm_tablesD(3) [OF t that] .
  have A: "\<exists>l. ?L i = Some l \<and> to_integer (lease_address l) = a" if "?A a = Some i" for a i
    using lm_tables_addressD [OF t that] by blast
  have "bij_betw (\<lambda>i. to_integer (lease_address (the (?L i)))) (dom ?L) (dom ?A)"
    by (rule bij_betw_byWitness [where f' = "\<lambda>a. the (?A a)"]) (use L A in force)+
  then have "card (dom ?L) = card (dom ?A)" by (rule bij_betw_same_card)
  moreover have "distinct_keys (leases_by_identity m)" using t by (simp add: lm_tables_def)
  ultimately show ?thesis by (simp add: card_distinct_keys)
qed

lemma pool_bound:
  assumes "lm_inv m"
  shows "dom (map_of (identity_by_address m)) \<subseteq> {first_address m..last_address m}"
    "length (leases_by_identity m) \<le> unat (last_address m) - unat (first_address m) + 1"
proof -
  have t: "lm_tables m" and c: "first_address m \<le> last_address m"
    using assms by (simp_all add: lm_inv_def lm_config_def)
  show *: "dom (map_of (identity_by_address m)) \<subseteq> {first_address m..last_address m}"
  proof
    fix a
    assume "a \<in> dom (map_of (identity_by_address m))"
    then obtain i where "map_of (identity_by_address m) a = Some i" by blast
    then obtain l where "map_of (leases_by_identity m) i = Some l" "to_integer (lease_address l) = a"
      by (rule lm_tables_addressD [OF t])
    with lm_tablesD(2) [OF t] show "a \<in> {first_address m..last_address m}"
      by (auto simp: lease_wf_def)
  qed
  show "length (leases_by_identity m) \<le> unat (last_address m) - unat (first_address m) + 1"
    using card_mono [OF _ *] card_word_interval [OF c] same_size_tables [OF assms] by simp
qed

lemma u64_capacity:
  fixes a b :: u32
  assumes "a \<le> b" "n \<le> unat b - unat a + 1"
  shows "unat (ucast b - ucast a + 1 - word_of_nat n :: u64) = unat b - unat a + 1 - n"
proof -
  have b: "unat b < 2 ^ 32" using unsigned_less [where 'a=nat, of b] by simp
  have eq: "(ucast b - ucast a + 1 - word_of_nat n :: u64) = word_of_nat (unat b - unat a + 1 - n)"
    using assms by (simp add: word_le_nat_alt of_nat_diff)
  show ?thesis unfolding eq using b by (simp add: unat_of_nat)
qed

section \<open>A concrete pool\<close>

text \<open>Two addresses, 10.8.0.2 and 10.8.0.3, leased for one hour by the gateway 10.8.0.1.\<close>

definition small_pool :: LeaseManager where
  "small_pool = \<lparr>first_address = 0x0A080002, last_address = 0x0A080003,
     lm_gateway_address = [10, 8, 0, 1], lm_prefix_length = 24, lm_mtu = 1400,
     lease_duration = 3600, ipv6_prefix = zero_ipv6, ipv6_gateway = zero_ipv6,
     lm_ipv6_prefix_length = 0, leases_by_identity = [], identity_by_address = [],
     next_lease_id = 1\<rparr>"

lemma small_pool_new:
  "new_LeaseManager [10, 8, 0, 2] [10, 8, 0, 3] [10, 8, 0, 1] 24 1400 3600 zero_ipv6 zero_ipv6 0
     = Inr small_pool"
  by code_simp

definition small_pool_events :: "lease_event list" where
  "small_pool_events = [Ev_acquire ''alice'' 0, Ev_acquire ''bob'' 5]"

definition small_pool_lease :: "string \<Rightarrow> u8 \<Rightarrow> u64 \<Rightarrow> int \<Rightarrow> Lease" where
  "small_pool_lease who host number expiry =
     \<lparr>lease_id = number, lease_identity = who, lease_address = [10, 8, 0, host],
      lease_ipv6_address = zero_ipv6, expires_at = expiry\<rparr>"

lemma small_pool_run:
  "leases_by_identity (fold lease_step small_pool_events small_pool) =
     [(''bob'', small_pool_lease ''bob'' 3 2 3600000000005),
      (''alice'', small_pool_lease ''alice'' 2 1 3600000000000)]"
  by code_simp

lemma length_zero_ipv6 [simp]: "length zero_ipv6 = 16"
  by (simp add: zero_ipv6_def)

section \<open>Properties\<close>

lemma derive_ipv6_inject:
  "length a = length b \<Longrightarrow> derive_ipv6 p a = derive_ipv6 p b \<longleftrightarrow> a = b"
  by (simp add: derive_ipv6_def)

text \<open>
  C5: after any sequence of calls on a lease manager, two clients never share a lease: their
  IPv4 addresses, their derived IPv6 addresses and their lease identifiers differ, and every
  address handed out lies in the configured pool and is not the gateway's.
\<close>

theorem lease_addresses_exclusive:
  assumes "new_LeaseManager first_a last_a gw prefix u d v6_prefix v6_gw v6_len = Inr m0"
    and "length gw = 4" "length v6_prefix = 16" "length v6_gw = 16"
    and "m = fold lease_step events m0"
    and "map_of (leases_by_identity m) i = Some k" "map_of (leases_by_identity m) j = Some h" "i \<noteq> j"
  shows "lease_address k \<noteq> lease_address h \<and> lease_id k \<noteq> lease_id h
    \<and> (v6_len \<noteq> 0 \<longrightarrow> lease_ipv6_address k \<noteq> lease_ipv6_address h \<and> lease_ipv6_address k \<noteq> v6_gw)
    \<and> to_integer first_a \<le> to_integer (lease_address k)
    \<and> to_integer (lease_address k) \<le> to_integer last_a
    \<and> lease_address k \<noteq> gw"
proof -
  have inv: "lm_inv m" by (rule reachable_inv [OF assms(1-5)])
  then have t: "lm_tables m" and c: "lm_config m" by (simp_all add: lm_inv_def)
  note cfg = reachable_config [OF assms(1,5)]
  have wf: "lease_wf m k" "lease_wf m h" using lm_tablesD(2) [OF t] assms(6,7) by auto
  have ne: "lease_address k \<noteq> lease_address h"
    using lm_tablesD(3) [OF t assms(6)] lm_tablesD(3) [OF t assms(7)] assms(8) by auto
  moreover have "lease_id k \<noteq> lease_id h" using lm_tables_idD [OF t assms(6,7)] assms(8) by auto
  moreover have "v6_len \<noteq> 0 \<longrightarrow> lease_ipv6_address k \<noteq> lease_ipv6_address h \<and> lease_ipv6_address k \<noteq> v6_gw"
    using wf ne cfg derive_ipv6_inject by (auto simp: lease_wf_def pool_ipv6_def)
  moreover have "lease_address k \<noteq> gw" using wf(1) c cfg(3) by (auto simp: lease_wf_def lm_config_def)
  ultimately show ?thesis using wf(1) cfg by (simp add: lease_wf_def)
qed

theorem lease_addresses_exclusive_witness:
  "map_of (leases_by_identity (fold lease_step small_pool_events small_pool)) ''alice''
     = Some (small_pool_lease ''alice'' 2 1 3600000000000)
   \<and> map_of (leases_by_identity (fold lease_step small_pool_events small_pool)) ''bob''
     = Some (small_pool_lease ''bob'' 3 2 3600000000005)
   \<and> lease_address (small_pool_lease ''alice'' 2 1 3600000000000)
       \<noteq> lease_address (small_pool_lease ''bob'' 3 2 3600000000005)
   \<and> lease_address (small_pool_lease ''alice'' 2 1 3600000000000) \<noteq> [10, 8, 0, 1]"
proof -
  have *: "map_of (leases_by_identity (fold lease_step small_pool_events small_pool)) ''alice''
      = Some (small_pool_lease ''alice'' 2 1 3600000000000)"
    "map_of (leases_by_identity (fold lease_step small_pool_events small_pool)) ''bob''
      = Some (small_pool_lease ''bob'' 3 2 3600000000005)"
    by (simp_all add: small_pool_run)
  show ?thesis
    using lease_addresses_exclusive [OF small_pool_new _ length_zero_ipv6 length_zero_ipv6 refl *] *
    by simp
qed

text \<open>
  C6: what \<open>acquire\<close> does, on every path. It succeeds exactly when the identity is not empty
  and has no unexpired lease, an address of the pool is not in use, identifiers remain, and
  the derived IPv6 address is not the gateway's; it then hands out the lowest free address,
  for the configured duration, with the next identifier. Otherwise it throws the exception of
  the first check that fails.
\<close>

theorem lease_acquire_exact:
  assumes "new_LeaseManager first_a last_a gw prefix u d v6_prefix v6_gw v6_len = Inr m0"
    and "length gw = 4" "length v6_prefix = 16" "length v6_gw = 16"
    and "m = fold lease_step events m0"
  shows "fst (acquire m identity now) =
     (if identity = [] then Inl (Invalid_argument ''lease identity must not be empty'')
      else if \<exists>l. map_of (leases_by_identity m) identity = Some l \<and> now < expires_at l then
        Inl (Runtime_error ''identity already has an active virtual IP lease'')
      else if \<forall>a. to_integer first_a \<le> a \<and> a \<le> to_integer last_a \<longrightarrow> in_use m now a then
        Inl (Runtime_error ''virtual IP lease pool is exhausted'')
      else if next_lease_id m = 0 then
        Inl (Runtime_error ''virtual IP lease generation is exhausted'')
      else
       (let lowest = (LEAST a. to_integer first_a \<le> a \<and> a \<le> to_integer last_a \<and> \<not> in_use m now a);
            ipv6 = (if v6_len \<noteq> 0 then derive_ipv6 v6_prefix (from_integer lowest) else zero_ipv6)
        in if v6_len \<noteq> 0 \<and> ipv6 = v6_gw then
             Inl (Runtime_error ''derived IPv6 lease collides with gateway address'')
           else Inr \<lparr>lease_id = next_lease_id m, lease_identity = identity,
                     lease_address = from_integer lowest, lease_ipv6_address = ipv6,
                     expires_at = now + d * 1000000000\<rparr>))"
proof -
  have inv: "lm_inv m" by (rule reachable_inv [OF assms(1-5)])
  note cfg = reachable_config [OF assms(1,5)]
  let ?r = "snd (reap_expired_locked m now)"
  have le: "to_integer first_a \<le> to_integer last_a"
    using inv cfg by (simp add: lm_inv_def lm_config_def)
  have act: "map_of (leases_by_identity ?r) identity \<noteq> None \<longleftrightarrow>
      (\<exists>l. map_of (leases_by_identity m) identity = Some l \<and> now < expires_at l)"
    using active_reap [OF inv] by (metis not_None_eq)
  have none: "find_free (identity_by_address ?r) (to_integer first_a) (to_integer last_a) = None \<longleftrightarrow>
      (\<forall>a. to_integer first_a \<le> a \<and> a \<le> to_integer last_a \<longrightarrow> in_use m now a)"
    using find_free_None [OF le] in_use_reap [OF inv] by blast
  have low: "c = (LEAST a. to_integer first_a \<le> a \<and> a \<le> to_integer last_a \<and> \<not> in_use m now a)"
    if ff: "find_free (identity_by_address ?r) (to_integer first_a) (to_integer last_a) = Some c" for c
  proof (rule Least_equality [symmetric])
    show "to_integer first_a \<le> c \<and> c \<le> to_integer last_a \<and> \<not> in_use m now c"
      using find_free_Some(1-3) [OF ff le] in_use_reap [OF inv, of now c] by blast
    show "c \<le> b" if "to_integer first_a \<le> b \<and> b \<le> to_integer last_a \<and> \<not> in_use m now b" for b
      using find_free_Some(4) [OF ff le, of b] in_use_reap [OF inv, of now b] that
      by (meson not_less)
  qed
  show ?thesis
    using act none low
    by (cases "find_free (identity_by_address ?r) (to_integer first_a) (to_integer last_a)")
      (auto simp: acquire_def Let_def cfg plus_seconds_def)
qed

theorem lease_acquire_exact_witness:
  "fst (acquire (fold lease_step small_pool_events small_pool) ''alice'' 10)
     = Inl (Runtime_error ''identity already has an active virtual IP lease'')"
  by (simp add: lease_acquire_exact [OF small_pool_new _ length_zero_ipv6 length_zero_ipv6 refl]
      small_pool_run small_pool_lease_def)

text \<open>
  The counters are exact. The number of active leases and the number of available
  addresses add up to the size of the pool, and no address is available exactly when every
  address of the pool is in use; the 64-bit subtraction never wraps.
\<close>

theorem lease_counts_exact:
  assumes "new_LeaseManager first_a last_a gw prefix u d v6_prefix v6_gw v6_len = Inr m0"
    and "length gw = 4" "length v6_prefix = 16" "length v6_gw = 16"
    and "m = fold lease_step events m0"
  shows "fst (active_count m now) + fst (available_count m now)
      = unat (to_integer last_a) - unat (to_integer first_a) + 1
    \<and> (fst (available_count m now) = 0 \<longleftrightarrow>
         (\<forall>a. to_integer first_a \<le> a \<and> a \<le> to_integer last_a \<longrightarrow> in_use m now a))"
proof -
  let ?r = "snd (reap_expired_locked m now)"
  let ?f = "to_integer first_a" and ?l = "to_integer last_a"
  let ?n = "length (leases_by_identity ?r)" and ?A = "dom (map_of (identity_by_address ?r))"
  have inv: "lm_inv m" by (rule reachable_inv [OF assms(1-5)])
  note cfg = reachable_config [OF assms(1,5)]
  have r: "lm_inv ?r" by (rule lm_inv_reap [OF inv])
  have le: "?f \<le> ?l" using inv cfg by (simp add: lm_inv_def lm_config_def)
  have bound: "?n \<le> unat ?l - unat ?f + 1" and sub: "?A \<subseteq> {?f..?l}"
    using pool_bound [OF r] cfg by simp_all
  have avail: "fst (available_count m now) = unat ?l - unat ?f + 1 - ?n"
    using u64_capacity [OF le bound] cfg by (simp add: available_count_def Let_def)
  have use: "a \<in> ?A \<longleftrightarrow> in_use m now a" for a using in_use_reap [OF inv, of now a] by blast
  have n: "?n = card ?A" by (rule same_size_tables [OF r])
  have "fst (available_count m now) = 0 \<longleftrightarrow> ?A = {?f..?l}"
    using avail n bound card_word_interval [OF le] card_subset_eq [OF _ sub] by force
  also have "\<dots> \<longleftrightarrow> (\<forall>a. ?f \<le> a \<and> a \<le> ?l \<longrightarrow> in_use m now a)"
    using sub use unfolding set_eq_iff subset_iff atLeastAtMost_iff by blast
  finally show ?thesis using avail bound by (simp add: active_count_def Let_def)
qed

theorem lease_counts_exact_witness:
  "fst (active_count (fold lease_step small_pool_events small_pool) 10)
     + fst (available_count (fold lease_step small_pool_events small_pool) 10) = 2"
proof -
  have "to_integer [10, 8, 0, 2] = 0x0A080002" "to_integer [10, 8, 0, 3] = 0x0A080003"
    by code_simp+
  then show ?thesis
    using lease_counts_exact [OF small_pool_new _ length_zero_ipv6 length_zero_ipv6 refl,
        of small_pool_events 10] by simp
qed

text \<open>
  A lease that is no longer held (released, or expired and reaped) is never held again,
  whatever happens later, even when its address is given to somebody else or back to the same
  client: renewing it fails and releasing it changes nothing, so a stale session cannot
  disturb the new holder.
\<close>

theorem lease_never_revived:
  assumes "new_LeaseManager first_a last_a gw prefix u d v6_prefix v6_gw v6_len = Inr m0"
    and "length gw = 4" "length v6_prefix = 16" "length v6_gw = 16"
    and "m = fold lease_step events m0"
    and "acquire m identity now = (Inr l, m1)"
    and "m2 = fold lease_step events1 m1" and "\<not> holds m2 l"
    and "m3 = fold lease_step events2 m2"
  shows "\<not> holds m3 l \<and> fst (renew m3 l t) = None \<and> release m3 l = (False, m3)"
proof -
  have inv: "lm_inv m" by (rule reachable_inv [OF assms(1-5)])
  have m1: "lm_inv m1" "id_used m1 (lease_id l)"
    using lm_inv_acquire [OF inv, of identity now] assms(6) acquire_id_used [OF assms(6)]
    by simp_all
  have m2: "lm_inv m2" "id_used m2 (lease_id l)"
    using lease_machine.run_invar [OF m1(1)] id_used_run [OF m1(2)] by (simp_all add: assms(7))
  then have "\<not> holds m3 l" unfolding assms(9) using assms(8) by (rule not_held_run)
  moreover have m3: "lm_inv m3"
    unfolding assms(9) using m2(1) by (rule lease_machine.run_invar)
  moreover have "fst (renew m3 l t) = None"
  proof (cases "renew m3 l t")
    case (Pair res m')
    with lease_mgr.ren_held [OF m3, of l t _ m'] calculation(1) show ?thesis by (cases res) auto
  qed
  ultimately show ?thesis by (simp add: release_False)
qed

theorem lease_never_revived_witness:
  "\<exists>m1 m2. acquire small_pool ''alice'' 0 = (Inr (small_pool_lease ''alice'' 2 1 3600000000000), m1)
     \<and> m2 = fold lease_step [Ev_release (small_pool_lease ''alice'' 2 1 3600000000000),
         Ev_acquire ''alice'' 7] m1
     \<and> release m2 (small_pool_lease ''alice'' 2 1 3600000000000) = (False, m2)"
proof -
  let ?l = "small_pool_lease ''alice'' 2 1 3600000000000"
  let ?m1 = "small_pool\<lparr>next_lease_id := 2, leases_by_identity := [(''alice'', ?l)],
    identity_by_address := [(0x0A080002, ''alice'')]\<rparr>"
  have acq: "acquire small_pool ''alice'' 0 = (Inr ?l, ?m1)" by code_simp
  have gone: "\<not> holds (fold lease_step [Ev_release ?l] ?m1) ?l"
    by (simp add: release_def holds_def small_pool_lease_def)
  show ?thesis
    using acq lease_never_revived [OF small_pool_new _ length_zero_ipv6 length_zero_ipv6 _ acq refl gone,
        of "[]" "fold lease_step [Ev_acquire ''alice'' 7] (fold lease_step [Ev_release ?l] ?m1)"
           "[Ev_acquire ''alice'' 7]"]
    by simp
qed

end
