(* ===== verification/Frame_Sequence.thy ===== *)
theory Frame_Sequence
  imports Wire
begin

unbundle bit_operations_syntax

text \<open>
  What the two session controllers share: the big-endian 16-bit fields of IP packets, and the
  numbering of the frames a controller sends.
\<close>

section \<open>Packet fields\<close>

text \<open>The expression \<^verbatim>\<open>(packet[i] << 8) | packet[i + 1]\<close> of both controllers.\<close>

definition be16 :: "bytes \<Rightarrow> nat \<Rightarrow> nat" where
  "be16 packet i = unat (push_bit 8 (ucast (packet ! i)) OR ucast (packet ! (i + 1)) :: u16)"

section \<open>Numbered frames\<close>

text \<open>
  The frames carry the consecutive sequence numbers from \<open>n\<close> on, \<open>n'\<close> is the number after the
  last one, and every frame is one \<open>encode_frame\<close> accepts.
\<close>

definition numbered :: "u64 \<Rightarrow> Frame list \<Rightarrow> u64 \<Rightarrow> bool" where
  "numbered n fs n' \<longleftrightarrow>
     map frame_sequence fs = map (\<lambda>i. n + word_of_nat i) [0..<length fs]
     \<and> n' = n + word_of_nat (length fs)
     \<and> (\<forall>f \<in> set fs. frame_flags f = 0 \<and> length (frame_payload f) \<le> kMaxPayloadSize)"

lemma numbered_Nil [simp]: "numbered n [] n' \<longleftrightarrow> n' = n"
  by (auto simp: numbered_def)

lemma numbered_single [simp]:
  "numbered n [f] n' \<longleftrightarrow> frame_sequence f = n \<and> n' = n + 1 \<and> frame_flags f = 0
     \<and> length (frame_payload f) \<le> kMaxPayloadSize"
  by (auto simp: numbered_def)

lemma numbered_append:
  assumes "numbered n fs n'" "numbered n' gs n''"
  shows "numbered n (fs @ gs) n''"
proof -
  let ?k = "length fs"
  have f: "map frame_sequence fs = map (\<lambda>i. n + word_of_nat i) [0..<?k]" "n' = n + word_of_nat ?k"
      "\<forall>f \<in> set fs. frame_flags f = 0 \<and> length (frame_payload f) \<le> kMaxPayloadSize"
    using assms(1) unfolding numbered_def by blast+
  have g: "map frame_sequence gs = map (\<lambda>i. n' + word_of_nat i) [0..<length gs]"
      "n'' = n' + word_of_nat (length gs)"
      "\<forall>f \<in> set gs. frame_flags f = 0 \<and> length (frame_payload f) \<le> kMaxPayloadSize"
    using assms(2) unfolding numbered_def by blast+
  have shift: "[?k..<?k + length gs] = map (\<lambda>i. i + ?k) [0..<length gs]"
    using map_add_upt [of ?k "length gs"] by (metis add.commute)
  have "map frame_sequence (fs @ gs) = map (\<lambda>i. n + word_of_nat i) [0..<length (fs @ gs)]"
    unfolding map_append f(1) g(1) length_append upt_add_eq_append [OF le0] shift f(2)
    by (simp only: map_map comp_def of_nat_add ac_simps)
  moreover have "n'' = n + word_of_nat (length (fs @ gs))"
    unfolding g(2) f(2) by (simp only: length_append of_nat_add ac_simps)
  ultimately show ?thesis unfolding numbered_def using f(3) g(3) by (auto simp only: set_append Un_iff)
qed

text \<open>The frames of a \<^verbatim>\<open>std::optional<Frame>\<close>.\<close>

definition frame_list :: "Frame option \<Rightarrow> Frame list" where
  "frame_list f = (case f of None \<Rightarrow> [] | Some f \<Rightarrow> [f])"

lemma numbered_encodable:
  "numbered n fs n' \<Longrightarrow> f \<in> set fs \<Longrightarrow> \<exists>bs. encode_frame f = Inr bs"
  by (auto simp: numbered_def encode_frame_Inr_iff)

text \<open>A controller whose every call numbers its frames from where the last one stopped.\<close>

locale numbering = event_machine step invar
  for step :: "'e \<Rightarrow> 's \<Rightarrow> 's" and invar :: "'s \<Rightarrow> bool" +
  fixes next_number :: "'s \<Rightarrow> u64" and sent :: "'e \<Rightarrow> 's \<Rightarrow> Frame list"
  assumes sent_numbered: "invar s \<Longrightarrow> numbered (next_number s) (sent e s) (next_number (step e s))"
begin

lemma run_numbered:
  "invar s \<Longrightarrow> numbered (next_number s) (trace step sent es s) (next_number (fold step es s))"
proof (induction es arbitrary: s)
  case (Cons e es)
  then show ?case using numbered_append [OF sent_numbered] step_invar by simp
qed simp

end

end
