(* ===== verification/Error_Texts.thy ===== *)
theory Error_Texts
  imports Control_Messages
begin

text \<open>
  The exceptions the control codecs throw: each is a \<^verbatim>\<open>std::invalid_argument\<close> whose text
  fits into an ERROR payload, so reporting it to the peer cannot fail. Both session
  controllers rely on this.
\<close>

lemma to_string_u64: "length (to_string (unat (n :: u64))) \<le> 20"
proof -
  have "unat n < 2 ^ 64" using unsigned_less [where 'a=nat, of n] by simp
  also have "\<dots> < 10 ^ 20" by simp
  finally show ?thesis by (rule length_to_string) simp
qed

definition short_error :: "cxx_exception \<Rightarrow> bool" where
  "short_error e \<longleftrightarrow> (case e of
       Invalid_argument t \<Rightarrow> length t \<le> kMaximumErrorMessageSize
     | Runtime_error t \<Rightarrow> length t \<le> kMaximumErrorMessageSize
     | _ \<Rightarrow> False)"

definition refused :: "cxx_exception \<Rightarrow> bool" where
  "refused e \<longleftrightarrow> (\<exists>t. e = Invalid_argument t \<and> length t \<le> kMaximumErrorMessageSize)"

lemma refusedI [simp]: "refused (Invalid_argument t) \<longleftrightarrow> length t \<le> kMaximumErrorMessageSize"
  by (simp add: refused_def)

lemma refused_short: "refused e \<Longrightarrow> short_error e"
  by (auto simp: refused_def short_error_def)

lemma validate_mtu_refused: "validate_mtu v = Inl e \<Longrightarrow> refused e"
  by (auto simp: validate_mtu_def kMaximumErrorMessageSize_def split: if_splits)

lemma validate_ip_assignment_refused: "validate_ip_assignment a = Inl e \<Longrightarrow> refused e"
  by (cases "validate_mtu (mtu a)")
    (auto simp: validate_ip_assignment_def kMaximumErrorMessageSize_def Let_def
      dest: validate_mtu_refused split: if_splits)

lemma encode_ip_assignment_refused: "encode_ip_assignment a = Inl e \<Longrightarrow> refused e"
  by (cases "validate_ip_assignment a")
    (auto simp: encode_ip_assignment_def Let_def dest: validate_ip_assignment_refused)

lemma encode_client_hello_refused: "encode_client_hello h = Inl e \<Longrightarrow> refused e"
  by (auto simp: encode_client_hello_def kMaximumErrorMessageSize_def Let_def split: if_splits)

lemma require_size_refused: "require_size p n name = Inl e \<Longrightarrow> length name \<le> 100 \<Longrightarrow> refused e"
  by (auto simp: require_size_def kMaximumErrorMessageSize_def split: if_splits)

lemma decode_client_hello_refused: "decode_client_hello p = Inl e \<Longrightarrow> refused e"
  by (cases "require_size p 8 ''CLIENT_HELLO''";
      cases "encode_client_hello \<lparr>requested_mtu = read_u16 p, capabilities = read_u32 (drop 4 p)\<rparr>")
    (auto simp: decode_client_hello_def kMaximumErrorMessageSize_def Let_def
      dest: encode_client_hello_refused require_size_refused split: if_splits)

lemma decode_liveness_probe_refused: "decode_liveness_probe p = Inl e \<Longrightarrow> refused e"
  by (cases "require_size p 8 ''liveness probe''")
    (auto simp: decode_liveness_probe_def dest: require_size_refused)

lemma decode_close_message_refused: "decode_close_message p = Inl e \<Longrightarrow> refused e"
  by (cases "require_size p 2 ''CLOSE''")
    (auto simp: decode_close_message_def dest: require_size_refused)

lemma decode_error_message_refused: "decode_error_message p = Inl e \<Longrightarrow> refused e"
  by (auto simp: decode_error_message_def kMaximumErrorMessageSize_def split: if_splits)

lemma decode_ip_assignment_refused: "decode_ip_assignment p = Inl e \<Longrightarrow> refused e"
  by (cases "require_size p 52 ''IP_ASSIGN''")
    (auto simp: decode_ip_assignment_def kMaximumErrorMessageSize_def Let_def and_then_Inl_iff
      dest: require_size_refused validate_ip_assignment_refused split: if_splits)

end
