(* ===== verification/Session_Controller.thy ===== *)
theory Session_Controller
  imports Lease_Manager Frame_Sequence Error_Texts
begin

unbundle bit_operations_syntax

text \<open>
  The server's half of the tunnel protocol, \<^verbatim>\<open>src/core/session_controller.cpp\<close>. A session has
  its own state and works on the lease manager that all sessions share: every operation takes
  both and returns both. An exception that leaves a member function is an \<open>Inl\<close> result.
\<close>

section \<open>State\<close>

datatype SessionState = AwaitingHello | Established | Closing | Closed

datatype SessionErrorCode =
    UnexpectedMessage
  | InvalidSequence
  | InvalidControlPayload
  | LeaseUnavailable
  | InvalidIpv4Packet
  | SourceAddressMismatch
  | InvalidIpv6Packet

fun session_error_code :: "SessionErrorCode \<Rightarrow> u16" where
  "session_error_code UnexpectedMessage = 1"
| "session_error_code InvalidSequence = 2"
| "session_error_code InvalidControlPayload = 3"
| "session_error_code LeaseUnavailable = 4"
| "session_error_code InvalidIpv4Packet = 5"
| "session_error_code SourceAddressMismatch = 6"
| "session_error_code InvalidIpv6Packet = 7"

record SessionResult =
  outbound_frames :: "Frame list"
  packets_to_tun :: "bytes list"
  close_transport :: bool

record SessionController =
  sc_identity :: string
  sc_state :: SessionState
  sc_lease :: "Lease option"
  negotiated_mtu :: u16
  next_expected_sequence :: u64
  next_outbound_sequence :: u64

type_synonym session = "SessionController \<times> LeaseManager"

definition new_SessionController :: "string \<Rightarrow> SessionController result" where
  "new_SessionController authenticated_identity =
     (if authenticated_identity = []
      then Inl (Invalid_argument ''authenticated session identity must not be empty'')
      else Inr \<lparr>sc_identity = authenticated_identity, sc_state = AwaitingHello, sc_lease = None,
                negotiated_mtu = 1400, next_expected_sequence = 1, next_outbound_sequence = 1\<rparr>)"

definition nothing :: SessionResult where
  "nothing = \<lparr>outbound_frames = [], packets_to_tun = [], close_transport = False\<rparr>"

section \<open>Operations\<close>

definition release_lease :: "session \<Rightarrow> session" where
  "release_lease = (\<lambda>(s, m). case sc_lease s of
       None \<Rightarrow> (s, m)
     | Some lease \<Rightarrow> (s\<lparr>sc_lease := None\<rparr>, snd (release m lease)))"

text \<open>The destructor.\<close>

definition destroy_SessionController :: "session \<Rightarrow> LeaseManager" where
  "destroy_SessionController c = snd (release_lease c)"

definition on_transport_closed :: "session \<Rightarrow> session" where
  "on_transport_closed = (\<lambda>(s, m). release_lease (s\<lparr>sc_state := Closed\<rparr>, m))"

definition make_outbound :: "SessionController \<Rightarrow> MessageType \<Rightarrow> bytes \<Rightarrow> Frame \<times> SessionController" where
  "make_outbound s type payload =
     (\<lparr>frame_type = type, frame_flags = 0, frame_sequence = next_outbound_sequence s,
       frame_payload = payload\<rparr>,
      s\<lparr>next_outbound_sequence := next_outbound_sequence s + 1\<rparr>)"

definition session_fail ::
    "session \<Rightarrow> SessionErrorCode \<Rightarrow> string \<Rightarrow> SessionResult result \<times> session" where
  "session_fail = (\<lambda>(s, m) code message.
     case encode_error_message \<lparr>error_code = session_error_code code, error_text = message\<rparr> of
       Inl e \<Rightarrow> (Inl e, (s, m))
     | Inr payload \<Rightarrow>
         (let (frame, s) = make_outbound s Error payload
          in (Inr \<lparr>outbound_frames = [frame], packets_to_tun = [], close_transport = True\<rparr>,
              release_lease (s\<lparr>sc_state := Closing\<rparr>, m))))"

text \<open>
  The validators return \<open>None\<close> for \<^verbatim>\<open>true\<close> and otherwise the error code and message they leave
  in their output arguments; the codes are initialised by the caller.
\<close>

definition validate_ipv4_packet ::
    "SessionController \<Rightarrow> bytes \<Rightarrow> (SessionErrorCode \<times> string) option" where
  "validate_ipv4_packet s packet =
     (case sc_lease s of
        None \<Rightarrow> Some (InvalidIpv4Packet, ''session has no active virtual IP lease'')
      | Some lease \<Rightarrow>
          if length packet < 20 then
            Some (InvalidIpv4Packet, ''IPv4 packet is shorter than the minimum header'')
          else if length packet > unat (negotiated_mtu s) then
            Some (InvalidIpv4Packet, ''IPv4 packet exceeds the negotiated tunnel MTU'')
          else
           (let version = drop_bit 4 (packet ! 0);
                header_length = unat (packet ! 0 AND 0x0F) * 4
            in
            if version \<noteq> 4 \<or> header_length < 20 \<or> header_length > length packet then
              Some (InvalidIpv4Packet, ''IPv4 version or header length is invalid'')
            else if be16 packet 2 \<noteq> length packet then
              Some (InvalidIpv4Packet, ''IPv4 total length does not match the tunnel frame'')
            else if [packet ! 12, packet ! 13, packet ! 14, packet ! 15] \<noteq> lease_address lease then
              Some (SourceAddressMismatch, ''IPv4 source address does not match the authenticated lease'')
            else None))"

definition validate_ipv6_packet ::
    "SessionController \<Rightarrow> bytes \<Rightarrow> (SessionErrorCode \<times> string) option" where
  "validate_ipv6_packet s packet =
     (let refused = Some (InvalidIpv6Packet,
            ''IPv6 packet is invalid or outside the negotiated tunnel policy'')
      in case sc_lease s of
        None \<Rightarrow> refused
      | Some lease \<Rightarrow>
          if lease_ipv6_address lease = zero_ipv6 \<or> length packet < 40
             \<or> length packet > unat (negotiated_mtu s) \<or> drop_bit 4 (packet ! 0) \<noteq> 6 then refused
          else if be16 packet 4 + 40 \<noteq> length packet then
            Some (InvalidIpv6Packet, ''IPv6 payload length does not match the tunnel frame'')
          else if take 16 (drop 8 packet) \<noteq> lease_ipv6_address lease then
            Some (SourceAddressMismatch, ''IPv6 source does not match the authenticated lease'')
          else None)"

text \<open>The body of the \<^verbatim>\<open>try\<close> block that answers CLIENT_HELLO.\<close>

definition answer_hello :: "session \<Rightarrow> Frame \<Rightarrow> int \<Rightarrow> SessionResult result \<times> session" where
  "answer_hello = (\<lambda>(s, m) frame now.
     case decode_client_hello (frame_payload frame) of
       Inl e \<Rightarrow> (Inl e, (s, m))
     | Inr hello \<Rightarrow>
        (case acquire m (sc_identity s) now of
           (Inl e, m) \<Rightarrow> (Inl e, (s, m))
         | (Inr lease, m) \<Rightarrow>
            (let s = s\<lparr>sc_lease := Some lease\<rparr>;
                 assignment = to_assignment m lease;
                 s = s\<lparr>negotiated_mtu := min (requested_mtu hello) (mtu assignment)\<rparr>;
                 assignment = assignment\<lparr>mtu := negotiated_mtu s\<rparr>;
                 s = s\<lparr>sc_state := Established\<rparr>
             in case encode_ip_assignment assignment of
                  Inl e \<Rightarrow> (Inl e, (s, m))
                | Inr payload \<Rightarrow>
                    (let (reply, s) = make_outbound s IpAssign payload
                     in (Inr (nothing\<lparr>outbound_frames := [reply]\<rparr>), (s, m))))))"

text \<open>
  Its two handlers; an exception that is neither \<^verbatim>\<open>std::invalid_argument\<close> nor a
  \<^verbatim>\<open>std::runtime_error\<close> propagates.
\<close>

definition catch_hello :: "SessionResult result \<times> session \<Rightarrow> SessionResult result \<times> session" where
  "catch_hello = (\<lambda>(res, c). case res of
       Inl (Invalid_argument message) \<Rightarrow> session_fail c InvalidControlPayload message
     | Inl (Runtime_error message) \<Rightarrow> session_fail c LeaseUnavailable message
     | Inl (Protocol_error _ message) \<Rightarrow> session_fail c LeaseUnavailable message
     | _ \<Rightarrow> (res, c))"

text \<open>A CLOSE or ERROR message whose payload has been decoded or not.\<close>

definition peer_closed :: "session \<Rightarrow> 'm result \<Rightarrow> SessionResult result \<times> session" where
  "peer_closed = (\<lambda>(s, m) decoded. case decoded of
       Inl (Invalid_argument message) \<Rightarrow> session_fail (s, m) InvalidControlPayload message
     | Inl e \<Rightarrow> (Inl e, (s, m))
     | Inr _ \<Rightarrow>
         (Inr \<lparr>outbound_frames = [], packets_to_tun = [], close_transport = True\<rparr>,
          release_lease (s\<lparr>sc_state := Closed\<rparr>, m)))"

text \<open>The \<^verbatim>\<open>switch\<close> on the type of a frame of an established session.\<close>

definition dispatch :: "session \<Rightarrow> Frame \<Rightarrow> SessionResult result \<times> session" where
  "dispatch = (\<lambda>(s, m) frame.
     case frame_type frame of
       DataIpv4 \<Rightarrow>
        (case validate_ipv4_packet s (frame_payload frame) of
           Some (code, message) \<Rightarrow> session_fail (s, m) code message
         | None \<Rightarrow> (Inr (nothing\<lparr>packets_to_tun := [frame_payload frame]\<rparr>), (s, m)))
     | DataIpv6 \<Rightarrow>
        (case validate_ipv6_packet s (frame_payload frame) of
           Some (code, message) \<Rightarrow> session_fail (s, m) code message
         | None \<Rightarrow> (Inr (nothing\<lparr>packets_to_tun := [frame_payload frame]\<rparr>), (s, m)))
     | Ping \<Rightarrow>
        (case decode_liveness_probe (frame_payload frame) of
           Inl (Invalid_argument message) \<Rightarrow> session_fail (s, m) InvalidControlPayload message
         | Inl e \<Rightarrow> (Inl e, (s, m))
         | Inr probe \<Rightarrow>
             (let (pong, s) = make_outbound s Pong (encode_liveness_probe probe)
              in (Inr (nothing\<lparr>outbound_frames := [pong]\<rparr>), (s, m))))
     | Close \<Rightarrow> peer_closed (s, m) (decode_close_message (frame_payload frame))
     | Error \<Rightarrow> peer_closed (s, m) (decode_error_message (frame_payload frame))
     | _ \<Rightarrow> session_fail (s, m) UnexpectedMessage
              ''message type is not valid in this server session state'')"

definition session_handle :: "session \<Rightarrow> Frame \<Rightarrow> int \<Rightarrow> SessionResult result \<times> session" where
  "session_handle = (\<lambda>(s, m) frame now.
     if sc_state s = Closing \<or> sc_state s = Closed then
       (Inr \<lparr>outbound_frames = [], packets_to_tun = [], close_transport = True\<rparr>, (s, m))
     else if frame_sequence frame \<noteq> next_expected_sequence s then
       session_fail (s, m) InvalidSequence
         (''unexpected inbound sequence; expected '' @ to_string (unat (next_expected_sequence s)))
     else
      (let s = s\<lparr>next_expected_sequence := next_expected_sequence s + 1\<rparr>
       in
       if sc_state s = AwaitingHello then
         (if frame_type frame \<noteq> ClientHello then
            session_fail (s, m) UnexpectedMessage ''CLIENT_HELLO must be the first tunnel message''
          else catch_hello (answer_hello (s, m) frame now))
       else if frame_type frame = DataIpv4 \<or> frame_type frame = DataIpv6 \<or> frame_type frame = Ping then
         (case sc_lease s of
            None \<Rightarrow> (Inl Undefined_behaviour, (s, m))
          | Some lease \<Rightarrow>
             (case renew m lease now of
                (None, m) \<Rightarrow>
                  session_fail (s, m) LeaseUnavailable
                    ''authenticated virtual IP lease has expired or changed''
              | (Some renewed, m) \<Rightarrow> dispatch (s\<lparr>sc_lease := Some renewed\<rparr>, m) frame))
       else dispatch (s, m) frame))"

text \<open>The common end of the two branches of \<open>make_data_to_client\<close>.\<close>

definition renew_and_send ::
    "session \<Rightarrow> Lease \<Rightarrow> MessageType \<Rightarrow> bytes \<Rightarrow> int \<Rightarrow> Frame option \<times> session" where
  "renew_and_send = (\<lambda>(s, m) lease type packet now.
     case renew m lease now of
       (None, m) \<Rightarrow> (None, release_lease (s\<lparr>sc_state := Closing\<rparr>, m))
     | (Some renewed, m) \<Rightarrow>
         (let (frame, s) = make_outbound (s\<lparr>sc_lease := Some renewed\<rparr>) type packet
          in (Some frame, (s, m))))"

definition make_data_to_client :: "session \<Rightarrow> bytes \<Rightarrow> int \<Rightarrow> Frame option \<times> session" where
  "make_data_to_client = (\<lambda>(s, m) packet now.
     case sc_lease s of
       None \<Rightarrow> (None, (s, m))
     | Some lease \<Rightarrow>
         if sc_state s \<noteq> Established \<or> packet = [] \<or> length packet > unat (negotiated_mtu s) then
           (None, (s, m))
         else
          (let version = drop_bit 4 (packet ! 0)
           in
           if version = 6 then
             (if length packet < 40 \<or> lease_ipv6_address lease = zero_ipv6 then (None, (s, m))
              else if be16 packet 4 + 40 \<noteq> length packet
                      \<or> take 16 (drop 24 packet) \<noteq> lease_ipv6_address lease then (None, (s, m))
              else renew_and_send (s, m) lease DataIpv6 packet now)
           else if length packet < 20 then (None, (s, m))
           else
            (let header_length = unat (packet ! 0 AND 0x0F) * 4;
                 total_length = be16 packet 2;
                 destination = [packet ! 16, packet ! 17, packet ! 18, packet ! 19]
             in
             if version \<noteq> 4 \<or> header_length < 20 \<or> header_length > length packet
                \<or> total_length \<noteq> length packet \<or> destination \<noteq> lease_address lease then
               (None, (s, m))
             else renew_and_send (s, m) lease DataIpv4 packet now)))"

section \<open>Texts of the errors\<close>

lemma acquire_short: "acquire m i now = (Inl e, m') \<Longrightarrow> short_error e"
  by (auto simp: acquire_def Let_def short_error_def kMaximumErrorMessageSize_def
      split: if_splits option.splits)

lemma validate_packet_short:
  "validate_ipv4_packet s p = Some (c, t) \<Longrightarrow> length t \<le> kMaximumErrorMessageSize"
  "validate_ipv6_packet s p = Some (c, t) \<Longrightarrow> length t \<le> kMaximumErrorMessageSize"
  by (auto simp: validate_ipv4_packet_def validate_ipv6_packet_def kMaximumErrorMessageSize_def Let_def
      split: if_splits option.splits)

section \<open>Invariant\<close>

text \<open>
  The base holds at every point of a member function, the full invariant between calls: the
  session is established exactly when it has a lease, so no call dereferences a null pointer.
\<close>

definition sess_base :: "session \<Rightarrow> bool" where
  "sess_base = (\<lambda>(s, m). lm_inv m \<and> sc_identity s \<noteq> []
     \<and> (\<forall>l. sc_lease s = Some l \<longrightarrow> lease_identity l = sc_identity s)
     \<and> unat (negotiated_mtu s) \<le> 9000)"

definition sess_inv :: "session \<Rightarrow> bool" where
  "sess_inv = (\<lambda>(s, m). sess_base (s, m) \<and> (sc_state s = Established \<longleftrightarrow> sc_lease s \<noteq> None))"

text \<open>
  What every call guarantees of its result: the frames continue the numbering, the transport
  is closed exactly when the session is over, and a result that closes delivers no packet.
\<close>

definition outcome :: "SessionController \<Rightarrow> SessionResult \<Rightarrow> session \<Rightarrow> bool" where
  "outcome s r = (\<lambda>(s', m'). sess_inv (s', m') \<and> sc_identity s' = sc_identity s
     \<and> numbered (next_outbound_sequence s) (outbound_frames r) (next_outbound_sequence s')
     \<and> (close_transport r \<longleftrightarrow> sc_state s' = Closing \<or> sc_state s' = Closed)
     \<and> (close_transport r \<longrightarrow> packets_to_tun r = [])
     \<and> next_expected_sequence s' = next_expected_sequence s)"

lemma release_lease_fields [simp]:
  "sc_lease (fst (release_lease c)) = None"
  "sc_identity (fst (release_lease c)) = sc_identity (fst c)"
  "sc_state (fst (release_lease c)) = sc_state (fst c)"
  "negotiated_mtu (fst (release_lease c)) = negotiated_mtu (fst c)"
  "next_expected_sequence (fst (release_lease c)) = next_expected_sequence (fst c)"
  "next_outbound_sequence (fst (release_lease c)) = next_outbound_sequence (fst c)"
  by (simp_all add: release_lease_def split: prod.splits option.splits)

lemma release_lease_inv: "lm_inv m \<Longrightarrow> lm_inv (snd (release_lease (s, m)))"
  by (auto simp: release_lease_def lm_inv_release split: option.splits)

lemma release_lease_base:
  "sess_base (s, m) \<Longrightarrow> st \<noteq> Established \<Longrightarrow> sess_inv (release_lease (s\<lparr>sc_state := st\<rparr>, m))"
  using release_lease_inv [of m "s\<lparr>sc_state := st\<rparr>"] release_lease_fields [of "(s\<lparr>sc_state := st\<rparr>, m)"]
  by (cases "release_lease (s\<lparr>sc_state := st\<rparr>, m)") (simp add: sess_inv_def sess_base_def)

lemma fail_outcome:
  assumes "sess_base (s, m)" "length t \<le> kMaximumErrorMessageSize"
  shows "\<exists>r c'. session_fail (s, m) code t = (Inr r, c') \<and> outcome s r c' \<and> close_transport r"
proof -
  obtain payload where payload: "encode_error_message
      \<lparr>error_code = session_error_code code, error_text = t\<rparr> = Inr payload"
    using assms(2) by (simp add: encode_error_message_def)
  then have len: "length payload \<le> kMaxPayloadSize"
    using length_error_message by (fastforce simp: kMaxPayloadSize_def)
  let ?s = "s\<lparr>next_outbound_sequence := next_outbound_sequence s + 1\<rparr>"
  let ?c = "release_lease (?s\<lparr>sc_state := Closing\<rparr>, m)"
  have "sess_base (?s, m)" using assms(1) by (simp add: sess_base_def)
  then have "sess_inv ?c" by (rule release_lease_base) simp
  then have "outcome s \<lparr>outbound_frames = [\<lparr>frame_type = Error, frame_flags = 0,
      frame_sequence = next_outbound_sequence s, frame_payload = payload\<rparr>],
      packets_to_tun = [], close_transport = True\<rparr> ?c"
    using release_lease_fields [of "(?s\<lparr>sc_state := Closing\<rparr>, m)"] len
    by (cases ?c) (simp add: outcome_def)
  with payload show ?thesis
    by (simp add: session_fail_def make_outbound_def Let_def)
qed

lemma outcome_same:
  "outcome s r c \<Longrightarrow> sc_identity s' = sc_identity s \<Longrightarrow>
     next_outbound_sequence s' = next_outbound_sequence s \<Longrightarrow>
     next_expected_sequence s' = next_expected_sequence s \<Longrightarrow> outcome s' r c"
  by (simp add: outcome_def)

lemma catch_hello_outcome:
  assumes "sess_base (s, m)" and "short_error e"
  shows "\<exists>r c'. catch_hello (Inl e, (s, m)) = (Inr r, c') \<and> outcome s r c'"
  using assms fail_outcome [OF assms(1)]
  by (cases e) (fastforce simp: catch_hello_def short_error_def)+

text \<open>What the answer to a decoded hello is, when the pool has a lease.\<close>

definition hello_assignment :: "LeaseManager \<Rightarrow> Lease \<Rightarrow> ClientHelloMessage \<Rightarrow> IpAssignment" where
  "hello_assignment m lease hello =
     (to_assignment m lease)\<lparr>mtu := min (requested_mtu hello) (lm_mtu m)\<rparr>"

definition hello_session :: "SessionController \<Rightarrow> LeaseManager \<Rightarrow> Lease \<Rightarrow> ClientHelloMessage \<Rightarrow> SessionController" where
  "hello_session s m lease hello =
     s\<lparr>sc_lease := Some lease, negotiated_mtu := min (requested_mtu hello) (lm_mtu m),
       sc_state := Established\<rparr>"

lemma answer_hello_acquired:
  assumes "decode_client_hello (frame_payload frame) = Inr hello"
    and "acquire m (sc_identity s) now = (Inr lease, m')"
  shows "answer_hello (s, m) frame now =
    (case encode_ip_assignment (hello_assignment m' lease hello) of
       Inl e \<Rightarrow> (Inl e, (hello_session s m' lease hello, m'))
     | Inr payload \<Rightarrow>
         (Inr (nothing\<lparr>outbound_frames := [\<lparr>frame_type = IpAssign, frame_flags = 0,
             frame_sequence = next_outbound_sequence s, frame_payload = payload\<rparr>]\<rparr>),
          ((hello_session s m' lease hello)\<lparr>next_outbound_sequence := next_outbound_sequence s + 1\<rparr>, m')))"
  using assms
  by (simp add: answer_hello_def hello_assignment_def hello_session_def to_assignment_def
      make_outbound_def Let_def split: sum.splits)

lemma hello_session_base:
  assumes "sess_base (s, m)" "acquire m (sc_identity s) now = (Inr lease, m')"
  shows "sess_base (hello_session s m' lease hello, m')"
proof -
  have inv: "lm_inv m" using assms(1) by (simp add: sess_base_def)
  have m': "lm_inv m'" "lease_identity lease = sc_identity s"
    using lease_mgr.acq_invar [OF inv assms(2)] lease_mgr.acq_held [OF inv assms(2)] by simp_all
  then have "lm_mtu m' \<le> 9000" by (simp add: lm_inv_def lm_config_def kMaximumTunnelMtu_def)
  then have "unat (min (requested_mtu hello) (lm_mtu m')) \<le> 9000"
    by (simp add: min_def word_le_nat_alt split: if_splits)
  with m' assms(1) show ?thesis by (simp add: sess_base_def hello_session_def)
qed

lemma hello_outcome:
  assumes inv: "sess_inv (s, m)" and "sc_state s = AwaitingHello"
  shows "\<exists>r c'. catch_hello (answer_hello (s, m) frame now) = (Inr r, c') \<and> outcome s r c'"
proof -
  have base: "sess_base (s, m)" and lm: "lm_inv m"
    using inv by (simp_all add: sess_inv_def sess_base_def)
  show ?thesis
  proof (cases "decode_client_hello (frame_payload frame)")
    case (Inl e)
    then show ?thesis
      using catch_hello_outcome [OF base refused_short [OF decode_client_hello_refused]]
      by (simp add: answer_hello_def)
  next
    case (Inr hello)
    obtain res m' where acq: "acquire m (sc_identity s) now = (res, m')" by fastforce
    show ?thesis
    proof (cases res)
      case (Inl e)
      have "sess_base (s, m')"
        using base lease_mgr.acq_invar [OF lm acq] by (simp add: sess_base_def)
      with Inl Inr acq catch_hello_outcome [of s m' e] acquire_short [of m "sc_identity s" now e m']
      show ?thesis by (simp add: answer_hello_def)
    next
      case lease: (Inr lease)
      note acq' = acq [unfolded lease]
      let ?s = "hello_session s m' lease hello"
      have b: "sess_base (?s, m')" by (rule hello_session_base [OF base acq'])
      note eq = answer_hello_acquired [OF Inr acq']
      show ?thesis
      proof (cases "encode_ip_assignment (hello_assignment m' lease hello)")
        case (Inl e)
        with catch_hello_outcome [OF b refused_short [OF encode_ip_assignment_refused]] eq
        obtain r c' where "catch_hello (answer_hello (s, m) frame now) = (Inr r, c')" "outcome ?s r c'"
          by fastforce
        then show ?thesis by (auto simp: hello_session_def intro: outcome_same)
      next
        case (Inr payload)
        have "length payload = 52"
          using Inr acquired_wf [OF lm acq'] to_assignment_wf
          by (intro length_ip_assignment [of "hello_assignment m' lease hello"])
            (auto simp: hello_assignment_def wf_IpAssignment_def)
        with Inr eq b show ?thesis
          by (simp add: catch_hello_def outcome_def nothing_def sess_inv_def hello_session_def
              sess_base_def kMaxPayloadSize_def)
      qed
    qed
  qed
qed

lemma peer_closed_outcome:
  assumes "sess_base (s, m)" and "\<And>e. decoded = Inl e \<Longrightarrow> refused e"
  shows "\<exists>r c'. peer_closed (s, m) decoded = (Inr r, c') \<and> outcome s r c'"
proof (cases decoded)
  case (Inl e)
  with assms(2) obtain t where "e = Invalid_argument t" "length t \<le> kMaximumErrorMessageSize"
    by (auto simp: refused_def)
  with Inl fail_outcome [OF assms(1)] show ?thesis by (fastforce simp: peer_closed_def)
next
  case (Inr x)
  then show ?thesis
    using release_lease_base [OF assms(1), of Closed] release_lease_fields [of "(s\<lparr>sc_state := Closed\<rparr>, m)"]
    by (cases "release_lease (s\<lparr>sc_state := Closed\<rparr>, m)") (simp add: peer_closed_def outcome_def)
qed

lemma dispatch_outcome:
  assumes inv: "sess_inv (s, m)" and est: "sc_state s = Established"
  shows "\<exists>r c'. dispatch (s, m) frame = (Inr r, c') \<and> outcome s r c'"
proof -
  have base: "sess_base (s, m)" using inv by (simp add: sess_inv_def)
  note fail = fail_outcome [OF base]
  have deliver: "outcome s (nothing\<lparr>packets_to_tun := [p]\<rparr>) (s, m)" for p
    using inv est by (simp add: outcome_def nothing_def)
  have pong: "outcome s (nothing\<lparr>outbound_frames := [\<lparr>frame_type = Pong, frame_flags = 0,
      frame_sequence = next_outbound_sequence s, frame_payload = encode_liveness_probe probe\<rparr>]\<rparr>)
      (s\<lparr>next_outbound_sequence := next_outbound_sequence s + 1\<rparr>, m)" for probe
    using inv est by (simp add: outcome_def nothing_def sess_inv_def sess_base_def kMaxPayloadSize_def)
  have unexpected: "\<exists>r c'. session_fail (s, m) UnexpectedMessage
      ''message type is not valid in this server session state'' = (Inr r, c') \<and> outcome s r c'"
    using fail [of "''message type is not valid in this server session state''"]
    by (fastforce simp: kMaximumErrorMessageSize_def)
  show ?thesis
  proof (cases "frame_type frame")
    case DataIpv4
    show ?thesis
      using DataIpv4 deliver fail validate_packet_short(1) [of s "frame_payload frame"]
      by (cases "validate_ipv4_packet s (frame_payload frame)") (fastforce simp: dispatch_def)+
  next
    case DataIpv6
    show ?thesis
      using DataIpv6 deliver fail validate_packet_short(2) [of s "frame_payload frame"]
      by (cases "validate_ipv6_packet s (frame_payload frame)") (fastforce simp: dispatch_def)+
  next
    case Ping
    show ?thesis
      using Ping pong fail decode_liveness_probe_refused [of "frame_payload frame"]
      by (cases "decode_liveness_probe (frame_payload frame)")
        (fastforce simp: dispatch_def refused_def make_outbound_def Let_def)+
  qed (use unexpected peer_closed_outcome [OF base decode_close_message_refused]
        peer_closed_outcome [OF base decode_error_message_refused] in \<open>simp_all add: dispatch_def\<close>)
qed

lemma renewed_inv:
  assumes "sess_inv (s, m)" "sc_lease s = Some lease" "renew m lease now = (Some renewed, m')"
  shows "sess_inv (s\<lparr>sc_lease := Some renewed\<rparr>, m')"
proof -
  have "lm_inv m" using assms(1) by (simp add: sess_inv_def sess_base_def)
  with assms lease_mgr.ren_held [of m lease now renewed m'] lease_mgr.ren_invar [of m lease now _ m']
  show ?thesis by (auto simp: sess_inv_def sess_base_def)
qed

lemma session_handle_outcome:
  assumes inv: "sess_inv (s, m)"
  shows "\<exists>r c'. session_handle (s, m) frame now = (Inr r, c') \<and>
    (if sc_state s = Closing \<or> sc_state s = Closed then c' = (s, m)
       \<and> r = \<lparr>outbound_frames = [], packets_to_tun = [], close_transport = True\<rparr>
     else if frame_sequence frame \<noteq> next_expected_sequence s then outcome s r c' \<and> close_transport r
     else outcome (s\<lparr>next_expected_sequence := next_expected_sequence s + 1\<rparr>) r c')"
proof -
  have base: "sess_base (s, m)" and lm: "lm_inv m"
    using inv by (simp_all add: sess_inv_def sess_base_def)
  let ?s = "s\<lparr>next_expected_sequence := next_expected_sequence s + 1\<rparr>"
  have inv': "sess_inv (?s, m)" and base': "sess_base (?s, m)"
    using inv by (simp_all add: sess_inv_def sess_base_def)
  consider (over) "sc_state s = Closing \<or> sc_state s = Closed"
    | (bad) "sc_state s = AwaitingHello \<or> sc_state s = Established"
        "frame_sequence frame \<noteq> next_expected_sequence s"
    | (hello) "sc_state s = AwaitingHello" "frame_sequence frame = next_expected_sequence s"
    | (est) lease where "sc_state s = Established" "frame_sequence frame = next_expected_sequence s"
        "sc_lease s = Some lease"
    using inv by (cases "sc_state s") (auto simp: sess_inv_def)
  then show ?thesis
  proof cases
    case over
    then show ?thesis by (auto simp: session_handle_def)
  next
    case bad
    let ?t = "''unexpected inbound sequence; expected '' @ to_string (unat (next_expected_sequence s))"
    have "length ?t \<le> kMaximumErrorMessageSize"
      using to_string_u64 [of "next_expected_sequence s"] by (simp add: kMaximumErrorMessageSize_def)
    from fail_outcome [OF base this, of InvalidSequence] bad show ?thesis
      by (auto simp: session_handle_def)
  next
    case hello
    then show ?thesis
      using hello_outcome [OF inv', of frame now]
        fail_outcome [OF base', of "''CLIENT_HELLO must be the first tunnel message''" UnexpectedMessage]
      by (auto simp: session_handle_def kMaximumErrorMessageSize_def Let_def)
  next
    case est
    show ?thesis
    proof (cases "renew m lease now")
      case (Pair opt m')
      have m': "lm_inv m'" using lease_mgr.ren_invar [OF lm Pair] .
      have fail: "\<exists>r c'. session_fail (?s, m') LeaseUnavailable
          ''authenticated virtual IP lease has expired or changed'' = (Inr r, c') \<and> outcome ?s r c'"
        using fail_outcome [of ?s m' "''authenticated virtual IP lease has expired or changed''"] base' m'
        by (fastforce simp: kMaximumErrorMessageSize_def sess_base_def)
      have ok: "\<exists>r c'. dispatch (?s\<lparr>sc_lease := Some renewed\<rparr>, m') frame = (Inr r, c') \<and> outcome ?s r c'"
        if "opt = Some renewed" for renewed
        using dispatch_outcome [of "?s\<lparr>sc_lease := Some renewed\<rparr>" m' frame]
          renewed_inv [OF inv', of lease now renewed m'] Pair est that
        by (fastforce intro: outcome_same)
      show ?thesis
        using est Pair fail ok dispatch_outcome [OF inv', of frame]
        by (cases opt) (auto simp: session_handle_def Let_def)
    qed
  qed
qed

lemma renew_and_send_inv:
  assumes inv: "sess_inv (s, m)" and lease: "sc_lease s = Some lease" "length packet \<le> 9000"
    and c': "renew_and_send (s, m) lease type packet now = (f, (s', m'))"
  shows "sess_inv (s', m') \<and> sc_identity s' = sc_identity s
    \<and> numbered (next_outbound_sequence s) (frame_list f) (next_outbound_sequence s')
    \<and> next_expected_sequence s' = next_expected_sequence s"
proof (cases "renew m lease now")
  case (Pair opt m1)
  have lm: "lm_inv m1"
    using inv lease_mgr.ren_invar [OF _ Pair] by (simp add: sess_inv_def sess_base_def)
  show ?thesis
  proof (cases opt)
    case None
    have "sess_base (s, m1)" using inv lm by (simp add: sess_inv_def sess_base_def)
    from release_lease_base [OF this, of Closing] None Pair c'
      release_lease_fields [of "(s\<lparr>sc_state := Closing\<rparr>, m1)"]
    show ?thesis by (auto simp: renew_and_send_def frame_list_def)
  next
    case (Some renewed)
    with renewed_inv [OF inv lease(1), of now renewed m1] Pair c' lease(2)
    show ?thesis
      by (auto simp: renew_and_send_def make_outbound_def frame_list_def kMaxPayloadSize_def
          sess_inv_def sess_base_def)
  qed
qed

lemma make_data_to_client_cases:
  obtains (none) "make_data_to_client (s, m) packet now = (None, (s, m))"
  | (send) lease type where "sc_lease s = Some lease" "sc_state s = Established"
      "length packet \<le> unat (negotiated_mtu s)"
      "make_data_to_client (s, m) packet now = renew_and_send (s, m) lease type packet now"
      "type = DataIpv4 \<and> drop_bit 4 (packet ! 0) = 4 \<and> length packet \<ge> 20
         \<and> take 4 (drop 16 packet) = lease_address lease
       \<or> type = DataIpv6 \<and> drop_bit 4 (packet ! 0) = 6 \<and> length packet \<ge> 40
         \<and> take 16 (drop 24 packet) = lease_ipv6_address lease"
proof -
  have four: "take 4 (drop 16 packet) = [packet ! 16, packet ! 17, packet ! 18, packet ! 19]"
    if "length packet \<ge> 20"
    using that by (simp add: Cons_nth_drop_Suc [symmetric] numeral_eq_Suc)
  show thesis
  proof (cases "sc_lease s")
    case None
    then show thesis by (intro none) (simp add: make_data_to_client_def)
  next
    case (Some lease)
    show thesis
    proof (cases "make_data_to_client (s, m) packet now = (None, (s, m))")
      case True
      then show thesis by (rule none)
    next
      case False
      with Some show thesis
        by (intro send [of lease "if drop_bit 4 (packet ! 0) = 6 then DataIpv6 else DataIpv4"])
          (auto simp: make_data_to_client_def Let_def four not_less split: if_splits)
    qed
  qed
qed

lemma make_data_inv:
  assumes inv: "sess_inv (s, m)" and c': "make_data_to_client (s, m) packet now = (f, (s', m'))"
  shows "sess_inv (s', m') \<and> sc_identity s' = sc_identity s
    \<and> numbered (next_outbound_sequence s) (frame_list f) (next_outbound_sequence s')
    \<and> next_expected_sequence s' = next_expected_sequence s"
proof (cases rule: make_data_to_client_cases [of s m packet now])
  case none
  with c' inv show ?thesis by (simp add: frame_list_def)
next
  case (send lease type)
  have "unat (negotiated_mtu s) \<le> 9000" using inv by (simp add: sess_inv_def sess_base_def)
  with send renew_and_send_inv [OF inv, of lease packet type now f s' m'] c' show ?thesis by simp
qed

section \<open>Runs of a session\<close>

text \<open>
  What can happen to a session, in any order: frames of its client, packets of the TUN device,
  the end of the transport, and calls of other sessions on the shared manager.
\<close>

datatype session_event =
    Se_frame Frame int
  | Se_packet bytes int
  | Se_transport_closed
  | Se_other lease_event

fun session_step :: "session_event \<Rightarrow> session \<Rightarrow> session" where
  "session_step (Se_frame frame now) c = snd (session_handle c frame now)"
| "session_step (Se_packet packet now) c = snd (make_data_to_client c packet now)"
| "session_step Se_transport_closed c = on_transport_closed c"
| "session_step (Se_other e) c = (fst c, lease_step e (snd c))"

fun session_sent :: "session_event \<Rightarrow> session \<Rightarrow> Frame list" where
  "session_sent (Se_frame frame now) c =
     (case fst (session_handle c frame now) of Inr r \<Rightarrow> outbound_frames r | Inl _ \<Rightarrow> [])"
| "session_sent (Se_packet packet now) c = frame_list (fst (make_data_to_client c packet now))"
| "session_sent _ c = []"

lemma session_step_facts:
  assumes inv: "sess_inv c"
  shows "sess_inv (session_step e c)
    \<and> numbered (next_outbound_sequence (fst c)) (session_sent e c)
        (next_outbound_sequence (fst (session_step e c)))"
proof (cases c)
  case c: (Pair s m)
  show ?thesis
  proof (cases e)
    case (Se_frame frame now)
    obtain r c' where "session_handle (s, m) frame now = (Inr r, c')"
      and "if sc_state s = Closing \<or> sc_state s = Closed then c' = (s, m)
         \<and> r = \<lparr>outbound_frames = [], packets_to_tun = [], close_transport = True\<rparr>
       else if frame_sequence frame \<noteq> next_expected_sequence s then outcome s r c' \<and> close_transport r
       else outcome (s\<lparr>next_expected_sequence := next_expected_sequence s + 1\<rparr>) r c'"
      using session_handle_outcome [OF inv [unfolded c], of frame now] by blast
    with Se_frame inv c show ?thesis
      by (cases c') (auto simp: outcome_def split: if_splits)
  next
    case (Se_packet packet now)
    with make_data_inv [OF inv [unfolded c], of packet now] c show ?thesis
      by (cases "make_data_to_client (s, m) packet now") auto
  next
    case Se_transport_closed
    have "sess_base (s, m)" using inv c by (simp add: sess_inv_def)
    with release_lease_base [of s m Closed] release_lease_fields [of "(s\<lparr>sc_state := Closed\<rparr>, m)"]
    show ?thesis using Se_transport_closed c by (simp add: on_transport_closed_def)
  next
    case (Se_other le)
    with inv c show ?thesis by (simp add: sess_inv_def sess_base_def lease_step_inv)
  qed
qed

interpretation server_session: numbering session_step sess_inv
  "\<lambda>c. next_outbound_sequence (fst c)" session_sent
  by unfold_locales (simp_all add: session_step_facts)

lemma sess_inv_new: "new_SessionController i = Inr s \<Longrightarrow> lm_inv m \<Longrightarrow> sess_inv (s, m)"
  by (auto simp: new_SessionController_def sess_inv_def sess_base_def split: if_splits)

inductive reachable_session :: "session \<Rightarrow> bool" where
  fresh: "new_LeaseManager first_a last_a gw prefix u d v6_prefix v6_gw v6_len = Inr m \<Longrightarrow>
     length gw = 4 \<Longrightarrow> length v6_prefix = 16 \<Longrightarrow> length v6_gw = 16 \<Longrightarrow>
     new_SessionController identity = Inr s \<Longrightarrow> reachable_session (s, m)"
| step: "reachable_session c \<Longrightarrow> reachable_session (session_step e c)"

lemma reachable_session_inv: "reachable_session c \<Longrightarrow> sess_inv c"
  by (induction rule: reachable_session.induct)
    (auto intro: sess_inv_new lm_inv_new simp: session_step_facts)

definition session_over :: "SessionController \<Rightarrow> bool" where
  "session_over s \<longleftrightarrow> sc_state s = Closing \<or> sc_state s = Closed"

lemma over_step:
  assumes "session_over (fst c)" "sess_inv c"
  shows "session_over (fst (session_step e c)) \<and> session_sent e c = []"
proof (cases c)
  case (Pair s m)
  with assms have "sc_lease s = None" by (auto simp: session_over_def sess_inv_def)
  with Pair assms show ?thesis
    by (cases e) (auto simp: session_over_def session_handle_def make_data_to_client_def
        on_transport_closed_def frame_list_def)
qed

lemma over_run:
  assumes "session_over (fst c)" "sess_inv c"
  shows "session_over (fst (fold session_step es c)) \<and> trace session_step session_sent es c = []"
  using assms
proof (induction es arbitrary: c)
  case (Cons e es)
  then show ?case using over_step [of c e] session_step_facts [of c e] by simp
qed simp

text \<open>The frames a session received, in order.\<close>

fun received :: "session_event list \<Rightarrow> Frame list" where
  "received [] = []"
| "received (Se_frame f _ # es) = f # received es"
| "received (_ # es) = received es"

lemma open_step:
  assumes inv: "sess_inv c" and open': "\<not> session_over (fst (session_step e c))"
  shows "case e of
      Se_frame f now \<Rightarrow> frame_sequence f = next_expected_sequence (fst c)
        \<and> next_expected_sequence (fst (session_step e c)) = next_expected_sequence (fst c) + 1
    | _ \<Rightarrow> next_expected_sequence (fst (session_step e c)) = next_expected_sequence (fst c)"
proof (cases c)
  case c: (Pair s m)
  have over: "\<not> session_over s" using over_step [of c e] inv open' c by auto
  show ?thesis
  proof (cases e)
    case (Se_frame f now)
    with session_handle_outcome [OF inv [unfolded c], of f now] over open' c show ?thesis
      by (auto simp: outcome_def session_over_def split: if_splits)
  next
    case (Se_packet packet now)
    with make_data_inv [OF inv [unfolded c], of packet now] c show ?thesis
      by (cases "make_data_to_client (s, m) packet now") auto
  next
    case Se_transport_closed
    with open' c show ?thesis by (simp add: on_transport_closed_def session_over_def)
  qed simp
qed

lemma open_run:
  assumes "sess_inv c" "\<not> session_over (fst (fold session_step es c))"
  shows "map frame_sequence (received es)
    = map (\<lambda>i. next_expected_sequence (fst c) + word_of_nat i) [0..<length (received es)]"
  using assms
proof (induction es arbitrary: c)
  case (Cons e es)
  let ?c = "session_step e c"
  have inv: "sess_inv ?c" using session_step_facts Cons.prems(1) by blast
  then have "\<not> session_over (fst ?c)" using over_run [of ?c es] Cons.prems(2) by auto
  note step = open_step [OF Cons.prems(1) this]
  have IH: "map frame_sequence (received es)
      = map (\<lambda>i. next_expected_sequence (fst ?c) + word_of_nat i) [0..<length (received es)]"
    using Cons.IH [OF inv] Cons.prems(2) by simp
  show ?case
  proof (cases e)
    case (Se_frame f now)
    have "map (\<lambda>i. k + word_of_nat i) [0..<Suc n] = k # map (\<lambda>i. k + 1 + word_of_nat i) [0..<n]"
      for k :: u64 and n by (simp add: upt_conv_Cons map_Suc_upt [symmetric] comp_def add.assoc del: upt_Suc)
    with Se_frame step IH show ?thesis by (simp del: upt_Suc)
  qed (use step IH in simp_all)
qed simp

section \<open>What is delivered\<close>

lemma fail_no_packets: "session_fail c code t = (Inr r, c') \<Longrightarrow> packets_to_tun r = []"
  by (auto simp: session_fail_def make_outbound_def Let_def split: prod.splits sum.splits)

lemma catch_hello_no_packets:
  "catch_hello (answer_hello c frame now) = (Inr r, c') \<Longrightarrow> packets_to_tun r = []"
  by (cases c)
    (auto simp: catch_hello_def answer_hello_def make_outbound_def nothing_def Let_def
      dest: fail_no_packets split: sum.splits prod.splits cxx_exception.splits)

lemma peer_closed_no_packets: "peer_closed c d = (Inr r, c') \<Longrightarrow> packets_to_tun r = []"
  by (auto simp: peer_closed_def dest: fail_no_packets split: prod.splits sum.splits cxx_exception.splits)

text \<open>A packet that passes the checks, and carries the address of the lease as its source.\<close>

definition valid_source :: "SessionController \<Rightarrow> Lease \<Rightarrow> MessageType \<Rightarrow> bytes \<Rightarrow> bool" where
  "valid_source s lease type p \<longleftrightarrow>
     length p \<le> unat (negotiated_mtu s)
     \<and> (type = DataIpv4 \<and> 20 \<le> length p \<and> drop_bit 4 (p ! 0) = 4 \<and> be16 p 2 = length p
          \<and> take 4 (drop 12 p) = lease_address lease
        \<or> type = DataIpv6 \<and> 40 \<le> length p \<and> drop_bit 4 (p ! 0) = 6 \<and> be16 p 4 + 40 = length p
          \<and> take 16 (drop 8 p) = lease_ipv6_address lease \<and> lease_ipv6_address lease \<noteq> zero_ipv6)"

lemma dispatch_packets:
  assumes "dispatch (s, m) frame = (Inr r, c')" "sc_lease s = Some lease" "p \<in> set (packets_to_tun r)"
  shows "c' = (s, m) \<and> p = frame_payload frame \<and> valid_source s lease (frame_type frame) p
    \<and> (frame_type frame = DataIpv4 \<or> frame_type frame = DataIpv6)"
proof -
  have four: "take 4 (drop 12 q) = [q ! 12, q ! 13, q ! 14, q ! 15]" if "length q \<ge> 20" for q :: bytes
    using that by (simp add: Cons_nth_drop_Suc [symmetric] numeral_eq_Suc)
  show ?thesis
  proof (cases "frame_type frame")
    case DataIpv4
    with assms show ?thesis
      by (auto simp: dispatch_def validate_ipv4_packet_def valid_source_def nothing_def Let_def four not_less
          dest: fail_no_packets split: if_splits)
  next
    case DataIpv6
    with assms show ?thesis
      by (auto simp: dispatch_def validate_ipv6_packet_def valid_source_def nothing_def Let_def not_less
          dest: fail_no_packets split: if_splits)
  next
    case Ping
    with assms show ?thesis
      by (auto simp: dispatch_def nothing_def make_outbound_def Let_def
          dest: fail_no_packets split: sum.splits cxx_exception.splits)
  qed (use assms in \<open>auto simp: dispatch_def dest: fail_no_packets peer_closed_no_packets\<close>)
qed

section \<open>What is released\<close>

lemma holds_cong:
  "lease_identity l = lease_identity k \<Longrightarrow> lease_id l = lease_id k \<Longrightarrow>
     lease_address l = lease_address k \<Longrightarrow> holds m l \<longleftrightarrow> holds m k"
  by (simp add: holds_def)

lemma release_lease_not_held:
  "lm_inv m \<Longrightarrow> sc_lease s = Some l \<Longrightarrow> release_lease (s, m) = (s', m') \<Longrightarrow> \<not> holds m' l"
  using lease_mgr.rel_not_held [of m l] by (cases "release m l") (auto simp: release_lease_def)

lemma fail_not_held:
  "lm_inv m \<Longrightarrow> sc_lease s = Some l \<Longrightarrow> session_fail (s, m) code t = (Inr r, (s', m')) \<Longrightarrow> \<not> holds m' l"
  using release_lease_not_held
    [of m "s\<lparr>next_outbound_sequence := next_outbound_sequence s + 1, sc_state := Closing\<rparr>" l s' m']
  by (auto simp: session_fail_def make_outbound_def Let_def split: sum.splits)

lemma peer_closed_not_held:
  "lm_inv m \<Longrightarrow> sc_lease s = Some l \<Longrightarrow> peer_closed (s, m) d = (Inr r, (s', m')) \<Longrightarrow> \<not> holds m' l"
  using release_lease_not_held [of m "s\<lparr>sc_state := Closed\<rparr>" l s' m'] fail_not_held [of m s l]
  by (auto simp: peer_closed_def split: sum.splits cxx_exception.splits)

lemma dispatch_not_held:
  assumes "lm_inv m" "sc_lease s = Some l" "dispatch (s, m) f = (Inr r, (s', m'))" "close_transport r"
  shows "\<not> holds m' l"
proof -
  note no = fail_not_held [OF assms(1,2)] peer_closed_not_held [OF assms(1,2)]
  show ?thesis
    using assms(3,4)
    by (cases "frame_type f")
      (auto simp: dispatch_def nothing_def make_outbound_def Let_def dest: no
        split: option.splits sum.splits cxx_exception.splits)
qed

lemma handle_not_held:
  assumes inv: "sess_inv (s, m)" and l: "sc_lease s = Some l"
    and h: "session_handle (s, m) f now = (Inr r, (s', m'))" and cl: "close_transport r"
  shows "\<not> holds m' l"
proof -
  have lm: "lm_inv m" and est: "sc_state s = Established"
    using inv l by (auto simp: sess_inv_def sess_base_def)
  let ?s = "s\<lparr>next_expected_sequence := next_expected_sequence s + 1\<rparr>"
  obtain opt m1 where ren: "renew m l now = (opt, m1)" by fastforce
  have m1: "lm_inv m1" using lease_mgr.ren_invar [OF lm ren] .
  have renewed: "\<not> holds m' l"
    if "opt = Some k" "dispatch (?s\<lparr>sc_lease := Some k\<rparr>, m1) f = (Inr r, (s', m'))" for k
    using dispatch_not_held [OF m1 _ that(2) cl] lease_mgr.ren_held [OF lm ren [unfolded that(1)]]
      holds_cong [of l k m'] by simp
  show ?thesis
    using h est l ren renewed fail_not_held [OF lm l] fail_not_held [OF m1, of ?s l]
      dispatch_not_held [OF lm, of ?s l, OF _ _ cl]
    by (auto simp: session_handle_def Let_def split: if_splits option.splits)
qed

section \<open>A concrete session\<close>

text \<open>Alice says hello with an MTU of 1400 and sends an empty UDP-less IPv4 packet.\<close>

definition alice_session :: SessionController where
  "alice_session = \<lparr>sc_identity = ''alice'', sc_state = AwaitingHello, sc_lease = None,
     negotiated_mtu = 1400, next_expected_sequence = 1, next_outbound_sequence = 1\<rparr>"

definition alice_hello :: Frame where
  "alice_hello = \<lparr>frame_type = ClientHello, frame_flags = 0, frame_sequence = 1,
     frame_payload = [5, 120, 0, 0, 0, 0, 0, 3]\<rparr>"

definition alice_packet :: bytes where
  "alice_packet = [0x45, 0, 0, 20, 0, 0, 0, 0, 64, 17, 0, 0, 10, 8, 0, 2, 1, 1, 1, 1]"

definition alice_data :: "u64 \<Rightarrow> Frame" where
  "alice_data n = \<lparr>frame_type = DataIpv4, frame_flags = 0, frame_sequence = n,
     frame_payload = alice_packet\<rparr>"

lemma alice_new: "new_SessionController ''alice'' = Inr alice_session"
  by code_simp

lemma small_pool_inv: "lm_inv small_pool"
  by (rule lm_inv_new [OF small_pool_new]) simp_all

lemma alice_reachable: "reachable_session (alice_session, small_pool)"
  by (rule reachable_session.fresh [OF small_pool_new _ _ _ alice_new]) simp_all

lemma alice_established: "reachable_session (session_step (Se_frame alice_hello 0) (alice_session, small_pool))"
  by (rule reachable_session.step [OF alice_reachable])


section \<open>Properties\<close>

text \<open>
  C7: a server session never fails in an uncontrolled way. Whatever frames, packets and
  actions of other sessions came before, handling a frame returns a result: no exception
  leaves \<open>handle\<close>, no null lease is dereferenced, and every frame of the result is one the
  encoder accepts.
\<close>

theorem session_handle_total:
  assumes "reachable_session c"
  shows "\<exists>r c'. session_handle c frame now = (Inr r, c')
    \<and> (\<forall>f \<in> set (outbound_frames r). \<exists>bs. encode_frame f = Inr bs)"
proof -
  have inv: "sess_inv c" by (rule reachable_session_inv [OF assms])
  obtain r c' where r: "session_handle c frame now = (Inr r, c')"
    using session_handle_outcome [of "fst c" "snd c" frame now] inv by auto
  with session_step_facts [OF inv, of "Se_frame frame now"] numbered_encodable show ?thesis
    by fastforce
qed

theorem session_handle_total_witness:
  "\<exists>r c'. session_handle (session_step (Se_frame alice_hello 0) (alice_session, small_pool)) (alice_data 2) 1
     = (Inr r, c') \<and> (\<forall>f \<in> set (outbound_frames r). \<exists>bs. encode_frame f = Inr bs)"
  by (rule session_handle_total [OF alice_established])



text \<open>
  The frames a server session sends carry the sequence numbers 1, 2, 3, \<dots> without gap or
  repetition (modulo \<open>2^64\<close>), however frames from the client, packets from the TUN device and
  actions of other sessions interleave.
\<close>

theorem session_sends_consecutive:
  assumes "new_SessionController identity = Inr s" and "lm_inv m"
  shows "map frame_sequence (trace session_step session_sent events (s, m))
    = map (\<lambda>i. 1 + word_of_nat i) [0..<length (trace session_step session_sent events (s, m))]"
proof -
  have "next_outbound_sequence s = 1"
    using assms(1) by (auto simp: new_SessionController_def split: if_splits)
  with server_session.run_numbered [OF sess_inv_new [OF assms], of events] show ?thesis
    unfolding numbered_def by simp
qed

theorem session_sends_consecutive_witness:
  "map frame_sequence (trace session_step session_sent
       [Se_frame alice_hello 0, Se_frame (alice_data 2) 1, Se_frame (alice_data 2) 2]
       (alice_session, small_pool)) = [1, 2]"
proof -
  have "length (trace session_step session_sent
       [Se_frame alice_hello 0, Se_frame (alice_data 2) 1, Se_frame (alice_data 2) 2]
       (alice_session, small_pool)) = 2"
    by code_simp
  with session_sends_consecutive [OF alice_new small_pool_inv,
      of "[Se_frame alice_hello 0, Se_frame (alice_data 2) 1, Se_frame (alice_data 2) 2]"]
  show ?thesis by (simp del: trace.simps add: upt_rec)
qed

text \<open>
  A server session accepts frames only in order. If it is still open after any events,
  the frames received so far carry exactly the sequence numbers 1, 2, 3, \<dots>: one that is
  missing, repeated or out of order has ended the session.
\<close>

theorem session_accepts_in_order:
  assumes "new_SessionController identity = Inr s" and "lm_inv m"
    and "\<not> session_over (fst (fold session_step events (s, m)))"
  shows "map frame_sequence (received events)
    = map (\<lambda>i. 1 + word_of_nat i) [0..<length (received events)]"
proof -
  have "next_expected_sequence s = 1"
    using assms(1) by (auto simp: new_SessionController_def split: if_splits)
  with open_run [OF sess_inv_new [OF assms(1,2)] assms(3)] show ?thesis by simp
qed

theorem session_accepts_in_order_witness:
  "\<not> session_over (fst (fold session_step [Se_frame alice_hello 0, Se_frame (alice_data 2) 1]
      (alice_session, small_pool)))
   \<and> map frame_sequence (received [Se_frame alice_hello 0, Se_frame (alice_data 2) 1]) = [1, 2]"
proof -
  have "\<not> session_over (fst (fold session_step [Se_frame alice_hello 0, Se_frame (alice_data 2) 1]
      (alice_session, small_pool)))"
    by code_simp
  with session_accepts_in_order [OF alice_new small_pool_inv this] show ?thesis by (simp add: upt_rec)
qed

text \<open>
  Closing is final and frees the lease. When handling a frame asks for the transport to
  be closed, the session has given up its lease, the manager no longer holds it for the
  session, and nothing that happens later makes the session send a frame or deliver a packet
  again.
\<close>

theorem session_close_final:
  assumes "reachable_session (s, m)"
    and "session_handle (s, m) frame now = (Inr r, (s', m'))" and "close_transport r"
  shows "sc_lease s' = None \<and> (\<forall>l. sc_lease s = Some l \<longrightarrow> \<not> holds m' l)
    \<and> packets_to_tun r = []
    \<and> trace session_step session_sent later (s', m') = []
    \<and> fst (session_handle (fold session_step later (s', m')) next_frame t)
        = Inr \<lparr>outbound_frames = [], packets_to_tun = [], close_transport = True\<rparr>"
proof -
  have inv: "sess_inv (s, m)" by (rule reachable_session_inv [OF assms(1)])
  have inv': "sess_inv (s', m')" and over: "session_over s'" and none: "packets_to_tun r = []"
    using session_handle_outcome [OF inv, of frame now] assms(2,3) inv
    by (auto simp: outcome_def session_over_def split: if_splits)
  have "sc_lease s' = None" using inv' over by (auto simp: sess_inv_def session_over_def)
  moreover have "\<forall>l. sc_lease s = Some l \<longrightarrow> \<not> holds m' l"
    using handle_not_held [OF inv _ assms(2,3)] by blast
  moreover have "session_over (fst (fold session_step later (s', m')))"
    and "trace session_step session_sent later (s', m') = []"
    using over_run [of "(s', m')" later] over inv' by simp_all
  ultimately show ?thesis
    using none by (auto simp: session_handle_def session_over_def split: prod.splits)
qed

theorem session_close_final_witness:
  "\<exists>s m r s' m'. (s, m) = session_step (Se_frame alice_hello 0) (alice_session, small_pool)
     \<and> session_handle (s, m) (alice_data 9) 1 = (Inr r, (s', m')) \<and> close_transport r
     \<and> sc_lease s \<noteq> None \<and> sc_lease s' = None
     \<and> trace session_step session_sent [Se_frame (alice_data 2) 2, Se_packet alice_packet 3] (s', m') = []"
proof -
  let ?c = "session_step (Se_frame alice_hello 0) (alice_session, small_pool)"
  obtain s m where c: "?c = (s, m)" by fastforce
  obtain res s' m' where h: "session_handle (s, m) (alice_data 9) 1 = (res, (s', m'))"
    by (metis prod_cases3)
  have "(case fst (session_handle ?c (alice_data 9) 1) of Inr r \<Rightarrow> close_transport r | Inl _ \<Rightarrow> False)
      \<and> sc_lease (fst ?c) \<noteq> None"
    by code_simp
  then obtain r where r: "res = Inr r" "close_transport r" and l: "sc_lease s \<noteq> None"
    unfolding c h by (auto split: sum.splits)
  with session_close_final [OF alice_established [unfolded c] h [unfolded r(1)] r(2)] c [symmetric] h r(1)
  show ?thesis by blast
qed

end
