(* ===== verification/Client_Session.thy ===== *)
theory Client_Session
  imports Control_Messages Frame_Sequence Ip_Address Error_Texts
begin

unbundle bit_operations_syntax

text \<open>
  The client's half of the tunnel protocol, \<^verbatim>\<open>src/core/client_session_controller.cpp\<close>. The
  enumerators carry a prefix where the server's controller has the same name.
\<close>

section \<open>State\<close>

datatype ClientSessionState = CIdle | CAwaitingAssignment | CEstablished | CClosing | CClosed

datatype ClientSessionErrorCode =
    CUnexpectedMessage
  | CInvalidSequence
  | CInvalidControlPayload
  | CInvalidAssignment
  | CInvalidIpv4Packet
  | CAddressMismatch
  | CInvalidIpv6Packet

fun client_error_code :: "ClientSessionErrorCode \<Rightarrow> u16" where
  "client_error_code CUnexpectedMessage = 101"
| "client_error_code CInvalidSequence = 102"
| "client_error_code CInvalidControlPayload = 103"
| "client_error_code CInvalidAssignment = 104"
| "client_error_code CInvalidIpv4Packet = 105"
| "client_error_code CAddressMismatch = 106"
| "client_error_code CInvalidIpv6Packet = 107"

record ClientSessionResult =
  cr_outbound_frames :: "Frame list"
  cr_packets_to_tun :: "bytes list"
  cr_assignment :: "IpAssignment option"
  cr_remote_error :: "ErrorMessage option"
  cr_close_transport :: bool

record ClientSessionController =
  cs_requested_mtu :: u16
  cs_state :: ClientSessionState
  cs_assignment :: "IpAssignment option"
  pending_ping_nonce :: "u64 option"
  cs_next_expected_sequence :: u64
  cs_next_outbound_sequence :: u64

text \<open>The result \<^verbatim>\<open>{}\<close>.\<close>

definition client_nothing :: ClientSessionResult where
  "client_nothing = \<lparr>cr_outbound_frames = [], cr_packets_to_tun = [], cr_assignment = None,
     cr_remote_error = None, cr_close_transport = False\<rparr>"

definition client_hello_of :: "u16 \<Rightarrow> ClientHelloMessage" where
  "client_hello_of m = \<lparr>requested_mtu = m, capabilities = kCapabilityIpv4 OR kCapabilityIpv6\<rparr>"

definition new_ClientSessionController :: "u16 \<Rightarrow> ClientSessionController result" where
  "new_ClientSessionController mtu' =
     and_then (encode_client_hello (client_hello_of mtu')) (\<lambda>_.
       Inr \<lparr>cs_requested_mtu = mtu', cs_state = CIdle, cs_assignment = None,
            pending_ping_nonce = None, cs_next_expected_sequence = 1,
            cs_next_outbound_sequence = 1\<rparr>)"

section \<open>Operations\<close>

definition client_make_outbound ::
    "ClientSessionController \<Rightarrow> MessageType \<Rightarrow> bytes \<Rightarrow> Frame \<times> ClientSessionController" where
  "client_make_outbound s type payload =
     (\<lparr>frame_type = type, frame_flags = 0, frame_sequence = cs_next_outbound_sequence s,
       frame_payload = payload\<rparr>,
      s\<lparr>cs_next_outbound_sequence := cs_next_outbound_sequence s + 1\<rparr>)"

definition client_fail :: "ClientSessionController \<Rightarrow> ClientSessionErrorCode \<Rightarrow> string
    \<Rightarrow> ClientSessionResult result \<times> ClientSessionController" where
  "client_fail s code message =
     (case encode_error_message \<lparr>error_code = client_error_code code, error_text = message\<rparr> of
        Inl e \<Rightarrow> (Inl e, s)
      | Inr payload \<Rightarrow>
          (let (frame, s) = client_make_outbound s Error payload
           in (Inr (client_nothing\<lparr>cr_outbound_frames := [frame], cr_close_transport := True\<rparr>),
               s\<lparr>cs_state := CClosing\<rparr>)))"

definition client_start :: "ClientSessionController \<Rightarrow> Frame result \<times> ClientSessionController" where
  "client_start s =
     (if cs_state s \<noteq> CIdle then (Inl (Logic_error ''client session has already started''), s)
      else
       (let s = s\<lparr>cs_state := CAwaitingAssignment\<rparr>
        in case encode_client_hello (client_hello_of (cs_requested_mtu s)) of
             Inl e \<Rightarrow> (Inl e, s)
           | Inr payload \<Rightarrow>
               (let (frame, s) = client_make_outbound s ClientHello payload in (Inr frame, s))))"

definition address_value :: "bytes \<Rightarrow> u32" where
  "address_value address =
     (push_bit 24 (ucast (address ! 0)) OR push_bit 16 (ucast (address ! 1))
      OR push_bit 8 (ucast (address ! 2)) OR ucast (address ! 3))"

definition client_mask :: "u8 \<Rightarrow> u32" where
  "client_mask prefix = (if prefix = 32 then - 1 else push_bit (unat (32 - prefix)) (- 1))"

definition assignment_is_acceptable :: "ClientSessionController \<Rightarrow> IpAssignment \<Rightarrow> bool" where
  "assignment_is_acceptable s a =
     (if mtu a > cs_requested_mtu s \<or> client_address a = gateway_address a then False
      else
       (let mask = client_mask (prefix_length a);
            client = address_value (client_address a);
            gateway = address_value (gateway_address a)
        in
        if (client AND mask) \<noteq> (gateway AND mask) then False
        else
         (let network = gateway AND mask; broadcast = network OR NOT mask
          in
          if prefix_length a \<le> 30
             \<and> (client = network \<or> client = broadcast \<or> gateway = network \<or> gateway = broadcast) then
            False
          else if ipv6_prefix_length a = 0 then
            client_ipv6_address a = replicate 16 0 \<and> gateway_ipv6_address a = replicate 16 0
          else if ipv6_prefix_length a \<noteq> 64 \<or> client_ipv6_address a = gateway_ipv6_address a
                  \<or> take 8 (client_ipv6_address a) \<noteq> take 8 (gateway_ipv6_address a) then False
          else True)))"

text \<open>The validators return \<open>None\<close> for \<^verbatim>\<open>true\<close>, as on the server.\<close>

definition client_validate_ipv4_packet :: "ClientSessionController \<Rightarrow> bytes \<Rightarrow> bool
    \<Rightarrow> (ClientSessionErrorCode \<times> string) option" where
  "client_validate_ipv4_packet s packet from_server =
     (let refused = Some (CInvalidIpv4Packet,
            ''IPv4 packet size is outside the negotiated tunnel policy'')
      in case cs_assignment s of
        None \<Rightarrow> refused
      | Some a \<Rightarrow>
          if length packet < 20 \<or> length packet > unat (mtu a) then refused
          else
           (let version = drop_bit 4 (packet ! 0);
                header_length = unat (packet ! 0 AND 0x0F) * 4;
                total_length = be16 packet 2
            in
            if version \<noteq> 4 \<or> header_length < 20 \<or> header_length > length packet
               \<or> total_length \<noteq> length packet then
              Some (CInvalidIpv4Packet, ''IPv4 header or total length is invalid'')
            else
             (let packet_address =
                (if from_server then [packet ! 16, packet ! 17, packet ! 18, packet ! 19]
                 else [packet ! 12, packet ! 13, packet ! 14, packet ! 15])
              in
              if packet_address \<noteq> client_address a then
                Some (CAddressMismatch,
                  if from_server
                  then ''server IPv4 destination does not match the assigned client address''
                  else ''local IPv4 source does not match the assigned client address'')
              else None)))"

definition client_validate_ipv6_packet :: "ClientSessionController \<Rightarrow> bytes \<Rightarrow> bool
    \<Rightarrow> (ClientSessionErrorCode \<times> string) option" where
  "client_validate_ipv6_packet s packet from_server =
     (let refused = Some (CInvalidIpv6Packet,
            ''IPv6 packet size or version is outside the assigned tunnel policy'')
      in case cs_assignment s of
        None \<Rightarrow> refused
      | Some a \<Rightarrow>
          if ipv6_prefix_length a = 0 \<or> length packet < 40 \<or> length packet > unat (mtu a)
             \<or> drop_bit 4 (packet ! 0) \<noteq> 6 then refused
          else if be16 packet 4 + 40 \<noteq> length packet then
            Some (CInvalidIpv6Packet, ''IPv6 payload length does not match the tunnel frame'')
          else
           (let offset = (if from_server then 24 else 8);
                packet_address = take 16 (drop offset packet);
                expected = (if from_server then client_ipv6_address a else client_ipv6_address a)
            in
            if packet_address \<noteq> expected then
              Some (CAddressMismatch,
                if from_server
                then ''server IPv6 destination does not match assigned client address''
                else ''local IPv6 source does not match assigned client address'')
            else None))"

text \<open>An \<^verbatim>\<open>std::invalid_argument\<close> of a decoder becomes a protocol failure; others propagate.\<close>

definition client_catch :: "ClientSessionController \<Rightarrow> cxx_exception
    \<Rightarrow> ClientSessionResult result \<times> ClientSessionController" where
  "client_catch s e = (case e of
       Invalid_argument message \<Rightarrow> client_fail s CInvalidControlPayload message
     | _ \<Rightarrow> (Inl e, s))"

definition receive_assignment :: "ClientSessionController \<Rightarrow> Frame
    \<Rightarrow> ClientSessionResult result \<times> ClientSessionController" where
  "receive_assignment s frame =
     (case decode_ip_assignment (frame_payload frame) of
        Inl e \<Rightarrow> client_catch s e
      | Inr a \<Rightarrow>
          if \<not> assignment_is_acceptable s a then
            client_fail s CInvalidAssignment ''server IP assignment violates client tunnel policy''
          else
            (Inr (client_nothing\<lparr>cr_assignment := Some a\<rparr>),
             s\<lparr>cs_assignment := Some a, cs_state := CEstablished\<rparr>))"

definition client_dispatch :: "ClientSessionController \<Rightarrow> Frame
    \<Rightarrow> ClientSessionResult result \<times> ClientSessionController" where
  "client_dispatch s frame =
     (case frame_type frame of
        DataIpv4 \<Rightarrow>
         (case client_validate_ipv4_packet s (frame_payload frame) True of
            Some (code, message) \<Rightarrow> client_fail s code message
          | None \<Rightarrow> (Inr (client_nothing\<lparr>cr_packets_to_tun := [frame_payload frame]\<rparr>), s))
      | DataIpv6 \<Rightarrow>
         (case client_validate_ipv6_packet s (frame_payload frame) True of
            Some (code, message) \<Rightarrow> client_fail s code message
          | None \<Rightarrow> (Inr (client_nothing\<lparr>cr_packets_to_tun := [frame_payload frame]\<rparr>), s))
      | Ping \<Rightarrow>
         (case decode_liveness_probe (frame_payload frame) of
            Inl e \<Rightarrow> client_catch s e
          | Inr probe \<Rightarrow>
              (let (pong, s) = client_make_outbound s Pong (encode_liveness_probe probe)
               in (Inr (client_nothing\<lparr>cr_outbound_frames := [pong]\<rparr>), s)))
      | Pong \<Rightarrow>
         (case decode_liveness_probe (frame_payload frame) of
            Inl e \<Rightarrow> client_catch s e
          | Inr probe \<Rightarrow>
              if pending_ping_nonce s \<noteq> Some (nonce probe) then
                client_fail s CInvalidControlPayload ''PONG nonce does not match an outstanding PING''
              else (Inr client_nothing, s\<lparr>pending_ping_nonce := None\<rparr>))
      | Error \<Rightarrow>
         (case decode_error_message (frame_payload frame) of
            Inl e \<Rightarrow> client_catch s e
          | Inr err \<Rightarrow>
              (Inr (client_nothing\<lparr>cr_remote_error := Some err, cr_close_transport := True\<rparr>),
               s\<lparr>cs_state := CClosed\<rparr>))
      | Close \<Rightarrow>
         (case decode_close_message (frame_payload frame) of
            Inl e \<Rightarrow> client_catch s e
          | Inr _ \<Rightarrow>
              (Inr (client_nothing\<lparr>cr_close_transport := True\<rparr>), s\<lparr>cs_state := CClosed\<rparr>))
      | _ \<Rightarrow> client_fail s CUnexpectedMessage
               ''message type is not valid in the established client state'')"

definition client_handle :: "ClientSessionController \<Rightarrow> Frame
    \<Rightarrow> ClientSessionResult result \<times> ClientSessionController" where
  "client_handle s frame =
     (if cs_state s = CIdle \<or> cs_state s = CClosing \<or> cs_state s = CClosed then
        (Inr (client_nothing\<lparr>cr_close_transport := True\<rparr>), s)
      else if frame_sequence frame \<noteq> cs_next_expected_sequence s then
        client_fail s CInvalidSequence
          (''unexpected inbound sequence; expected '' @ to_string (unat (cs_next_expected_sequence s)))
      else
       (let s = s\<lparr>cs_next_expected_sequence := cs_next_expected_sequence s + 1\<rparr>
        in
        if cs_state s = CAwaitingAssignment then
          (if frame_type frame \<noteq> IpAssign then
             client_fail s CUnexpectedMessage ''IP_ASSIGN must be the first server message''
           else receive_assignment s frame)
        else client_dispatch s frame))"

definition make_data_to_server ::
    "ClientSessionController \<Rightarrow> bytes \<Rightarrow> Frame option \<times> ClientSessionController" where
  "make_data_to_server s packet =
     (if cs_state s \<noteq> CEstablished then (None, s)
      else if packet \<noteq> [] \<and> drop_bit 4 (packet ! 0) = 6 then
        (case client_validate_ipv6_packet s packet False of
           Some _ \<Rightarrow> (None, s)
         | None \<Rightarrow> (let (frame, s) = client_make_outbound s DataIpv6 packet in (Some frame, s)))
      else
        (case client_validate_ipv4_packet s packet False of
           Some _ \<Rightarrow> (None, s)
         | None \<Rightarrow> (let (frame, s) = client_make_outbound s DataIpv4 packet in (Some frame, s))))"

definition make_ping :: "ClientSessionController \<Rightarrow> u64 \<Rightarrow> Frame option \<times> ClientSessionController" where
  "make_ping s n =
     (if cs_state s \<noteq> CEstablished then (None, s)
      else if pending_ping_nonce s \<noteq> None then (None, s)
      else
       (let s = s\<lparr>pending_ping_nonce := Some n\<rparr>;
            (frame, s) = client_make_outbound s Ping (encode_liveness_probe \<lparr>nonce = n\<rparr>)
        in (Some frame, s)))"

definition make_close :: "ClientSessionController \<Rightarrow> u16 \<Rightarrow> Frame option \<times> ClientSessionController" where
  "make_close s code =
     (if cs_state s \<noteq> CAwaitingAssignment \<and> cs_state s \<noteq> CEstablished then (None, s)
      else
       (let s = s\<lparr>cs_state := CClosing\<rparr>;
            (frame, s) = client_make_outbound s Close (encode_close_message \<lparr>close_code = code\<rparr>)
        in (Some frame, s)))"

definition client_on_transport_closed :: "ClientSessionController \<Rightarrow> ClientSessionController" where
  "client_on_transport_closed s = s\<lparr>cs_state := CClosed\<rparr>"

section \<open>Invariant\<close>

text \<open>
  The requested MTU is one the hello accepts, and an established session has an assignment
  that passed both the decoder's and the client's own checks.
\<close>

definition client_inv :: "ClientSessionController \<Rightarrow> bool" where
  "client_inv s \<longleftrightarrow>
     (\<exists>bs. encode_client_hello (client_hello_of (cs_requested_mtu s)) = Inr bs)
     \<and> (cs_state s = CEstablished \<longrightarrow>
          (\<exists>a. cs_assignment s = Some a \<and> assignment_is_acceptable s a
             \<and> wf_IpAssignment a \<and> validate_ip_assignment a = Inr ()))"

definition client_over :: "ClientSessionController \<Rightarrow> bool" where
  "client_over s \<longleftrightarrow> cs_state s = CClosing \<or> cs_state s = CClosed"

definition client_outcome :: "ClientSessionController \<Rightarrow> ClientSessionResult \<Rightarrow> ClientSessionController \<Rightarrow> bool" where
  "client_outcome s r s' \<longleftrightarrow> client_inv s'
     \<and> numbered (cs_next_outbound_sequence s) (cr_outbound_frames r) (cs_next_outbound_sequence s')
     \<and> (cr_close_transport r \<longleftrightarrow> client_over s')
     \<and> cs_state s' \<noteq> CIdle
     \<and> cs_next_expected_sequence s' = cs_next_expected_sequence s"

lemma acceptable_cong:
  "cs_requested_mtu s' = cs_requested_mtu s \<Longrightarrow>
     assignment_is_acceptable s' a = assignment_is_acceptable s a"
  by (simp add: assignment_is_acceptable_def)

lemma client_inv_same:
  "client_inv s \<Longrightarrow> cs_requested_mtu s' = cs_requested_mtu s \<Longrightarrow> cs_assignment s' = cs_assignment s \<Longrightarrow>
     (cs_state s' = CEstablished \<Longrightarrow> cs_state s = CEstablished) \<Longrightarrow> client_inv s'"
  using acceptable_cong [of s' s] by (auto simp: client_inv_def)

lemma acceptable_update [simp]:
  "assignment_is_acceptable (s\<lparr>cs_assignment := x, cs_state := y\<rparr>) a = assignment_is_acceptable s a"
  by (rule acceptable_cong) simp

lemma requested_bound:
  assumes "client_inv s"
  shows "unat (cs_requested_mtu s) \<le> 9000"
proof -
  have "cs_requested_mtu s \<le> 9000"
    using assms by (auto simp: client_inv_def encode_client_hello_def client_hello_of_def
        kMaximumTunnelMtu_def not_less split: if_splits)
  then show ?thesis by (simp add: word_le_nat_alt)
qed

lemma assigned_bound:
  assumes "client_inv s" "cs_state s = CEstablished" "cs_assignment s = Some a"
  shows "unat (mtu a) \<le> 9000"
proof -
  have "mtu a \<le> cs_requested_mtu s"
    using assms by (auto simp: client_inv_def assignment_is_acceptable_def not_less split: if_splits)
  with requested_bound [OF assms(1)] show ?thesis by (simp add: word_le_nat_alt)
qed

lemma client_fail_outcome:
  assumes "client_inv s" "length t \<le> kMaximumErrorMessageSize"
  shows "\<exists>r s'. client_fail s code t = (Inr r, s') \<and> client_outcome s r s' \<and> cr_close_transport r
    \<and> cr_packets_to_tun r = [] \<and> pending_ping_nonce s' = pending_ping_nonce s"
proof -
  obtain payload where payload: "encode_error_message
      \<lparr>error_code = client_error_code code, error_text = t\<rparr> = Inr payload"
    using assms(2) by (simp add: encode_error_message_def)
  then have "length payload \<le> kMaxPayloadSize"
    using length_error_message by (fastforce simp: kMaxPayloadSize_def)
  with payload assms(1) show ?thesis
    by (auto simp: client_fail_def client_make_outbound_def client_outcome_def client_nothing_def
        client_over_def elim: client_inv_same)
qed

lemma client_catch_outcome:
  assumes "client_inv s" "refused e"
  shows "\<exists>r s'. client_catch s e = (Inr r, s') \<and> client_outcome s r s' \<and> cr_close_transport r
    \<and> cr_packets_to_tun r = [] \<and> pending_ping_nonce s' = pending_ping_nonce s"
  using assms(2) client_fail_outcome [OF assms(1)] by (auto simp: refused_def client_catch_def)

lemma client_validate_short:
  "client_validate_ipv4_packet s p b = Some (c, t) \<Longrightarrow> length t \<le> kMaximumErrorMessageSize"
  "client_validate_ipv6_packet s p b = Some (c, t) \<Longrightarrow> length t \<le> kMaximumErrorMessageSize"
  by (auto simp: client_validate_ipv4_packet_def client_validate_ipv6_packet_def Let_def
      kMaximumErrorMessageSize_def split: if_splits option.splits)

lemma receive_assignment_outcome:
  assumes inv: "client_inv s"
  shows "\<exists>r s'. receive_assignment s frame = (Inr r, s') \<and> client_outcome s r s'
    \<and> cr_packets_to_tun r = [] \<and> pending_ping_nonce s' = pending_ping_nonce s"
proof (cases "decode_ip_assignment (frame_payload frame)")
  case (Inl e)
  with client_catch_outcome [OF inv decode_ip_assignment_refused [OF Inl]] show ?thesis
    by (auto simp: receive_assignment_def)
next
  case (Inr a)
  have "wf_IpAssignment a" "validate_ip_assignment a = Inr ()"
    using Inr ip_assignment.dec_iff_enc [of _ a] by (auto simp: encode_ip_assignment_Inr_iff)
  with Inr inv
    client_fail_outcome [OF inv, of "''server IP assignment violates client tunnel policy''" CInvalidAssignment]
  show ?thesis
    by (auto simp: receive_assignment_def client_outcome_def client_nothing_def client_inv_def
        client_over_def kMaximumErrorMessageSize_def)
qed

lemma client_dispatch_outcome:
  assumes inv: "client_inv s" and est: "cs_state s = CEstablished"
  shows "\<exists>r s'. client_dispatch s frame = (Inr r, s') \<and> client_outcome s r s'"
proof -
  note fail = client_fail_outcome [OF inv]
  have same: "client_outcome s (client_nothing\<lparr>cr_packets_to_tun := ps\<rparr>) s" for ps
    using inv est by (simp add: client_outcome_def client_nothing_def client_over_def)
  have over: "client_outcome s (client_nothing\<lparr>cr_remote_error := err, cr_close_transport := True\<rparr>)
      (s\<lparr>cs_state := CClosed\<rparr>)" for err
    using inv by (simp add: client_outcome_def client_nothing_def client_over_def client_inv_def)
  have pong: "client_outcome s (client_nothing\<lparr>cr_outbound_frames := [\<lparr>frame_type = Pong, frame_flags = 0,
      frame_sequence = cs_next_outbound_sequence s, frame_payload = encode_liveness_probe probe\<rparr>]\<rparr>)
      (s\<lparr>cs_next_outbound_sequence := cs_next_outbound_sequence s + 1\<rparr>)" for probe
    using inv est by (auto simp: client_outcome_def client_nothing_def client_over_def kMaxPayloadSize_def
        elim: client_inv_same)
  have answered: "client_outcome s client_nothing (s\<lparr>pending_ping_nonce := None\<rparr>)"
    using inv est by (auto simp: client_outcome_def client_nothing_def client_over_def elim: client_inv_same)
  show ?thesis
  proof (cases "frame_type frame")
    case DataIpv4
    show ?thesis
      using DataIpv4 same fail client_validate_short(1) [of s "frame_payload frame" True]
      by (cases "client_validate_ipv4_packet s (frame_payload frame) True")
        (fastforce simp: client_dispatch_def)+
  next
    case DataIpv6
    show ?thesis
      using DataIpv6 same fail client_validate_short(2) [of s "frame_payload frame" True]
      by (cases "client_validate_ipv6_packet s (frame_payload frame) True")
        (fastforce simp: client_dispatch_def)+
  next
    case Ping
    show ?thesis
      using Ping pong client_catch_outcome [OF inv decode_liveness_probe_refused [of "frame_payload frame"]]
      by (cases "decode_liveness_probe (frame_payload frame)")
        (fastforce simp: client_dispatch_def client_make_outbound_def Let_def)+
  next
    case Pong
    show ?thesis
      using Pong answered fail [of "''PONG nonce does not match an outstanding PING''" CInvalidControlPayload]
        client_catch_outcome [OF inv decode_liveness_probe_refused [of "frame_payload frame"]]
      by (cases "decode_liveness_probe (frame_payload frame)")
        (fastforce simp: client_dispatch_def kMaximumErrorMessageSize_def)+
  next
    case Error
    show ?thesis
      using Error over client_catch_outcome [OF inv decode_error_message_refused [of "frame_payload frame"]]
      by (cases "decode_error_message (frame_payload frame)") (fastforce simp: client_dispatch_def)+
  next
    case Close
    show ?thesis
      using Close over [of None]
        client_catch_outcome [OF inv decode_close_message_refused [of "frame_payload frame"]]
      by (cases "decode_close_message (frame_payload frame)")
        (fastforce simp: client_dispatch_def client_nothing_def)+
  qed (use fail [of "''message type is not valid in the established client state''" CUnexpectedMessage]
      in \<open>fastforce simp: client_dispatch_def kMaximumErrorMessageSize_def\<close>)+
qed

lemma client_handle_outcome:
  assumes inv: "client_inv s"
  shows "\<exists>r s'. client_handle s frame = (Inr r, s') \<and>
    (if cs_state s = CIdle \<or> client_over s then s' = s \<and> r = client_nothing\<lparr>cr_close_transport := True\<rparr>
     else if frame_sequence frame \<noteq> cs_next_expected_sequence s then
       client_outcome s r s' \<and> cr_close_transport r
     else client_outcome (s\<lparr>cs_next_expected_sequence := cs_next_expected_sequence s + 1\<rparr>) r s')"
proof -
  let ?s = "s\<lparr>cs_next_expected_sequence := cs_next_expected_sequence s + 1\<rparr>"
  have inv': "client_inv ?s" using inv by (auto elim: client_inv_same)
  have "length (''unexpected inbound sequence; expected '' @ to_string (unat (cs_next_expected_sequence s)))
      \<le> kMaximumErrorMessageSize"
    using to_string_u64 [of "cs_next_expected_sequence s"] by (simp add: kMaximumErrorMessageSize_def)
  note seq = client_fail_outcome [OF inv this, of CInvalidSequence]
  note first = client_fail_outcome [OF inv', of "''IP_ASSIGN must be the first server message''" CUnexpectedMessage]
  show ?thesis
    using seq first receive_assignment_outcome [OF inv', of frame] client_dispatch_outcome [OF inv', of frame]
    by (cases "cs_state s") (auto simp: client_handle_def client_over_def Let_def kMaximumErrorMessageSize_def)
qed

lemma make_data_to_server_inv:
  assumes inv: "client_inv s" and f: "make_data_to_server s packet = (f, s')"
  shows "client_inv s'
    \<and> numbered (cs_next_outbound_sequence s) (frame_list f) (cs_next_outbound_sequence s')
    \<and> cs_next_expected_sequence s' = cs_next_expected_sequence s
    \<and> cs_state s' = cs_state s \<and> pending_ping_nonce s' = pending_ping_nonce s"
proof -
  have "length packet \<le> 9000"
    if "cs_state s = CEstablished" "client_validate_ipv4_packet s packet False = None
      \<or> client_validate_ipv6_packet s packet False = None"
    using that assigned_bound [OF inv that(1)]
    by (fastforce simp: client_validate_ipv4_packet_def client_validate_ipv6_packet_def Let_def not_less
        split: if_splits option.splits)
  with inv f show ?thesis
    by (auto simp: make_data_to_server_def client_make_outbound_def frame_list_def kMaxPayloadSize_def
        elim: client_inv_same split: if_splits option.splits)
qed

section \<open>Runs of a session\<close>

datatype client_event =
    Ce_start
  | Ce_frame Frame
  | Ce_packet bytes
  | Ce_ping u64
  | Ce_close u16
  | Ce_transport_closed

fun client_step :: "client_event \<Rightarrow> ClientSessionController \<Rightarrow> ClientSessionController" where
  "client_step Ce_start s = snd (client_start s)"
| "client_step (Ce_frame frame) s = snd (client_handle s frame)"
| "client_step (Ce_packet packet) s = snd (make_data_to_server s packet)"
| "client_step (Ce_ping n) s = snd (make_ping s n)"
| "client_step (Ce_close code) s = snd (make_close s code)"
| "client_step Ce_transport_closed s = client_on_transport_closed s"

fun client_sent :: "client_event \<Rightarrow> ClientSessionController \<Rightarrow> Frame list" where
  "client_sent Ce_start s = (case fst (client_start s) of Inr f \<Rightarrow> [f] | Inl _ \<Rightarrow> [])"
| "client_sent (Ce_frame frame) s =
     (case fst (client_handle s frame) of Inr r \<Rightarrow> cr_outbound_frames r | Inl _ \<Rightarrow> [])"
| "client_sent (Ce_packet packet) s = frame_list (fst (make_data_to_server s packet))"
| "client_sent (Ce_ping n) s = frame_list (fst (make_ping s n))"
| "client_sent (Ce_close code) s = frame_list (fst (make_close s code))"
| "client_sent Ce_transport_closed s = []"

lemma client_start_inv:
  assumes inv: "client_inv s"
  shows "client_inv (client_step Ce_start s)
    \<and> numbered (cs_next_outbound_sequence s) (client_sent Ce_start s)
        (cs_next_outbound_sequence (client_step Ce_start s))"
proof -
  obtain bs where bs: "encode_client_hello (client_hello_of (cs_requested_mtu s)) = Inr bs"
    using inv by (auto simp: client_inv_def)
  then have "length bs \<le> kMaxPayloadSize"
    using length_client_hello by (fastforce simp: kMaxPayloadSize_def)
  with bs inv show ?thesis
    by (auto simp: client_start_def client_make_outbound_def elim: client_inv_same)
qed

lemma client_step_facts:
  assumes inv: "client_inv s"
  shows "client_inv (client_step e s)
    \<and> numbered (cs_next_outbound_sequence s) (client_sent e s)
        (cs_next_outbound_sequence (client_step e s))"
proof (cases e)
  case Ce_start
  with client_start_inv [OF inv] show ?thesis by simp
next
  case (Ce_frame f)
  with client_handle_outcome [OF inv, of f] inv show ?thesis
    by (auto simp: client_outcome_def client_nothing_def split: if_splits)
next
  case (Ce_packet p)
  with make_data_to_server_inv [OF inv, of p] show ?thesis
    by (cases "make_data_to_server s p") auto
next
  case (Ce_ping n)
  with inv show ?thesis
    by (auto simp: make_ping_def client_make_outbound_def frame_list_def kMaxPayloadSize_def
        elim: client_inv_same)
next
  case (Ce_close code)
  with inv show ?thesis
    by (auto simp: make_close_def client_make_outbound_def frame_list_def kMaxPayloadSize_def Let_def
        elim: client_inv_same)
next
  case Ce_transport_closed
  with inv show ?thesis
    by (auto simp: client_on_transport_closed_def elim: client_inv_same)
qed

interpretation client_session: numbering client_step client_inv cs_next_outbound_sequence client_sent
  by unfold_locales (simp_all add: client_step_facts)

lemma client_inv_new: "new_ClientSessionController u = Inr s \<Longrightarrow> client_inv s"
  by (auto simp: new_ClientSessionController_def client_inv_def and_then_Inr_iff)

section \<open>Liveness probes\<close>

text \<open>
  The nonces of the PING frames a step sends, and of the PONG frames it receives.
\<close>

fun ping_sent :: "client_event \<Rightarrow> ClientSessionController \<Rightarrow> u64 list" where
  "ping_sent (Ce_ping n) s = (case fst (make_ping s n) of Some _ \<Rightarrow> [n] | None \<Rightarrow> [])"
| "ping_sent _ s = []"

fun pong_received :: "client_event \<Rightarrow> ClientSessionController \<Rightarrow> u64 list" where
  "pong_received (Ce_frame f) s =
     (if cs_state s = CEstablished \<and> frame_type f = Pong then
        (case decode_liveness_probe (frame_payload f) of Inr probe \<Rightarrow> [nonce probe] | Inl _ \<Rightarrow> [])
      else [])"
| "pong_received _ s = []"

definition pending_list :: "ClientSessionController \<Rightarrow> u64 list" where
  "pending_list s = (case pending_ping_nonce s of None \<Rightarrow> [] | Some n \<Rightarrow> [n])"

lemma client_fail_over:
  "client_inv s \<Longrightarrow> length t \<le> kMaximumErrorMessageSize \<Longrightarrow> client_over (snd (client_fail s c t))"
  using client_fail_outcome [of s t c] by (auto simp: client_outcome_def)

lemma client_catch_over: "client_inv s \<Longrightarrow> refused e \<Longrightarrow> client_over (snd (client_catch s e))"
  using client_catch_outcome [of s e] by (auto simp: client_outcome_def)

lemma client_dispatch_probe:
  assumes inv: "client_inv s" and est: "cs_state s = CEstablished"
    and "\<not> client_over (snd (client_dispatch s f))"
  shows "pending_list s = pong_received (Ce_frame f) s @ pending_list (snd (client_dispatch s f))"
proof -
  note over = client_fail_over [OF inv] client_catch_over [OF inv]
  show ?thesis
  proof (cases "frame_type f")
    case DataIpv4
    with assms over client_validate_short(1) [of s "frame_payload f" True] show ?thesis
      by (auto simp: client_dispatch_def split: option.splits)
  next
    case DataIpv6
    with assms over client_validate_short(2) [of s "frame_payload f" True] show ?thesis
      by (auto simp: client_dispatch_def split: option.splits)
  next
    case Ping
    with assms over decode_liveness_probe_refused [of "frame_payload f"] show ?thesis
      by (auto simp: client_dispatch_def client_make_outbound_def pending_list_def split: sum.splits)
  next
    case Pong
    with assms over decode_liveness_probe_refused [of "frame_payload f"] show ?thesis
      by (auto simp: client_dispatch_def pending_list_def kMaximumErrorMessageSize_def
          split: sum.splits if_splits)
  next
    case Error
    with assms over decode_error_message_refused [of "frame_payload f"] show ?thesis
      by (auto simp: client_dispatch_def client_over_def split: sum.splits)
  next
    case Close
    with assms over decode_close_message_refused [of "frame_payload f"] show ?thesis
      by (auto simp: client_dispatch_def client_over_def split: sum.splits)
  qed (use assms over in \<open>auto simp: client_dispatch_def kMaximumErrorMessageSize_def\<close>)
qed

lemma client_over_step: "client_over s \<Longrightarrow> client_over (client_step e s)"
  by (cases e) (auto simp: client_over_def client_start_def client_handle_def make_data_to_server_def
      make_ping_def make_close_def client_on_transport_closed_def)

lemma client_over_run: "client_over s \<Longrightarrow> client_over (fold client_step es s)"
  by (induction es arbitrary: s) (simp_all add: client_over_step)

text \<open>Frames leave the session open only when they are the expected ones.\<close>

lemma client_handle_open:
  assumes inv: "client_inv s" and "\<not> client_over (snd (client_handle s f))"
  shows "cs_state s = CIdle \<and> client_handle s f = (Inr (client_nothing\<lparr>cr_close_transport := True\<rparr>), s)
    \<or> frame_sequence f = cs_next_expected_sequence s
      \<and> (cs_state s = CAwaitingAssignment \<and> client_handle s f
           = receive_assignment (s\<lparr>cs_next_expected_sequence := cs_next_expected_sequence s + 1\<rparr>) f
         \<or> cs_state s = CEstablished \<and> client_handle s f
           = client_dispatch (s\<lparr>cs_next_expected_sequence := cs_next_expected_sequence s + 1\<rparr>) f)"
proof -
  let ?s = "s\<lparr>cs_next_expected_sequence := cs_next_expected_sequence s + 1\<rparr>"
  have "client_inv ?s" using inv by (auto elim: client_inv_same)
  then have first: "client_over (snd (client_fail ?s CUnexpectedMessage ''IP_ASSIGN must be the first server message''))"
    by (rule client_fail_over) (simp add: kMaximumErrorMessageSize_def)
  have "client_over (snd (client_fail s CInvalidSequence
      (''unexpected inbound sequence; expected '' @ to_string (unat (cs_next_expected_sequence s)))))"
    using to_string_u64 [of "cs_next_expected_sequence s"]
    by (intro client_fail_over inv) (simp add: kMaximumErrorMessageSize_def)
  with first assms(2) show ?thesis
    by (cases "cs_state s") (auto simp: client_handle_def client_over_def Let_def split: if_splits)
qed

lemma probe_step:
  assumes inv: "client_inv s" and up: "\<not> client_over (client_step e s)"
  shows "pending_list s @ ping_sent e s = pong_received e s @ pending_list (client_step e s)"
proof (cases e)
  case Ce_start
  then show ?thesis
    by (auto simp: client_start_def client_make_outbound_def pending_list_def Let_def split: sum.splits)
next
  case (Ce_frame f)
  let ?s = "s\<lparr>cs_next_expected_sequence := cs_next_expected_sequence s + 1\<rparr>"
  have inv': "client_inv ?s" using inv by (auto elim: client_inv_same)
  have up': "\<not> client_over (snd (client_handle s f))" using up Ce_frame by simp
  from client_handle_open [OF inv up'] show ?thesis
  proof (elim disjE conjE)
    assume "cs_state s = CAwaitingAssignment" "client_handle s f = receive_assignment ?s f"
    with receive_assignment_outcome [OF inv', of f] Ce_frame show ?thesis
      by (auto simp: pending_list_def)
  next
    assume "cs_state s = CEstablished" "client_handle s f = client_dispatch ?s f"
    with client_dispatch_probe [OF inv', of f] up' Ce_frame show ?thesis
      by (simp add: pending_list_def)
  qed (use Ce_frame in \<open>simp add: pending_list_def\<close>)
next
  case (Ce_packet p)
  with make_data_to_server_inv [OF inv, of p] show ?thesis
    by (cases "make_data_to_server s p") (simp add: pending_list_def)
next
  case (Ce_ping n)
  then show ?thesis
    by (auto simp: make_ping_def client_make_outbound_def pending_list_def Let_def split: option.splits)
next
  case (Ce_close code)
  with up show ?thesis
    by (auto simp: make_close_def client_make_outbound_def pending_list_def Let_def client_over_def
        split: if_splits)
next
  case Ce_transport_closed
  with up show ?thesis by (simp add: client_on_transport_closed_def client_over_def)
qed

lemma probe_run:
  assumes "client_inv s" "\<not> client_over (fold client_step es s)"
  shows "pending_list s @ trace client_step ping_sent es s
    = trace client_step pong_received es s @ pending_list (fold client_step es s)"
  using assms
proof (induction es arbitrary: s)
  case (Cons e es)
  let ?s = "client_step e s"
  have inv: "client_inv ?s" using client_step_facts Cons.prems(1) by blast
  have up: "\<not> client_over ?s" using client_over_run [of ?s es] Cons.prems(2) by auto
  have "pending_list s @ ping_sent e s = pong_received e s @ pending_list ?s"
    by (rule probe_step [OF Cons.prems(1) up])
  moreover have "pending_list ?s @ trace client_step ping_sent es ?s
      = trace client_step pong_received es ?s @ pending_list (fold client_step es ?s)"
    using Cons.IH [OF inv] Cons.prems(2) by simp
  ultimately show ?case by (metis (no_types, lifting) append_assoc fold_simps(2) trace.simps(2))
qed simp

section \<open>The policy on assignments\<close>

lemma address_value_to_integer: "address_value a = to_integer a"
  by (simp add: address_value_def to_integer_def)

lemma bit_client_mask:
  assumes "p \<le> 32"
  shows "bit (client_mask p) n \<longleftrightarrow> n < 32 \<and> 32 - unat p \<le> n"
proof (cases "p = 32")
  case False
  have "unat (32 - p) = 32 - unat p" using assms by (simp add: unat_sub)
  with False show ?thesis by (auto simp: client_mask_def bit_simps)
qed (simp add: client_mask_def bit_simps)

text \<open>The host part of an address has both a zero and a one.\<close>

definition proper_host :: "u32 \<Rightarrow> u8 \<Rightarrow> bool" where
  "proper_host a p \<longleftrightarrow> (\<exists>n < 32 - unat p. bit a n) \<and> (\<exists>n < 32 - unat p. \<not> bit a n)"

lemma u32_eq_iff: "(a :: u32) = b \<longleftrightarrow> (\<forall>n < 32. bit a n = bit b n)"
  by (auto simp: bit_eq_iff dest: bit_imp_le_length)

lemma same_network_iff:
  assumes "p \<le> 32"
  shows "a AND client_mask p = b AND client_mask p \<longleftrightarrow>
    (\<forall>n < 32. 32 - unat p \<le> n \<longrightarrow> bit a n = bit b n)"
  by (auto simp: u32_eq_iff bit_and_iff bit_client_mask [OF assms])

lemma network_address_iff:
  assumes "p \<le> 32" "a AND client_mask p = b AND client_mask p"
  shows "a = b AND client_mask p \<longleftrightarrow> (\<forall>n < 32 - unat p. \<not> bit a n)"
    and "a = b AND client_mask p OR NOT (client_mask p) \<longleftrightarrow> (\<forall>n < 32 - unat p. bit a n)"
proof -
  have same: "\<And>n. n < 32 \<Longrightarrow> 32 - unat p \<le> n \<Longrightarrow> bit a n = bit b n"
    using assms(2) by (simp add: same_network_iff [OF assms(1)])
  have low: "n < 32 - unat p \<Longrightarrow> n < 32" for n by simp
  show "a = b AND client_mask p \<longleftrightarrow> (\<forall>n < 32 - unat p. \<not> bit a n)"
    unfolding u32_eq_iff bit_and_iff bit_client_mask [OF assms(1)]
    using same low by (metis not_le)
  show "a = b AND client_mask p OR NOT (client_mask p) \<longleftrightarrow> (\<forall>n < 32 - unat p. bit a n)"
    unfolding u32_eq_iff bit_and_iff bit_or_iff bit_not_iff bit_client_mask [OF assms(1)]
    using same low by (auto simp: not_le)
qed

lemma proper_host_iff:
  assumes "p \<le> 32" "a AND client_mask p = b AND client_mask p"
  shows "proper_host a p \<longleftrightarrow>
    a \<noteq> b AND client_mask p \<and> a \<noteq> b AND client_mask p OR NOT (client_mask p)"
  using network_address_iff [OF assms] by (auto simp: proper_host_def)

section \<open>What is delivered\<close>

lemma client_fail_results:
  "client_fail s c t = (Inr r, s') \<Longrightarrow> cr_packets_to_tun r = [] \<and> cr_remote_error r = None"
  by (auto simp: client_fail_def client_make_outbound_def client_nothing_def split: sum.splits)

lemma client_catch_results:
  "client_catch s e = (Inr r, s') \<Longrightarrow> cr_packets_to_tun r = [] \<and> cr_remote_error r = None"
  by (auto simp: client_catch_def dest: client_fail_results split: cxx_exception.splits)

lemma receive_assignment_results:
  "receive_assignment s f = (Inr r, s') \<Longrightarrow> cr_packets_to_tun r = [] \<and> cr_remote_error r = None"
  by (auto simp: receive_assignment_def client_nothing_def
      dest: client_catch_results client_fail_results split: sum.splits if_splits)

lemma client_dispatch_packets:
  assumes "client_dispatch s frame = (Inr r, s')" "p \<in> set (cr_packets_to_tun r)"
    and "cs_assignment s = Some a"
  shows "p = frame_payload frame \<and> length p \<le> unat (mtu a)
    \<and> (frame_type frame = DataIpv4 \<and> be16 p 2 = length p
         \<and> [p ! 16, p ! 17, p ! 18, p ! 19] = client_address a
       \<or> frame_type frame = DataIpv6 \<and> be16 p 4 + 40 = length p
         \<and> take 16 (drop 24 p) = client_ipv6_address a)"
proof (cases "frame_type frame")
  case DataIpv4
  with assms show ?thesis
    by (auto simp: client_dispatch_def client_validate_ipv4_packet_def client_nothing_def Let_def
        dest: client_fail_results split: if_splits)
next
  case DataIpv6
  with assms show ?thesis
    by (auto simp: client_dispatch_def client_validate_ipv6_packet_def client_nothing_def Let_def
        dest: client_fail_results split: if_splits)
qed (use assms in \<open>auto simp: client_dispatch_def client_nothing_def client_make_outbound_def Let_def
        dest: client_fail_results client_catch_results split: sum.splits if_splits\<close>)

lemma client_handle_packets:
  assumes "client_handle s frame = (Inr r, s')" "p \<in> set (cr_packets_to_tun r)"
  shows "cs_state s = CEstablished \<and> frame_sequence frame = cs_next_expected_sequence s
    \<and> client_dispatch (s\<lparr>cs_next_expected_sequence := cs_next_expected_sequence s + 1\<rparr>) frame = (Inr r, s')"
  using assms
  by (cases "cs_state s")
    (auto simp: client_handle_def client_nothing_def Let_def
      dest: client_fail_results receive_assignment_results split: if_splits)

lemma client_requested_fail [simp]: "cs_requested_mtu (snd (client_fail s c t)) = cs_requested_mtu s"
  by (simp add: client_fail_def client_make_outbound_def split: sum.splits)

lemma client_requested_catch [simp]: "cs_requested_mtu (snd (client_catch s e)) = cs_requested_mtu s"
  by (simp add: client_catch_def split: cxx_exception.splits)

lemma client_requested_handle [simp]: "cs_requested_mtu (snd (client_handle s f)) = cs_requested_mtu s"
proof -
  have "cs_requested_mtu (snd (receive_assignment x f)) = cs_requested_mtu x" for x
    by (simp add: receive_assignment_def split: sum.splits)
  moreover have "cs_requested_mtu (snd (client_dispatch x f)) = cs_requested_mtu x" for x
    by (cases "frame_type f")
      (simp_all add: client_dispatch_def client_make_outbound_def Let_def split: sum.splits option.splits)
  ultimately show ?thesis by (simp add: client_handle_def Let_def)
qed

lemma client_requested_step [simp]: "cs_requested_mtu (client_step e s) = cs_requested_mtu s"
  by (cases e)
    (simp_all add: client_start_def client_make_outbound_def make_data_to_server_def make_ping_def
      make_close_def client_on_transport_closed_def Let_def split: sum.splits option.splits)

lemma client_requested_run [simp]: "cs_requested_mtu (fold client_step es s) = cs_requested_mtu s"
  by (induction es arbitrary: s) simp_all

section \<open>A concrete session\<close>

text \<open>A client asks for an MTU of 1400 and is assigned 10.8.0.2/24 behind 10.8.0.1.\<close>

definition demo_client :: ClientSessionController where
  "demo_client = \<lparr>cs_requested_mtu = 1400, cs_state = CIdle, cs_assignment = None,
     pending_ping_nonce = None, cs_next_expected_sequence = 1, cs_next_outbound_sequence = 1\<rparr>"

definition demo_assignment :: bytes where
  "demo_assignment = [10, 8, 0, 2, 10, 8, 0, 1, 24, 0, 5, 120, 0, 0, 14, 16] @ replicate 36 0"

definition demo_frame :: "MessageType \<Rightarrow> u64 \<Rightarrow> bytes \<Rightarrow> Frame" where
  "demo_frame type n payload =
     \<lparr>frame_type = type, frame_flags = 0, frame_sequence = n, frame_payload = payload\<rparr>"

definition demo_packet :: bytes where
  "demo_packet = [0x45, 0, 0, 20, 0, 0, 0, 0, 64, 17, 0, 0, 1, 1, 1, 1, 10, 8, 0, 2]"

definition demo_handshake :: "client_event list" where
  "demo_handshake = [Ce_start, Ce_frame (demo_frame IpAssign 1 demo_assignment)]"

definition demo_probes :: "client_event list" where
  "demo_probes = demo_handshake @
     [Ce_ping 7, Ce_ping 8, Ce_frame (demo_frame Pong 2 [0, 0, 0, 0, 0, 0, 0, 7]), Ce_ping 9]"

lemma demo_client_new: "new_ClientSessionController 1400 = Inr demo_client"
  by code_simp

section \<open>Properties\<close>

text \<open>
  A client session never fails in an uncontrolled way: whatever was called before,
  handling a frame returns a result, no exception leaves \<open>handle\<close>, and every frame of the
  result is one the encoder accepts.
\<close>

theorem client_handle_total:
  assumes "new_ClientSessionController u = Inr s0" and "s = fold client_step events s0"
  shows "\<exists>r s'. client_handle s frame = (Inr r, s')
    \<and> (\<forall>f \<in> set (cr_outbound_frames r). \<exists>bs. encode_frame f = Inr bs)"
proof -
  have inv: "client_inv s"
    unfolding assms(2) by (rule client_session.run_invar [OF client_inv_new [OF assms(1)]])
  obtain r s' where "client_handle s frame = (Inr r, s')"
    using client_handle_outcome [OF inv, of frame] by blast
  with client_step_facts [OF inv, of "Ce_frame frame"] numbered_encodable show ?thesis by fastforce
qed

theorem client_handle_total_witness:
  "\<exists>r s'. client_handle (fold client_step demo_handshake demo_client) (demo_frame DataIpv4 2 demo_packet)
     = (Inr r, s') \<and> (\<forall>f \<in> set (cr_outbound_frames r). \<exists>bs. encode_frame f = Inr bs)"
  by (rule client_handle_total [OF demo_client_new refl])



text \<open>
  The frames a client session sends, from the hello to the close, carry the sequence
  numbers 1, 2, 3, \<dots> without gap or repetition (modulo \<open>2^64\<close>), in whatever order the
  session's functions are called.
\<close>

theorem client_sends_consecutive:
  assumes "new_ClientSessionController u = Inr s"
  shows "map frame_sequence (trace client_step client_sent events s)
    = map (\<lambda>i. 1 + word_of_nat i) [0..<length (trace client_step client_sent events s)]"
proof -
  have "cs_next_outbound_sequence s = 1"
    using assms by (auto simp: new_ClientSessionController_def and_then_Inr_iff)
  with client_session.run_numbered [OF client_inv_new [OF assms], of events] show ?thesis
    unfolding numbered_def by simp
qed

theorem client_sends_consecutive_witness:
  "map frame_sequence (trace client_step client_sent demo_probes demo_client) = [1, 2, 3]"
proof -
  have "length (trace client_step client_sent demo_probes demo_client) = 3" by code_simp
  with client_sends_consecutive [OF demo_client_new, of demo_probes] show ?thesis
    by (simp add: upt_rec)
qed

text \<open>
  Liveness probes are matched. In a session that is not over, the nonces of the PONGs
  received are the nonces of the PINGs sent, in order, except that the last PING may still be
  outstanding: at most one is, and an unsolicited or repeated PONG has ended the session.
\<close>

theorem client_pongs_answer_pings:
  assumes "new_ClientSessionController u = Inr s0" and "s = fold client_step events s0"
    and "\<not> client_over s"
  shows "trace client_step ping_sent events s0
    = trace client_step pong_received events s0 @ (case pending_ping_nonce s of None \<Rightarrow> [] | Some n \<Rightarrow> [n])"
proof -
  have "pending_list s0 = []"
    using assms(1) by (auto simp: new_ClientSessionController_def and_then_Inr_iff pending_list_def)
  with probe_run [OF client_inv_new [OF assms(1)], of events] assms(2,3) show ?thesis
    by (simp add: pending_list_def)
qed

theorem client_pongs_answer_pings_witness:
  "\<not> client_over (fold client_step demo_probes demo_client)
   \<and> trace client_step ping_sent demo_probes demo_client
     = trace client_step pong_received demo_probes demo_client @ [9]"
proof -
  have up: "\<not> client_over (fold client_step demo_probes demo_client)" by code_simp
  have "pending_ping_nonce (fold client_step demo_probes demo_client) = Some 9" by code_simp
  with up client_pongs_answer_pings [OF demo_client_new refl up] show ?thesis by simp
qed

text \<open>
  C10: what the client accepts, in terms of the bits of the addresses. An assignment that
  passed the decoder is accepted exactly when its MTU is at most the requested one, the client
  and gateway addresses differ and agree on the bits of the prefix, in a subnet that has room
  for hosts neither is the network or broadcast address (its host part has a zero and a one),
  and IPv6 is either absent or a common /64.
\<close>

theorem assignment_policy_exact:
  assumes "decode_ip_assignment bs = Inr a"
  shows "assignment_is_acceptable s a \<longleftrightarrow>
    mtu a \<le> cs_requested_mtu s \<and> client_address a \<noteq> gateway_address a
    \<and> (\<forall>n < 32. 32 - unat (prefix_length a) \<le> n \<longrightarrow>
         bit (to_integer (client_address a)) n = bit (to_integer (gateway_address a)) n)
    \<and> (prefix_length a \<le> 30 \<longrightarrow>
         proper_host (to_integer (client_address a)) (prefix_length a)
         \<and> proper_host (to_integer (gateway_address a)) (prefix_length a))
    \<and> (ipv6_prefix_length a = 0
       \<or> ipv6_prefix_length a = 64
         \<and> take 8 (client_ipv6_address a) = take 8 (gateway_ipv6_address a))"
proof -
  have wf: "wf_IpAssignment a" and v: "validate_ip_assignment a = Inr ()"
    using assms ip_assignment.dec_iff_enc [of bs a] by (auto simp: encode_ip_assignment_Inr_iff)
  have p: "prefix_length a \<le> 32"
    using v by (auto simp: validate_ip_assignment_def not_less split: if_splits)
  have zero: "list_all (\<lambda>b. b = 0) x \<longleftrightarrow> x = replicate 16 0" if "length x = 16" for x :: bytes
    using that replicate_length_same [of x 0] by (auto simp: list_all_iff)
  have v6: "ipv6_prefix_length a = 0 \<Longrightarrow>
      client_ipv6_address a = replicate 16 0 \<and> gateway_ipv6_address a = replicate 16 0"
    "ipv6_prefix_length a \<noteq> 0 \<Longrightarrow> client_ipv6_address a \<noteq> gateway_ipv6_address a"
    using v wf zero
    by (auto simp: validate_ip_assignment_def Let_def and_then_Inr_iff wf_IpAssignment_def split: if_splits)
  show ?thesis
    unfolding same_network_iff [OF p, symmetric]
    using v6 proper_host_iff [OF p] proper_host_iff [OF p refl]
    by (auto simp: assignment_is_acceptable_def address_value_to_integer Let_def not_less)
qed

theorem assignment_policy_exact_witness:
  "\<exists>a. decode_ip_assignment demo_assignment = Inr a \<and> assignment_is_acceptable demo_client a
     \<and> proper_host (to_integer (client_address a)) (prefix_length a)"
proof -
  have "(case decode_ip_assignment demo_assignment of
      Inr a \<Rightarrow> assignment_is_acceptable demo_client a \<and> prefix_length a \<le> 30 | Inl _ \<Rightarrow> False)"
    by code_simp
  then obtain a where "decode_ip_assignment demo_assignment = Inr a"
    "assignment_is_acceptable demo_client a" "prefix_length a \<le> 30"
    by (auto split: sum.splits)
  with assignment_policy_exact [of demo_assignment a demo_client] show ?thesis by blast
qed

end
