(* ===== verification/Tunnel.thy ===== *)
theory Tunnel
  imports Session_Controller Client_Session
begin

unbundle bit_operations_syntax

text \<open>
  The two session controllers together: what the server assigns passes the client's policy,
  and what one side sends in order the other side delivers. The properties themselves are in
  the root theory.
\<close>

section \<open>Subnets\<close>

lemma subnet_mask_client: "subnet_mask p = client_mask p"
  by (simp add: subnet_mask_def client_mask_def)

lemma masked_value:
  assumes "p \<le> 32"
  shows "unat (a AND client_mask p) = unat a div 2 ^ (32 - unat p) * 2 ^ (32 - unat p)"
proof -
  let ?k = "32 - unat p"
  have "a AND client_mask p = push_bit ?k (drop_bit ?k a)"
    by (rule bit_word_eqI) (auto simp: bit_simps bit_client_mask [OF assms])
  moreover have "unat a div 2 ^ ?k * 2 ^ ?k < 2 ^ 32"
    using unsigned_less [where 'a=nat, of a] by (simp add: le_less_trans [OF div_times_less_eq_dividend])
  moreover have "unat (push_bit ?k (drop_bit ?k a)) = take_bit 32 (unat a div 2 ^ ?k * 2 ^ ?k)"
    unfolding unsigned_push_bit_eq unsigned_drop_bit_eq
    using unsigned_less [where 'a=nat, of a] by (simp add: push_bit_eq_mult drop_bit_eq_div take_bit_eq_mod)
  ultimately show ?thesis by (simp add: take_bit_nat_eq_self)
qed

text \<open>An address between two addresses of a subnet belongs to it.\<close>

lemma between_same_network:
  assumes p: "p \<le> 32" and "f \<le> a" "a \<le> l"
    and "f AND client_mask p = n" "l AND client_mask p = n"
  shows "a AND client_mask p = n"
proof -
  let ?d = "2 ^ (32 - unat p) :: nat"
  have "unat f div ?d \<le> unat a div ?d" "unat a div ?d \<le> unat l div ?d"
    using assms(2,3) by (simp_all add: word_le_nat_alt div_le_mono)
  moreover have "unat f div ?d * ?d = unat l div ?d * ?d"
    using masked_value [OF p, of f] masked_value [OF p, of l] assms(4,5) by simp
  ultimately have "unat (a AND client_mask p) = unat (f AND client_mask p)"
    using masked_value [OF p] by simp
  with assms(4) show ?thesis by (simp add: word_unat_eq_iff)
qed

section \<open>The handshake\<close>

text \<open>
  What the operator has to configure, beyond what the constructor of the lease manager
  checks, for its assignments to be accepted: no lease of the unspecified address, a gateway
  that is not the network or broadcast address of its subnet, an MTU that carries IPv6 when an
  IPv6 prefix is set, and no IPv6 gateway when none is.
\<close>

definition pool_usable :: "LeaseManager \<Rightarrow> bool" where
  "pool_usable m \<longleftrightarrow>
     first_address m \<noteq> 0
     \<and> (lm_prefix_length m \<le> 30 \<longrightarrow>
          (let gateway = to_integer (lm_gateway_address m); mask = subnet_mask (lm_prefix_length m)
           in gateway \<noteq> gateway AND mask \<and> gateway \<noteq> (gateway AND mask OR NOT mask)))
     \<and> (if lm_ipv6_prefix_length m = 0 then ipv6_gateway m = zero_ipv6 else kMinimumIpv6Mtu \<le> lm_mtu m)"

lemma four_bytes: "length (x :: bytes) = 4 \<Longrightarrow> x = [x ! 0, x ! 1, x ! 2, x ! 3]"
  by (rule nth_equalityI) (auto simp: less_Suc_eq numeral_eq_Suc)

lemma is_unspecified_iff: "length a = 4 \<Longrightarrow> is_unspecified a \<longleftrightarrow> to_integer a = 0"
proof -
  assume len: "length a = 4"
  have "to_integer [0, 0, 0, 0] = 0" by (simp add: to_integer_def)
  then have "to_integer a = 0 \<longleftrightarrow> a = [0, 0, 0, 0]"
    using to_integer_inject [OF len, of "[0, 0, 0, 0]"] by simp
  also have "\<dots> \<longleftrightarrow> is_unspecified a" using four_bytes [OF len] by (auto simp: is_unspecified_def)
  finally show ?thesis by simp
qed

lemma lease_in_subnet:
  assumes "lm_inv m" "lease_wf m l"
  defines "net_mask \<equiv> client_mask (lm_prefix_length m)"
    and "gateway \<equiv> to_integer (lm_gateway_address m)"
  shows "to_integer (lease_address l) AND net_mask = gateway AND net_mask"
    and "lm_prefix_length m \<le> 30 \<Longrightarrow> to_integer (lease_address l) \<noteq> gateway AND net_mask
      \<and> to_integer (lease_address l) \<noteq> (gateway AND net_mask OR NOT net_mask)"
    and "to_integer (lease_address l) \<noteq> gateway"
proof -
  have c: "lm_config m" using assms(1) by (simp add: lm_inv_def)
  have range: "first_address m \<le> to_integer (lease_address l)" "to_integer (lease_address l) \<le> last_address m"
    using assms(2) by (simp_all add: lease_wf_def)
  show "to_integer (lease_address l) AND net_mask = gateway AND net_mask"
    using between_same_network [OF _ range] c
    by (simp add: lm_config_def net_mask_def gateway_def subnet_mask_client)
  show "lm_prefix_length m \<le> 30 \<Longrightarrow> to_integer (lease_address l) \<noteq> gateway AND net_mask
      \<and> to_integer (lease_address l) \<noteq> (gateway AND net_mask OR NOT net_mask)"
    using c range unfolding lm_config_def net_mask_def gateway_def subnet_mask_client
    by (metis leD)
  show "to_integer (lease_address l) \<noteq> gateway"
    using c range unfolding lm_config_def gateway_def by metis
qed

lemma lease_v6:
  assumes "lease_wf m l" "lm_ipv6_prefix_length m \<noteq> 0"
  shows "lease_ipv6_address l \<noteq> ipv6_gateway m"
    "lease_ipv6_address l = derive_ipv6 (ipv6_prefix m) (lease_address l)"
  using assms unfolding lease_wf_def pool_ipv6_def by metis+

lemma hello_mtu:
  assumes "encode_client_hello h = Inr bs"
  shows "kMinimumIpv6Mtu \<le> requested_mtu h" "requested_mtu h \<le> kMaximumTunnelMtu"
  using assms by (auto simp: encode_client_hello_def not_less split: if_splits)

lemma hello_assignment_valid:
  assumes inv: "lm_inv m" and l: "lease_wf m l" and use: "pool_usable m"
    and h: "encode_client_hello h = Inr bs"
  shows "validate_ip_assignment (hello_assignment m l h) = Inr ()"
proof -
  have c: "lm_config m" using inv by (simp add: lm_inv_def)
  let ?mtu = "min (requested_mtu h) (lm_mtu m)"
  have v4: "\<not> is_unspecified (lease_address l)" "\<not> is_unspecified (lm_gateway_address m)"
  proof -
    have "to_integer (lease_address l) \<noteq> 0"
      using l use by (auto simp: lease_wf_def pool_usable_def)
    then show "\<not> is_unspecified (lease_address l)"
      using l by (simp add: is_unspecified_iff lease_wf_def)
  qed (use c in \<open>simp add: lm_config_def\<close>)
  have mtu: "validate_mtu ?mtu = Inr ()"
  proof -
    have "kMinimumIpv4Mtu \<le> lm_mtu m" "lm_mtu m \<le> kMaximumTunnelMtu"
      using c by (simp_all add: lm_config_def)
    moreover have "kMinimumIpv4Mtu \<le> kMinimumIpv6Mtu"
      by (simp add: kMinimumIpv4Mtu_def kMinimumIpv6Mtu_def)
    then have "kMinimumIpv4Mtu \<le> requested_mtu h" using hello_mtu(1) [OF h] by (rule order.trans)
    ultimately show ?thesis
      using hello_mtu(2) [OF h] by (simp add: validate_mtu_def min_def not_less)
  qed
  have secs: "(word_of_int (lease_duration m) :: u32) \<noteq> 0"
  proof -
    have "0 < lease_duration m" "lease_duration m < 2 ^ 32" using c by (simp_all add: lm_config_def)
    then have "uint (word_of_int (lease_duration m) :: u32) = lease_duration m"
      by (simp add: uint_word_of_int)
    then show ?thesis using c by (auto simp: lm_config_def)
  qed
  have prefix: "lm_prefix_length m \<noteq> 0" "\<not> 32 < lm_prefix_length m"
    using c by (auto simp: lm_config_def)
  show ?thesis
  proof (cases "lm_ipv6_prefix_length m = 0")
    case True
    with v4 mtu secs prefix use l show ?thesis
      by (simp add: validate_ip_assignment_def hello_assignment_def to_assignment_def Let_def
          pool_usable_def lease_wf_def pool_ipv6_def zero_ipv6_def list_all_iff)
  next
    case False
    have "\<not> list_all (\<lambda>v. v = 0) (lease_ipv6_address l)"
      using l False v4(1) four_bytes [of "lease_address l"]
      by (auto simp: lease_wf_def pool_ipv6_def derive_ipv6_def is_unspecified_def list_all_iff)
    moreover have v6_gateway: "lm_ipv6_prefix_length m = 64" "\<not> list_all (\<lambda>v. v = 0) (ipv6_gateway m)"
      using False c by (simp_all add: lm_config_def is_unspecified_v6_def)
    moreover have "kMinimumIpv6Mtu \<le> ?mtu"
      using hello_mtu(1) [OF h] use False by (simp add: pool_usable_def)
    ultimately show ?thesis
      using False v4 mtu secs prefix lease_v6(1) [OF l False] v6_gateway
      by (simp add: validate_ip_assignment_def hello_assignment_def to_assignment_def Let_def not_less)
  qed
qed

lemma hello_assignment_acceptable:
  assumes inv: "lm_inv m" and l: "lease_wf m l" and use: "pool_usable m"
    and "requested_mtu h = cs_requested_mtu s"
  shows "assignment_is_acceptable s (hello_assignment m l h)"
proof -
  note sub = lease_in_subnet [OF inv l]
  have c: "lm_config m" using inv by (simp add: lm_inv_def)
  have "lease_address l \<noteq> lm_gateway_address m" using sub(3) by auto
  moreover have "lm_prefix_length m \<le> 30 \<Longrightarrow>
      to_integer (lm_gateway_address m) \<noteq> to_integer (lm_gateway_address m) AND client_mask (lm_prefix_length m)
      \<and> to_integer (lm_gateway_address m) \<noteq>
        (to_integer (lm_gateway_address m) AND client_mask (lm_prefix_length m)
          OR NOT (client_mask (lm_prefix_length m)))"
    using use by (simp add: pool_usable_def Let_def subnet_mask_client)
  moreover have "lm_ipv6_prefix_length m = 0 \<Longrightarrow>
      lease_ipv6_address l = replicate 16 0 \<and> ipv6_gateway m = replicate 16 0"
    using use l by (simp add: pool_usable_def lease_wf_def pool_ipv6_def zero_ipv6_def)
  moreover have "lm_ipv6_prefix_length m \<noteq> 0 \<Longrightarrow> lm_ipv6_prefix_length m = 64
      \<and> lease_ipv6_address l \<noteq> ipv6_gateway m \<and> take 8 (lease_ipv6_address l) = take 8 (ipv6_gateway m)"
  proof -
    assume on: "lm_ipv6_prefix_length m \<noteq> 0"
    note v6 = lease_v6 [OF l on]
    have "take 8 (lease_ipv6_address l) = take 8 (ipv6_gateway m)"
      using on c unfolding v6(2) by (simp add: lm_config_def derive_ipv6_def)
    with v6(1) on c show ?thesis by (simp add: lm_config_def)
  qed
  ultimately show ?thesis
    using sub(1,2) assms(4)
    by (simp add: assignment_is_acceptable_def hello_assignment_def to_assignment_def Let_def
        address_value_to_integer)
qed

lemma pool_usable_config: "config_of m = config_of m' \<Longrightarrow> pool_usable m = pool_usable m'"
  by (simp add: config_of_def pool_usable_def)

section \<open>The data path\<close>

text \<open>
  The two ends agree: both are established, on the same addresses and MTU, and each expects
  the sequence number the other sends next.
\<close>

definition in_sync :: "ClientSessionController \<Rightarrow> SessionController \<Rightarrow> bool" where
  "in_sync c s \<longleftrightarrow>
     cs_state c = CEstablished \<and> sc_state s = Established
     \<and> cs_next_outbound_sequence c = next_expected_sequence s
     \<and> cs_next_expected_sequence c = next_outbound_sequence s
     \<and> (case cs_assignment c of None \<Rightarrow> False | Some a \<Rightarrow>
         (case sc_lease s of None \<Rightarrow> False | Some l \<Rightarrow>
            client_address a = lease_address l \<and> client_ipv6_address a = lease_ipv6_address l
            \<and> mtu a = negotiated_mtu s
            \<and> (ipv6_prefix_length a \<noteq> 0 \<longleftrightarrow> lease_ipv6_address l \<noteq> zero_ipv6)))"

text \<open>The lease of the session is in the manager's table and has not expired.\<close>

definition lease_current :: "session \<Rightarrow> int \<Rightarrow> bool" where
  "lease_current = (\<lambda>(s, m) now. case sc_lease s of None \<Rightarrow> False | Some l \<Rightarrow>
     (case map_of (leases_by_identity m) (lease_identity l) of None \<Rightarrow> False | Some cur \<Rightarrow>
        lease_id cur = lease_id l \<and> lease_address cur = lease_address l
        \<and> lease_ipv6_address cur = lease_ipv6_address l \<and> now < expires_at cur))"

lemma renew_current:
  assumes inv: "lm_inv m" and cur: "lease_current (s, m) now" and l: "sc_lease s = Some l"
  shows "\<exists>l' m'. renew m l now = (Some l', m') \<and> lease_address l' = lease_address l
    \<and> lease_ipv6_address l' = lease_ipv6_address l \<and> lease_current (s\<lparr>sc_lease := Some l'\<rparr>, m') now"
proof -
  obtain cu where cu: "map_of (leases_by_identity m) (lease_identity l) = Some cu"
    "lease_id cu = lease_id l" "lease_address cu = lease_address l"
    "lease_ipv6_address cu = lease_ipv6_address l" "now < expires_at cu"
    using cur l by (auto simp: lease_current_def split: option.splits)
  have ident: "lease_identity cu = lease_identity l"
    using lm_tablesD(1) [OF _ cu(1)] inv by (simp add: lm_inv_def)
  have "map_of (leases_by_identity (snd (reap_expired_locked m now))) (lease_identity l) = Some cu"
    using active_reap [OF inv] cu by simp
  moreover have "now < plus_seconds now (lease_duration m)"
    using inv by (simp add: lm_inv_def lm_config_def plus_seconds_def)
  ultimately show ?thesis
    using cu ident by (auto simp: renew_def Let_def lease_current_def update_conv')
qed

text \<open>What the client lets out, the server lets in.\<close>

definition client_accepts :: "ClientSessionController \<Rightarrow> bytes \<Rightarrow> bool" where
  "client_accepts c p \<longleftrightarrow> fst (make_data_to_server c p) \<noteq> None"

lemma validate_agree:
  assumes "in_sync c s" "sc_lease s = Some l" "lease_address l' = lease_address l"
    "lease_ipv6_address l' = lease_ipv6_address l" "negotiated_mtu s' = negotiated_mtu s"
    "sc_lease s' = Some l'"
  shows "client_validate_ipv4_packet c p False = None \<Longrightarrow> validate_ipv4_packet s' p = None"
    and "client_validate_ipv6_packet c p False = None \<Longrightarrow> validate_ipv6_packet s' p = None"
  using assms
  by (auto simp: in_sync_def client_validate_ipv4_packet_def validate_ipv4_packet_def
      client_validate_ipv6_packet_def validate_ipv6_packet_def Let_def split: option.splits if_splits)

lemma upstream_step:
  assumes sync: "in_sync c s" and inv: "sess_inv (s, m)" and cur: "lease_current (s, m) now"
    and f: "make_data_to_server c p = (Some f, c')"
  shows "\<exists>s' m'. session_handle (s, m) f now = (Inr (nothing\<lparr>packets_to_tun := [p]\<rparr>), (s', m'))
    \<and> in_sync c' s' \<and> sess_inv (s', m') \<and> lease_current (s', m') now"
proof -
  obtain l where l: "sc_lease s = Some l" using sync by (auto simp: in_sync_def split: option.splits)
  have lm: "lm_inv m" using inv by (simp add: sess_inv_def sess_base_def)
  obtain l' m' where ren: "renew m l now = (Some l', m')" and
    l': "lease_address l' = lease_address l" "lease_ipv6_address l' = lease_ipv6_address l"
    and cur': "lease_current (s\<lparr>sc_lease := Some l'\<rparr>, m') now"
    using renew_current [OF lm cur l] by blast
  let ?s = "s\<lparr>next_expected_sequence := next_expected_sequence s + 1, sc_lease := Some l'\<rparr>"
  note agree = validate_agree [OF sync l l', of ?s]
  have f': "f = \<lparr>frame_type = frame_type f, frame_flags = 0,
      frame_sequence = next_expected_sequence s, frame_payload = p\<rparr>"
    "c' = c\<lparr>cs_next_outbound_sequence := cs_next_outbound_sequence c + 1\<rparr>"
    "frame_type f = DataIpv4 \<and> client_validate_ipv4_packet c p False = None
     \<or> frame_type f = DataIpv6 \<and> client_validate_ipv6_packet c p False = None"
    using f sync by (auto simp: make_data_to_server_def client_make_outbound_def in_sync_def
        split: if_splits option.splits)
  then have seq: "frame_sequence f = next_expected_sequence s" "frame_payload f = p" by (metis Frame.select_convs)+
  have "session_handle (s, m) f now = dispatch (?s, m') f"
    using sync l ren f'(3) seq by (auto simp: session_handle_def in_sync_def Let_def)
  also have "\<dots> = (Inr (nothing\<lparr>packets_to_tun := [p]\<rparr>), (?s, m'))"
    using f'(3) agree seq by (auto simp: dispatch_def)
  finally have h: "session_handle (s, m) f now = (Inr (nothing\<lparr>packets_to_tun := [p]\<rparr>), (?s, m'))" .
  moreover have "in_sync c' ?s"
    using sync l l' by (auto simp: in_sync_def f'(2) split: option.splits)
  moreover have "sess_inv (?s, m')"
    using session_step_facts [OF inv, of "Se_frame f now"] h by simp
  moreover have "lease_current (?s, m') now" using cur' by (simp add: lease_current_def)
  ultimately show ?thesis by blast
qed

fun session_delivered :: "session_event \<Rightarrow> session \<Rightarrow> bytes list" where
  "session_delivered (Se_frame frame now) c =
     (case fst (session_handle c frame now) of Inr r \<Rightarrow> packets_to_tun r | Inl _ \<Rightarrow> [])"
| "session_delivered _ c = []"

lemma client_accepts_same:
  "cs_state c' = cs_state c \<Longrightarrow> cs_assignment c' = cs_assignment c \<Longrightarrow> client_accepts c' p = client_accepts c p"
  by (auto simp: client_accepts_def make_data_to_server_def client_make_outbound_def
      client_validate_ipv4_packet_def client_validate_ipv6_packet_def Let_def split: option.splits)

lemma upstream_run:
  assumes "in_sync c s" "sess_inv (s, m)" "lease_current (s, m) now"
  shows "trace session_step session_delivered
      (map (\<lambda>f. Se_frame f now) (trace client_step client_sent (map Ce_packet packets) c)) (s, m)
    = filter (client_accepts c) packets"
  using assms
proof (induction packets arbitrary: c s m)
  case (Cons p packets)
  show ?case
  proof (cases "make_data_to_server c p")
    case (Pair f c')
    have same: "cs_state c' = cs_state c" "cs_assignment c' = cs_assignment c"
      using Pair by (auto simp: make_data_to_server_def client_make_outbound_def split: if_splits option.splits)
    have acc: "client_accepts c' = client_accepts c" using client_accepts_same [OF same] by blast
    show ?thesis
    proof (cases f)
      case None
      with Pair have "c' = c"
        by (auto simp: make_data_to_server_def client_make_outbound_def split: if_splits option.splits)
      with Cons Pair None show ?thesis by (simp add: frame_list_def client_accepts_def)
    next
      case (Some fr)
      obtain s' m' where h: "session_handle (s, m) fr now = (Inr (nothing\<lparr>packets_to_tun := [p]\<rparr>), (s', m'))"
        and next': "in_sync c' s'" "sess_inv (s', m')" "lease_current (s', m') now"
        using upstream_step [OF Cons.prems, of p fr c'] Pair Some by blast
      from Cons.IH [OF next'] h Pair Some acc show ?thesis
        by (simp add: frame_list_def client_accepts_def [of c p])
    qed
  qed
qed simp

lemma encode_all_numbered:
  "(\<And>f. f \<in> set fs \<Longrightarrow> \<exists>bs. encode_frame f = Inr bs) \<Longrightarrow> \<exists>stream. encode_all fs = Inr stream"
proof (induction fs)
  case (Cons f fs)
  then obtain b bs where "encode_frame f = Inr b" "encode_all fs = Inr bs" by fastforce
  then show ?case by simp
qed simp

lemma push_all_encoded:
  "encode_all fs = Inr stream \<Longrightarrow> concat chunks = stream \<Longrightarrow>
     fst (push_all new_FrameDecoder chunks) = Inr fs"
  using push_all_refines [of new_FrameDecoder chunks fs "[]"] parse_stream_encoded [of fs stream "[]"]
  by simp

text \<open>And downwards: what the server sends to the client, the client delivers.\<close>

lemma downstream_step:
  assumes sync: "in_sync c s" and inv: "sess_inv (s, m)" and cur: "lease_current (s, m) now"
    and f: "make_data_to_client (s, m) p now = (Some f, (s', m'))"
  shows "\<exists>c'. client_handle c f = (Inr (client_nothing\<lparr>cr_packets_to_tun := [p]\<rparr>), c')
    \<and> in_sync c' s' \<and> sess_inv (s', m') \<and> lease_current (s', m') now"
proof -
  obtain l a where l: "sc_lease s = Some l" and a: "cs_assignment c = Some a"
    and eq: "client_address a = lease_address l" "client_ipv6_address a = lease_ipv6_address l"
      "mtu a = negotiated_mtu s" "ipv6_prefix_length a \<noteq> 0 \<longleftrightarrow> lease_ipv6_address l \<noteq> zero_ipv6"
    using sync by (auto simp: in_sync_def split: option.splits)
  have lm: "lm_inv m" using inv by (simp add: sess_inv_def sess_base_def)
  let ?c = "c\<lparr>cs_next_expected_sequence := cs_next_expected_sequence c + 1\<rparr>"
  have f': "f = \<lparr>frame_type = frame_type f, frame_flags = 0,
      frame_sequence = next_outbound_sequence s, frame_payload = p\<rparr>"
    "frame_type f = DataIpv4 \<and> client_validate_ipv4_packet ?c p True = None
     \<or> frame_type f = DataIpv6 \<and> client_validate_ipv6_packet ?c p True = None"
    "\<exists>l'. renew m l now = (Some l', m')
       \<and> s' = s\<lparr>sc_lease := Some l', next_outbound_sequence := next_outbound_sequence s + 1\<rparr>"
    using f l a eq
    by (auto simp: make_data_to_client_def renew_and_send_def make_outbound_def Let_def
        client_validate_ipv4_packet_def client_validate_ipv6_packet_def
        split: if_splits option.splits prod.splits)
  obtain l' where ren: "renew m l now = (Some l', m')"
    and s': "s' = s\<lparr>sc_lease := Some l', next_outbound_sequence := next_outbound_sequence s + 1\<rparr>"
    using f'(3) by blast
  have v6: "lease_address l' = lease_address l" "lease_ipv6_address l' = lease_ipv6_address l"
    and cur': "lease_current (s\<lparr>sc_lease := Some l'\<rparr>, m') now"
    using renew_current [OF lm cur l] ren by simp_all
  have seq: "frame_sequence f = next_outbound_sequence s" "frame_payload f = p"
    using f'(1) by (metis Frame.select_convs)+
  have "client_handle c f = client_dispatch ?c f"
    using sync seq by (simp add: client_handle_def in_sync_def)
  also have "\<dots> = (Inr (client_nothing\<lparr>cr_packets_to_tun := [p]\<rparr>), ?c)"
    using f'(2) seq by (auto simp: client_dispatch_def)
  finally have "client_handle c f = (Inr (client_nothing\<lparr>cr_packets_to_tun := [p]\<rparr>), ?c)" .
  moreover have "in_sync ?c s'" using sync l a eq v6 by (simp add: in_sync_def s')
  moreover have "sess_inv (s', m')" using make_data_inv [OF inv f] by simp
  moreover have "lease_current (s', m') now" using cur' by (simp add: s' lease_current_def)
  ultimately show ?thesis by blast
qed

fun client_delivered :: "client_event \<Rightarrow> ClientSessionController \<Rightarrow> bytes list" where
  "client_delivered (Ce_frame f) c =
     (case fst (client_handle c f) of Inr r \<Rightarrow> cr_packets_to_tun r | Inl _ \<Rightarrow> [])"
| "client_delivered _ c = []"

text \<open>
  With an unexpired lease the server's decision on a packet depends only on the addresses and
  the MTU of the session, and a packet it does not accept changes nothing.
\<close>

definition for_client :: "SessionController \<Rightarrow> bytes \<Rightarrow> bool" where
  "for_client s p \<longleftrightarrow> (case sc_lease s of None \<Rightarrow> False | Some l \<Rightarrow>
     p \<noteq> [] \<and> length p \<le> unat (negotiated_mtu s)
     \<and> (if drop_bit 4 (p ! 0) = 6 then
          40 \<le> length p \<and> lease_ipv6_address l \<noteq> zero_ipv6 \<and> be16 p 4 + 40 = length p
          \<and> take 16 (drop 24 p) = lease_ipv6_address l
        else 20 \<le> length p \<and> drop_bit 4 (p ! 0) = 4 \<and> 20 \<le> unat (p ! 0 AND 0x0F) * 4
          \<and> unat (p ! 0 AND 0x0F) * 4 \<le> length p \<and> be16 p 2 = length p
          \<and> [p ! 16, p ! 17, p ! 18, p ! 19] = lease_address l))"

lemma make_data_for_client:
  assumes inv: "lm_inv m" and cur: "lease_current (s, m) now" and est: "sc_state s = Established"
  shows "if for_client s p then \<exists>f c'. make_data_to_client (s, m) p now = (Some f, c')
         else make_data_to_client (s, m) p now = (None, (s, m))"
proof -
  obtain l where l: "sc_lease s = Some l" using cur by (auto simp: lease_current_def split: option.splits)
  obtain l' m' where ren: "renew m l now = (Some l', m')" using renew_current [OF inv cur l] by blast
  show ?thesis
    using l est ren
    by (auto simp: make_data_to_client_def for_client_def renew_and_send_def make_outbound_def Let_def not_less)
qed

lemma downstream_run:
  assumes "in_sync c s" "sess_inv (s, m)" "lease_current (s, m) now"
  shows "trace client_step client_delivered
      (map Ce_frame (trace session_step session_sent (map (\<lambda>p. Se_packet p now) packets) (s, m))) c
    = filter (for_client s) packets"
  using assms
proof (induction packets arbitrary: c s m)
  case (Cons p packets)
  have lm: "lm_inv m" using Cons.prems(2) by (simp add: sess_inv_def sess_base_def)
  have est: "sc_state s = Established" using Cons.prems(1) by (simp add: in_sync_def)
  note d = make_data_for_client [OF lm Cons.prems(3) est, of p]
  show ?case
  proof (cases "for_client s p")
    case False
    with d Cons show ?thesis by (simp add: frame_list_def)
  next
    case True
    with d obtain f s' m' where f: "make_data_to_client (s, m) p now = (Some f, (s', m'))" by auto
    obtain c' where c': "client_handle c f = (Inr (client_nothing\<lparr>cr_packets_to_tun := [p]\<rparr>), c')"
      and next': "in_sync c' s'" "sess_inv (s', m')" "lease_current (s', m') now"
      using downstream_step [OF Cons.prems f] by blast
    have "for_client s' = for_client s"
    proof -
      obtain l where l: "sc_lease s = Some l" using True by (auto simp: for_client_def split: option.splits)
      obtain l' m'' where ren: "renew m l now = (Some l', m'')"
        "lease_address l' = lease_address l" "lease_ipv6_address l' = lease_ipv6_address l"
        using renew_current [OF lm Cons.prems(3) l] by blast
      have "sc_lease s' = Some l' \<and> negotiated_mtu s' = negotiated_mtu s"
        using f l ren(1)
        by (auto simp: make_data_to_client_def renew_and_send_def make_outbound_def Let_def split: if_splits)
      with l ren show ?thesis by (simp add: for_client_def fun_eq_iff)
    qed
    with Cons.IH [OF next'] f c' True show ?thesis by (simp add: frame_list_def)
  qed
qed simp

lemma numbered_stream:
  assumes "numbered n fs n'"
  shows "\<exists>stream. encode_all fs = Inr stream"
  using numbered_encodable [OF assms] by (rule encode_all_numbered)

section \<open>The steps of the handshake\<close>

definition hello_frame :: "bytes \<Rightarrow> Frame" where
  "hello_frame payload =
     \<lparr>frame_type = ClientHello, frame_flags = 0, frame_sequence = 1, frame_payload = payload\<rparr>"

definition assign_frame :: "bytes \<Rightarrow> Frame" where
  "assign_frame payload =
     \<lparr>frame_type = IpAssign, frame_flags = 0, frame_sequence = 1, frame_payload = payload\<rparr>"

lemma handshake_start:
  assumes "new_ClientSessionController u = Inr c"
  obtains bs where "encode_client_hello (client_hello_of u) = Inr bs"
    "client_start c = (Inr (hello_frame bs),
       \<lparr>cs_requested_mtu = u, cs_state = CAwaitingAssignment, cs_assignment = None,
        pending_ping_nonce = None, cs_next_expected_sequence = 1, cs_next_outbound_sequence = 2\<rparr>)"
  using assms
  by (auto simp: new_ClientSessionController_def and_then_Inr_iff client_start_def
      client_make_outbound_def hello_frame_def)

lemma handshake_server:
  assumes "new_SessionController identity = Inr s" and "acquire m identity now = (Inr lease, m')"
    and "encode_client_hello h = Inr bs"
    and "encode_ip_assignment (hello_assignment m' lease h) = Inr payload"
  shows "session_handle (s, m) (hello_frame bs) now =
    (Inr (nothing\<lparr>outbound_frames := [assign_frame payload]\<rparr>),
     (\<lparr>sc_identity = identity, sc_state = Established, sc_lease = Some lease,
       negotiated_mtu = min (requested_mtu h) (lm_mtu m'),
       next_expected_sequence = 2, next_outbound_sequence = 2\<rparr>, m'))"
proof -
  have s: "s = \<lparr>sc_identity = identity, sc_state = AwaitingHello, sc_lease = None, negotiated_mtu = 1400,
      next_expected_sequence = 1, next_outbound_sequence = 1\<rparr>"
    using assms(1) by (auto simp: new_SessionController_def split: if_splits)
  have "decode_client_hello bs = Inr h" using assms(3) client_hello.dec_iff_enc by simp
  with answer_hello_acquired [of "hello_frame bs" h m "s\<lparr>next_expected_sequence := 2\<rparr>" now lease m'] assms(2,4)
  show ?thesis
    by (simp add: session_handle_def s catch_hello_def hello_frame_def assign_frame_def hello_session_def)
qed

lemma handshake_client:
  assumes "decode_ip_assignment payload = Inr a"
    and "c = \<lparr>cs_requested_mtu = u, cs_state = CAwaitingAssignment, cs_assignment = None,
        pending_ping_nonce = None, cs_next_expected_sequence = 1, cs_next_outbound_sequence = 2\<rparr>"
    and "assignment_is_acceptable c a"
  shows "client_handle c (assign_frame payload) =
    (Inr (client_nothing\<lparr>cr_assignment := Some a\<rparr>),
     \<lparr>cs_requested_mtu = u, cs_state = CEstablished, cs_assignment = Some a,
      pending_ping_nonce = None, cs_next_expected_sequence = 2, cs_next_outbound_sequence = 2\<rparr>)"
  using assms acceptable_cong [of "c\<lparr>cs_next_expected_sequence := 2\<rparr>" c]
  by (simp add: client_handle_def receive_assignment_def assign_frame_def)

lemma acquired_current:
  assumes "lm_inv m" "acquire m i now = (Inr l, m')" "sc_lease s = Some l"
  shows "lease_current (s, m') now"
proof -
  have "map_of (leases_by_identity m') i = Some l \<and> now < expires_at l \<and> lease_identity l = i"
    using assms(1,2)
    by (elim acquire_InrE) (simp add: map_of_emplace plus_seconds_def lm_inv_def lm_config_def)
  with assms(3) show ?thesis by (simp add: lease_current_def)
qed

lemma assigned_v6:
  assumes "validate_ip_assignment (hello_assignment m l h) = Inr ()" "lease_wf m l"
  shows "lm_ipv6_prefix_length m \<noteq> 0 \<longleftrightarrow> lease_ipv6_address l \<noteq> zero_ipv6"
  using assms by (auto simp: validate_ip_assignment_def hello_assignment_def to_assignment_def
      and_then_Inr_iff Let_def lease_wf_def pool_ipv6_def zero_ipv6_def list_all_iff split: if_splits)

end
