(* ===== verification/Tunnel_Router.thy ===== *)
theory Tunnel_Router
  imports Lease_Manager Frame_Sequence
begin

unbundle bit_operations_syntax

text \<open>
  The router of \<^verbatim>\<open>src/core/tunnel_router.cpp\<close>: which session gets a packet of the TUN device.
  A peer is the identity of its object, a natural number that is never reused; \<open>alive\<close> tells
  which objects still exist at the moment of a call, so that \<^verbatim>\<open>weak_ptr::lock\<close> of a peer
  succeeds. The mutex makes every operation atomic. Routing returns what is passed to
  \<^verbatim>\<open>send_ipv4_from_tun\<close> or \<^verbatim>\<open>send_ipv6_from_tun\<close> of the peer.
\<close>

section \<open>State and operations\<close>

type_synonym peer = nat

record TunnelRouter =
  router_peers :: "(u32 \<times> peer) list"
  router_ipv6_peers :: "(bytes \<times> peer) list"

definition new_TunnelRouter :: TunnelRouter where
  "new_TunnelRouter = \<lparr>router_peers = [], router_ipv6_peers = []\<rparr>"

definition address_key :: "bytes \<Rightarrow> u32" where
  "address_key address =
     (push_bit 24 (ucast (address ! 0)) OR push_bit 16 (ucast (address ! 1))
      OR push_bit 8 (ucast (address ! 2)) OR ucast (address ! 3))"

text \<open>The bodies of the two overloads of \<open>register_peer\<close> and \<open>unregister_peer\<close>, on a table.\<close>

definition table_register :: "(peer \<Rightarrow> bool) \<Rightarrow> 'k \<Rightarrow> peer \<Rightarrow> ('k \<times> peer) list \<Rightarrow> bool \<times> ('k \<times> peer) list" where
  "table_register alive key peer table =
     (case map_of table key of
        Some active \<Rightarrow>
          if alive active then (active = peer, table)
          else (True, map_emplace key peer (map_erase key table))
      | None \<Rightarrow> (True, map_emplace key peer table))"

definition table_unregister :: "(peer \<Rightarrow> bool) \<Rightarrow> 'k \<Rightarrow> peer \<Rightarrow> ('k \<times> peer) list \<Rightarrow> bool \<times> ('k \<times> peer) list" where
  "table_unregister alive key expected table =
     (case map_of table key of
        None \<Rightarrow> (False, table)
      | Some active \<Rightarrow>
          if alive active \<and> active \<noteq> expected then (False, table)
          else (True, map_erase key table))"

definition table_find :: "(peer \<Rightarrow> bool) \<Rightarrow> 'k \<Rightarrow> ('k \<times> peer) list \<Rightarrow> peer option \<times> ('k \<times> peer) list" where
  "table_find alive key table =
     (case map_of table key of
        None \<Rightarrow> (None, table)
      | Some peer \<Rightarrow> if alive peer then (Some peer, table) else (None, map_erase key table))"

definition register_peer :: "(peer \<Rightarrow> bool) \<Rightarrow> TunnelRouter \<Rightarrow> bytes \<Rightarrow> peer option \<Rightarrow> bool \<times> TunnelRouter" where
  "register_peer alive r address peer =
     (case peer of
        None \<Rightarrow> (False, r)
      | Some p \<Rightarrow>
          (let (ok, table) = table_register alive (address_key address) p (router_peers r)
           in (ok, r\<lparr>router_peers := table\<rparr>)))"

definition unregister_peer :: "(peer \<Rightarrow> bool) \<Rightarrow> TunnelRouter \<Rightarrow> bytes \<Rightarrow> peer option \<Rightarrow> bool \<times> TunnelRouter" where
  "unregister_peer alive r address expected =
     (case expected of
        None \<Rightarrow> (False, r)
      | Some p \<Rightarrow>
          (let (ok, table) = table_unregister alive (address_key address) p (router_peers r)
           in (ok, r\<lparr>router_peers := table\<rparr>)))"

definition find_peer :: "(peer \<Rightarrow> bool) \<Rightarrow> TunnelRouter \<Rightarrow> bytes \<Rightarrow> peer option \<times> TunnelRouter" where
  "find_peer alive r address =
     (let (found, table) = table_find alive (address_key address) (router_peers r)
      in (found, r\<lparr>router_peers := table\<rparr>))"

definition route_ipv4_packet :: "(peer \<Rightarrow> bool) \<Rightarrow> TunnelRouter \<Rightarrow> bytes
    \<Rightarrow> (bool \<times> (peer \<times> bytes) list) \<times> TunnelRouter" where
  "route_ipv4_packet alive r packet =
     (if length packet < 20 then ((False, []), r)
      else
       (let version = drop_bit 4 (packet ! 0);
            header_size = unat (packet ! 0 AND 0x0F) * 4;
            total_size = be16 packet 2
        in
        if version \<noteq> 4 \<or> header_size < 20 \<or> header_size > length packet
           \<or> total_size \<noteq> length packet then ((False, []), r)
        else
         (case find_peer alive r [packet ! 16, packet ! 17, packet ! 18, packet ! 19] of
            (None, r) \<Rightarrow> ((False, []), r)
          | (Some peer, r) \<Rightarrow> ((True, [(peer, packet)]), r))))"

definition register_peer_v6 :: "(peer \<Rightarrow> bool) \<Rightarrow> TunnelRouter \<Rightarrow> bytes \<Rightarrow> peer option \<Rightarrow> bool \<times> TunnelRouter" where
  "register_peer_v6 alive r address peer =
     (case peer of
        None \<Rightarrow> (False, r)
      | Some p \<Rightarrow>
          (let (ok, table) = table_register alive address p (router_ipv6_peers r)
           in (ok, r\<lparr>router_ipv6_peers := table\<rparr>)))"

definition unregister_peer_v6 :: "(peer \<Rightarrow> bool) \<Rightarrow> TunnelRouter \<Rightarrow> bytes \<Rightarrow> peer option \<Rightarrow> bool \<times> TunnelRouter" where
  "unregister_peer_v6 alive r address expected =
     (case expected of
        None \<Rightarrow> (False, r)
      | Some p \<Rightarrow>
          (let (ok, table) = table_unregister alive address p (router_ipv6_peers r)
           in (ok, r\<lparr>router_ipv6_peers := table\<rparr>)))"

definition route_ipv6_packet :: "(peer \<Rightarrow> bool) \<Rightarrow> TunnelRouter \<Rightarrow> bytes
    \<Rightarrow> (bool \<times> (peer \<times> bytes) list) \<times> TunnelRouter" where
  "route_ipv6_packet alive r packet =
     (if length packet < 40 \<or> drop_bit 4 (packet ! 0) \<noteq> 6 then ((False, []), r)
      else if be16 packet 4 + 40 \<noteq> length packet then ((False, []), r)
      else
       (case table_find alive (take 16 (drop 24 packet)) (router_ipv6_peers r) of
          (None, table) \<Rightarrow> ((False, []), r\<lparr>router_ipv6_peers := table\<rparr>)
        | (Some peer, table) \<Rightarrow> ((True, [(peer, packet)]), r\<lparr>router_ipv6_peers := table\<rparr>)))"

definition remove_expired_locked :: "(peer \<Rightarrow> bool) \<Rightarrow> TunnelRouter \<Rightarrow> TunnelRouter" where
  "remove_expired_locked alive r =
     r\<lparr>router_peers := filter (\<lambda>(_, p). alive p) (router_peers r),
       router_ipv6_peers := filter (\<lambda>(_, p). alive p) (router_ipv6_peers r)\<rparr>"

definition active_routes :: "(peer \<Rightarrow> bool) \<Rightarrow> TunnelRouter \<Rightarrow> nat \<times> TunnelRouter" where
  "active_routes alive r =
     (let r = remove_expired_locked alive r
      in (length (router_peers r) + length (router_ipv6_peers r), r))"

section \<open>The interface of a routing table\<close>

text \<open>
  \<open>owner\<close> is the live peer a packet for an address is given to. A live owner can only be
  removed by itself.
\<close>

locale peer_table =
  fixes owner :: "(peer \<Rightarrow> bool) \<Rightarrow> 't \<Rightarrow> 'k \<Rightarrow> peer option"
    and reg :: "(peer \<Rightarrow> bool) \<Rightarrow> 'k \<Rightarrow> peer \<Rightarrow> 't \<Rightarrow> bool \<times> 't"
    and unreg :: "(peer \<Rightarrow> bool) \<Rightarrow> 'k \<Rightarrow> peer \<Rightarrow> 't \<Rightarrow> bool \<times> 't"
  assumes owner_alive: "owner alive t k = Some p \<Longrightarrow> alive p"
    and owner_mono: "owner alive t k = Some p \<Longrightarrow> alive' p \<Longrightarrow> owner alive' t k = Some p"
    and reg_free: "alive p \<Longrightarrow> owner alive t k = None \<or> owner alive t k = Some p \<Longrightarrow>
      fst (reg alive k p t) \<and> owner alive (snd (reg alive k p t)) = (owner alive t)(k := Some p)"
    and reg_taken: "owner alive t k = Some q \<Longrightarrow> q \<noteq> p \<Longrightarrow> reg alive k p t = (False, t)"
    and unreg_own: "owner alive t k = Some p \<Longrightarrow>
      fst (unreg alive k p t) \<and> owner alive (snd (unreg alive k p t)) = (owner alive t)(k := None)"
    and unreg_other: "owner alive t k \<noteq> Some p \<Longrightarrow> owner alive (snd (unreg alive k p t)) = owner alive t"
begin

lemma reg_keeps_owner:
  assumes "owner alive t k = Some p" "alive q"
  shows "owner alive (snd (reg alive j q t)) k = Some p"
proof (cases "owner alive t j = None \<or> owner alive t j = Some q")
  case True
  with reg_free [OF assms(2) True] assms(1) show ?thesis by auto
next
  case False
  then obtain x where "owner alive t j = Some x" "x \<noteq> q" by auto
  with reg_taken assms(1) show ?thesis by simp
qed

lemma unreg_keeps_owner:
  assumes "owner alive t k = Some p" "\<not> (j = k \<and> q = p)"
  shows "owner alive (snd (unreg alive j q t)) k = Some p"
  using assms unreg_own [of alive t j q] unreg_other [of alive t j q]
  by (cases "owner alive t j = Some q") auto

end

section \<open>The two tables\<close>

definition table_owner :: "(peer \<Rightarrow> bool) \<Rightarrow> ('k \<times> peer) list \<Rightarrow> 'k \<Rightarrow> peer option" where
  "table_owner alive table k =
     (case map_of table k of None \<Rightarrow> None | Some p \<Rightarrow> if alive p then Some p else None)"

lemma table_owner_register:
  "alive p \<Longrightarrow> table_owner alive t k = None \<or> table_owner alive t k = Some p \<Longrightarrow>
     fst (table_register alive k p t)
     \<and> table_owner alive (snd (table_register alive k p t)) = (table_owner alive t)(k := Some p)"
  "table_owner alive t k = Some q \<Longrightarrow> q \<noteq> p \<Longrightarrow> table_register alive k p t = (False, t)"
  by (auto simp: table_owner_def table_register_def map_of_emplace fun_eq_iff split: option.splits if_splits)

lemma table_owner_unregister:
  "table_owner alive t k = Some p \<Longrightarrow> fst (table_unregister alive k p t)
     \<and> table_owner alive (snd (table_unregister alive k p t)) = (table_owner alive t)(k := None)"
  "table_owner alive t k \<noteq> Some p \<Longrightarrow>
     table_owner alive (snd (table_unregister alive k p t)) = table_owner alive t"
  by (auto simp: table_owner_def table_unregister_def fun_eq_iff split: option.splits if_splits)

lemma table_find_owner:
  "fst (table_find alive k t) = table_owner alive t k"
  "table_owner alive (snd (table_find alive k' t)) = table_owner alive t"
  by (auto simp: table_owner_def table_find_def fun_eq_iff split: option.splits)

lemma table_owner_filter:
  "distinct_keys t \<Longrightarrow> table_owner alive (filter (\<lambda>(_, p). alive p) t) = table_owner alive t"
  by (auto simp: table_owner_def map_of_filter_distinct fun_eq_iff split: option.splits)

lemma address_key_from_integer [simp]: "address_key (from_integer k) = k"
  using to_from_integer [of k] by (simp add: address_key_def to_integer_def)

lemma from_integer_address_key: "length a = 4 \<Longrightarrow> from_integer (address_key a) = a"
  using from_to_integer [of a] by (simp add: address_key_def to_integer_def)

interpretation ipv4_routes: peer_table
  "\<lambda>alive r. table_owner alive (router_peers r)"
  "\<lambda>alive k p r. register_peer alive r (from_integer k) (Some p)"
  "\<lambda>alive k p r. unregister_peer alive r (from_integer k) (Some p)"
proof
  fix alive and r :: TunnelRouter and k p q
  show "table_owner alive (router_peers r) k = Some p \<Longrightarrow> alive p"
    by (auto simp: table_owner_def split: option.splits if_splits)
  show "table_owner alive (router_peers r) k = Some p \<Longrightarrow> alive' p \<Longrightarrow>
      table_owner alive' (router_peers r) k = Some p" for alive'
    by (auto simp: table_owner_def split: option.splits if_splits)
  show "alive p \<Longrightarrow> table_owner alive (router_peers r) k = None \<or> table_owner alive (router_peers r) k = Some p \<Longrightarrow>
      fst (register_peer alive r (from_integer k) (Some p))
      \<and> table_owner alive (router_peers (snd (register_peer alive r (from_integer k) (Some p))))
        = (table_owner alive (router_peers r))(k := Some p)"
    using table_owner_register(1) [of alive p "router_peers r" k] by (simp add: register_peer_def split_beta)
  show "table_owner alive (router_peers r) k = Some q \<Longrightarrow> q \<noteq> p \<Longrightarrow>
      register_peer alive r (from_integer k) (Some p) = (False, r)"
    using table_owner_register(2) [of alive "router_peers r" k q p] by (simp add: register_peer_def)
  show "table_owner alive (router_peers r) k = Some p \<Longrightarrow>
      fst (unregister_peer alive r (from_integer k) (Some p))
      \<and> table_owner alive (router_peers (snd (unregister_peer alive r (from_integer k) (Some p))))
        = (table_owner alive (router_peers r))(k := None)"
    using table_owner_unregister(1) [of alive "router_peers r" k p]
    by (simp add: unregister_peer_def split_beta)
  show "table_owner alive (router_peers r) k \<noteq> Some p \<Longrightarrow>
      table_owner alive (router_peers (snd (unregister_peer alive r (from_integer k) (Some p))))
        = table_owner alive (router_peers r)"
    using table_owner_unregister(2) [of alive "router_peers r" k p]
    by (simp add: unregister_peer_def split_beta)
qed

interpretation ipv6_routes: peer_table
  "\<lambda>alive r. table_owner alive (router_ipv6_peers r)"
  "\<lambda>alive k p r. register_peer_v6 alive r k (Some p)"
  "\<lambda>alive k p r. unregister_peer_v6 alive r k (Some p)"
proof
  fix alive and r :: TunnelRouter and k p q
  show "table_owner alive (router_ipv6_peers r) k = Some p \<Longrightarrow> alive p"
    by (auto simp: table_owner_def split: option.splits if_splits)
  show "table_owner alive (router_ipv6_peers r) k = Some p \<Longrightarrow> alive' p \<Longrightarrow>
      table_owner alive' (router_ipv6_peers r) k = Some p" for alive'
    by (auto simp: table_owner_def split: option.splits if_splits)
  show "alive p \<Longrightarrow> table_owner alive (router_ipv6_peers r) k = None
        \<or> table_owner alive (router_ipv6_peers r) k = Some p \<Longrightarrow>
      fst (register_peer_v6 alive r k (Some p))
      \<and> table_owner alive (router_ipv6_peers (snd (register_peer_v6 alive r k (Some p))))
        = (table_owner alive (router_ipv6_peers r))(k := Some p)"
    using table_owner_register(1) [of alive p "router_ipv6_peers r" k]
    by (simp add: register_peer_v6_def split_beta)
  show "table_owner alive (router_ipv6_peers r) k = Some q \<Longrightarrow> q \<noteq> p \<Longrightarrow>
      register_peer_v6 alive r k (Some p) = (False, r)"
    using table_owner_register(2) [of alive "router_ipv6_peers r" k q p] by (simp add: register_peer_v6_def)
  show "table_owner alive (router_ipv6_peers r) k = Some p \<Longrightarrow>
      fst (unregister_peer_v6 alive r k (Some p))
      \<and> table_owner alive (router_ipv6_peers (snd (unregister_peer_v6 alive r k (Some p))))
        = (table_owner alive (router_ipv6_peers r))(k := None)"
    using table_owner_unregister(1) [of alive "router_ipv6_peers r" k p]
    by (simp add: unregister_peer_v6_def split_beta)
  show "table_owner alive (router_ipv6_peers r) k \<noteq> Some p \<Longrightarrow>
      table_owner alive (router_ipv6_peers (snd (unregister_peer_v6 alive r k (Some p))))
        = table_owner alive (router_ipv6_peers r)"
    using table_owner_unregister(2) [of alive "router_ipv6_peers r" k p]
    by (simp add: unregister_peer_v6_def split_beta)
qed

section \<open>Runs of the router\<close>

datatype router_call =
    Rc_register bytes peer
  | Rc_unregister bytes peer
  | Rc_register_v6 bytes peer
  | Rc_unregister_v6 bytes peer
  | Rc_route bytes
  | Rc_route_v6 bytes
  | Rc_active_routes

text \<open>A call is made at a moment when certain peers exist.\<close>

fun router_step :: "(peer \<Rightarrow> bool) \<times> router_call \<Rightarrow> TunnelRouter \<Rightarrow> TunnelRouter" where
  "router_step (alive, Rc_register a p) r = snd (register_peer alive r a (Some p))"
| "router_step (alive, Rc_unregister a p) r = snd (unregister_peer alive r a (Some p))"
| "router_step (alive, Rc_register_v6 a p) r = snd (register_peer_v6 alive r a (Some p))"
| "router_step (alive, Rc_unregister_v6 a p) r = snd (unregister_peer_v6 alive r a (Some p))"
| "router_step (alive, Rc_route packet) r = snd (route_ipv4_packet alive r packet)"
| "router_step (alive, Rc_route_v6 packet) r = snd (route_ipv6_packet alive r packet)"
| "router_step (alive, Rc_active_routes) r = snd (active_routes alive r)"

definition router_inv :: "TunnelRouter \<Rightarrow> bool" where
  "router_inv r \<longleftrightarrow> distinct_keys (router_peers r) \<and> distinct_keys (router_ipv6_peers r)"

lemma table_distinct [simp]:
  "distinct_keys t \<Longrightarrow> distinct_keys (snd (table_register alive k p t))"
  "distinct_keys t \<Longrightarrow> distinct_keys (snd (table_unregister alive k p t))"
  "distinct_keys t \<Longrightarrow> distinct_keys (snd (table_find alive k t))"
  by (auto simp: table_register_def table_unregister_def table_find_def split: option.splits)

lemma route_ipv4_tables:
  "router_peers (snd (route_ipv4_packet alive r packet)) = router_peers r
   \<or> router_peers (snd (route_ipv4_packet alive r packet))
     = snd (table_find alive (address_key [packet ! 16, packet ! 17, packet ! 18, packet ! 19]) (router_peers r))"
  "router_ipv6_peers (snd (route_ipv4_packet alive r packet)) = router_ipv6_peers r"
  by (auto simp: route_ipv4_packet_def find_peer_def Let_def split: prod.splits option.splits)

lemma route_ipv6_tables:
  "router_ipv6_peers (snd (route_ipv6_packet alive r packet)) = router_ipv6_peers r
   \<or> router_ipv6_peers (snd (route_ipv6_packet alive r packet))
     = snd (table_find alive (take 16 (drop 24 packet)) (router_ipv6_peers r))"
  "router_peers (snd (route_ipv6_packet alive r packet)) = router_peers r"
  by (auto simp: route_ipv6_packet_def Let_def split: prod.splits option.splits)

lemma router_step_inv: "router_inv r \<Longrightarrow> router_inv (router_step e r)"
proof (cases e)
  case (Pair alive call)
  assume inv: "router_inv r"
  show ?thesis
    using inv route_ipv4_tables [of alive r] route_ipv6_tables [of alive r] unfolding Pair router_inv_def
    by (cases call) (auto simp: register_peer_def unregister_peer_def register_peer_v6_def unregister_peer_v6_def
        active_routes_def remove_expired_locked_def Let_def split_beta table_distinct,
        (metis table_distinct(3))+)
qed

interpretation router_machine: event_machine router_step router_inv
  by unfold_locales (rule router_step_inv)

text \<open>
  The moments of a run at which a peer keeps an address: it exists at every moment, it does
  not unregister the address itself, and whoever registers exists (the argument is a
  \<^verbatim>\<open>shared_ptr\<close>).
\<close>

definition undisturbed :: "bytes \<Rightarrow> peer \<Rightarrow> (peer \<Rightarrow> bool) \<times> router_call \<Rightarrow> bool" where
  "undisturbed a p = (\<lambda>(alive, call). alive p \<and>
     (case call of
        Rc_register b q \<Rightarrow> alive q \<and> length b = 4
      | Rc_unregister b q \<Rightarrow> \<not> (b = a \<and> q = p) \<and> length b = 4
      | _ \<Rightarrow> True))"

lemma owner_step:
  assumes inv: "router_inv r" and own: "table_owner alive (router_peers r) (address_key a) = Some p"
    and ok: "undisturbed a p (alive', call)" and a: "length a = 4"
  shows "table_owner alive' (router_peers (router_step (alive', call) r)) (address_key a) = Some p"
proof -
  have own': "table_owner alive' (router_peers r) (address_key a) = Some p"
    using ipv4_routes.owner_mono [OF own] ok by (simp add: undisturbed_def)
  show ?thesis
  proof (cases call)
    case (Rc_register b q)
    with ok ipv4_routes.reg_keeps_owner [OF own', of q "address_key b"] show ?thesis
      by (simp add: undisturbed_def from_integer_address_key)
  next
    case (Rc_unregister b q)
    with ok ipv4_routes.unreg_keeps_owner [OF own', of "address_key b" q] a show ?thesis
      by (auto simp: undisturbed_def from_integer_address_key) (metis from_integer_address_key)
  next
    case (Rc_route packet)
    with own' route_ipv4_tables(1) [of alive' r packet] table_find_owner(2) show ?thesis
      by (metis router_step.simps(5))
  next
    case (Rc_route_v6 packet)
    with own' show ?thesis by (simp add: route_ipv6_tables)
  next
    case Rc_active_routes
    with own' inv show ?thesis
      by (simp add: active_routes_def remove_expired_locked_def table_owner_filter router_inv_def)
  qed (use own' in \<open>simp_all add: register_peer_v6_def unregister_peer_v6_def split_beta\<close>)
qed

lemma owner_run:
  assumes "router_inv r" "table_owner alive (router_peers r) (address_key a) = Some p" "length a = 4"
    and "\<forall>e \<in> set es. undisturbed a p e" "alive' p"
  shows "table_owner alive' (router_peers (fold router_step es r)) (address_key a) = Some p"
  using assms
proof (induction es arbitrary: r alive)
  case Nil
  then show ?case using ipv4_routes.owner_mono [of alive r "address_key a" p alive'] by simp
next
  case (Cons e es)
  obtain al call where e: "e = (al, call)" by fastforce
  have "table_owner al (router_peers (router_step e r)) (address_key a) = Some p"
    unfolding e using Cons.prems e by (intro owner_step [of r alive]) simp_all
  with Cons.IH [OF router_step_inv [OF Cons.prems(1)]] Cons.prems show ?case by simp
qed

text \<open>A packet the router considers well formed.\<close>

definition routable_ipv4 :: "bytes \<Rightarrow> bool" where
  "routable_ipv4 p \<longleftrightarrow> 20 \<le> length p \<and> drop_bit 4 (p ! 0) = 4 \<and> 20 \<le> unat (p ! 0 AND 0x0F) * 4
     \<and> unat (p ! 0 AND 0x0F) * 4 \<le> length p \<and> be16 p 2 = length p"

definition routable_ipv6 :: "bytes \<Rightarrow> bool" where
  "routable_ipv6 p \<longleftrightarrow> 40 \<le> length p \<and> drop_bit 4 (p ! 0) = 6 \<and> be16 p 4 + 40 = length p"

lemma route_ipv4_result:
  "fst (route_ipv4_packet alive r p) =
     (case table_owner alive (router_peers r) (address_key [p ! 16, p ! 17, p ! 18, p ! 19]) of
        Some q \<Rightarrow> if routable_ipv4 p then (True, [(q, p)]) else (False, [])
      | None \<Rightarrow> (False, []))"
  by (auto simp: route_ipv4_packet_def routable_ipv4_def find_peer_def Let_def not_less
      table_find_owner(1) [symmetric] split: option.splits prod.splits)

lemma route_ipv6_result:
  "fst (route_ipv6_packet alive r p) =
     (case table_owner alive (router_ipv6_peers r) (take 16 (drop 24 p)) of
        Some q \<Rightarrow> if routable_ipv6 p then (True, [(q, p)]) else (False, [])
      | None \<Rightarrow> (False, []))"
  by (auto simp: route_ipv6_packet_def routable_ipv6_def not_less
      table_find_owner(1) [symmetric] split: option.splits prod.splits)

section \<open>Properties\<close>



text \<open>
  Nothing is misrouted. The router gives a packet to at most one peer, unchanged, only if
  its version, header and length fields are right, and only to the live peer that has
  registered its destination, for IPv4 and for IPv6; in all other cases it reports failure.
\<close>

theorem router_routes_exactly:
  "fst (route_ipv4_packet alive r packet) =
     (case table_owner alive (router_peers r) (address_key (take 4 (drop 16 packet))) of
        Some q \<Rightarrow> if routable_ipv4 packet then (True, [(q, packet)]) else (False, [])
      | None \<Rightarrow> (False, []))
   \<and> fst (route_ipv6_packet alive r packet) =
     (case table_owner alive (router_ipv6_peers r) (take 16 (drop 24 packet)) of
        Some q \<Rightarrow> if routable_ipv6 packet then (True, [(q, packet)]) else (False, [])
      | None \<Rightarrow> (False, []))"
proof (cases "length packet < 20")
  case True
  then show ?thesis
    by (simp add: route_ipv4_packet_def route_ipv6_result routable_ipv4_def split: option.splits)
next
  case False
  then have "take 4 (drop 16 packet) = [packet ! 16, packet ! 17, packet ! 18, packet ! 19]"
    by (simp add: Cons_nth_drop_Suc [symmetric] numeral_eq_Suc)
  then show ?thesis by (simp add: route_ipv4_result route_ipv6_result)
qed

end
