(* ===== verification/Broker_Protocol.thy ===== *)
theory Broker_Protocol
  imports Wire
begin

unbundle bit_operations_syntax

text \<open>
  The requests that the user interface sends to the privileged broker,
  \<^verbatim>\<open>src/broker/broker_protocol.cpp\<close>: a length-prefixed little-endian frame. The file's byte-order
  functions carry the prefix \<open>broker\<close>, since their names are those of the tunnel protocol with
  the opposite order.
\<close>

section \<open>Byte order\<close>

definition broker_append_u16 :: "bytes \<Rightarrow> u16 \<Rightarrow> bytes" where
  "broker_append_u16 output value =
     output @ [ucast (value AND 0xFF)] @ [ucast (drop_bit 8 value AND 0xFF)]"

definition broker_append_u64 :: "bytes \<Rightarrow> u64 \<Rightarrow> bytes" where
  "broker_append_u64 output value =
     foldl (\<lambda>out shift. out @ [ucast (drop_bit shift value AND 0xFF)]) output
       [0, 8, 16, 24, 32, 40, 48, 56]"

definition broker_read_u16 :: "bytes \<Rightarrow> nat \<Rightarrow> u16" where
  "broker_read_u16 input offset = ucast (input ! offset) OR push_bit 8 (ucast (input ! (offset + 1)))"

definition broker_read_u32 :: "bytes \<Rightarrow> nat \<Rightarrow> u32" where
  "broker_read_u32 input offset =
     foldl (\<lambda>value index. value OR push_bit (index * 8) (ucast (input ! (offset + index)))) 0 [0..<4]"

definition broker_read_u64 :: "bytes \<Rightarrow> nat \<Rightarrow> u64" where
  "broker_read_u64 input offset =
     foldl (\<lambda>value index. value OR push_bit (index * 8) (ucast (input ! (offset + index)))) 0 [0..<8]"

section \<open>Requests\<close>

datatype RequestType = Connect | Disconnect | GetStatus

fun raw_request_type :: "RequestType \<Rightarrow> u16" where
  "raw_request_type Connect = 1"
| "raw_request_type Disconnect = 2"
| "raw_request_type GetStatus = 3"

record Request =
  request_type :: RequestType
  request_id :: u64
  profile_id :: string

definition maximum_frame_size :: nat where
  "maximum_frame_size = 128"

definition maximum_profile_id_size :: nat where
  "maximum_profile_id_size = 64"

definition broker_magic :: bytes where
  "broker_magic = map byte_of_char ''PVBR''"

definition protocol_version :: u16 where
  "protocol_version = 1"

definition frame_header_size :: nat where
  "frame_header_size = 20"

definition valid_profile_id :: "string \<Rightarrow> bool" where
  "valid_profile_id text =
     (if text = [] \<or> length text > maximum_profile_id_size then False
      else list_all (\<lambda>c.
        let character = of_char c :: nat;
            ascii_letter = (97 \<le> character \<and> character \<le> 122) \<or> (65 \<le> character \<and> character \<le> 90);
            digit = 48 \<le> character \<and> character \<le> 57
        in ascii_letter \<or> digit \<or> c = CHR ''-'' \<or> c = CHR ''_'') text)"

section \<open>Encoder and decoder\<close>

text \<open>The \<^verbatim>\<open>switch\<close> of the encoder: what follows the fixed header.\<close>

definition encode_profile :: "Request \<Rightarrow> bytes \<Rightarrow> bytes result" where
  "encode_profile request frame =
     (case request_type request of
        Connect \<Rightarrow>
          if \<not> valid_profile_id (profile_id request) then
            Inl (Invalid_argument ''broker profile ID is invalid'')
          else
            Inr (broker_append_u16 frame (word_of_nat (length (profile_id request)))
                 @ map byte_of_char (profile_id request))
      | _ \<Rightarrow>
          if profile_id request \<noteq> [] then
            Inl (Invalid_argument ''broker request has an unexpected profile ID'')
          else Inr frame)"

definition encode_request :: "Request \<Rightarrow> bytes result" where
  "encode_request request =
     (if request_id request = 0 then
        Inl (Invalid_argument ''broker request ID must be nonzero'')
      else
       (let frame = [0, 0, 0, 0] @ broker_magic;
            frame = broker_append_u16 frame protocol_version;
            frame = broker_append_u16 frame (raw_request_type (request_type request));
            frame = broker_append_u64 frame (request_id request)
        in and_then (encode_profile request frame) (\<lambda>frame.
             let body_size = length frame - 4
             in if length frame > maximum_frame_size then
                  Inl (Invalid_argument ''broker request exceeds the maximum frame size'')
                else
                 (let body_length = word_of_nat body_size :: u32
                  in Inr (foldl (\<lambda>frame index.
                       frame[index := ucast (drop_bit (index * 8) body_length AND 0xFF)]) frame [0..<4])))))"

text \<open>The \<^verbatim>\<open>switch\<close> of the decoder; a type that is no enumerator reaches its \<^verbatim>\<open>default\<close>.\<close>

definition decode_profile :: "bytes \<Rightarrow> u16 \<Rightarrow> u64 \<Rightarrow> Request result" where
  "decode_profile frame raw rid =
     (if raw = 1 then
        (if length frame < frame_header_size + 2 then
           Inl (Invalid_argument ''broker connect request is truncated'')
         else
          (let profile_size = unat (broker_read_u16 frame frame_header_size)
           in
           if profile_size > maximum_profile_id_size
              \<or> length frame \<noteq> frame_header_size + 2 + profile_size then
             Inl (Invalid_argument ''broker profile ID length is invalid'')
           else
            (let profile = map char_of_byte (drop (frame_header_size + 2) frame)
             in
             if \<not> valid_profile_id profile then
               Inl (Invalid_argument ''broker profile ID is invalid'')
             else Inr \<lparr>request_type = Connect, request_id = rid, profile_id = profile\<rparr>)))
      else if raw = 2 \<or> raw = 3 then
        (if length frame \<noteq> frame_header_size then
           Inl (Invalid_argument ''broker request has an unexpected payload'')
         else
           Inr \<lparr>request_type = (if raw = 2 then Disconnect else GetStatus), request_id = rid,
                profile_id = []\<rparr>)
      else Inl (Invalid_argument ''broker request type is unknown''))"

definition decode_request :: "bytes \<Rightarrow> Request result" where
  "decode_request frame =
     (if length frame < frame_header_size \<or> length frame > maximum_frame_size then
        Inl (Invalid_argument ''broker frame size is invalid'')
      else if unat (broker_read_u32 frame 0) \<noteq> length frame - 4 then
        Inl (Invalid_argument ''broker frame length prefix is invalid'')
      else if list_ex (\<lambda>index. frame ! (4 + index) \<noteq> broker_magic ! index) [0..<4] then
        Inl (Invalid_argument ''broker frame magic is invalid'')
      else if broker_read_u16 frame 8 \<noteq> protocol_version then
        Inl (Invalid_argument ''broker protocol version is unsupported'')
      else
       (let raw = broker_read_u16 frame 10; rid = broker_read_u64 frame 12
        in
        if rid = 0 then Inl (Invalid_argument ''broker request ID must be nonzero'')
        else decode_profile frame raw rid))"

section \<open>Little-endian and big-endian\<close>

lemma broker_append_u16_rev: "broker_append_u16 out v = out @ rev (append_u16 [] v)"
  by (simp add: broker_append_u16_def append_u16_def)

lemma broker_append_u64_rev: "broker_append_u64 out v = out @ rev (append_u64 [] v)"
  by (simp add: broker_append_u64_def append_u64_def)

lemma slice_nth:
  "off + k \<le> length f \<Longrightarrow> take k (drop off f) = map (\<lambda>i. f ! (off + i)) [0..<k]"
  by (rule nth_equalityI) simp_all

lemma broker_read_u16_at:
  assumes "off + 2 \<le> length f"
  shows "broker_read_u16 f off = read_u16 (rev (take 2 (drop off f)))"
  using assms
  by (simp add: slice_nth upt_rec broker_read_u16_def read_u16_def or.commute)

lemma broker_read_u32_at:
  assumes "off + 4 \<le> length f"
  shows "broker_read_u32 f off = read_u32 (rev (take 4 (drop off f)))"
proof -
  have "rev (take 4 (drop off f)) = [f ! (off + 3), f ! (off + 2), f ! (off + 1), f ! off]"
    using assms by (simp add: slice_nth upt_4)
  then show ?thesis
    by (simp add: broker_read_u32_def read_u32_def upt_4 or.commute or.left_commute)
qed

lemma broker_read_u64_at:
  assumes "off + 8 \<le> length f"
  shows "broker_read_u64 f off = read_u64 (rev (take 8 (drop off f)))"
proof -
  have rv: "rev (take 8 (drop off f)) = [f ! (off + 7), f ! (off + 6), f ! (off + 5), f ! (off + 4),
      f ! (off + 3), f ! (off + 2), f ! (off + 1), f ! off]"
    using assms by (simp add: slice_nth upt_8)
  have le: "broker_read_u64 f off =
      ucast (f ! off) OR push_bit 8 (ucast (f ! (off + 1))) OR push_bit 16 (ucast (f ! (off + 2)))
      OR push_bit 24 (ucast (f ! (off + 3))) OR push_bit 32 (ucast (f ! (off + 4)))
      OR push_bit 40 (ucast (f ! (off + 5))) OR push_bit 48 (ucast (f ! (off + 6)))
      OR push_bit 56 (ucast (f ! (off + 7)))"
    by (simp add: broker_read_u64_def upt_8 or.assoc)
  have be: "read_u64 [h, g, e, d, c, b, a, z] =
      push_bit 56 (ucast h) OR push_bit 48 (ucast g) OR push_bit 40 (ucast e) OR push_bit 32 (ucast d)
      OR push_bit 24 (ucast c) OR push_bit 16 (ucast b) OR push_bit 8 (ucast a) OR ucast z"
    for a b c d e g h z
    by (simp add: read_u64_def upt_8 push_bit_or or.assoc)
  show ?thesis unfolding rv le be by (simp only: or.assoc or.commute or.left_commute)
qed

lemma append_read_rev:
  "length xs = 2 \<Longrightarrow> rev (append_u16 [] (read_u16 (rev xs))) = xs"
  "length xs = 4 \<Longrightarrow> rev (append_u32 [] (read_u32 (rev xs))) = xs"
  "length xs = 8 \<Longrightarrow> rev (append_u64 [] (read_u64 (rev xs))) = xs"
  by (simp_all add: append_read_u16_take append_read_u32_take append_read_u64_take)

lemma read_append_id [simp]:
  "read_u16 (append_u16 [] v) = v" "read_u32 (append_u32 [] w) = w" "read_u64 (append_u64 [] x) = x"
  using read_append_u16 [of v "[]"] read_append_u32 [of w "[]"] read_append_u64 [of x "[]"] by simp_all

section \<open>The codec\<close>

definition profile_ok :: "Request \<Rightarrow> bool" where
  "profile_ok r \<longleftrightarrow> (if request_type r = Connect then valid_profile_id (profile_id r) else profile_id r = [])"

definition profile_bytes :: "Request \<Rightarrow> bytes" where
  "profile_bytes r =
     (if request_type r = Connect
      then rev (append_u16 [] (word_of_nat (length (profile_id r)))) @ map byte_of_char (profile_id r)
      else [])"

definition request_bytes :: "Request \<Rightarrow> bytes" where
  "request_bytes r =
     rev (append_u32 [] (word_of_nat (16 + length (profile_bytes r)))) @ broker_magic
     @ rev (append_u16 [] protocol_version) @ rev (append_u16 [] (raw_request_type (request_type r)))
     @ rev (append_u64 [] (request_id r)) @ profile_bytes r"

lemma valid_profile_length: "valid_profile_id p \<Longrightarrow> 0 < length p \<and> length p \<le> 64"
  by (auto simp: valid_profile_id_def maximum_profile_id_size_def split: if_splits)

lemma profile_bytes_length: "profile_ok r \<Longrightarrow> length (profile_bytes r) \<le> 66"
  using valid_profile_length by (auto simp: profile_ok_def profile_bytes_def)

lemma length_broker_magic [simp]: "length broker_magic = 4"
  by (simp add: broker_magic_def)

lemma write_length:
  "foldl (\<lambda>frame index. frame[index := ucast (drop_bit (index * 8) n AND 0xFF)]) (0 # 0 # 0 # 0 # rest) [0..<4]
     = rev (append_u32 [] (n :: u32)) @ rest"
  by (simp add: upt_4 append_u32_def)

lemma encode_profile_ok:
  "profile_ok r \<Longrightarrow> encode_profile r frame = Inr (frame @ profile_bytes r)"
  "\<not> profile_ok r \<Longrightarrow> \<exists>e. encode_profile r frame = Inl e"
  by (auto simp: encode_profile_def profile_ok_def profile_bytes_def broker_append_u16_rev
      split: RequestType.splits)

lemma encode_request_Inr_iff:
  "encode_request r = Inr bs \<longleftrightarrow> request_id r \<noteq> 0 \<and> profile_ok r \<and> bs = request_bytes r"
proof -
  let ?rest = "broker_magic @ rev (append_u16 [] protocol_version)
     @ rev (append_u16 [] (raw_request_type (request_type r))) @ rev (append_u64 [] (request_id r))"
  have enc: "encode_request r = (if request_id r = 0 then
       Inl (Invalid_argument ''broker request ID must be nonzero'')
     else and_then (encode_profile r (0 # 0 # 0 # 0 # ?rest)) (\<lambda>frame.
       if length frame > maximum_frame_size then
         Inl (Invalid_argument ''broker request exceeds the maximum frame size'')
       else Inr (foldl (\<lambda>f index.
         f[index := ucast (drop_bit (index * 8) (word_of_nat (length frame - 4) :: u32) AND 0xFF)]) frame [0..<4])))"
    unfolding encode_request_def Let_def broker_append_u16_rev broker_append_u64_rev by simp
  show ?thesis
  proof (cases "profile_ok r")
    case True
    have len: "length (0 # 0 # 0 # 0 # ?rest @ profile_bytes r) = 20 + length (profile_bytes r)" by simp
    then have "\<not> length (0 # 0 # 0 # 0 # ?rest @ profile_bytes r) > maximum_frame_size"
      using profile_bytes_length [OF True] by (simp add: maximum_frame_size_def)
    then show ?thesis
      unfolding enc encode_profile_ok(1) [OF True] append_Cons
      using True by (simp only: and_then.simps write_length append_assoc) (auto simp: request_bytes_def)
  next
    case False
    then obtain e where "encode_profile r (0 # 0 # 0 # 0 # ?rest) = Inl e" using encode_profile_ok(2) by blast
    with False show ?thesis unfolding enc by simp
  qed
qed

text \<open>The fields of a frame that is long enough.\<close>

lemma frame_split:
  assumes "20 \<le> length f"
  shows "f = take 4 f @ take 4 (drop 4 f) @ take 2 (drop 8 f) @ take 2 (drop 10 f) @ take 8 (drop 12 f) @ drop 20 f"
proof -
  have join: "take k (drop n f) @ drop (k + n) f = drop n f" for k n by (simp flip: drop_drop)
  show ?thesis
    using join [of 8 12] join [of 2 10] join [of 2 8] join [of 4 4] append_take_drop_id [of 4 f] by simp
qed

lemma request_bytes_fields:
  "20 \<le> length (request_bytes r)" "length (request_bytes r) = 20 + length (profile_bytes r)"
  "take 4 (request_bytes r) = rev (append_u32 [] (word_of_nat (16 + length (profile_bytes r))))"
  "take 4 (drop 4 (request_bytes r)) = broker_magic"
  "take 2 (drop 8 (request_bytes r)) = rev (append_u16 [] protocol_version)"
  "take 2 (drop 10 (request_bytes r)) = rev (append_u16 [] (raw_request_type (request_type r)))"
  "take 8 (drop 12 (request_bytes r)) = rev (append_u64 [] (request_id r))"
  "drop 20 (request_bytes r) = profile_bytes r"
  by (simp_all add: request_bytes_def)

lemma magic_check:
  assumes "20 \<le> length f"
  shows "list_ex (\<lambda>index. f ! (4 + index) \<noteq> broker_magic ! index) [0..<4] \<longleftrightarrow> take 4 (drop 4 f) \<noteq> broker_magic"
proof -
  have "take 4 (drop 4 f) = broker_magic \<longleftrightarrow> (\<forall>i < 4. f ! (4 + i) = broker_magic ! i)"
    using assms by (auto simp: list_eq_iff_nth_eq)
  then show ?thesis by (auto simp: list_ex_iff)
qed

lemma decode_request_fields:
  assumes "20 \<le> length f" "length f \<le> maximum_frame_size"
  shows "decode_request f =
    (if unat (read_u32 (rev (take 4 f))) \<noteq> length f - 4 then
        Inl (Invalid_argument ''broker frame length prefix is invalid'')
      else if take 4 (drop 4 f) \<noteq> broker_magic then
        Inl (Invalid_argument ''broker frame magic is invalid'')
      else if read_u16 (rev (take 2 (drop 8 f))) \<noteq> protocol_version then
        Inl (Invalid_argument ''broker protocol version is unsupported'')
      else if read_u64 (rev (take 8 (drop 12 f))) = 0 then
        Inl (Invalid_argument ''broker request ID must be nonzero'')
      else decode_profile f (read_u16 (rev (take 2 (drop 10 f)))) (read_u64 (rev (take 8 (drop 12 f)))))"
  using assms
  by (simp add: decode_request_def magic_check [OF assms(1), simplified] broker_read_u32_at broker_read_u16_at
      broker_read_u64_at frame_header_size_def Let_def)

lemma decode_profile_bytes:
  assumes "profile_ok r" "20 \<le> length f" "drop 20 f = profile_bytes r"
  shows "decode_profile f (raw_request_type (request_type r)) (request_id r) = Inr r"
proof (cases "request_type r")
  case Connect
  have p: "valid_profile_id (profile_id r)" using assms(1) Connect by (simp add: profile_ok_def)
  have len: "length (profile_id r) \<le> 64" using valid_profile_length [OF p] by simp
  have d: "drop 20 f = rev (append_u16 [] (word_of_nat (length (profile_id r)))) @ map byte_of_char (profile_id r)"
    using assms(3) Connect by (simp add: profile_bytes_def)
  have l: "length f = 22 + length (profile_id r)"
    using arg_cong [OF d, of length] assms(2) by simp
  have "broker_read_u16 f 20 = word_of_nat (length (profile_id r))"
    using l d by (simp add: broker_read_u16_at)
  moreover have "unat (word_of_nat (length (profile_id r)) :: u16) = length (profile_id r)"
    using len by (simp add: unat_of_nat)
  moreover have "map char_of_byte (drop 22 f) = profile_id r"
  proof -
    have "drop 22 f = drop 2 (drop 20 f)" by simp
    then have "drop 22 f = map byte_of_char (profile_id r)" unfolding d by simp
    then show ?thesis by (simp only: map_char_byte)
  qed
  ultimately show ?thesis
    using Connect l len p
    by (cases r) (simp add: decode_profile_def frame_header_size_def maximum_profile_id_size_def)
next
  case Disconnect
  with assms show ?thesis
    by (cases r) (simp add: decode_profile_def profile_ok_def profile_bytes_def frame_header_size_def)
next
  case GetStatus
  with assms show ?thesis
    by (cases r) (simp add: decode_profile_def profile_ok_def profile_bytes_def frame_header_size_def)
qed

text \<open>What the decoder accepts: the frame it would itself write for the request it returns.\<close>

lemma decode_profile_Inr:
  assumes "decode_profile f raw rid = Inr r" "20 \<le> length f" "length f \<le> maximum_frame_size"
  shows "raw = raw_request_type (request_type r) \<and> rid = request_id r \<and> profile_ok r \<and> drop 20 f = profile_bytes r"
proof (cases "raw = 1")
  case True
  define p where "p = map char_of_byte (drop 22 f)"
  from assms(1) True have "22 \<le> length f" and sz: "length f = 22 + unat (broker_read_u16 f 20)"
    and vp: "valid_profile_id p" and r: "r = \<lparr>request_type = Connect, request_id = rid, profile_id = p\<rparr>"
    by (auto simp: decode_profile_def frame_header_size_def p_def Let_def split: if_splits)
  have pl: "length p = unat (broker_read_u16 f 20)" using sz by (simp add: p_def)
  have "drop 20 f = take 2 (drop 20 f) @ drop 22 f"
    using append_take_drop_id [of 2 "drop 20 f"] by simp
  moreover have "take 2 (drop 20 f) = rev (append_u16 [] (word_of_nat (length p)))"
    using \<open>22 \<le> length f\<close> unfolding pl by (simp add: broker_read_u16_at append_read_rev)
  moreover have "drop 22 f = map byte_of_char p"
    unfolding p_def map_map by (rule sym, rule map_idI) simp
  ultimately show ?thesis using True vp by (simp add: r profile_ok_def profile_bytes_def)
next
  case False
  with assms(1,2) show ?thesis
    by (auto simp: decode_profile_def frame_header_size_def profile_ok_def profile_bytes_def split: if_splits)
qed

lemma decode_request_bytes:
  assumes "profile_ok r" "request_id r \<noteq> 0"
  shows "decode_request (request_bytes r) = Inr r"
proof -
  note F = request_bytes_fields [of r]
  have small: "length (profile_bytes r) \<le> 66" using profile_bytes_length [OF assms(1)] .
  then have "unat (word_of_nat (16 + length (profile_bytes r)) :: u32) = 16 + length (profile_bytes r)"
    by (simp add: unat_of_nat del: of_nat_add)
  then show ?thesis
    using decode_profile_bytes [OF assms(1) F(1) F(8)] assms(2) small
    by (subst decode_request_fields) (simp_all add: F maximum_frame_size_def)
qed

lemma decode_request_Inr:
  assumes "decode_request f = Inr r"
  shows "profile_ok r \<and> request_id r \<noteq> 0 \<and> f = request_bytes r"
proof -
  have b: "20 \<le> length f" "length f \<le> maximum_frame_size"
    using assms by (auto simp: decode_request_def frame_header_size_def split: if_splits)
  from assms have
    len: "unat (read_u32 (rev (take 4 f))) = length f - 4" and
    mg: "take 4 (drop 4 f) = broker_magic" and
    vr: "read_u16 (rev (take 2 (drop 8 f))) = protocol_version" and
    nz: "read_u64 (rev (take 8 (drop 12 f))) \<noteq> 0" and
    dp: "decode_profile f (read_u16 (rev (take 2 (drop 10 f)))) (read_u64 (rev (take 8 (drop 12 f)))) = Inr r"
    unfolding decode_request_fields [OF b] by (auto split: if_splits)
  from decode_profile_Inr [OF dp b] have
    ty: "read_u16 (rev (take 2 (drop 10 f))) = raw_request_type (request_type r)" and
    rid: "read_u64 (rev (take 8 (drop 12 f))) = request_id r" and
    ok: "profile_ok r" and pb: "drop 20 f = profile_bytes r" by auto
  have "length f - 4 = 16 + length (profile_bytes r)" using b(1) arg_cong [OF pb, of length] by simp
  then have "16 + length (profile_bytes r) = unat (read_u32 (rev (take 4 f)))" using len by simp
  then have l4: "word_of_nat (16 + length (profile_bytes r)) = read_u32 (rev (take 4 f))"
    by (simp only: of_nat_unat ucast_id)
  have "f = request_bytes r"
    unfolding request_bytes_def l4
    unfolding pb [symmetric] ty [symmetric] rid [symmetric] mg [symmetric] vr [symmetric]
    using b(1) frame_split [OF b(1)] by (simp add: append_read_rev)
  with ok nz rid show ?thesis by simp
qed

interpretation broker: codec encode_request decode_request "\<lambda>_. True"
  by unfold_locales (auto simp: encode_request_Inr_iff decode_request_bytes dest: decode_request_Inr)

text \<open>
  C20: The broker accepts a frame as a request exactly when it is the frame that the encoder writes
  for that request: every encodable request survives the round trip, nothing but the encoder's
  output is accepted (no trailing bytes, no second spelling), and no accepted frame exceeds the
  maximum frame size.
\<close>

theorem broker_codec_exact:
  "decode_request frame = Inr r \<longleftrightarrow> encode_request r = Inr frame \<and> length frame \<le> maximum_frame_size"
proof
  assume "decode_request frame = Inr r"
  then show "encode_request r = Inr frame \<and> length frame \<le> maximum_frame_size"
    by (simp add: broker.enc_dec) (simp add: decode_request_def split: if_splits)
next
  assume "encode_request r = Inr frame \<and> length frame \<le> maximum_frame_size"
  then show "decode_request frame = Inr r" by (simp add: broker.dec_enc)
qed

text \<open>The characters of a profile ID, as the list they are.\<close>

definition profile_characters :: string where
  "profile_characters = ''abcdefghijklmnopqrstuvwxyzABCDEFGHIJKLMNOPQRSTUVWXYZ0123456789-_''"

lemma profile_character_iff:
  "((97 \<le> (of_char c :: nat) \<and> of_char c \<le> (122 :: nat)) \<or> (65 \<le> (of_char c :: nat) \<and> of_char c \<le> (90 :: nat)))
     \<or> (48 \<le> (of_char c :: nat) \<and> of_char c \<le> (57 :: nat)) \<or> c = CHR ''-'' \<or> c = CHR ''_''
   \<longleftrightarrow> c \<in> set profile_characters"
proof -
  have codes: "map of_char profile_characters = [97..<123] @ [65..<91] @ [48..<58] @ [45, 95 :: nat]"
    by (simp add: profile_characters_def upt_rec)
  have mem: "c \<in> set profile_characters \<longleftrightarrow> (of_char c :: nat) \<in> set (map of_char profile_characters)"
    by auto
  have eqs: "c = CHR ''-'' \<longleftrightarrow> (of_char c :: nat) = 45" "c = CHR ''_'' \<longleftrightarrow> (of_char c :: nat) = 95"
    using of_char_eq_iff [where 'a = nat, of c "CHR ''-''"] of_char_eq_iff [where 'a = nat, of c "CHR ''_''"]
    by simp_all
  show ?thesis unfolding mem codes eqs
    by (simp only: set_append set_upt Un_iff atLeastLessThan_iff list.set insert_iff empty_iff) presburger
qed

lemma valid_profile_id_iff:
  "valid_profile_id p \<longleftrightarrow> 1 \<le> length p \<and> length p \<le> 64 \<and> set p \<subseteq> set profile_characters"
  using profile_character_iff
  by (cases p) (auto simp: valid_profile_id_def maximum_profile_id_size_def list_all_iff Let_def)

text \<open>
  A request is encoded exactly when its ID is non-zero and it carries a profile ID of one to 64
  letters, digits, hyphens or underscores if it is a connect request and none otherwise.
\<close>

theorem encode_request_accepts:
  "(\<exists>frame. encode_request r = Inr frame) \<longleftrightarrow>
     request_id r \<noteq> 0 \<and>
     (case request_type r of
        Connect \<Rightarrow> 1 \<le> length (profile_id r) \<and> length (profile_id r) \<le> 64
          \<and> set (profile_id r) \<subseteq> set profile_characters
      | _ \<Rightarrow> profile_id r = [])"
  by (cases "request_type r") (simp_all add: encode_request_Inr_iff profile_ok_def valid_profile_id_iff)

end
