(* ===== verification/Network_Transaction.thy ===== *)
theory Network_Transaction
  imports Control_Messages Ip_Address
begin

unbundle bit_operations_syntax

text \<open>
  The network configuration of the client as one transaction,
  \<^verbatim>\<open>src/core/client_network_transaction.cpp\<close> and its header: adapter, packet session, addresses,
  MTU and routes are acquired in order, and whatever was acquired is released in the reverse
  order, on failure and on roll-back. The platform's \<^verbatim>\<open>ClientNetworkBackend\<close> is a parameter: a
  record of answers, each of which may depend on everything that was asked of it before.
\<close>

section \<open>Addresses and routes\<close>

record InterfaceAddress =
  ia_address :: bytes
  ia_prefix_length :: u8

record Ipv4Route =
  r4_network :: bytes
  r4_prefix_length :: u8
  r4_gateway :: bytes

record Ipv6InterfaceAddress =
  ia6_address :: bytes
  ia6_prefix_length :: u8

record Ipv6Route =
  r6_network :: bytes
  r6_prefix_length :: u8
  r6_gateway :: bytes

record InterfaceMtuSnapshot =
  ims_ipv4 :: u32
  ims_ipv6 :: u32

definition parse_route :: "string \<Rightarrow> bytes \<Rightarrow> Ipv4Route result" where
  "parse_route cidr gateway =
     (case string_find (CHR ''/'') cidr of
        None \<Rightarrow> Inl (Invalid_argument ''route must use IPv4 CIDR notation'')
      | Some slash \<Rightarrow>
          if slash = 0 \<or> slash + 1 \<ge> length cidr then
            Inl (Invalid_argument ''route must use IPv4 CIDR notation'')
          else
            (case from_chars 16 (drop (slash + 1) cidr) of
               Fc_ok len rest \<Rightarrow>
                 if rest \<noteq> [] \<or> len > 32 then
                   Inl (Invalid_argument ''route prefix is out of range'')
                 else
                   and_then (parse_ipv4_address (take slash cidr)) (\<lambda>network.
                     Inr \<lparr>r4_network = network, r4_prefix_length = word_of_nat len, r4_gateway = gateway\<rparr>)
             | _ \<Rightarrow> Inl (Invalid_argument ''route prefix is out of range'')))"

text \<open>The loop that clears the bits behind the prefix.\<close>

definition clear_host_bits :: "nat \<Rightarrow> bytes \<Rightarrow> bytes" where
  "clear_host_bits len network =
     foldl (\<lambda>canonical b.
       canonical[b div 8 := canonical ! (b div 8) AND NOT (push_bit (7 - b mod 8) 1)]) network [len..<128]"

definition parse_route_v6 :: "(string \<Rightarrow> (bytes \<times> u32) option) \<Rightarrow> string \<Rightarrow> bytes \<Rightarrow> Ipv6Route result" where
  "parse_route_v6 make_address_v6 cidr gateway =
     (case string_find (CHR ''/'') cidr of
        None \<Rightarrow> Inl (Invalid_argument ''route must use IPv6 CIDR notation'')
      | Some slash \<Rightarrow>
          if slash = 0 \<or> slash + 1 \<ge> length cidr then
            Inl (Invalid_argument ''route must use IPv6 CIDR notation'')
          else
            (case from_chars 16 (drop (slash + 1) cidr) of
               Fc_ok len rest \<Rightarrow>
                 if rest \<noteq> [] \<or> len > 128 then
                   Inl (Invalid_argument ''IPv6 route prefix is out of range'')
                 else
                   and_then (parse_ipv6_address make_address_v6 (take slash cidr)) (\<lambda>network.
                     let canonical = clear_host_bits len network
                     in if network \<noteq> canonical then
                          Inl (Invalid_argument ''IPv6 route address must be canonical network address'')
                        else
                          Inr \<lparr>r6_network = network, r6_prefix_length = word_of_nat len, r6_gateway = gateway\<rparr>)
             | _ \<Rightarrow> Inl (Invalid_argument ''IPv6 route prefix is out of range'')))"

section \<open>The backend\<close>

text \<open>
  What the transaction holds at the backend, and what has passed between the two. A set-up call
  that throws has released whatever it had acquired, as the interface demands of it, and an
  \<^verbatim>\<open>add\<close> function that returns \<^verbatim>\<open>false\<close> found the object in place and created nothing.
\<close>

datatype net_resource =
    Adapter
  | Packet_session
  | Address InterfaceAddress
  | Address6 Ipv6InterfaceAddress
  | Prior_mtu InterfaceMtuSnapshot
  | Route4 Ipv4Route
  | Route6 Ipv6Route

datatype backend_event =
    Adapter_opened
  | Session_started
  | Address_added InterfaceAddress bool
  | Address6_added Ipv6InterfaceAddress bool
  | Mtu_set u32 "InterfaceMtuSnapshot option"
  | Route_added Ipv4Route bool
  | Route6_added Ipv6Route bool
  | Setup_threw cxx_exception
  | Released net_resource

type_synonym backend_log = "backend_event list"

record ClientNetworkBackend =
  open_adapter :: "backend_log \<Rightarrow> unit result"
  start_packet_session :: "backend_log \<Rightarrow> unit result"
  add_interface_address :: "backend_log \<Rightarrow> InterfaceAddress \<Rightarrow> bool result"
  add_interface_address6 :: "backend_log \<Rightarrow> Ipv6InterfaceAddress \<Rightarrow> bool result"
  set_interface_mtu :: "backend_log \<Rightarrow> u32 \<Rightarrow> InterfaceMtuSnapshot option result"
  backend_add_route :: "backend_log \<Rightarrow> Ipv4Route \<Rightarrow> bool result"
  backend_add_route6 :: "backend_log \<Rightarrow> Ipv6Route \<Rightarrow> bool result"

section \<open>The transaction\<close>

record ClientNetworkTransaction =
  tx_address :: InterfaceAddress
  tx_ipv6_address :: "Ipv6InterfaceAddress option"
  created_routes :: "(Ipv4Route + Ipv6Route) list"
  prior_mtu :: "InterfaceMtuSnapshot option"
  adapter_open :: bool
  session_started :: bool
  address_created :: bool
  ipv6_address_created :: bool
  tx_active :: bool

type_synonym transaction = "ClientNetworkTransaction \<times> backend_log"

definition new_ClientNetworkTransaction :: ClientNetworkTransaction where
  "new_ClientNetworkTransaction =
     \<lparr>tx_address = \<lparr>ia_address = [0, 0, 0, 0], ia_prefix_length = 0\<rparr>, tx_ipv6_address = None,
      created_routes = [], prior_mtu = None, adapter_open = False, session_started = False,
      address_created = False, ipv6_address_created = False, tx_active = False\<rparr>"

fun route_resource :: "Ipv4Route + Ipv6Route \<Rightarrow> net_resource" where
  "route_resource (Inl route) = Route4 route"
| "route_resource (Inr route) = Route6 route"

definition rollback :: "transaction \<Rightarrow> transaction" where
  "rollback t =
     (let (s, log) = t;
          s = s\<lparr>tx_active := False\<rparr>;
          log = foldl (\<lambda>log route. log @ [Released (route_resource route)]) log (rev (created_routes s));
          s = s\<lparr>created_routes := []\<rparr>;
          (s, log) = (case prior_mtu s of
              Some snapshot \<Rightarrow> (s\<lparr>prior_mtu := None\<rparr>, log @ [Released (Prior_mtu snapshot)])
            | None \<Rightarrow> (s, log));
          (s, log) = (case tx_ipv6_address s of
              Some address \<Rightarrow>
                if ipv6_address_created s
                then (s\<lparr>ipv6_address_created := False\<rparr>, log @ [Released (Address6 address)]) else (s, log)
            | None \<Rightarrow> (s, log));
          (s, log) = (if address_created s
            then (s\<lparr>address_created := False\<rparr>, log @ [Released (Address (tx_address s))]) else (s, log));
          (s, log) = (if session_started s
            then (s\<lparr>session_started := False\<rparr>, log @ [Released Packet_session]) else (s, log));
          (s, log) = (if adapter_open s
            then (s\<lparr>adapter_open := False\<rparr>, log @ [Released Adapter]) else (s, log))
      in (s\<lparr>tx_ipv6_address := None\<rparr>, log))"

text \<open>A call of the backend: it throws, or the rest goes on with its answer.\<close>

definition backend_call ::
  "'a result \<Rightarrow> transaction \<Rightarrow> ('a \<Rightarrow> transaction \<Rightarrow> unit result \<times> transaction) \<Rightarrow> unit result \<times> transaction" where
  "backend_call answer t rest =
     (case answer of
        Inl e \<Rightarrow> (Inl e, (fst t, snd t @ [Setup_threw e]))
      | Inr x \<Rightarrow> rest x t)"

text \<open>The loop over the routes in the \<^verbatim>\<open>try\<close> block.\<close>

fun add_routes :: "(string \<Rightarrow> (bytes \<times> u32) option) \<Rightarrow> ClientNetworkBackend \<Rightarrow> IpAssignment \<Rightarrow> string list
    \<Rightarrow> transaction \<Rightarrow> unit result \<times> transaction" where
  "add_routes make_address_v6 backend assignment [] (s, log) = (Inr (), (s, log))"
| "add_routes make_address_v6 backend assignment (cidr # cidrs) (s, log) =
     (if string_find (CHR '':'') cidr \<noteq> None then
        (case parse_route_v6 make_address_v6 cidr (gateway_ipv6_address assignment) of
           Inl e \<Rightarrow> (Inl e, (s, log))
         | Inr route \<Rightarrow>
             backend_call (backend_add_route6 backend log route) (s, log) (\<lambda>created (s, log).
               add_routes make_address_v6 backend assignment cidrs
                 (if created then s\<lparr>created_routes := created_routes s @ [Inr route]\<rparr> else s,
                  log @ [Route6_added route created])))
      else
        (case parse_route cidr (gateway_address assignment) of
           Inl e \<Rightarrow> (Inl e, (s, log))
         | Inr route \<Rightarrow>
             backend_call (backend_add_route backend log route) (s, log) (\<lambda>created (s, log).
               add_routes make_address_v6 backend assignment cidrs
                 (if created then s\<lparr>created_routes := created_routes s @ [Inl route]\<rparr> else s,
                  log @ [Route_added route created]))))"

text \<open>The \<^verbatim>\<open>try\<close> block up to the routes, and the block as a whole.\<close>

definition add_ipv6_address ::
  "ClientNetworkBackend \<Rightarrow> transaction \<Rightarrow> (transaction \<Rightarrow> unit result \<times> transaction) \<Rightarrow> unit result \<times> transaction" where
  "add_ipv6_address backend t rest =
     (case tx_ipv6_address (fst t) of
        None \<Rightarrow> rest t
      | Some address \<Rightarrow>
          backend_call (add_interface_address6 backend (snd t) address) t (\<lambda>created (s, log).
            rest (s\<lparr>ipv6_address_created := created\<rparr>, log @ [Address6_added address created])))"

definition set_up :: "(string \<Rightarrow> (bytes \<times> u32) option) \<Rightarrow> ClientNetworkBackend \<Rightarrow> IpAssignment \<Rightarrow> string list
    \<Rightarrow> transaction \<Rightarrow> unit result \<times> transaction" where
  "set_up make_address_v6 backend assignment route_cidrs t =
     backend_call (open_adapter backend (snd t)) t (\<lambda>_ (s, log).
     let s = s\<lparr>adapter_open := True\<rparr>; log = log @ [Adapter_opened] in
     backend_call (start_packet_session backend log) (s, log) (\<lambda>_ (s, log).
     let s = s\<lparr>session_started := True\<rparr>; log = log @ [Session_started] in
     backend_call (add_interface_address backend log (tx_address s)) (s, log) (\<lambda>created (s, log).
     let s = s\<lparr>address_created := created\<rparr>; log = log @ [Address_added (tx_address s) created] in
     add_ipv6_address backend (s, log) (\<lambda>(s, log).
     backend_call (set_interface_mtu backend log (ucast (mtu assignment))) (s, log) (\<lambda>snapshot (s, log).
     let s = s\<lparr>prior_mtu := snapshot\<rparr>; log = log @ [Mtu_set (ucast (mtu assignment)) snapshot] in
     case add_routes make_address_v6 backend assignment route_cidrs (s, log) of
       (Inl e, t) \<Rightarrow> (Inl e, t)
     | (Inr _, (s, log)) \<Rightarrow> (Inr (), (s\<lparr>tx_active := True\<rparr>, log)))))))"

definition activate :: "(string \<Rightarrow> (bytes \<times> u32) option) \<Rightarrow> ClientNetworkBackend \<Rightarrow> IpAssignment \<Rightarrow> string list
    \<Rightarrow> transaction \<Rightarrow> unit result \<times> transaction" where
  "activate make_address_v6 backend assignment route_cidrs t =
     (let (s, log) = t in
      if tx_active s \<or> adapter_open s \<or> session_started s \<or> address_created s \<or> ipv6_address_created s
         \<or> created_routes s \<noteq> [] then
        (Inl (Logic_error ''network transaction is already active''), t)
      else if route_cidrs = [] then
        (Inl (Invalid_argument ''at least one tunnel route is required''), t)
      else
       (let s = s\<lparr>tx_address := \<lparr>ia_address = client_address assignment, ia_prefix_length = prefix_length assignment\<rparr>,
                  tx_ipv6_address :=
                    (if ipv6_prefix_length assignment \<noteq> 0
                     then Some \<lparr>ia6_address = client_ipv6_address assignment,
                                ia6_prefix_length = ipv6_prefix_length assignment\<rparr>
                     else None)\<rparr>
        in case set_up make_address_v6 backend assignment route_cidrs (s, log) of
             (Inl e, t) \<Rightarrow> (Inl e, rollback t)
           | (Inr _, t) \<Rightarrow> (Inr (), t)))"

section \<open>Resources\<close>

text \<open>
  The stack of resources that a log leaves held: an acquisition pushes, a release must name the top
  of the stack. \<open>None\<close>: something was released that was not the last thing acquired.
\<close>

fun acquired :: "backend_event \<Rightarrow> net_resource list" where
  "acquired Adapter_opened = [Adapter]"
| "acquired Session_started = [Packet_session]"
| "acquired (Address_added a created) = (if created then [Address a] else [])"
| "acquired (Address6_added a created) = (if created then [Address6 a] else [])"
| "acquired (Mtu_set m snapshot) = (case snapshot of None \<Rightarrow> [] | Some prior \<Rightarrow> [Prior_mtu prior])"
| "acquired (Route_added r created) = (if created then [Route4 r] else [])"
| "acquired (Route6_added r created) = (if created then [Route6 r] else [])"
| "acquired (Setup_threw e) = []"
| "acquired (Released r) = []"

fun held_after :: "net_resource list option \<Rightarrow> backend_event \<Rightarrow> net_resource list option" where
  "held_after None e = None"
| "held_after (Some stack) (Released r) =
     (case stack of [] \<Rightarrow> None | latest # rest \<Rightarrow> if latest = r then Some rest else None)"
| "held_after (Some stack) e = Some (acquired e @ stack)"

definition held :: "backend_log \<Rightarrow> net_resource list option" where
  "held log = foldl held_after (Some []) log"

text \<open>What the object records as held, last acquired first.\<close>

definition tx_resources :: "ClientNetworkTransaction \<Rightarrow> net_resource list" where
  "tx_resources s =
     map route_resource (rev (created_routes s))
     @ (case prior_mtu s of None \<Rightarrow> [] | Some snapshot \<Rightarrow> [Prior_mtu snapshot])
     @ (if ipv6_address_created s
        then (case tx_ipv6_address s of None \<Rightarrow> [] | Some a \<Rightarrow> [Address6 a]) else [])
     @ (if address_created s then [Address (tx_address s)] else [])
     @ (if session_started s then [Packet_session] else [])
     @ (if adapter_open s then [Adapter] else [])"

datatype network_event =
    Nt_activate "string \<Rightarrow> (bytes \<times> u32) option" ClientNetworkBackend IpAssignment "string list"
  | Nt_rollback

fun network_step :: "network_event \<Rightarrow> transaction \<Rightarrow> transaction" where
  "network_step (Nt_activate make_address_v6 backend assignment cidrs) t =
     snd (activate make_address_v6 backend assignment cidrs t)"
| "network_step Nt_rollback t = rollback t"

section \<open>Route texts\<close>

lemma from_chars_whole:
  "from_chars w s = Fc_ok v [] \<longleftrightarrow> s \<noteq> [] \<and> list_all is_digit s \<and> v = decimal_value s \<and> v < 2 ^ w"
proof (cases "list_all is_digit s")
  case True
  then have whole: "takeWhile is_digit s = s" "dropWhile is_digit s = []"
    by (auto simp: list_all_iff takeWhile_eq_all_conv)
  from True show ?thesis unfolding from_chars_def Let_def whole by auto
next
  case False
  then have "dropWhile is_digit s \<noteq> []" by (auto simp: list_all_iff)
  with False show ?thesis by (auto simp: from_chars_def Let_def)
qed

lemma string_find_first: "c \<notin> set p \<Longrightarrow> string_find c (p @ c # rest) = Some (length p)"
proof -
  assume "c \<notin> set p"
  then have "\<forall>x \<in> set p. x \<noteq> c" by blast
  then show ?thesis by (simp add: string_find_def takeWhile_append2)
qed

lemma string_find_SomeD:
  assumes "string_find c s = Some k"
  shows "c \<notin> set (take k s) \<and> s = take k s @ c # drop (k + 1) s"
proof -
  have "take k s = takeWhile (\<lambda>x. x \<noteq> c) s"
    using assms takeWhile_eq_take [of "\<lambda>x. x \<noteq> c" s] by (auto simp: string_find_def split: if_splits)
  then have "c \<notin> set (take k s)" by (auto dest: set_takeWhileD)
  with string_find_Some [OF assms] show ?thesis by simp
qed

text \<open>A text of the form \<^verbatim>\<open>host/length\<close>, as the two parsers take it apart.\<close>

lemma cidr_split:
  assumes small: "bound < 2 ^ 16"
  shows "(\<exists>n slash. string_find (CHR ''/'') cidr = Some slash \<and> slash \<noteq> 0 \<and> slash + 1 < length cidr
       \<and> from_chars 16 (drop (slash + 1) cidr) = Fc_ok n [] \<and> n \<le> bound \<and> P n (take slash cidr))
   \<longleftrightarrow> (\<exists>host len. cidr = host @ ''/'' @ len \<and> CHR ''/'' \<notin> set host \<and> host \<noteq> [] \<and> len \<noteq> []
       \<and> list_all is_digit len \<and> decimal_value len \<le> bound \<and> P (decimal_value len) host)"
proof (intro iffI; elim exE conjE)
  fix n slash assume A: "string_find (CHR ''/'') cidr = Some slash" "slash \<noteq> 0" "slash + 1 < length cidr"
    "from_chars 16 (drop (slash + 1) cidr) = Fc_ok n []" "n \<le> bound" "P n (take slash cidr)"
  then show "\<exists>host len. cidr = host @ ''/'' @ len \<and> CHR ''/'' \<notin> set host \<and> host \<noteq> [] \<and> len \<noteq> []
       \<and> list_all is_digit len \<and> decimal_value len \<le> bound \<and> P (decimal_value len) host"
    using string_find_SomeD [OF A(1)]
    by (intro exI [of _ "take slash cidr"] exI [of _ "drop (slash + 1) cidr"]) (auto simp: from_chars_whole)
next
  fix host len assume B: "cidr = host @ ''/'' @ len" "CHR ''/'' \<notin> set host" "host \<noteq> []" "len \<noteq> []"
    "list_all is_digit len" "decimal_value len \<le> bound" "P (decimal_value len) host"
  then show "\<exists>n slash. string_find (CHR ''/'') cidr = Some slash \<and> slash \<noteq> 0 \<and> slash + 1 < length cidr
       \<and> from_chars 16 (drop (slash + 1) cidr) = Fc_ok n [] \<and> n \<le> bound \<and> P n (take slash cidr)"
    using string_find_first [OF B(2), of len] small
    by (intro exI [of _ "decimal_value len"] exI [of _ "length host"]) (auto simp: from_chars_whole)
qed

lemma clear_bits_nth:
  fixes a :: bytes
  assumes "i < 16" "j < 8"
  shows "length a = 16 \<Longrightarrow> set bs \<subseteq> {..<128} \<Longrightarrow>
    length (foldl (\<lambda>c b. c[b div 8 := c ! (b div 8) AND NOT (push_bit (7 - b mod 8) 1)]) a bs) = 16
    \<and> (bit (foldl (\<lambda>c b. c[b div 8 := c ! (b div 8) AND NOT (push_bit (7 - b mod 8) 1)]) a bs ! i) j
       \<longleftrightarrow> bit (a ! i) j \<and> 8 * i + (7 - j) \<notin> set bs)"
proof (induction bs arbitrary: a)
  case (Cons b bs)
  let ?a = "a[b div 8 := a ! (b div 8) AND NOT (push_bit (7 - b mod 8) 1)]"
  have "bit (?a ! i) j \<longleftrightarrow> bit (a ! i) j \<and> b \<noteq> 8 * i + (7 - j)"
  proof (cases "b div 8 = i")
    case True
    have "b = 8 * i + (7 - j) \<longleftrightarrow> j = 7 - b mod 8"
      using True assms(2) div_mult_mod_eq [of b 8] by (auto simp: True)
    then show ?thesis using True assms Cons.prems by (auto simp: bit_simps)
  next
    case False
    then have "b \<noteq> 8 * i + (7 - j)" using assms by auto
    with False show ?thesis by simp
  qed
  with Cons.IH [of ?a] Cons.prems show ?case by auto
qed simp

lemma clear_host_bits_bit:
  assumes "i < 16" "j < 8" "length a = 16"
  shows "length (clear_host_bits n a) = 16"
    "bit (clear_host_bits n a ! i) j \<longleftrightarrow> bit (a ! i) j \<and> \<not> n \<le> 8 * i + (7 - j)"
proof -
  have "set [n..<128] \<subseteq> {..<128}" "8 * i + (7 - j) < 128" using assms by auto
  then show "length (clear_host_bits n a) = 16"
    "bit (clear_host_bits n a ! i) j \<longleftrightarrow> bit (a ! i) j \<and> \<not> n \<le> 8 * i + (7 - j)"
    using clear_bits_nth [OF assms, of "[n..<128]"] unfolding clear_host_bits_def by auto
qed

lemma clear_host_bits_id:
  assumes "length a = 16"
  shows "clear_host_bits n a = a \<longleftrightarrow> (\<forall>b \<in> {n..<128}. \<not> bit (a ! (b div 8)) (7 - b mod 8))"
proof
  assume eq: "clear_host_bits n a = a"
  show "\<forall>b \<in> {n..<128}. \<not> bit (a ! (b div 8)) (7 - b mod 8)"
  proof
    fix b assume b: "b \<in> {n..<128}"
    have "b = 8 * (b div 8) + (7 - (7 - b mod 8))" using div_mult_mod_eq [of b 8] by simp
    moreover have "b div 8 < 16" "7 - b mod 8 < 8" using b by auto
    ultimately show "\<not> bit (a ! (b div 8)) (7 - b mod 8)"
      using b clear_host_bits_bit(2) [OF _ _ assms, of "b div 8" "7 - b mod 8" n] eq by (metis atLeastLessThan_iff)
  qed
next
  assume zero: "\<forall>b \<in> {n..<128}. \<not> bit (a ! (b div 8)) (7 - b mod 8)"
  have "bit (clear_host_bits n a ! i) j \<longleftrightarrow> bit (a ! i) j" if "i < 16" "j < 8" for i j
  proof -
    have "(8 * i + k) div 8 = i" "(8 * i + k) mod 8 = k" "8 * i + k < 128" if "k < 8" for k
      using that \<open>i < 16\<close> by auto
    from this [of "7 - j"] that
    have "(8 * i + (7 - j)) div 8 = i" "7 - (8 * i + (7 - j)) mod 8 = j" "8 * i + (7 - j) < 128" by auto
    with zero have "\<not> bit (a ! i) j" if "n \<le> 8 * i + (7 - j)" using that by (metis atLeastLessThan_iff)
    with clear_host_bits_bit(2) [OF that assms, of n] show ?thesis by blast
  qed
  then have "clear_host_bits n a ! i = a ! i" if "i < 16" for i
    using that by (auto intro!: bit_word_eqI)
  then show "clear_host_bits n a = a"
    using assms clear_host_bits_bit(1) [OF _ _ assms, of 0 0 n] by (intro nth_equalityI) simp_all
qed

lemma parse_route_Inr_iff:
  "parse_route cidr gateway = Inr r \<longleftrightarrow>
     (\<exists>n slash. string_find (CHR ''/'') cidr = Some slash \<and> slash \<noteq> 0 \<and> slash + 1 < length cidr
        \<and> from_chars 16 (drop (slash + 1) cidr) = Fc_ok n [] \<and> n \<le> 32
        \<and> (\<exists>address. parse_ipv4_address (take slash cidr) = Inr address
             \<and> r = \<lparr>r4_network = address, r4_prefix_length = word_of_nat n, r4_gateway = gateway\<rparr>))"
  by (auto simp: parse_route_def and_then_Inr_iff split: option.splits if_splits from_chars_result.splits)

lemma parse_route_v6_Inr_iff:
  "parse_route_v6 mk6 cidr gateway = Inr r \<longleftrightarrow>
     (\<exists>n slash. string_find (CHR ''/'') cidr = Some slash \<and> slash \<noteq> 0 \<and> slash + 1 < length cidr
        \<and> from_chars 16 (drop (slash + 1) cidr) = Fc_ok n [] \<and> n \<le> 128
        \<and> (\<exists>address. parse_ipv6_address mk6 (take slash cidr) = Inr address \<and> clear_host_bits n address = address
             \<and> r = \<lparr>r6_network = address, r6_prefix_length = word_of_nat n, r6_gateway = gateway\<rparr>))"
  by (auto simp: parse_route_v6_def and_then_Inr_iff Let_def split: option.splits from_chars_result.splits)
    metis

text \<open>
  The IPv4 route parser accepts exactly an IPv4 address, a slash and a decimal length of at
  most 32.
\<close>

theorem parse_route_exact:
  "parse_route cidr gateway = Inr r \<longleftrightarrow>
     (\<exists>host len address. cidr = host @ ''/'' @ len \<and> CHR ''/'' \<notin> set host \<and> parse_ipv4_address host = Inr address
        \<and> len \<noteq> [] \<and> list_all is_digit len \<and> decimal_value len \<le> 32
        \<and> r = \<lparr>r4_network = address, r4_prefix_length = word_of_nat (decimal_value len), r4_gateway = gateway\<rparr>)"
proof -
  have "parse_ipv4_address [] \<noteq> Inr address" for address by (simp add: parse_ipv4_address_def parse_ipv4_loop.simps string_find_def)
  then show ?thesis unfolding parse_route_Inr_iff by (subst cidr_split, simp) blast
qed

text \<open>
  The IPv6 route parser accepts exactly an IPv6 address (of sixteen bytes, as Boost.Asio
  delivers them), a slash and a decimal length of at most 128 such that every bit of the address
  behind the prefix is zero.
\<close>

theorem parse_route_v6_exact:
  assumes "\<forall>s bytes scope. mk6 s = Some (bytes, scope) \<longrightarrow> length bytes = 16" and "mk6 [] = None"
  shows "parse_route_v6 mk6 cidr gateway = Inr r \<longleftrightarrow>
     (\<exists>host len address. cidr = host @ ''/'' @ len \<and> CHR ''/'' \<notin> set host \<and> parse_ipv6_address mk6 host = Inr address
        \<and> len \<noteq> [] \<and> list_all is_digit len \<and> decimal_value len \<le> 128
        \<and> (\<forall>b \<in> {decimal_value len..<128}. \<not> bit (address ! (b div 8)) (7 - b mod 8))
        \<and> r = \<lparr>r6_network = address, r6_prefix_length = word_of_nat (decimal_value len), r6_gateway = gateway\<rparr>)"
proof -
  have "parse_ipv6_address mk6 [] \<noteq> Inr address" for address by (simp add: parse_ipv6_address_def assms(2))
  moreover have "length address = 16" if "parse_ipv6_address mk6 s = Inr address" for s address
    using that assms(1) by (auto simp: parse_ipv6_address_def split: option.splits if_splits) blast
  then have zero: "parse_ipv6_address mk6 s = Inr address \<and> clear_host_bits n address = address \<and> Q \<longleftrightarrow>
      parse_ipv6_address mk6 s = Inr address \<and> (\<forall>b \<in> {n..<128}. \<not> bit (address ! (b div 8)) (7 - b mod 8)) \<and> Q"
    for s n address Q by (metis clear_host_bits_id)
  ultimately show ?thesis
    unfolding parse_route_v6_Inr_iff zero by (subst cidr_split, simp) blast
qed

text \<open>An address text function that knows two addresses.\<close>

definition demo_make_address_v6 :: "string \<Rightarrow> (bytes \<times> u32) option" where
  "demo_make_address_v6 s =
     (if s = ''fd00::'' then Some (0xFD # replicate 15 0, 0)
      else if s = ''fd00::1'' then Some (0xFD # replicate 14 0 @ [1], 0) else None)"

theorem parse_route_v6_exact_witness:
  "parse_route_v6 demo_make_address_v6 ''fd00::/8'' [] =
     Inr \<lparr>r6_network = 0xFD # replicate 15 0, r6_prefix_length = 8, r6_gateway = []\<rparr>"
proof -
  have text16: "\<forall>s bytes scope. demo_make_address_v6 s = Some (bytes, scope) \<longrightarrow> length bytes = 16"
    and empty: "demo_make_address_v6 [] = None"
    by (auto simp: demo_make_address_v6_def split: if_splits)
  note exact = parse_route_v6_exact [OF text16 empty]
  have digit: "list_all is_digit ''8'' \<and> decimal_value ''8'' = 8" by code_simp
  define net :: bytes where "net = 0xFD # replicate 15 0"
  have net: "parse_ipv6_address demo_make_address_v6 ''fd00::'' = Inr net" unfolding net_def by code_simp
  have zero: "\<not> bit (net ! (b div 8)) (7 - b mod 8)" if "b \<in> {8..<128}" for b
  proof -
    have "b div 8 = Suc (b div 8 - 1)" "b div 8 - 1 < 15" using that by auto
    then show ?thesis unfolding net_def by (metis bit_0_eq bot_apply bot_bool_def nth_Cons_Suc nth_replicate)
  qed
  have "parse_route_v6 demo_make_address_v6 ''fd00::/8'' [] =
      Inr \<lparr>r6_network = net, r6_prefix_length = 8, r6_gateway = []\<rparr>"
  proof (rule exact [THEN iffD2], intro exI conjI)
    show "''fd00::/8'' = ''fd00::'' @ ''/'' @ ''8''" by simp
    show "\<forall>b \<in> {decimal_value ''8''..<128}. \<not> bit (net ! (b div 8)) (7 - b mod 8)" using zero digit by simp
    show "\<lparr>r6_network = net, r6_prefix_length = 8, r6_gateway = []\<rparr> =
      \<lparr>r6_network = net, r6_prefix_length = word_of_nat (decimal_value ''8''), r6_gateway = []\<rparr>" using digit by simp
  qed (use digit net in simp_all)
  then show ?thesis unfolding net_def .
qed

section \<open>Roll-back\<close>

lemma held_Nil [simp]: "held [] = Some []"
  by (simp add: held_def)

lemma held_append [simp]: "held (log @ es) = foldl held_after (held log) es"
  by (simp add: held_def)

lemma held_release_all:
  "held log = Some (rs @ base) \<Longrightarrow> held (log @ map Released rs) = Some base"
proof (induction rs arbitrary: log)
  case (Cons r rs)
  then have "held (log @ [Released r]) = Some (rs @ base)" by simp
  from Cons.IH [OF this] Cons.prems show ?case by simp
qed simp

lemma release_routes:
  "foldl (\<lambda>log route. log @ [Released (route_resource route)]) log rs = log @ map Released (map route_resource rs)"
  by (induction rs arbitrary: log) simp_all

text \<open>What is released is exactly what the object records, last acquired first.\<close>

lemma rollback_log: "snd (rollback (s, log)) = log @ map Released (tx_resources s)"
  by (cases "prior_mtu s"; cases "tx_ipv6_address s"; cases "ipv6_address_created s"; cases "address_created s";
      cases "session_started s"; cases "adapter_open s"; simp add: rollback_def release_routes tx_resources_def)

definition tx_idle :: "ClientNetworkTransaction \<Rightarrow> bool" where
  "tx_idle s \<longleftrightarrow> \<not> tx_active s \<and> \<not> adapter_open s \<and> \<not> session_started s \<and> \<not> address_created s
     \<and> \<not> ipv6_address_created s \<and> created_routes s = [] \<and> prior_mtu s = None"

lemma tx_idle_resources: "tx_idle s \<Longrightarrow> tx_resources s = []"
  by (simp add: tx_idle_def tx_resources_def)

lemma rollback_idle:
  "ipv6_address_created s \<longrightarrow> tx_ipv6_address s \<noteq> None \<Longrightarrow> tx_idle (fst (rollback (s, log)))"
  by (cases "prior_mtu s"; cases "tx_ipv6_address s"; cases "ipv6_address_created s"; cases "address_created s";
      cases "session_started s"; cases "adapter_open s"; simp add: rollback_def tx_idle_def)

text \<open>The object and the log agree.\<close>

definition tx_sound :: "transaction \<Rightarrow> bool" where
  "tx_sound t \<longleftrightarrow> held (snd t) = Some (tx_resources (fst t))
     \<and> (ipv6_address_created (fst t) \<longrightarrow> tx_ipv6_address (fst t) \<noteq> None)"

lemma rollback_sound:
  assumes "tx_sound t"
  shows "tx_idle (fst (rollback t)) \<and> held (snd (rollback t)) = Some []"
proof -
  obtain s log where t: "t = (s, log)" by (cases t)
  have "held (log @ map Released (tx_resources s)) = Some []"
    using assms held_release_all [of log "tx_resources s" "[]"] by (simp add: tx_sound_def t)
  moreover have "tx_idle (fst (rollback (s, log)))"
    using assms rollback_idle [of s log] unfolding tx_sound_def t by auto
  ultimately show ?thesis by (simp add: t rollback_log)
qed

section \<open>Set-up\<close>

text \<open>The two branches of the route loop as one.\<close>

definition route_of :: "(string \<Rightarrow> (bytes \<times> u32) option) \<Rightarrow> IpAssignment \<Rightarrow> string \<Rightarrow> (Ipv4Route + Ipv6Route) result" where
  "route_of mk6 a cidr =
     (if string_find (CHR '':'') cidr \<noteq> None
      then map_sum id Inr (parse_route_v6 mk6 cidr (gateway_ipv6_address a))
      else map_sum id Inl (parse_route cidr (gateway_address a)))"

fun route_answer :: "ClientNetworkBackend \<Rightarrow> backend_log \<Rightarrow> Ipv4Route + Ipv6Route \<Rightarrow> bool result" where
  "route_answer backend log (Inl route) = backend_add_route backend log route"
| "route_answer backend log (Inr route) = backend_add_route6 backend log route"

fun route_event :: "Ipv4Route + Ipv6Route \<Rightarrow> bool \<Rightarrow> backend_event" where
  "route_event (Inl route) created = Route_added route created"
| "route_event (Inr route) created = Route6_added route created"

definition note_route :: "Ipv4Route + Ipv6Route \<Rightarrow> bool \<Rightarrow> transaction \<Rightarrow> transaction" where
  "note_route route created t =
     (if created then (fst t)\<lparr>created_routes := created_routes (fst t) @ [route]\<rparr> else fst t,
      snd t @ [route_event route created])"

lemma add_routes_Cons:
  "add_routes mk6 backend a (cidr # cidrs) t =
     (case route_of mk6 a cidr of
        Inl e \<Rightarrow> (Inl e, t)
      | Inr route \<Rightarrow> backend_call (route_answer backend (snd t) route) t (\<lambda>created t.
          add_routes mk6 backend a cidrs (note_route route created t)))"
  by (cases t) (simp add: route_of_def note_route_def backend_call_def split: sum.splits)

lemma add_routes_Nil: "add_routes mk6 backend a [] t = (Inr (), t)"
  by (cases t) simp

declare add_routes.simps [simp del]

lemma note_route_sound: "tx_sound t \<Longrightarrow> tx_sound (note_route route created t)"
  by (cases route) (simp_all add: tx_sound_def note_route_def tx_resources_def)

lemma threw_sound: "tx_sound t \<Longrightarrow> tx_sound (fst t, snd t @ [Setup_threw e])"
  by (simp add: tx_sound_def)

text \<open>The route loop keeps the agreement and does not commit the transaction.\<close>

lemma add_routes_sound:
  "tx_sound t \<Longrightarrow> tx_sound (snd (add_routes mk6 backend a cidrs t))
     \<and> tx_active (fst (snd (add_routes mk6 backend a cidrs t))) = tx_active (fst t)"
proof (induction cidrs arbitrary: t)
  case (Cons cidr cidrs)
  show ?case
  proof (cases "route_of mk6 a cidr")
    case (Inr route)
    show ?thesis
      using Cons.prems Cons.IH [OF note_route_sound [OF Cons.prems]] Inr
      by (cases "route_answer backend (snd t) route")
        (simp_all add: add_routes_Cons backend_call_def threw_sound note_route_def)
  qed (use Cons.prems in \<open>simp add: add_routes_Cons\<close>)
qed (simp add: add_routes_Nil)

text \<open>When it ends without an exception, every route was parsed and offered to the backend, in order.\<close>

lemma add_routes_done:
  "add_routes mk6 backend a cidrs t = (Inr (), t') \<Longrightarrow>
     \<exists>routes answers. map (route_of mk6 a) cidrs = map Inr routes \<and> length answers = length routes
       \<and> created_routes (fst t') = created_routes (fst t) @ map fst (filter snd (zip routes answers))
       \<and> snd t' = snd t @ map2 route_event routes answers
       \<and> (fst t')\<lparr>created_routes := []\<rparr> = (fst t)\<lparr>created_routes := []\<rparr>"
proof (induction cidrs arbitrary: t)
  case (Cons cidr cidrs)
  then obtain route created where r: "route_of mk6 a cidr = Inr route"
    and go: "add_routes mk6 backend a cidrs (note_route route created t) = (Inr (), t')"
    by (auto simp: add_routes_Cons backend_call_def split: sum.splits)
  from Cons.IH [OF go] obtain routes answers where
    "map (route_of mk6 a) cidrs = map Inr routes" "length answers = length routes"
    "created_routes (fst t') = created_routes (fst (note_route route created t)) @ map fst (filter snd (zip routes answers))"
    "snd t' = snd (note_route route created t) @ map2 route_event routes answers"
    "(fst t')\<lparr>created_routes := []\<rparr> = (fst (note_route route created t))\<lparr>created_routes := []\<rparr>" by blast
  then show ?case
    using r by (intro exI [of _ "route # routes"] exI [of _ "created # answers"]) (simp add: note_route_def)
qed (auto simp: add_routes_Nil)

text \<open>The \<^verbatim>\<open>try\<close> block leaves a sound transaction, and commits it exactly when nothing throws.\<close>

definition committed :: "unit result \<times> transaction \<Rightarrow> bool" where
  "committed r \<longleftrightarrow> tx_sound (snd r) \<and> (tx_active (fst (snd r)) \<longleftrightarrow> fst r = Inr ())"

lemma committed_threw: "tx_sound t \<Longrightarrow> \<not> tx_active (fst t) \<Longrightarrow> committed (Inl e, (fst t, snd t @ [Setup_threw e']))"
  by (simp add: committed_def tx_sound_def)

lemma committed_call:
  assumes "tx_sound t" "\<not> tx_active (fst t)" "\<And>x. answer = Inr x \<Longrightarrow> committed (rest x t)"
  shows "committed (backend_call answer t rest)"
  using assms by (cases answer) (simp_all add: backend_call_def committed_threw)

lemma committed_routes:
  assumes "tx_sound t" "\<not> tx_active (fst t)"
  shows "committed (case add_routes mk6 backend a cidrs t of
       (Inl e, t) \<Rightarrow> (Inl e, t) | (Inr _, (s, log)) \<Rightarrow> (Inr (), (s\<lparr>tx_active := True\<rparr>, log)))"
proof -
  obtain r s log where r: "add_routes mk6 backend a cidrs t = (r, (s, log))" by (metis surj_pair)
  then have "tx_sound (s, log)" "\<not> tx_active s" using add_routes_sound [OF assms(1), of mk6 backend a cidrs] assms(2) by auto
  then show ?thesis
    by (cases r) (simp_all add: r committed_def, simp add: tx_sound_def tx_resources_def)
qed

lemma committed_ipv6:
  assumes "tx_sound t" "\<not> tx_active (fst t)" "\<not> ipv6_address_created (fst t)" "prior_mtu (fst t) = None"
    "created_routes (fst t) = []"
    and rest: "\<And>t. tx_sound t \<Longrightarrow> \<not> tx_active (fst t) \<Longrightarrow> prior_mtu (fst t) = None \<Longrightarrow>
      created_routes (fst t) = [] \<Longrightarrow> committed (rest t)"
  shows "committed (add_ipv6_address backend t rest)"
proof (cases "tx_ipv6_address (fst t)")
  case (Some address)
  have "committed (rest (s\<lparr>ipv6_address_created := created\<rparr>, log @ [Address6_added address created]))"
    if "t = (s, log)" for s log created
    using assms(1-5) Some that by (intro rest) (simp_all add: tx_sound_def tx_resources_def)
  then show ?thesis
    using Some assms(1,2) unfolding add_ipv6_address_def by (cases t) (auto intro: committed_call)
qed (use assms in \<open>simp add: add_ipv6_address_def\<close>)

lemma set_up_committed:
  assumes "tx_idle s" "held log = Some []"
  shows "committed (set_up mk6 backend a cidrs (s, log))"
  unfolding set_up_def Let_def
  using assms
  by (auto intro!: committed_call committed_ipv6 committed_routes simp: tx_sound_def tx_idle_def tx_resources_def
      split: option.split)

text \<open>The invariant between calls: idle with nothing held, or committed with what the object records held.\<close>

definition tx_inv :: "transaction \<Rightarrow> bool" where
  "tx_inv t \<longleftrightarrow> tx_sound t \<and> (tx_active (fst t) \<or> tx_idle (fst t))"

definition with_addresses :: "IpAssignment \<Rightarrow> ClientNetworkTransaction \<Rightarrow> ClientNetworkTransaction" where
  "with_addresses a s = s\<lparr>tx_address := \<lparr>ia_address = client_address a, ia_prefix_length = prefix_length a\<rparr>,
     tx_ipv6_address := (if ipv6_prefix_length a \<noteq> 0
       then Some \<lparr>ia6_address = client_ipv6_address a, ia6_prefix_length = ipv6_prefix_length a\<rparr> else None)\<rparr>"

lemma activate_cases:
  assumes "tx_inv t"
  shows "tx_active (fst t) \<and> activate mk6 backend a cidrs t =
      (Inl (Logic_error ''network transaction is already active''), t)
    \<or> \<not> tx_active (fst t) \<and> cidrs = [] \<and> activate mk6 backend a cidrs t =
      (Inl (Invalid_argument ''at least one tunnel route is required''), t)
    \<or> \<not> tx_active (fst t) \<and> cidrs \<noteq> [] \<and> (\<exists>r u. committed (r, u)
        \<and> set_up mk6 backend a cidrs (with_addresses a (fst t), snd t) = (r, u)
        \<and> activate mk6 backend a cidrs t = (r, if r = Inr () then u else rollback u))"
proof -
  obtain s log where t: "t = (s, log)" by (cases t)
  show ?thesis
  proof (cases "tx_active s \<or> cidrs = []")
    case True
    then show ?thesis using assms by (auto simp: t activate_def tx_inv_def tx_idle_def)
  next
    case False
    from False assms have idle: "tx_idle s" and h: "held log = Some []"
      by (auto simp: t tx_inv_def tx_sound_def tx_idle_resources)
    obtain r u where r: "set_up mk6 backend a cidrs (with_addresses a s, log) = (r, u)" by (metis surj_pair)
    have "committed (r, u)"
      using set_up_committed [of "with_addresses a s" log mk6 backend a cidrs] idle h
      unfolding r by (simp add: tx_idle_def with_addresses_def)
    moreover have "activate mk6 backend a cidrs t = (case set_up mk6 backend a cidrs (with_addresses a s, log) of
        (Inl e, t) \<Rightarrow> (Inl e, rollback t) | (Inr _, t) \<Rightarrow> (Inr (), t))"
      using idle False unfolding t activate_def Let_def with_addresses_def by (simp add: tx_idle_def)
    then have "activate mk6 backend a cidrs t = (r, if r = Inr () then u else rollback u)"
      unfolding r by (cases r) simp_all
    moreover have "\<not> tx_active (fst t)" "cidrs \<noteq> []" "fst t = s" "snd t = log" using False t by auto
    ultimately show ?thesis using r by blast
  qed
qed

text \<open>What a set-up that returns has asked of the backend.\<close>

lemma backend_call_InrD:
  assumes "backend_call answer t rest = (Inr (), t')"
  obtains x where "answer = Inr x" "rest x t = (Inr (), t')"
  using assms that by (auto simp: backend_call_def split: sum.splits)

lemma add_ipv6_address_InrD:
  assumes "add_ipv6_address backend (s, log) rest = (Inr (), t')"
  obtains created where "rest (case tx_ipv6_address s of None \<Rightarrow> (s, log)
      | Some a6 \<Rightarrow> (s\<lparr>ipv6_address_created := created\<rparr>, log @ [Address6_added a6 created])) = (Inr (), t')"
  using assms that by (auto simp: add_ipv6_address_def elim!: backend_call_InrD split: option.splits)

lemma set_up_done:
  assumes "set_up mk6 backend a cidrs (with_addresses a s, log) = (Inr (), t')"
  shows "\<exists>c4 c6 snapshot routes answers.
     map (route_of mk6 a) cidrs = map Inr routes \<and> length answers = length routes
     \<and> snd t' = log @ [Adapter_opened, Session_started,
          Address_added \<lparr>ia_address = client_address a, ia_prefix_length = prefix_length a\<rparr> c4]
        @ (if ipv6_prefix_length a = 0 then []
           else [Address6_added \<lparr>ia6_address = client_ipv6_address a, ia6_prefix_length = ipv6_prefix_length a\<rparr> c6])
        @ [Mtu_set (ucast (mtu a)) snapshot] @ map2 route_event routes answers"
proof -
  obtain c4 c6 snapshot u u' where
    u: "snd u = log @ [Adapter_opened, Session_started,
          Address_added \<lparr>ia_address = client_address a, ia_prefix_length = prefix_length a\<rparr> c4]
        @ (if ipv6_prefix_length a = 0 then []
           else [Address6_added \<lparr>ia6_address = client_ipv6_address a, ia6_prefix_length = ipv6_prefix_length a\<rparr> c6])
        @ [Mtu_set (ucast (mtu a)) snapshot]" and
    go: "add_routes mk6 backend a cidrs u = (Inr (), u')" and t': "snd t' = snd u'"
    using assms unfolding set_up_def Let_def
    by (auto simp: with_addresses_def elim!: backend_call_InrD add_ipv6_address_InrD
        split: sum.splits prod.splits if_splits)
  from add_routes_done [OF go] u t' show ?thesis by auto
qed

interpretation network: event_machine network_step tx_inv
proof unfold_locales
  fix t e assume inv: "tx_inv t"
  have rb: "tx_inv (rollback u)" if "tx_sound u" for u
    using rollback_sound [OF that] by (simp add: tx_inv_def tx_sound_def tx_idle_resources tx_idle_def)
  show "tx_inv (network_step e t)"
  proof (cases e)
    case (Nt_activate mk6 backend a cidrs)
    have "tx_inv (if r = Inr () then u else rollback u)" if "committed (r, u)" for r u
      using that rb by (auto simp: committed_def tx_inv_def)
    then show ?thesis using activate_cases [OF inv, of mk6 backend a cidrs] inv unfolding Nt_activate by auto
  next
    case Nt_rollback
    then show ?thesis using inv rb by (simp add: tx_inv_def)
  qed
qed

lemma tx_inv_new: "tx_inv (new_ClientNetworkTransaction, [])"
  by (simp add: tx_inv_def tx_sound_def new_ClientNetworkTransaction_def tx_resources_def tx_idle_def)

section \<open>Properties\<close>

text \<open>
  C21: the transaction never leaks and never releases out of order. Whatever the backend answers
  and whenever it throws, after any sequence of activations and roll-backs the resources that the
  backend's log leaves held are exactly those the object records; each release named the resource
  acquired last; an inactive transaction holds nothing; and a roll-back at this point releases
  everything.
\<close>

theorem network_resources_balanced:
  "(\<lambda>(s, log). held log = Some (tx_resources s) \<and> (tx_active s \<or> tx_resources s = [])
      \<and> held (snd (rollback (s, log))) = Some [] \<and> tx_resources (fst (rollback (s, log))) = [])
   (fold network_step events (new_ClientNetworkTransaction, []))"
proof -
  let ?t = "fold network_step events (new_ClientNetworkTransaction, [])"
  have inv: "tx_inv ?t" by (rule network.run_invar [OF tx_inv_new])
  then have "tx_sound ?t" by (simp add: tx_inv_def)
  from rollback_sound [OF this] inv this show ?thesis
    by (cases ?t) (auto simp: tx_inv_def tx_sound_def tx_idle_resources)
qed

text \<open>
  C22: activation is atomic. From any state the object can reach, an activation that throws leaves
  an active transaction untouched and an inactive one with nothing held; one that returns leaves
  it active, having opened the adapter and the session, added the assigned addresses, set the MTU
  and offered every route, parsed, in the order given.
\<close>

theorem activate_atomic:
  "let t = fold network_step events (new_ClientNetworkTransaction, [])
   in case activate mk6 backend a cidrs t of
      (Inl e, t') \<Rightarrow> if tx_active (fst t) then t' = t
        else \<not> tx_active (fst t') \<and> tx_resources (fst t') = [] \<and> held (snd t') = Some []
    | (Inr _, t') \<Rightarrow> \<not> tx_active (fst t) \<and> tx_active (fst t') \<and> held (snd t') = Some (tx_resources (fst t'))
        \<and> (\<exists>c4 c6 snapshot routes answers.
             map (route_of mk6 a) cidrs = map Inr routes \<and> length answers = length routes
             \<and> snd t' = snd t @ [Adapter_opened, Session_started,
                  Address_added \<lparr>ia_address = client_address a, ia_prefix_length = prefix_length a\<rparr> c4]
                @ (if ipv6_prefix_length a = 0 then []
                   else [Address6_added \<lparr>ia6_address = client_ipv6_address a,
                                         ia6_prefix_length = ipv6_prefix_length a\<rparr> c6])
                @ [Mtu_set (ucast (mtu a)) snapshot] @ map2 route_event routes answers)"
proof -
  define t where "t = fold network_step events (new_ClientNetworkTransaction, [])"
  have inv: "tx_inv t" unfolding t_def by (rule network.run_invar [OF tx_inv_new])
  show ?thesis
    unfolding Let_def t_def [symmetric]
    using activate_cases [OF inv, of mk6 backend a cidrs]
  proof (elim disjE conjE exE, goal_cases)
    case (3 r u)
    show ?case
    proof (cases r)
      case (Inl e)
      then have "tx_sound u" using 3 by (simp add: committed_def)
      from rollback_sound [OF this] 3 Inl show ?thesis by (simp add: tx_idle_resources) (simp add: tx_idle_def)
    next
      case (Inr x)
      with 3 have "set_up mk6 backend a cidrs (with_addresses a (fst t), snd t) = (Inr (), u)" by simp
      from set_up_done [OF this] 3 Inr show ?thesis by (simp add: committed_def tx_sound_def)
    qed
  qed (use inv in \<open>auto simp: tx_inv_def tx_sound_def tx_idle_resources\<close>)
qed

end
