(* ===== verification/Tun_Device.thy ===== *)
theory Tun_Device
  imports Outbound_Queue
begin

text \<open>
  The TUN device of the server, \<^verbatim>\<open>src/server/linux_tun_device.cpp\<close>. Its handlers run on one
  strand, so each is one step on the state. What a handler asks of its environment (an
  asynchronous read or write, a call of one of the two handlers, closing the descriptor) is the
  list of effects it returns; the completions of the asynchronous operations are events.
\<close>

section \<open>State\<close>

datatype error_code =
    Ec_invalid_argument
  | Ec_io_error
  | Ec_not_connected
  | Ec_message_size
  | Ec_no_buffer_space
  | Ec_other nat

datatype tun_effect =
    Tun_read
  | Tun_write bytes
  | Tun_deliver bytes
  | Tun_report error_code
  | Tun_close_descriptor
  | Tun_bad_function_call

record LinuxTunDevice =
  tun_name :: string
  tun_maximum_queued_packets :: nat
  tun_maximum_queued_bytes :: nat
  tun_packet_handler :: bool
  tun_error_handler :: bool
  write_queue :: "bytes list"
  tun_queued_bytes :: nat
  tun_write_in_progress :: bool
  tun_started :: bool
  tun_stopped :: bool

definition kMaximumPacketSize :: nat where
  "kMaximumPacketSize = 65535"

definition IFNAMSIZ :: nat where
  "IFNAMSIZ = 16"

definition new_LinuxTunDevice :: "string \<Rightarrow> nat \<Rightarrow> nat \<Rightarrow> LinuxTunDevice" where
  "new_LinuxTunDevice name max_packets max_bytes =
     \<lparr>tun_name = name, tun_maximum_queued_packets = max_packets, tun_maximum_queued_bytes = max_bytes,
      tun_packet_handler = False, tun_error_handler = False, write_queue = [], tun_queued_bytes = 0,
      tun_write_in_progress = False, tun_started = False, tun_stopped = False\<rparr>"

definition tun_adopt :: "int \<Rightarrow> string \<Rightarrow> nat \<Rightarrow> nat \<Rightarrow> LinuxTunDevice result" where
  "tun_adopt native_descriptor name max_packets max_bytes =
     (if native_descriptor < 0 then Inl (Invalid_argument ''TUN descriptor must be valid'')
      else if name = [] then Inl (Invalid_argument ''TUN interface name must not be empty'')
      else if max_packets = 0 \<or> max_bytes = 0 then
        Inl (Invalid_argument ''TUN write queue limits must be positive'')
      else Inr (new_LinuxTunDevice name max_packets max_bytes))"

text \<open>
  \<open>open_tun\<close> is what \<^verbatim>\<open>open("/dev/net/tun")\<close> returns, \<open>set_iff\<close> the name that \<^verbatim>\<open>ioctl(TUNSETIFF)\<close>
  leaves in the request, or \<open>None\<close> when it fails. The second component of the result tells whether
  the descriptor was closed again. \<^verbatim>\<open>std::system_error\<close> is a \<^verbatim>\<open>std::runtime_error\<close>; the text of the
  error number that it appends is left out.
\<close>

definition tun_open :: "int \<Rightarrow> (string \<Rightarrow> string option) \<Rightarrow> string \<Rightarrow> nat \<Rightarrow> nat \<Rightarrow> LinuxTunDevice result \<times> bool" where
  "tun_open open_tun set_iff requested_name max_packets max_bytes =
     (if length requested_name \<ge> IFNAMSIZ then
        (Inl (Invalid_argument ''TUN interface name is too long''), False)
      else if max_packets = 0 \<or> max_bytes = 0 then
        (Inl (Invalid_argument ''TUN write queue limits must be positive''), False)
      else if open_tun < 0 then (Inl (Runtime_error ''failed to open /dev/net/tun''), False)
      else
       (case set_iff requested_name of
          None \<Rightarrow> (Inl (Runtime_error ''failed to attach TUN interface''), True)
        | Some name \<Rightarrow> (tun_adopt open_tun name max_packets max_bytes, False)))"

section \<open>Handlers\<close>

type_synonym tun_action = "LinuxTunDevice \<Rightarrow> LinuxTunDevice \<times> tun_effect list"

definition tun_stop_on_strand :: tun_action where
  "tun_stop_on_strand d =
     (if tun_stopped d then (d, [])
      else (d\<lparr>tun_stopped := True, write_queue := [], tun_queued_bytes := 0, tun_packet_handler := False,
              tun_error_handler := False\<rparr>, [Tun_close_descriptor]))"

definition tun_fail :: "error_code \<Rightarrow> tun_action" where
  "tun_fail error d =
     (if tun_stopped d then (d, [])
      else
       (let handler = tun_error_handler d;
            d = d\<lparr>tun_error_handler := False\<rparr>;
            (d, effects) = tun_stop_on_strand d
        in (d, effects @ (if handler then [Tun_report error] else []))))"

definition tun_read_next :: tun_action where
  "tun_read_next d = (d, [Tun_read])"

definition tun_write_next :: tun_action where
  "tun_write_next d =
     (if tun_stopped d then (d\<lparr>tun_write_in_progress := False\<rparr>, [])
      else
       (case write_queue d of
          [] \<Rightarrow> (d\<lparr>tun_write_in_progress := False\<rparr>, [])
        | packet # _ \<Rightarrow> (d\<lparr>tun_write_in_progress := True\<rparr>, [Tun_write packet])))"

definition tun_start_on_strand :: tun_action where
  "tun_start_on_strand d =
     (if tun_stopped d then (d, [])
      else if tun_started d then tun_fail Ec_invalid_argument d
      else tun_read_next (d\<lparr>tun_started := True, tun_packet_handler := True, tun_error_handler := True\<rparr>))"

text \<open>\<open>start\<close> itself checks that both handlers are there.\<close>

definition tun_start :: "bool \<Rightarrow> bool \<Rightarrow> LinuxTunDevice \<Rightarrow> (LinuxTunDevice \<times> tun_effect list) result" where
  "tun_start has_packet_handler has_error_handler d =
     (if \<not> has_packet_handler \<or> \<not> has_error_handler then
        Inl (Invalid_argument ''TUN packet and error handlers must be configured'')
      else Inr (tun_start_on_strand d))"

text \<open>\<open>buffer\<close> holds the bytes that were transferred.\<close>

definition tun_handle_read :: "error_code option \<Rightarrow> bytes \<Rightarrow> tun_action" where
  "tun_handle_read error buffer d =
     (if tun_stopped d then (d, [])
      else
       (case error of
          Some e \<Rightarrow> tun_fail e d
        | None \<Rightarrow>
            if buffer = [] then tun_fail Ec_io_error d
            else if \<not> tun_packet_handler d then (d, [Tun_bad_function_call])
            else
             (let (d, effects) = tun_read_next d
              in (d, [Tun_deliver buffer] @ effects))))"

definition enqueue_write :: "bytes \<Rightarrow> tun_action" where
  "enqueue_write packet d =
     (if tun_stopped d then (d, [])
      else if \<not> tun_started d then tun_fail Ec_not_connected d
      else if packet = [] \<or> length packet > kMaximumPacketSize then tun_fail Ec_message_size d
      else if length (write_queue d) \<ge> tun_maximum_queued_packets d
              \<or> length packet > tun_maximum_queued_bytes d - tun_queued_bytes d then
        tun_fail Ec_no_buffer_space d
      else
       (let d = d\<lparr>tun_queued_bytes := tun_queued_bytes d + length packet,
                  write_queue := write_queue d @ [packet]\<rparr>
        in if \<not> tun_write_in_progress d then tun_write_next d else (d, [])))"

definition tun_handle_write :: "error_code option \<Rightarrow> nat \<Rightarrow> tun_action" where
  "tun_handle_write error bytes_transferred d =
     (if tun_stopped d then (d, [])
      else
       (case error of
          Some e \<Rightarrow> tun_fail e d
        | None \<Rightarrow>
           (case write_queue d of
              [] \<Rightarrow> tun_fail Ec_io_error d
            | front # rest \<Rightarrow>
                if bytes_transferred \<noteq> length front then tun_fail Ec_io_error d
                else tun_write_next (d\<lparr>tun_queued_bytes := tun_queued_bytes d - length front,
                                       write_queue := rest\<rparr>))))"

section \<open>The device and its asynchronous operations\<close>

text \<open>
  A completion happens only for an operation that was started and has not completed. The counters
  of outstanding operations and the log of effects are the environment's.
\<close>

datatype tun_event =
    Te_start
  | Te_write bytes
  | Te_read_done "error_code option" bytes
  | Te_write_done "error_code option" nat
  | Te_stop

record tun_world =
  tw_device :: LinuxTunDevice
  tw_reads :: nat
  tw_writes :: nat
  tw_log :: "tun_effect list"

fun is_write :: "tun_effect \<Rightarrow> bool" where
  "is_write (Tun_write _) = True"
| "is_write _ = False"

definition tun_apply :: "tun_action \<Rightarrow> tun_world \<Rightarrow> tun_world" where
  "tun_apply action w =
     (let (d, effects) = action (tw_device w)
      in w\<lparr>tw_device := d,
           tw_reads := tw_reads w + length (filter (\<lambda>e. e = Tun_read) effects),
           tw_writes := tw_writes w + length (filter is_write effects),
           tw_log := tw_log w @ effects\<rparr>)"

fun tun_step :: "tun_event \<Rightarrow> tun_world \<Rightarrow> tun_world" where
  "tun_step Te_start w = tun_apply tun_start_on_strand w"
| "tun_step (Te_write packet) w = tun_apply (enqueue_write packet) w"
| "tun_step (Te_read_done error buffer) w =
     (if tw_reads w = 0 then w else tun_apply (tun_handle_read error buffer) (w\<lparr>tw_reads := tw_reads w - 1\<rparr>))"
| "tun_step (Te_write_done error n) w =
     (if tw_writes w = 0 then w else tun_apply (tun_handle_write error n) (w\<lparr>tw_writes := tw_writes w - 1\<rparr>))"
| "tun_step Te_stop w = tun_apply tun_stop_on_strand w"

definition tun_initial :: "LinuxTunDevice \<Rightarrow> tun_world" where
  "tun_initial d = \<lparr>tw_device = d, tw_reads = 0, tw_writes = 0, tw_log = []\<rparr>"

section \<open>Invariant\<close>

definition tun_device_inv :: "LinuxTunDevice \<Rightarrow> bool" where
  "tun_device_inv d \<longleftrightarrow>
     tun_queued_bytes d = sum_list (map length (write_queue d))
     \<and> tun_queued_bytes d \<le> tun_maximum_queued_bytes d
     \<and> length (write_queue d) \<le> tun_maximum_queued_packets d
     \<and> (\<forall>p \<in> set (write_queue d). p \<noteq> [] \<and> length p \<le> kMaximumPacketSize)
     \<and> (tun_stopped d \<longrightarrow> write_queue d = [] \<and> \<not> tun_packet_handler d \<and> \<not> tun_error_handler d)
     \<and> (\<not> tun_stopped d \<longrightarrow> (tun_write_in_progress d \<longleftrightarrow> write_queue d \<noteq> [])
          \<and> tun_packet_handler d = tun_started d \<and> tun_error_handler d = tun_started d
          \<and> (\<not> tun_started d \<longrightarrow> write_queue d = []))"

text \<open>
  A running device has one read outstanding from its start on, and one write exactly while its
  queue is not empty; the log of a device has no report and no close before it stops, and ends
  with the close and at most one report once it has.
\<close>

fun final_effect :: "tun_effect \<Rightarrow> bool" where
  "final_effect (Tun_report _) = True"
| "final_effect Tun_close_descriptor = True"
| "final_effect Tun_bad_function_call = True"
| "final_effect _ = False"

definition tun_inv :: "tun_world \<Rightarrow> bool" where
  "tun_inv w \<longleftrightarrow> tun_device_inv (tw_device w)
     \<and> tw_reads w \<le> 1 \<and> tw_writes w \<le> 1
     \<and> (\<not> tun_stopped (tw_device w) \<longrightarrow>
          tw_reads w = (if tun_started (tw_device w) then 1 else 0)
          \<and> tw_writes w = (if write_queue (tw_device w) = [] then 0 else 1)
          \<and> filter final_effect (tw_log w) = [])
     \<and> (tun_stopped (tw_device w) \<longrightarrow>
          (\<exists>before after. tw_log w = before @ Tun_close_descriptor # after \<and> filter final_effect before = []
             \<and> (after = [] \<or> (\<exists>e. after = [Tun_report e]))))"

lemmas tun_handler_defs = tun_stop_on_strand_def tun_fail_def tun_read_next_def tun_write_next_def
  tun_start_on_strand_def tun_handle_read_def enqueue_write_def tun_handle_write_def

text \<open>Failing and stopping end a running device.\<close>

lemma tun_apply_stopped:
  "tun_stopped (tw_device w) \<Longrightarrow>
     tun_apply tun_stop_on_strand w = w \<and> tun_apply (tun_fail e) w = w \<and> tun_apply tun_start_on_strand w = w
     \<and> tun_apply (tun_handle_read er b) w = w \<and> tun_apply (enqueue_write p) w = w
     \<and> tun_apply (tun_handle_write er n) w = w"
  by (simp add: tun_apply_def tun_handler_defs)

lemma tun_stop_inv:
  assumes "\<not> tun_stopped (tw_device w)" "tw_reads w \<le> 1" "tw_writes w \<le> 1" "filter final_effect (tw_log w) = []"
  shows "tun_inv (tun_apply tun_stop_on_strand w)" "tun_inv (tun_apply (tun_fail e) w)"
  using assms by (auto simp: tun_apply_def tun_stop_on_strand_def tun_fail_def tun_inv_def tun_device_inv_def Let_def)

lemma tun_apply_cong: "f (tw_device w) = g (tw_device w) \<Longrightarrow> tun_apply f w = tun_apply g w"
  by (simp add: tun_apply_def)

lemma tun_fail_inv:
  assumes "f (tw_device w) = tun_fail e (tw_device w)" "\<not> tun_stopped (tw_device w)" "tw_reads w \<le> 1"
    "tw_writes w \<le> 1" "filter final_effect (tw_log w) = []"
  shows "tun_inv (tun_apply f w)"
  using tun_stop_inv(2) [OF assms(2-)] tun_apply_cong [of f w "tun_fail e"] assms(1) by simp

lemma tun_start_inv:
  assumes inv: "tun_inv w" and run: "\<not> tun_stopped (tw_device w)"
  shows "tun_inv (tun_apply tun_start_on_strand w)"
proof (cases "tun_started (tw_device w)")
  case True
  then show ?thesis using inv run
    by (intro tun_fail_inv [of _ _ Ec_invalid_argument]) (auto simp: tun_start_on_strand_def tun_inv_def)
next
  case False
  then show ?thesis using inv run
    by (auto simp: tun_apply_def tun_start_on_strand_def tun_read_next_def tun_inv_def tun_device_inv_def)
qed

lemma tun_enqueue_cases:
  assumes "\<not> tun_stopped d"
  obtains (fail) e where "enqueue_write p d = tun_fail e d"
  | (queued) "tun_started d" "p \<noteq> []" "length p \<le> kMaximumPacketSize"
      "length (write_queue d) < tun_maximum_queued_packets d"
      "length p \<le> tun_maximum_queued_bytes d - tun_queued_bytes d"
      "enqueue_write p d = (let d = d\<lparr>tun_queued_bytes := tun_queued_bytes d + length p,
           write_queue := write_queue d @ [p]\<rparr> in if \<not> tun_write_in_progress d then tun_write_next d else (d, []))"
proof -
  have "(\<exists>e. enqueue_write p d = tun_fail e d) \<or> (tun_started d \<and> p \<noteq> [] \<and> length p \<le> kMaximumPacketSize
      \<and> length (write_queue d) < tun_maximum_queued_packets d
      \<and> length p \<le> tun_maximum_queued_bytes d - tun_queued_bytes d)"
    using assms by (auto simp: enqueue_write_def not_le)
  then show thesis using fail queued assms by (auto simp: enqueue_write_def not_le)
qed

lemma tun_enqueue_inv:
  assumes inv: "tun_inv w" and run: "\<not> tun_stopped (tw_device w)"
  shows "tun_inv (tun_apply (enqueue_write p) w)"
  using run
proof (cases rule: tun_enqueue_cases [of "tw_device w" p])
  case (fail e)
  then show ?thesis using inv run by (intro tun_fail_inv) (auto simp: tun_inv_def)
next
  case queued
  then show ?thesis using inv run
    by (cases "write_queue (tw_device w)")
      (auto simp: tun_apply_def tun_write_next_def tun_inv_def tun_device_inv_def Let_def)
qed

lemma tun_read_done_inv:
  assumes inv: "tun_inv w" and run: "\<not> tun_stopped (tw_device w)" and "tw_reads w \<noteq> 0"
  shows "tun_inv (tun_apply (tun_handle_read error buffer) (w\<lparr>tw_reads := tw_reads w - 1\<rparr>))"
proof (cases "error = None \<and> buffer \<noteq> []")
  case True
  have "tun_started (tw_device w)" "tw_reads w = 1" using assms by (auto simp: tun_inv_def split: if_splits)
  then show ?thesis using True inv run
    by (auto simp: tun_apply_def tun_handle_read_def tun_read_next_def tun_inv_def tun_device_inv_def)
next
  case False
  then show ?thesis using inv run
    by (intro tun_fail_inv [of _ _ "case error of None \<Rightarrow> Ec_io_error | Some e \<Rightarrow> e"])
      (auto simp: tun_handle_read_def tun_inv_def split: option.splits)
qed

lemma tun_write_done_inv:
  assumes inv: "tun_inv w" and run: "\<not> tun_stopped (tw_device w)" and "tw_writes w \<noteq> 0"
  shows "tun_inv (tun_apply (tun_handle_write error n) (w\<lparr>tw_writes := tw_writes w - 1\<rparr>))"
proof -
  obtain front rest where q: "write_queue (tw_device w) = front # rest"
    using assms by (cases "write_queue (tw_device w)") (auto simp: tun_inv_def)
  show ?thesis
  proof (cases "error = None \<and> n = length front")
    case True
    then show ?thesis using inv run q
      by (cases rest) (auto simp: tun_apply_def tun_handle_write_def tun_write_next_def tun_inv_def tun_device_inv_def)
  next
    case False
    then show ?thesis using inv run q
      by (intro tun_fail_inv [of _ _ "case error of None \<Rightarrow> Ec_io_error | Some e \<Rightarrow> e"])
        (auto simp: tun_handle_write_def tun_inv_def split: option.splits)
  qed
qed

lemma tun_step_inv: "tun_inv w \<Longrightarrow> tun_inv (tun_step e w)"
proof (cases "tun_stopped (tw_device w)")
  case True
  assume "tun_inv w"
  then have "tun_inv (w\<lparr>tw_reads := tw_reads w - 1\<rparr>)" "tun_inv (w\<lparr>tw_writes := tw_writes w - 1\<rparr>)"
    using True by (auto simp: tun_inv_def)
  with \<open>tun_inv w\<close> True show ?thesis by (cases e) (simp_all add: tun_apply_stopped)
next
  case False
  assume inv: "tun_inv w"
  show ?thesis
  proof (cases e)
    case Te_stop
    have "tw_reads w \<le> 1" "tw_writes w \<le> 1" "filter final_effect (tw_log w) = []"
      using inv False by (auto simp: tun_inv_def)
    with Te_stop False show ?thesis by (simp add: tun_stop_inv)
  qed (use inv False in \<open>simp_all add: tun_start_inv tun_enqueue_inv tun_read_done_inv tun_write_done_inv
      del: One_nat_def\<close>)
qed

section \<open>The device as a channel\<close>

text \<open>Packets that are queued and not yet handed to the kernel; what an event accepts and hands on.\<close>

definition tun_waiting :: "tun_world \<Rightarrow> bytes list" where
  "tun_waiting w = tl (write_queue (tw_device w))"

fun tun_accepted :: "tun_event \<Rightarrow> tun_world \<Rightarrow> bytes list" where
  "tun_accepted (Te_write p) w =
     (if \<not> tun_stopped (tw_device w) \<and> \<not> tun_stopped (tw_device (tun_step (Te_write p) w)) then [p] else [])"
| "tun_accepted _ w = []"

fun written :: "tun_effect list \<Rightarrow> bytes list" where
  "written [] = []"
| "written (Tun_write p # es) = p # written es"
| "written (_ # es) = written es"

definition tun_removed :: "tun_event \<Rightarrow> tun_world \<Rightarrow> bytes list" where
  "tun_removed e w = written (drop (length (tw_log w)) (tw_log (tun_step e w)))"

lemma tun_log_apply: "tw_log (tun_apply f w) = tw_log w @ snd (f (tw_device w))"
  and tun_device_apply: "tw_device (tun_apply f w) = fst (f (tw_device w))"
  by (simp_all add: tun_apply_def split_beta)

lemma written_append [simp]: "written (es @ fs) = written es @ written fs"
  by (induction es rule: written.induct) simp_all

lemma written_final: "filter final_effect es = es \<Longrightarrow> written es = []"
  by (induction es rule: written.induct) (auto split: if_splits simp: filter_eq_Cons_iff)

lemma tun_fail_effects:
  "tun_stopped (fst (tun_fail e d))" "written (snd (tun_fail e d)) = []"
  "tun_stopped (fst (tun_stop_on_strand d))" "written (snd (tun_stop_on_strand d)) = []"
  "write_queue (fst (tun_fail e d)) = [] \<or> tun_stopped d" "write_queue (fst (tun_stop_on_strand d)) = [] \<or> tun_stopped d"
  by (auto simp: tun_fail_def tun_stop_on_strand_def Let_def)

text \<open>An event that does not stop the device loses nothing.\<close>

lemma tun_fifo_running:
  assumes inv: "tun_inv w" and go: "\<not> tun_stopped (tw_device (tun_step e w))"
  shows "tun_removed e w @ tun_waiting (tun_step e w) = tun_waiting w @ tun_accepted e w"
proof -
  let ?d = "tw_device w"
  have run: "\<not> tun_stopped ?d"
    using go by (cases e) (auto simp: tun_apply_stopped split: if_splits)
  have inv': "tun_device_inv ?d" using inv by (simp add: tun_inv_def)
  show ?thesis
  proof (cases e)
    case Te_start
    then show ?thesis using run go
      by (auto simp: tun_removed_def tun_waiting_def tun_log_apply tun_device_apply tun_start_on_strand_def
          tun_read_next_def tun_fail_effects)
  next
    case (Te_write p)
    from run show ?thesis
    proof (cases rule: tun_enqueue_cases [of ?d p])
      case (fail err)
      then show ?thesis using Te_write go by (simp add: tun_device_apply tun_fail_effects)
    next
      case queued
      then show ?thesis using Te_write run inv' go
        by (cases "write_queue ?d")
          (auto simp: tun_removed_def tun_waiting_def tun_log_apply tun_device_apply tun_write_next_def tun_device_inv_def Let_def)
    qed
  next
    case (Te_read_done err b)
    then show ?thesis using run go
      by (auto simp: tun_removed_def tun_waiting_def tun_log_apply tun_device_apply tun_handle_read_def
          tun_read_next_def tun_fail_effects split: option.splits if_splits)
  next
    case (Te_write_done err n)
    then show ?thesis using run go inv'
      by (cases "write_queue ?d"; cases "tl (write_queue ?d)")
        (auto simp: tun_removed_def tun_waiting_def tun_log_apply tun_device_apply tun_handle_write_def
          tun_write_next_def tun_fail_effects split: option.splits if_splits)
  next
    case Te_stop
    then show ?thesis using go by (simp add: tun_device_apply tun_fail_effects)
  qed
qed

lemma tun_fifo_stopping:
  assumes inv: "tun_inv w" and halt: "tun_stopped (tw_device (tun_step e w))"
  shows "tun_removed e w = [] \<and> tun_waiting (tun_step e w) = []"
proof -
  have "tun_inv (tun_step e w)" using inv by (rule tun_step_inv)
  with halt have "write_queue (tw_device (tun_step e w)) = []" by (simp add: tun_inv_def tun_device_inv_def)
  moreover have "tun_removed e w = []"
  proof (cases "tun_stopped (tw_device w)")
    case True
    then show ?thesis by (cases e) (simp_all add: tun_removed_def tun_apply_stopped)
  next
    case False
    with halt show ?thesis
      by (cases e)
        (auto simp: tun_removed_def tun_log_apply tun_device_apply tun_start_on_strand_def tun_read_next_def
          enqueue_write_def tun_handle_read_def tun_handle_write_def tun_write_next_def tun_fail_effects Let_def
          split: option.splits if_splits list.splits)
  qed
  ultimately show ?thesis by (simp add: tun_waiting_def)
qed

interpretation tun_channel: fifo_channel tun_step tun_inv tun_waiting tun_accepted tun_removed
  "\<lambda>e w. \<not> tun_stopped (tw_device (tun_step e w))"
proof
  fix w e assume inv: "tun_inv w"
  show "tun_inv (tun_step e w)" using inv by (rule tun_step_inv)
  show "subseq (tun_removed e w @ tun_waiting (tun_step e w)) (tun_waiting w @ tun_accepted e w)"
    using tun_fifo_running [OF inv, of e] tun_fifo_stopping [OF inv, of e] by (cases "tun_stopped (tw_device (tun_step e w))") simp_all
qed (simp add: tun_fifo_running)

section \<open>Properties\<close>

lemma tun_initial_inv: "tun_adopt fd name mp mb = Inr d \<Longrightarrow> tun_inv (tun_initial d)"
  by (auto simp: tun_adopt_def new_LinuxTunDevice_def tun_initial_def tun_inv_def tun_device_inv_def split: if_splits)

lemma tun_log_extends: "\<exists>es. tw_log (tun_step e w) = tw_log w @ es"
  by (cases e) (auto simp: tun_log_apply)

lemma tun_removed_log:
  "trace tun_step tun_removed es w = written (drop (length (tw_log w)) (tw_log (fold tun_step es w)))"
proof (induction es arbitrary: w)
  case (Cons e es)
  have ext: "\<exists>more. tw_log (fold tun_step es v) = tw_log v @ more" for v
    by (induction es arbitrary: v) (auto, metis append.assoc tun_log_extends)
  obtain new more where n: "tw_log (tun_step e w) = tw_log w @ new"
    and m: "tw_log (fold tun_step es (tun_step e w)) = (tw_log w @ new) @ more"
    using tun_log_extends [of e w] ext [of "tun_step e w"] by metis
  show ?case using Cons.IH [of "tun_step e w"] by (simp add: tun_removed_def n m)
qed simp

lemma tun_step_limits [simp]:
  "tun_maximum_queued_packets (tw_device (tun_step e w)) = tun_maximum_queued_packets (tw_device w)"
  "tun_maximum_queued_bytes (tw_device (tun_step e w)) = tun_maximum_queued_bytes (tw_device w)"
  by (cases e; simp add: tun_device_apply tun_handler_defs Let_def split: option.splits list.splits)+

lemma tun_run_limits:
  "tun_maximum_queued_packets (tw_device (fold tun_step es w)) = tun_maximum_queued_packets (tw_device w)"
  "tun_maximum_queued_bytes (tw_device (fold tun_step es w)) = tun_maximum_queued_bytes (tw_device w)"
  by (induction es arbitrary: w) simp_all

lemma tun_stopped_step: "tun_stopped (tw_device w) \<Longrightarrow> tun_stopped (tw_device (tun_step e w))"
  by (cases e) (simp_all add: tun_apply_stopped)

lemma tun_stopped_run: "tun_stopped (tw_device w) \<Longrightarrow> tun_stopped (tw_device (fold tun_step es w))"
  by (induction es arbitrary: w) (simp_all add: tun_stopped_step)


definition demo_tun :: LinuxTunDevice where
  "demo_tun = new_LinuxTunDevice ''tun0'' 2 64"

definition demo_tun_events :: "tun_event list" where
  "demo_tun_events = [Te_start, Te_write [1, 2], Te_write [3], Te_write_done None 2, Te_read_done None [9]]"

lemmas demo_tun_run = demo_tun_def demo_tun_events_def new_LinuxTunDevice_def tun_initial_def tun_apply_def
  tun_handler_defs kMaximumPacketSize_def


text \<open>
  A TUN device fails once. No handler is ever called that is not installed; the descriptor is
  closed at most once, the error handler is called at most once and only then, and nothing is
  delivered, read or written afterwards.
\<close>

theorem tun_device_fails_once:
  assumes "tun_adopt fd name max_packets max_bytes = Inr d" and "w = fold tun_step events (tun_initial d)"
  shows "Tun_bad_function_call \<notin> set (tw_log w)
    \<and> (if tun_stopped (tw_device w)
       then \<exists>before after. tw_log w = before @ Tun_close_descriptor # after \<and> filter final_effect before = []
              \<and> after \<in> {[]} \<union> {[Tun_report e] | e. True}
       else filter final_effect (tw_log w) = [])"
proof -
  have inv: "tun_inv w"
    unfolding assms(2) by (rule tun_channel.run_invar [OF tun_initial_inv [OF assms(1)]])
  have no_bad: "Tun_bad_function_call \<notin> set es" if "filter final_effect es = []" for es
    using that by (auto simp: filter_empty_conv)
  show ?thesis
  proof (cases "tun_stopped (tw_device w)")
    case True
    with inv obtain before after where "tw_log w = before @ Tun_close_descriptor # after"
      "filter final_effect before = []" "after = [] \<or> (\<exists>e. after = [Tun_report e])"
      unfolding tun_inv_def by blast
    with True no_bad [of before] show ?thesis by auto
  next
    case False
    with inv no_bad [of "tw_log w"] show ?thesis by (simp add: tun_inv_def)
  qed
qed

theorem tun_device_fails_once_witness:
  "\<exists>w. w = fold tun_step (demo_tun_events @ [Te_write []]) (tun_initial demo_tun) \<and> tun_stopped (tw_device w)
     \<and> (\<exists>before after. tw_log w = before @ Tun_close_descriptor # after \<and> filter final_effect before = []
              \<and> after \<in> {[]} \<union> {[Tun_report e] | e. True})"
proof -
  let ?w = "fold tun_step (demo_tun_events @ [Te_write []]) (tun_initial demo_tun)"
  have d: "tun_adopt 3 ''tun0'' 2 64 = Inr demo_tun" by (simp add: tun_adopt_def demo_tun_def)
  have "tun_stopped (tw_device ?w)" by (simp add: demo_tun_run)
  with tun_device_fails_once [OF d refl, of "demo_tun_events @ [Te_write []]"] show ?thesis by auto
qed

end
