(* ===== verification/Wire_Order.thy ===== *)
theory Wire_Order
  imports Outbound_Queue Frame_Sequence
begin

text \<open>
  What the two TLS endpoints share: the buffers they write are the encodings of numbered frames,
  and a numbered frame is queued whole or not at all.
\<close>

definition encodes :: "Frame list \<Rightarrow> bytes list \<Rightarrow> bool" where
  "encodes fs bs \<longleftrightarrow> map encode_frame fs = map Inr bs"

lemma encodes_simps [simp]:
  "encodes [] []" "length fs = length gs \<Longrightarrow> encodes (fs @ fs') (gs @ gs') \<longleftrightarrow> encodes fs gs \<and> encodes fs' gs'"
  "encodes [f] [b] \<longleftrightarrow> encode_frame f = Inr b"
  by (auto simp: encodes_def)

lemma encodes_length: "encodes fs bs \<Longrightarrow> length fs = length bs"
  by (metis encodes_def length_map)

lemma encodes_snoc: "encodes fs bs \<Longrightarrow> encode_frame f = Inr b \<Longrightarrow> encodes (fs @ [f]) (bs @ [b])"
  by (simp add: encodes_def)

lemma encodes_prefix: "encodes fs (bs @ bs') \<Longrightarrow> encodes (take (length bs) fs) bs"
  unfolding encodes_def by (drule arg_cong [of _ _ "take (length bs)"]) (simp add: take_map)

lemma numbered_take: "numbered n fs n' \<Longrightarrow> \<exists>n''. numbered n (take k fs) n''"
proof -
  assume "numbered n fs n'"
  then have "map frame_sequence (take k fs) = map (\<lambda>i. n + word_of_nat i) [0..<length (take k fs)]"
    "\<forall>f \<in> set (take k fs). frame_flags f = 0 \<and> length (frame_payload f) \<le> kMaxPayloadSize"
    unfolding numbered_def by (auto simp: take_map [symmetric] take_upt min_def dest: in_set_takeD)
      (simp add: take_map take_upt)
  then show ?thesis unfolding numbered_def by blast
qed

lemma numbered_mono_take: "numbered n (fs @ gs) n' \<Longrightarrow> \<exists>n''. numbered n fs n''"
  using numbered_take [of n "fs @ gs" n' "length fs"] by simp

lemma try_enqueue_numbered:
  assumes "encode_frame f = Inr b"
  shows "try_enqueue q f = (Inr False, q) \<or>
    (\<exists>q'. try_enqueue q f = (Inr True, q') \<and> frame_queue q' = frame_queue q @ [b])"
  using assms encode_frame_Inr_iff [of f b]
  by (auto simp: try_enqueue_def try_enqueue_encoded_def frame_header_def)

end
