(* ===== verification/Server_Metrics.thy ===== *)
theory Server_Metrics
  imports Prelude
begin

text \<open>
  The counters of the server, \<^verbatim>\<open>src/server/include/personal_vpn/server_metrics.hpp\<close>, and their two
  textual forms, \<^verbatim>\<open>src/server/metrics_exporter.cpp\<close>. A counter is an atomic 64-bit integer: it wraps
  around, and every increment is one step.
\<close>

section \<open>Counters\<close>

record ServerMetricsSnapshot =
  accepted_connections :: u64
  capacity_rejections :: u64
  handshake_failures :: u64
  handshake_timeouts :: u64
  idle_timeouts :: u64
  established_sessions :: u64
  closed_sessions :: u64
  queue_overflows :: u64
  uplink_packets :: u64
  uplink_bytes :: u64
  downlink_packets :: u64
  downlink_bytes :: u64

text \<open>
  The atomic counters themselves are such a record; \<open>snapshot\<close> loads them one after the other, which
  is one value here because a snapshot is taken between two steps.
\<close>

type_synonym ServerMetrics = ServerMetricsSnapshot

definition new_ServerMetrics :: ServerMetrics where
  "new_ServerMetrics =
     \<lparr>accepted_connections = 0, capacity_rejections = 0, handshake_failures = 0, handshake_timeouts = 0,
      idle_timeouts = 0, established_sessions = 0, closed_sessions = 0, queue_overflows = 0,
      uplink_packets = 0, uplink_bytes = 0, downlink_packets = 0, downlink_bytes = 0\<rparr>"

definition snapshot :: "ServerMetrics \<Rightarrow> ServerMetricsSnapshot" where
  "snapshot m =
     \<lparr>accepted_connections = accepted_connections m, capacity_rejections = capacity_rejections m,
      handshake_failures = handshake_failures m, handshake_timeouts = handshake_timeouts m,
      idle_timeouts = idle_timeouts m, established_sessions = established_sessions m,
      closed_sessions = closed_sessions m, queue_overflows = queue_overflows m,
      uplink_packets = uplink_packets m, uplink_bytes = uplink_bytes m,
      downlink_packets = downlink_packets m, downlink_bytes = downlink_bytes m\<rparr>"

section \<open>Text\<close>

text \<open>The double quote and the line feed.\<close>

definition quoted :: "string \<Rightarrow> string" where
  "quoted s = CHR 0x22 # s @ [CHR 0x22]"

definition new_line :: string where
  "new_line = [CHR 0x0A]"

definition json_field :: "string \<Rightarrow> u64 \<Rightarrow> string" where
  "json_field name value = '','' @ quoted name @ '':'' @ to_string (unat value)"

definition render_server_metrics_json :: "ServerMetricsSnapshot \<Rightarrow> u64 \<Rightarrow> string" where
  "render_server_metrics_json metrics active_sessions =
     ''{'' @ quoted ''event'' @ '':'' @ quoted ''server_metrics'' @ '','' @ quoted ''schema_version'' @ '':1''
     @ json_field ''accepted'' (accepted_connections metrics)
     @ json_field ''capacity_rejections'' (capacity_rejections metrics)
     @ json_field ''handshake_failures'' (handshake_failures metrics)
     @ json_field ''handshake_timeouts'' (handshake_timeouts metrics)
     @ json_field ''idle_timeouts'' (idle_timeouts metrics)
     @ json_field ''established'' (established_sessions metrics)
     @ json_field ''closed'' (closed_sessions metrics)
     @ json_field ''active'' active_sessions
     @ json_field ''queue_overflows'' (queue_overflows metrics)
     @ json_field ''uplink_packets'' (uplink_packets metrics)
     @ json_field ''uplink_bytes'' (uplink_bytes metrics)
     @ json_field ''downlink_packets'' (downlink_packets metrics)
     @ json_field ''downlink_bytes'' (downlink_bytes metrics) @ ''}'' @ new_line"

text \<open>The lambda expression \<^verbatim>\<open>counter\<close>.\<close>

definition prometheus_counter :: "string \<Rightarrow> u64 \<Rightarrow> string" where
  "prometheus_counter name value =
     ''# TYPE personal_vpn_'' @ name @ '' counter'' @ new_line
     @ ''personal_vpn_'' @ name @ ''_total '' @ to_string (unat value) @ new_line"

definition render_server_metrics_prometheus :: "ServerMetricsSnapshot \<Rightarrow> u64 \<Rightarrow> string" where
  "render_server_metrics_prometheus metrics active_sessions =
     ''# HELP personal_vpn_metrics_schema_info Metrics schema version.'' @ new_line
     @ ''# TYPE personal_vpn_metrics_schema_info gauge'' @ new_line
     @ ''personal_vpn_metrics_schema_info{version='' @ quoted ''1'' @ ''} 1'' @ new_line
     @ prometheus_counter ''accepted_connections'' (accepted_connections metrics)
     @ prometheus_counter ''capacity_rejections'' (capacity_rejections metrics)
     @ prometheus_counter ''handshake_failures'' (handshake_failures metrics)
     @ prometheus_counter ''handshake_timeouts'' (handshake_timeouts metrics)
     @ prometheus_counter ''idle_timeouts'' (idle_timeouts metrics)
     @ prometheus_counter ''established_sessions'' (established_sessions metrics)
     @ prometheus_counter ''closed_sessions'' (closed_sessions metrics)
     @ prometheus_counter ''queue_overflows'' (queue_overflows metrics)
     @ prometheus_counter ''uplink_packets'' (uplink_packets metrics)
     @ prometheus_counter ''uplink_bytes'' (uplink_bytes metrics)
     @ prometheus_counter ''downlink_packets'' (downlink_packets metrics)
     @ prometheus_counter ''downlink_bytes'' (downlink_bytes metrics)
     @ ''# TYPE personal_vpn_active_sessions gauge'' @ new_line
     @ ''personal_vpn_active_sessions '' @ to_string (unat active_sessions) @ new_line"

section \<open>Reading the text back\<close>

lemma printed_number_unique:
  assumes "to_string a @ x = to_string b @ y" "x = [] \<or> \<not> is_digit (hd x)" "y = [] \<or> \<not> is_digit (hd y)"
  shows "a = b \<and> x = y"
proof -
  have small: "n < 2 ^ (a + b)" if "n \<le> a + b" for n :: nat
    using that less_exp [of "a + b"] by (rule le_less_trans)
  have x: "from_chars (a + b) (to_string a @ x) = Fc_ok a x"
    by (rule from_chars_to_string [OF small assms(2)]) simp
  have y: "from_chars (a + b) (to_string b @ y) = Fc_ok b y"
    by (rule from_chars_to_string [OF small assms(3)]) simp
  have "Fc_ok a x = Fc_ok b y" unfolding x [symmetric] y [symmetric] assms(1) ..
  then show ?thesis by simp
qed

definition stops_number :: "string \<Rightarrow> bool" where
  "stops_number s \<longleftrightarrow> s = [] \<or> \<not> is_digit (hd s)"

lemma json_field_unique:
  assumes "json_field name a @ x = json_field name b @ y" "stops_number x" "stops_number y"
  shows "a = b \<and> x = y"
proof -
  have "to_string (unat a) @ x = to_string (unat b) @ y" using assms(1) by (simp add: json_field_def)
  from printed_number_unique [OF this] assms(2,3) show ?thesis by (simp add: stops_number_def word_unat_eq_iff)
qed

lemma prometheus_counter_unique:
  assumes "prometheus_counter name a @ x = prometheus_counter name b @ y"
  shows "a = b \<and> x = y"
proof -
  have "to_string (unat a) @ new_line @ x = to_string (unat b) @ new_line @ y"
    using assms by (simp add: prometheus_counter_def)
  from printed_number_unique [OF this] show ?thesis by (simp add: new_line_def is_digit_def word_unat_eq_iff)
qed

lemma stops_json [simp]: "stops_number (json_field name a @ x)" "stops_number (json_field name a)"
  "stops_number (''}'' @ new_line)"
  by (simp_all add: stops_number_def json_field_def is_digit_def)

lemma json_field_inject [simp]: "json_field name a = json_field name b \<longleftrightarrow> a = b"
  using json_field_unique [of name a "[]" b "[]"] by (auto simp: stops_number_def)

lemma printed_line_inject [simp]: "to_string (unat a) = to_string (unat b) \<longleftrightarrow> a = (b :: u64)"
  using printed_number_unique [of "unat a" "[]" "unat b" "[]"] by (auto simp: word_unat_eq_iff)

text \<open>
  Nothing is lost in the exported metrics. Two snapshots with the same text, in either format,
  are the same snapshot with the same number of active sessions.
\<close>

theorem metrics_text_injective:
  "(render_server_metrics_json m a = render_server_metrics_json m' a' \<longleftrightarrow> m = m' \<and> a = a')
   \<and> (render_server_metrics_prometheus m a = render_server_metrics_prometheus m' a' \<longleftrightarrow> m = m' \<and> a = a')"
proof (rule conjI; rule iffI)
  assume "render_server_metrics_json m a = render_server_metrics_json m' a'"
  then show "m = m' \<and> a = a'"
    unfolding render_server_metrics_json_def same_append_eq
    by (cases m; cases m') (auto dest!: json_field_unique simp: append_same_eq)
next
  assume "render_server_metrics_prometheus m a = render_server_metrics_prometheus m' a'"
  then show "m = m' \<and> a = a'"
    unfolding render_server_metrics_prometheus_def same_append_eq
    by (cases m; cases m') (auto dest!: prometheus_counter_unique)
qed simp_all

end
