(* ===== verification/Tls_Session.thy ===== *)
theory Tls_Session
  imports Session_Controller Wire_Order Server_Metrics
begin

text \<open>
  One TLS connection at the server, \<^verbatim>\<open>src/server/tls_tunnel_session.cpp\<close>: handshake, deadline,
  decoder, session controller, outbound queue and the single write in flight. All handlers run on
  the strand of the session, so each is one step on the state. What a handler asks of its
  environment goes to a log; the TLS stream, the timer and the peer certificate are the
  environment, whose answers are arguments of the handlers.
\<close>

section \<open>State\<close>

datatype ts_effect =
    Ts_handshake
  | Ts_arm_timer int
  | Ts_cancel_timer
  | Ts_read
  | Ts_write bytes
  | Ts_packet bytes
  | Ts_established Lease bool
  | Ts_close_socket
  | Ts_closed "Lease option"
  | Ts_uncaught cxx_exception

record TlsTunnelSession =
  ts_leases :: LeaseManager
  ts_packet_sink :: bool
  ts_close_handler :: bool
  ts_decoder :: FrameDecoder
  ts_queue :: OutboundFrameQueue
  ts_handshake_timeout :: int
  ts_idle_timeout :: int
  ts_metrics :: "ServerMetrics option"
  ts_controller :: "SessionController option"
  route_lease :: "Lease option"
  ts_write_in_progress :: bool
  close_after_write :: bool
  ts_stopped :: bool
  established_counted :: bool
  ts_log :: "ts_effect list"

definition new_TlsTunnelSession ::
  "LeaseManager \<Rightarrow> bool \<Rightarrow> bool \<Rightarrow> nat \<Rightarrow> nat \<Rightarrow> int \<Rightarrow> int \<Rightarrow> ServerMetrics option \<Rightarrow> TlsTunnelSession result" where
  "new_TlsTunnelSession leases sink close_handler max_frames max_bytes handshake_timeout idle_timeout metrics =
     and_then (new_OutboundFrameQueue max_frames max_bytes) (\<lambda>queue.
       if handshake_timeout \<le> 0 \<or> idle_timeout \<le> 0 then
         Inl (Invalid_argument ''TLS session timeouts must be positive'')
       else
         Inr \<lparr>ts_leases = leases, ts_packet_sink = sink, ts_close_handler = close_handler,
              ts_decoder = new_FrameDecoder, ts_queue = queue, ts_handshake_timeout = handshake_timeout,
              ts_idle_timeout = idle_timeout, ts_metrics = metrics, ts_controller = None, route_lease = None,
              ts_write_in_progress = False, close_after_write = False, ts_stopped = False,
              established_counted = False, ts_log = []\<rparr>)"

definition emit :: "ts_effect \<Rightarrow> TlsTunnelSession \<Rightarrow> TlsTunnelSession" where
  "emit e s = s\<lparr>ts_log := ts_log s @ [e]\<rparr>"

text \<open>\<^verbatim>\<open>if (metrics_) ...\<close>\<close>

definition count :: "(ServerMetrics \<Rightarrow> ServerMetrics) \<Rightarrow> TlsTunnelSession \<Rightarrow> TlsTunnelSession" where
  "count f s = s\<lparr>ts_metrics := map_option f (ts_metrics s)\<rparr>"

section \<open>Closing and writing\<close>

definition close_now :: "TlsTunnelSession \<Rightarrow> TlsTunnelSession" where
  "close_now s =
     (if ts_stopped s then s
      else
       (let s = emit Ts_cancel_timer (s\<lparr>ts_stopped := True\<rparr>);
            s = count (\<lambda>m. m\<lparr>closed_sessions := closed_sessions m + 1\<rparr>) s;
            s = (case ts_controller s of
                   None \<Rightarrow> s
                 | Some c \<Rightarrow>
                     (let (c, leases) = on_transport_closed (c, ts_leases s)
                      in s\<lparr>ts_controller := Some c, ts_leases := leases\<rparr>));
            s = s\<lparr>ts_queue := queue_clear (ts_queue s)\<rparr>;
            s = emit Ts_close_socket s
        in if ts_close_handler s then emit (Ts_closed (route_lease s)) (s\<lparr>ts_close_handler := False\<rparr>) else s))"

definition write_next :: "TlsTunnelSession \<Rightarrow> TlsTunnelSession" where
  "write_next s =
     (if ts_stopped s \<or> queue_empty (ts_queue s) then
       (let s = s\<lparr>ts_write_in_progress := False\<rparr>
        in if close_after_write s then close_now s else s)
      else
       (let s = s\<lparr>ts_write_in_progress := True\<rparr>
        in case queue_front (ts_queue s) of
             Inl e \<Rightarrow> emit (Ts_uncaught e) s
           | Inr buffer \<Rightarrow> emit (Ts_write buffer) s))"

definition enqueue_frame :: "Frame \<Rightarrow> TlsTunnelSession \<Rightarrow> bool result \<times> TlsTunnelSession" where
  "enqueue_frame frame s =
     (if ts_stopped s then (Inr False, s)
      else
       (case try_enqueue (ts_queue s) frame of
          (Inl e, queue) \<Rightarrow> (Inl e, s\<lparr>ts_queue := queue\<rparr>)
        | (Inr False, queue) \<Rightarrow> (Inr False, s\<lparr>ts_queue := queue\<rparr>)
        | (Inr True, queue) \<Rightarrow>
           (let s = s\<lparr>ts_queue := queue\<rparr>
            in (Inr True, if \<not> ts_write_in_progress s then write_next s else s))))"

definition ts_handle_write :: "nat option \<Rightarrow> TlsTunnelSession \<Rightarrow> TlsTunnelSession" where
  "ts_handle_write error s =
     (if ts_stopped s then s
      else if error \<noteq> None then close_now s
      else
       (case pop_front (ts_queue s) of
          (Inl e, queue) \<Rightarrow> emit (Ts_uncaught e) (s\<lparr>ts_queue := queue\<rparr>)
        | (Inr _, queue) \<Rightarrow> write_next (s\<lparr>ts_queue := queue\<rparr>)))"

section \<open>Timers\<close>

definition arm_idle_timeout :: "TlsTunnelSession \<Rightarrow> TlsTunnelSession" where
  "arm_idle_timeout s = emit (Ts_arm_timer (ts_idle_timeout s)) s"

text \<open>The two timer handlers; \<open>error\<close> is set when the wait was cancelled.\<close>

definition idle_deadline :: "nat option \<Rightarrow> TlsTunnelSession \<Rightarrow> TlsTunnelSession" where
  "idle_deadline error s =
     (if error = None \<and> \<not> ts_stopped s then
        close_now (count (\<lambda>m. m\<lparr>idle_timeouts := idle_timeouts m + 1\<rparr>) s)
      else s)"

definition handshake_deadline :: "nat option \<Rightarrow> TlsTunnelSession \<Rightarrow> TlsTunnelSession" where
  "handshake_deadline error s =
     (if error = None \<and> \<not> ts_stopped s \<and> ts_controller s = None then
        close_now (count (\<lambda>m. m\<lparr>handshake_timeouts := handshake_timeouts m + 1\<rparr>) s)
      else s)"

section \<open>Reading\<close>

definition ts_read_next :: "TlsTunnelSession \<Rightarrow> TlsTunnelSession" where
  "ts_read_next s = (if ts_stopped s then s else emit Ts_read s)"

definition ts_start_on_strand :: "TlsTunnelSession \<Rightarrow> TlsTunnelSession" where
  "ts_start_on_strand s =
     (if ts_stopped s \<or> ts_controller s \<noteq> None then s
      else emit Ts_handshake (emit (Ts_arm_timer (ts_handshake_timeout s)) s))"

text \<open>\<open>identity\<close> is what \<^verbatim>\<open>peer_certificate_sha256\<close> returns or throws.\<close>

definition handle_handshake :: "nat option \<Rightarrow> string result \<Rightarrow> TlsTunnelSession \<Rightarrow> TlsTunnelSession" where
  "handle_handshake error identity s =
     (if ts_stopped s then s
      else if error \<noteq> None then
        close_now (count (\<lambda>m. m\<lparr>handshake_failures := handshake_failures m + 1\<rparr>) s)
      else
       (case and_then identity new_SessionController of
          Inl e \<Rightarrow> close_now s
        | Inr controller \<Rightarrow>
            ts_read_next (arm_idle_timeout (emit Ts_cancel_timer (s\<lparr>ts_controller := Some controller\<rparr>)))))"

fun deliver_packets :: "bytes list \<Rightarrow> TlsTunnelSession \<Rightarrow> TlsTunnelSession" where
  "deliver_packets [] s = s"
| "deliver_packets (packet # packets) s =
     (let s = count (\<lambda>m. m\<lparr>uplink_packets := uplink_packets m + 1,
                           uplink_bytes := uplink_bytes m + word_of_nat (length packet)\<rparr>) s;
          s = (if ts_packet_sink s then emit (Ts_packet packet) s else s)
      in deliver_packets packets s)"

text \<open>The loop over the outbound frames; \<open>False\<close>: the queue overflowed and the session is closed.\<close>

fun enqueue_frames :: "Frame list \<Rightarrow> TlsTunnelSession \<Rightarrow> bool result \<times> TlsTunnelSession" where
  "enqueue_frames [] s = (Inr True, s)"
| "enqueue_frames (frame # frames) s =
     (case enqueue_frame frame s of
        (Inl e, s) \<Rightarrow> (Inl e, s)
      | (Inr False, s) \<Rightarrow>
          (Inr False, close_now (count (\<lambda>m. m\<lparr>queue_overflows := queue_overflows m + 1\<rparr>) s))
      | (Inr True, s) \<Rightarrow> enqueue_frames frames s)"

definition apply_result :: "SessionResult \<Rightarrow> TlsTunnelSession \<Rightarrow> unit result \<times> TlsTunnelSession" where
  "apply_result res s =
     (case enqueue_frames (outbound_frames res) (deliver_packets (packets_to_tun res) s) of
        (Inl e, s) \<Rightarrow> (Inl e, s)
      | (Inr False, s) \<Rightarrow> (Inr (), s)
      | (Inr True, s) \<Rightarrow>
          (Inr (),
           if close_transport res then
            (let s = s\<lparr>close_after_write := True\<rparr>
             in if \<not> ts_write_in_progress s \<and> queue_empty (ts_queue s) then close_now s else s)
           else s))"

text \<open>
  The registration after the controller has established the session; \<open>established_handler\<close> is
  \<open>None\<close> when none is installed. \<open>False\<close>: the handler refused and the session is closed.
\<close>

definition register_route :: "(Lease \<Rightarrow> bool) option \<Rightarrow> SessionController \<Rightarrow> TlsTunnelSession \<Rightarrow> bool \<times> TlsTunnelSession" where
  "register_route established_handler c s =
     (case sc_lease c of
        Some lease \<Rightarrow>
          if route_lease s = None \<and> sc_state c = Established then
           (let s = s\<lparr>route_lease := Some lease\<rparr>;
                accepted = (case established_handler of None \<Rightarrow> True | Some handler \<Rightarrow> handler lease);
                s = (if established_handler = None then s else emit (Ts_established lease accepted) s)
            in if \<not> accepted then (False, close_now s)
               else if \<not> established_counted s \<and> ts_metrics s \<noteq> None then
                 (True, (count (\<lambda>m. m\<lparr>established_sessions := established_sessions m + 1\<rparr>) s)
                          \<lparr>established_counted := True\<rparr>)
               else (True, s))
          else (True, s)
      | None \<Rightarrow> (True, s))"

text \<open>The loop over the decoded frames. A null controller is dereferenced.\<close>

fun handle_frames :: "(Lease \<Rightarrow> bool) option \<Rightarrow> int \<Rightarrow> Frame list \<Rightarrow> TlsTunnelSession
    \<Rightarrow> unit result \<times> TlsTunnelSession" where
  "handle_frames established_handler now [] s = (Inr (), s)"
| "handle_frames established_handler now (frame # frames) s =
     (let s = arm_idle_timeout s
      in case ts_controller s of
           None \<Rightarrow> (Inl Undefined_behaviour, s)
         | Some c \<Rightarrow>
            (case session_handle (c, ts_leases s) frame now of
               (Inl e, (c, leases)) \<Rightarrow> (Inl e, s\<lparr>ts_controller := Some c, ts_leases := leases\<rparr>)
             | (Inr res, (c, leases)) \<Rightarrow>
                (case register_route established_handler c (s\<lparr>ts_controller := Some c, ts_leases := leases\<rparr>) of
                   (False, s) \<Rightarrow> (Inr (), s)
                 | (True, s) \<Rightarrow>
                    (case apply_result res s of
                       (Inl e, s) \<Rightarrow> (Inl e, s)
                     | (Inr _, s) \<Rightarrow>
                         if ts_stopped s \<or> close_after_write s then (Inr (), s)
                         else handle_frames established_handler now frames s))))"

definition ts_handle_read :: "(Lease \<Rightarrow> bool) option \<Rightarrow> int \<Rightarrow> nat option \<Rightarrow> bytes \<Rightarrow> TlsTunnelSession \<Rightarrow> TlsTunnelSession" where
  "ts_handle_read established_handler now error buffer s =
     (if ts_stopped s then s
      else if error \<noteq> None then close_now s
      else
       (case push (ts_decoder s) buffer of
          (Inl e, decoder) \<Rightarrow> close_now (s\<lparr>ts_decoder := decoder\<rparr>)
        | (Inr frames, decoder) \<Rightarrow>
           (case handle_frames established_handler now frames (s\<lparr>ts_decoder := decoder\<rparr>) of
              (Inl e, s) \<Rightarrow> if e = Undefined_behaviour then emit (Ts_uncaught e) s else close_now s
            | (Inr _, s) \<Rightarrow>
                if \<not> ts_stopped s \<and> \<not> close_after_write s then ts_read_next s else s)))"

section \<open>Packets of the TUN device\<close>

definition send_ipv4_from_tun :: "bytes \<Rightarrow> int \<Rightarrow> TlsTunnelSession \<Rightarrow> TlsTunnelSession" where
  "send_ipv4_from_tun packet now s =
     (case ts_controller s of
        None \<Rightarrow> s
      | Some c \<Rightarrow>
          if ts_stopped s then s
          else
           (case make_data_to_client (c, ts_leases s) packet now of
              (frame, (c, leases)) \<Rightarrow>
               (let s = s\<lparr>ts_controller := Some c, ts_leases := leases\<rparr>
                in case frame of
                     None \<Rightarrow> if sc_state c \<noteq> Established then close_now s else s
                   | Some frame \<Rightarrow>
                      (case enqueue_frame frame s of
                         (Inl e, s) \<Rightarrow> emit (Ts_uncaught e) s
                       | (Inr False, s) \<Rightarrow>
                           close_now (count (\<lambda>m. m\<lparr>queue_overflows := queue_overflows m + 1\<rparr>) s)
                       | (Inr True, s) \<Rightarrow>
                           count (\<lambda>m. m\<lparr>downlink_packets := downlink_packets m + 1,
                                        downlink_bytes := downlink_bytes m + word_of_nat (length packet)\<rparr>) s))))"

definition send_ipv6_from_tun :: "bytes \<Rightarrow> int \<Rightarrow> TlsTunnelSession \<Rightarrow> TlsTunnelSession" where
  "send_ipv6_from_tun packet now s =
     (case ts_controller s of
        None \<Rightarrow> s
      | Some c \<Rightarrow>
          if ts_stopped s then s
          else
           (case make_data_to_client (c, ts_leases s) packet now of
              (frame, (c, leases)) \<Rightarrow>
               (let s = s\<lparr>ts_controller := Some c, ts_leases := leases\<rparr>
                in case frame of
                     None \<Rightarrow> if sc_state c \<noteq> Established then close_now s else s
                   | Some frame \<Rightarrow>
                      (case enqueue_frame frame s of
                         (Inl e, s) \<Rightarrow> emit (Ts_uncaught e) s
                       | (Inr False, s) \<Rightarrow> close_now s
                       | (Inr True, s) \<Rightarrow> s))))"

section \<open>Invariant\<close>

text \<open>The buffers handed to the TLS stream, and the effects that only the end of a session has.\<close>

fun wire_writes :: "ts_effect list \<Rightarrow> bytes list" where
  "wire_writes [] = []"
| "wire_writes (Ts_write b # es) = b # wire_writes es"
| "wire_writes (_ # es) = wire_writes es"

lemma wire_writes_append [simp]: "wire_writes (es @ fs) = wire_writes es @ wire_writes fs"
  by (induction es rule: wire_writes.induct) simp_all

fun ts_final :: "ts_effect \<Rightarrow> bool" where
  "ts_final Ts_close_socket = True"
| "ts_final (Ts_closed _) = True"
| "ts_final (Ts_uncaught _) = True"
| "ts_final _ = False"

fun registered :: "ts_effect list \<Rightarrow> Lease list" where
  "registered [] = []"
| "registered (Ts_established l b # es) = l # registered es"
| "registered (_ # es) = registered es"

lemma registered_append [simp]: "registered (es @ fs) = registered es @ registered fs"
  by (induction es rule: registered.induct) simp_all

text \<open>
  \<open>due\<close> are the frames that the controller has numbered and that are not yet queued. While
  the session runs, \<open>n\<close> of its writes have completed and at most one has not; the buffers written and those waiting behind the one in flight are the
  encodings of the frames it numbered from 1 on, in order; once it has stopped, those written are.
\<close>

definition ts_wire :: "nat \<Rightarrow> Frame list \<Rightarrow> TlsTunnelSession \<Rightarrow> bool" where
  "ts_wire n due s \<longleftrightarrow>
     (if ts_stopped s then frame_queue (ts_queue s) = []
        \<and> (\<exists>fs k. encodes fs (wire_writes (ts_log s)) \<and> numbered 1 fs k)
      else (ts_write_in_progress s \<longleftrightarrow> frame_queue (ts_queue s) \<noteq> [])
        \<and> length (wire_writes (ts_log s)) = n + (if frame_queue (ts_queue s) = [] then 0 else 1)
        \<and> (case ts_controller s of
             None \<Rightarrow> wire_writes (ts_log s) = [] \<and> frame_queue (ts_queue s) = [] \<and> due = []
           | Some c \<Rightarrow> \<exists>fs. encodes fs (wire_writes (ts_log s) @ tl (frame_queue (ts_queue s)))
                \<and> numbered 1 (fs @ due) (next_outbound_sequence c)))"

text \<open>\<open>h\<close>: a close handler was installed.\<close>

definition ts_base :: "bool \<Rightarrow> TlsTunnelSession \<Rightarrow> bool" where
  "ts_base h s \<longleftrightarrow> lm_inv (ts_leases s) \<and> queue_inv (ts_queue s)
     \<and> (\<forall>c. ts_controller s = Some c \<longrightarrow> sess_inv (c, ts_leases s))
     \<and> (registered (ts_log s) = [] \<or> (\<exists>l. route_lease s = Some l \<and> registered (ts_log s) = [l]))
     \<and> (if ts_stopped s
        then (\<exists>before. ts_log s = before @ [Ts_cancel_timer, Ts_close_socket]
                 @ (if h then [Ts_closed (route_lease s)] else []) \<and> filter ts_final before = [])
             \<and> (\<forall>c. ts_controller s = Some c \<longrightarrow> sc_lease c = None)
        else filter ts_final (ts_log s) = [] \<and> ts_close_handler s = h)"

definition ts_ok :: "bool \<Rightarrow> nat \<Rightarrow> Frame list \<Rightarrow> TlsTunnelSession \<Rightarrow> bool" where
  "ts_ok h n due s \<longleftrightarrow> ts_base h s \<and> ts_wire n due s"

lemma count_fields [simp]:
  "ts_leases (count f s) = ts_leases s" "ts_close_handler (count f s) = ts_close_handler s"
  "ts_queue (count f s) = ts_queue s" "ts_controller (count f s) = ts_controller s"
  "route_lease (count f s) = route_lease s" "ts_write_in_progress (count f s) = ts_write_in_progress s"
  "close_after_write (count f s) = close_after_write s" "ts_stopped (count f s) = ts_stopped s"
  "ts_log (count f s) = ts_log s" "ts_packet_sink (count f s) = ts_packet_sink s"
  by (simp_all add: count_def)

lemma emit_fields [simp]:
  "ts_leases (emit e s) = ts_leases s" "ts_close_handler (emit e s) = ts_close_handler s"
  "ts_queue (emit e s) = ts_queue s" "ts_controller (emit e s) = ts_controller s"
  "route_lease (emit e s) = route_lease s" "ts_write_in_progress (emit e s) = ts_write_in_progress s"
  "close_after_write (emit e s) = close_after_write s" "ts_stopped (emit e s) = ts_stopped s"
  "ts_log (emit e s) = ts_log s @ [e]" "ts_packet_sink (emit e s) = ts_packet_sink s"
  by (simp_all add: emit_def)

lemma count_ok [simp]: "ts_ok h n due (count f s) = ts_ok h n due s"
  by (simp add: ts_ok_def ts_base_def ts_wire_def cong: option.case_cong)

lemma counted_ok [simp]: "ts_ok h n due (s\<lparr>established_counted := b\<rparr>) = ts_ok h n due s"
  "ts_ok h n due (s\<lparr>ts_decoder := d\<rparr>) = ts_ok h n due s" "ts_ok h n due (s\<lparr>close_after_write := b\<rparr>) = ts_ok h n due s"
  by (simp_all add: ts_ok_def ts_base_def ts_wire_def cong: option.case_cong)

text \<open>An effect that is neither a write, a registration nor final.\<close>

definition plain :: "ts_effect \<Rightarrow> bool" where
  "plain e \<longleftrightarrow> \<not> ts_final e \<and> wire_writes [e] = [] \<and> registered [e] = []"

lemma plain_simps [simp]:
  "plain Ts_handshake" "plain (Ts_arm_timer n)" "plain Ts_cancel_timer" "plain Ts_read" "plain (Ts_packet p)"
  by (simp_all add: plain_def)

lemma emit_ok: "plain e \<Longrightarrow> \<not> ts_stopped s \<Longrightarrow> ts_ok h n due (emit e s) = ts_ok h n due s"
  by (simp add: plain_def ts_ok_def ts_base_def ts_wire_def cong: option.case_cong)

lemma stopped_ok: "ts_stopped s \<Longrightarrow> ts_ok h n due s \<Longrightarrow> ts_ok h n' due' s"
  by (simp add: ts_ok_def ts_wire_def)

text \<open>Closing always leaves a session that is in order.\<close>

lemma on_transport_closed_inv:
  assumes "sess_inv (c, m)"
  shows "sess_inv (on_transport_closed (c, m))" "lm_inv (snd (on_transport_closed (c, m)))"
    "sc_lease (fst (on_transport_closed (c, m))) = None"
proof -
  show i: "sess_inv (on_transport_closed (c, m))"
    using session_step_facts [OF assms, of Se_transport_closed] by simp
  then show "lm_inv (snd (on_transport_closed (c, m)))"
    by (cases "on_transport_closed (c, m)") (simp add: sess_inv_def sess_base_def)
  show "sc_lease (fst (on_transport_closed (c, m))) = None" by (simp add: on_transport_closed_def)
qed

lemma close_now_stopped [simp]: "ts_stopped (close_now s)"
  by (simp add: close_now_def Let_def split: option.split prod.split)

lemma close_now_ok:
  assumes ok: "ts_ok h n due s"
  shows "ts_ok h n' due' (close_now s)"
proof (cases "ts_stopped s")
  case True
  then show ?thesis using stopped_ok [OF _ ok] by (simp add: close_now_def)
next
  case False
  obtain before where b: "ts_log s = before" "filter ts_final before = []" "ts_close_handler s = h"
    using ok False by (simp add: ts_ok_def ts_base_def)
  have sent: "\<exists>fs n. encodes fs (wire_writes before) \<and> numbered 1 fs n"
  proof (cases "ts_controller s")
    case None
    then show ?thesis using ok False b(1) by (auto simp: ts_ok_def ts_wire_def intro: exI [of _ "[]"])
  next
    case (Some c)
    then obtain fs where "encodes fs (wire_writes before @ tl (frame_queue (ts_queue s)))"
      "numbered 1 (fs @ due) (next_outbound_sequence c)"
      using ok False b(1) by (auto simp: ts_ok_def ts_wire_def)
    then show ?thesis using encodes_prefix numbered_mono_take numbered_take by blast
  qed
  have ctl: "\<forall>c. ts_controller s = Some c \<longrightarrow> sess_inv (c, ts_leases s)" and lm: "lm_inv (ts_leases s)"
    and reg: "registered before = [] \<or> (\<exists>l. route_lease s = Some l \<and> registered before = [l])"
    using ok b(1) by (auto simp: ts_ok_def ts_base_def)
  let ?s = "close_now s"
  have log: "ts_log ?s = before @ [Ts_cancel_timer, Ts_close_socket] @ (if h then [Ts_closed (route_lease s)] else [])"
    and q: "ts_queue ?s = queue_clear (ts_queue s)" and rl: "route_lease ?s = route_lease s"
    using False b by (simp_all add: close_now_def Let_def split: option.split prod.split)
  have c': "ts_controller ?s = None \<and> ts_leases ?s = ts_leases s \<and> ts_controller s = None
      \<or> (\<exists>c. ts_controller s = Some c \<and> ts_controller ?s = Some (fst (on_transport_closed (c, ts_leases s)))
         \<and> ts_leases ?s = snd (on_transport_closed (c, ts_leases s)))"
    using False by (cases "ts_controller s") (simp_all add: close_now_def Let_def split_beta)
  then have "(\<forall>c. ts_controller ?s = Some c \<longrightarrow> sess_inv (c, ts_leases ?s) \<and> sc_lease c = None) \<and> lm_inv (ts_leases ?s)"
    using ctl lm on_transport_closed_inv [of _ "ts_leases s"] by (auto simp del: split_paired_Ex)
  then have "ts_base h ?s" using log q rl reg b(2) by (simp add: ts_base_def)
  moreover have "ts_wire n' due' ?s" using sent log q by (simp add: ts_wire_def queue_clear_def)
  ultimately show ?thesis by (simp add: ts_ok_def)
qed

lemma close_now_controller [simp]:
  "(\<exists>c. ts_controller (close_now s) = Some c) \<longleftrightarrow> (\<exists>c. ts_controller s = Some c)"
  by (auto simp: close_now_def Let_def split: option.split prod.split)

section \<open>Writing keeps the order\<close>

text \<open>
  Between taking a buffer out of the queue, or putting the first one in, and the next write: no
  write is in flight, so all of the queue is still to be written.
\<close>

lemma write_next_ok:
  assumes base: "ts_base h s" and run: "\<not> ts_stopped s" and c: "ts_controller s = Some c"
    and fs: "encodes fs (wire_writes (ts_log s) @ frame_queue (ts_queue s))"
    and num: "numbered 1 (fs @ due) (next_outbound_sequence c)" and len: "length (wire_writes (ts_log s)) = n"
  shows "ts_ok h n due (write_next s)" "ts_controller (write_next s) \<noteq> None"
    "frame_queue (ts_queue s) \<noteq> [] \<Longrightarrow> \<not> ts_stopped (write_next s) \<and> ts_controller (write_next s) = Some c"
proof -
  have ok: "ts_ok h n due (s\<lparr>ts_write_in_progress := False\<rparr>)" if "frame_queue (ts_queue s) = []"
    using that assms by (auto simp: ts_ok_def ts_base_def ts_wire_def)
  show "ts_ok h n due (write_next s)"
  proof (cases "frame_queue (ts_queue s)")
    case Nil
    then show ?thesis using ok close_now_ok [OF ok, of n due] run
      by (simp add: write_next_def queue_empty_def Let_def)
  next
    case (Cons b rest)
    then show ?thesis using assms
      by (auto simp: write_next_def queue_empty_def queue_front_def ts_ok_def ts_base_def ts_wire_def)
  qed
  show "ts_controller (write_next s) \<noteq> None"
    using c run by (simp add: write_next_def queue_front_def Let_def split: sum.split)
  show "\<not> ts_stopped (write_next s) \<and> ts_controller (write_next s) = Some c" if "frame_queue (ts_queue s) \<noteq> []"
    using that c run by (simp add: write_next_def queue_empty_def queue_front_def Let_def split: sum.split)
qed

lemma queue_running:
  assumes "ts_ok h n due s" "\<not> ts_stopped s" "ts_controller s = Some c"
  obtains fs where "encodes fs (wire_writes (ts_log s) @ tl (frame_queue (ts_queue s)))"
    "numbered 1 (fs @ due) (next_outbound_sequence c)" "ts_write_in_progress s \<longleftrightarrow> frame_queue (ts_queue s) \<noteq> []"
    "length (wire_writes (ts_log s)) = n + (if frame_queue (ts_queue s) = [] then 0 else 1)"
    "ts_base h s" "queue_inv (ts_queue s)"
  using assms by (auto simp: ts_ok_def ts_wire_def ts_base_def)

lemma enqueue_frame_ok:
  assumes ok: "ts_ok h n (f # due) s" and run: "\<not> ts_stopped s" and c: "ts_controller s = Some c"
  shows "enqueue_frame f s = (Inr False, s) \<or>
    (\<exists>s'. enqueue_frame f s = (Inr True, s') \<and> ts_ok h n due s' \<and> \<not> ts_stopped s' \<and> ts_controller s' = Some c)"
proof -
  obtain fs where fs: "encodes fs (wire_writes (ts_log s) @ tl (frame_queue (ts_queue s)))"
    "numbered 1 (fs @ f # due) (next_outbound_sequence c)" and wip: "ts_write_in_progress s \<longleftrightarrow> frame_queue (ts_queue s) \<noteq> []"
    and len: "length (wire_writes (ts_log s)) = n + (if frame_queue (ts_queue s) = [] then 0 else 1)"
    and base: "ts_base h s" and qi: "queue_inv (ts_queue s)" by (rule queue_running [OF ok run c])
  obtain b where b: "encode_frame f = Inr b" using numbered_encodable [OF fs(2), of f] by auto
  have num: "numbered 1 ((fs @ [f]) @ due) (next_outbound_sequence c)" using fs(2) by simp
  from try_enqueue_numbered [OF b, of "ts_queue s"] show ?thesis
  proof
    assume "try_enqueue (ts_queue s) f = (Inr False, ts_queue s)"
    then show ?thesis using run by (simp add: enqueue_frame_def)
  next
    assume "\<exists>q'. try_enqueue (ts_queue s) f = (Inr True, q') \<and> frame_queue q' = frame_queue (ts_queue s) @ [b]"
    then obtain q' where q': "try_enqueue (ts_queue s) f = (Inr True, q')" "frame_queue q' = frame_queue (ts_queue s) @ [b]"
      by blast
    let ?s = "s\<lparr>ts_queue := q'\<rparr>"
    have base': "ts_base h ?s" using base run queue_inv_enqueue [OF qi, of f] q'(1) by (simp add: ts_base_def)
    have enc: "encodes (fs @ [f]) ((wire_writes (ts_log s) @ tl (frame_queue (ts_queue s))) @ [b])"
      by (rule encodes_snoc [OF fs(1) b])
    show ?thesis
    proof (cases "frame_queue (ts_queue s)")
      case Nil
      then have "encodes (fs @ [f]) (wire_writes (ts_log ?s) @ frame_queue (ts_queue ?s))" using enc q'(2) by simp
      from write_next_ok [OF base' _ _ this, of c due n] Nil wip num run c q' len show ?thesis
        by (auto simp: enqueue_frame_def)
    next
      case (Cons a rest)
      then have "ts_ok h n due ?s" using base' enc q'(2) num wip run c len
        by (auto simp: ts_ok_def ts_wire_def)
      then show ?thesis using Cons wip run c q' by (auto simp: enqueue_frame_def)
    qed
  qed
qed

lemma enqueue_frames_ok:
  "ts_ok h n fs s \<Longrightarrow> \<not> ts_stopped s \<Longrightarrow> ts_controller s = Some c \<Longrightarrow>
     \<exists>b s'. enqueue_frames fs s = (Inr b, s') \<and> ts_ok h n [] s' \<and> ts_controller s' \<noteq> None
       \<and> (b \<longrightarrow> \<not> ts_stopped s')"
proof (induction fs arbitrary: s)
  case (Cons f fs)
  from enqueue_frame_ok [OF Cons.prems] show ?case
  proof (elim disjE exE conjE)
    assume "enqueue_frame f s = (Inr False, s)"
    moreover have "ts_ok h n [] (close_now (count g s))" "ts_controller (close_now (count g s)) \<noteq> None" for g
      using close_now_ok [of h n "f # fs" "count g s" n "[]"] Cons.prems by simp_all
    ultimately show ?thesis by (intro exI [of _ False]) simp
  next
    fix s' assume s': "enqueue_frame f s = (Inr True, s')" "ts_ok h n fs s'" "\<not> ts_stopped s'" "ts_controller s' = Some c"
    with Cons.IH [OF s'(2-4)] show ?thesis by auto
  qed
qed auto

section \<open>Reading keeps the order\<close>

lemma deliver_packets_ok:
  "ts_ok h n due s \<Longrightarrow> \<not> ts_stopped s \<Longrightarrow>
     ts_ok h n due (deliver_packets ps s) \<and> \<not> ts_stopped (deliver_packets ps s)
     \<and> ts_controller (deliver_packets ps s) = ts_controller s"
  by (induction ps arbitrary: s) (simp_all add: emit_ok Let_def)

lemma apply_result_ok:
  assumes ok: "ts_ok h n (outbound_frames r) s" and run: "\<not> ts_stopped s" and c: "ts_controller s = Some c"
  shows "\<exists>s'. apply_result r s = (Inr (), s') \<and> ts_ok h n [] s' \<and> ts_controller s' \<noteq> None"
proof -
  let ?d = "deliver_packets (packets_to_tun r) s"
  have "ts_ok h n (outbound_frames r) ?d" "\<not> ts_stopped ?d" "ts_controller ?d = Some c"
    using deliver_packets_ok [OF ok run] c by simp_all
  from enqueue_frames_ok [OF this] obtain b s' where
    s': "enqueue_frames (outbound_frames r) ?d = (Inr b, s')" "ts_ok h n [] s'" "ts_controller s' \<noteq> None" by blast
  then have "ts_ok h n [] (close_now (s'\<lparr>close_after_write := True\<rparr>))" by (intro close_now_ok [of h n "[]"]) simp
  with s' show ?thesis by (cases b) (simp_all add: apply_result_def Let_def)
qed

lemma register_route_ok:
  assumes ok: "ts_ok h n due s" and run: "\<not> ts_stopped s" and c: "ts_controller s = Some c"
  shows "case register_route est c s of
      (True, s') \<Rightarrow> ts_ok h n due s' \<and> \<not> ts_stopped s' \<and> ts_controller s' = Some c
    | (False, s') \<Rightarrow> ts_ok h n [] s' \<and> ts_controller s' \<noteq> None"
proof (cases "sc_lease c")
  case None
  then show ?thesis using assms by (simp add: register_route_def)
next
  case (Some lease)
  show ?thesis
  proof (cases "route_lease s = None \<and> sc_state c = Established")
    case True
    have reg: "registered (ts_log s) = []" using ok True by (auto simp: ts_ok_def ts_base_def)
    let ?s = "s\<lparr>route_lease := Some lease\<rparr>"
    have s: "ts_ok h n due ?s" "ts_ok h n due (emit (Ts_established lease b) ?s)" for b
      using ok run reg by (simp_all add: ts_ok_def ts_base_def ts_wire_def cong: option.case_cong)
    then have "ts_ok h n [] (close_now (emit (Ts_established lease b) ?s))" "ts_ok h n [] (close_now ?s)" for b
      using close_now_ok by blast+
    with s True Some run c show ?thesis
      by (cases est) (simp_all add: register_route_def Let_def)
  next
    case False
    with Some assms show ?thesis by (auto simp: register_route_def)
  qed
qed

lemma handled_ok:
  assumes ok: "ts_ok h n [] s" and run: "\<not> ts_stopped s" and c: "ts_controller s = Some c"
  shows "\<exists>r c' m'. session_handle (c, ts_leases s) frame now = (Inr r, (c', m'))
    \<and> ts_ok h n (outbound_frames r) (s\<lparr>ts_controller := Some c', ts_leases := m'\<rparr>)"
proof -
  have inv: "sess_inv (c, ts_leases s)" using ok c by (simp add: ts_ok_def ts_base_def)
  then obtain r c' m' where h: "session_handle (c, ts_leases s) frame now = (Inr r, (c', m'))"
    using session_handle_outcome [OF inv, of frame now] by (metis surj_pair)
  have f: "sess_inv (c', m')" "numbered (next_outbound_sequence c) (outbound_frames r) (next_outbound_sequence c')"
    using session_step_facts [OF inv, of "Se_frame frame now"] h by simp_all
  obtain fs where fs: "encodes fs (wire_writes (ts_log s) @ tl (frame_queue (ts_queue s)))"
    "numbered 1 (fs @ []) (next_outbound_sequence c)" and "ts_write_in_progress s \<longleftrightarrow> frame_queue (ts_queue s) \<noteq> []"
    and "length (wire_writes (ts_log s)) = n + (if frame_queue (ts_queue s) = [] then 0 else 1)"
    and base: "ts_base h s" by (rule queue_running [OF ok run c])
  moreover have "numbered 1 (fs @ outbound_frames r) (next_outbound_sequence c')"
    using numbered_append [OF _ f(2)] fs(2) by simp
  moreover have "lm_inv m'" using f(1) by (simp add: sess_inv_def sess_base_def)
  ultimately have "ts_ok h n (outbound_frames r) (s\<lparr>ts_controller := Some c', ts_leases := m'\<rparr>)"
    using run f(1) by (auto simp: ts_ok_def ts_base_def ts_wire_def)
  with h show ?thesis by blast
qed

lemma handle_frames_ok:
  "ts_ok h n [] s \<Longrightarrow> \<not> ts_stopped s \<Longrightarrow> ts_controller s \<noteq> None \<Longrightarrow>
     \<exists>s'. handle_frames est now fs s = (Inr (), s') \<and> ts_ok h n [] s' \<and> ts_controller s' \<noteq> None"
proof (induction fs arbitrary: s)
  case (Cons f fs)
  then obtain c where c: "ts_controller s = Some c" by blast
  let ?a = "arm_idle_timeout s"
  have a: "ts_ok h n [] ?a" "\<not> ts_stopped ?a" "ts_controller ?a = Some c" "ts_leases ?a = ts_leases s"
    using Cons.prems c by (simp_all add: arm_idle_timeout_def emit_ok)
  obtain r c' m' where h: "session_handle (c, ts_leases ?a) f now = (Inr r, (c', m'))"
    and s1: "ts_ok h n (outbound_frames r) (?a\<lparr>ts_controller := Some c', ts_leases := m'\<rparr>)"
    using handled_ok [OF a(1-3), of f now] by blast
  obtain b s2 where s2: "register_route est c' (?a\<lparr>ts_controller := Some c', ts_leases := m'\<rparr>) = (b, s2)" by fastforce
  note R = register_route_ok [OF s1, of c' est]
  show ?case
  proof (cases b)
    case False
    then show ?thesis using R a s2 h by (simp add: Let_def)
  next
    case True
    then obtain s3 where s3: "apply_result r s2 = (Inr (), s3)" "ts_ok h n [] s3" "ts_controller s3 \<noteq> None"
      using R a s2 apply_result_ok [of h n r s2 c'] by auto
    with Cons.IH [OF s3(2)] show ?thesis using True a s2 h by (auto simp: Let_def)
  qed
qed auto

section \<open>A session and its asynchronous operations\<close>

text \<open>
  What can happen to a session: \<open>start\<close>, which the server calls once; the completion of the
  handshake, of a read and of a write, each only for an operation that was started and has not
  completed; the two deadlines; packets of the TUN device; \<open>stop\<close>; and calls of other sessions on
  the shared lease manager.
\<close>

datatype ts_event =
    Tv_start
  | Tv_handshake "nat option" "string result"
  | Tv_handshake_deadline "nat option"
  | Tv_idle_deadline "nat option"
  | Tv_read "(Lease \<Rightarrow> bool) option" int "nat option" bytes
  | Tv_write_done "nat option"
  | Tv_send_ipv4 bytes int
  | Tv_send_ipv6 bytes int
  | Tv_stop
  | Tv_other lease_event

record ts_world =
  tv_session :: TlsTunnelSession
  tv_started :: bool
  tv_handshaken :: bool
  tv_reads_done :: nat
  tv_writes_done :: nat

fun is_read :: "ts_effect \<Rightarrow> bool" where
  "is_read Ts_read = True"
| "is_read _ = False"

definition tv_apply :: "(TlsTunnelSession \<Rightarrow> TlsTunnelSession) \<Rightarrow> ts_world \<Rightarrow> ts_world" where
  "tv_apply f w = w\<lparr>tv_session := f (tv_session w)\<rparr>"

fun tv_step :: "ts_event \<Rightarrow> ts_world \<Rightarrow> ts_world" where
  "tv_step Tv_start w =
     (if tv_started w then w else tv_apply ts_start_on_strand (w\<lparr>tv_started := True\<rparr>))"
| "tv_step (Tv_handshake error identity) w =
     (if \<not> tv_started w \<or> tv_handshaken w then w
      else tv_apply (handle_handshake error identity) (w\<lparr>tv_handshaken := True\<rparr>))"
| "tv_step (Tv_handshake_deadline error) w = tv_apply (handshake_deadline error) w"
| "tv_step (Tv_idle_deadline error) w = tv_apply (idle_deadline error) w"
| "tv_step (Tv_read est now error buffer) w =
     (if length (filter is_read (ts_log (tv_session w))) \<le> tv_reads_done w then w
      else tv_apply (ts_handle_read est now error buffer) (w\<lparr>tv_reads_done := tv_reads_done w + 1\<rparr>))"
| "tv_step (Tv_write_done error) w =
     (if length (wire_writes (ts_log (tv_session w))) \<le> tv_writes_done w then w
      else tv_apply (ts_handle_write error) (w\<lparr>tv_writes_done := tv_writes_done w + 1\<rparr>))"
| "tv_step (Tv_send_ipv4 packet now) w = tv_apply (send_ipv4_from_tun packet now) w"
| "tv_step (Tv_send_ipv6 packet now) w = tv_apply (send_ipv6_from_tun packet now) w"
| "tv_step Tv_stop w = tv_apply close_now w"
| "tv_step (Tv_other e) w = tv_apply (\<lambda>s. s\<lparr>ts_leases := lease_step e (ts_leases s)\<rparr>) w"

definition tv_initial :: "TlsTunnelSession \<Rightarrow> ts_world" where
  "tv_initial s = \<lparr>tv_session = s, tv_started = False, tv_handshaken = False, tv_reads_done = 0, tv_writes_done = 0\<rparr>"

definition tv_inv :: "bool \<Rightarrow> ts_world \<Rightarrow> bool" where
  "tv_inv h w \<longleftrightarrow> ts_ok h (tv_writes_done w) [] (tv_session w)
     \<and> (ts_controller (tv_session w) = None \<longrightarrow> filter is_read (ts_log (tv_session w)) = [])
     \<and> (ts_controller (tv_session w) \<noteq> None \<longrightarrow> tv_handshaken w)"

lemma close_now_reads: "filter is_read (ts_log (close_now s)) = filter is_read (ts_log s)"
  by (simp add: close_now_def Let_def split: option.split prod.split)

lemma close_now_none: "ts_controller (close_now s) = None \<longleftrightarrow> ts_controller s = None"
  using close_now_controller [of s] by (cases "ts_controller s"; cases "ts_controller (close_now s)") auto

lemma tv_inv_close:
  assumes "ts_ok h n due s" "ts_controller s = None \<longrightarrow> filter is_read (ts_log s) = []"
    "ts_controller s \<noteq> None \<longrightarrow> tv_handshaken w"
  shows "tv_inv h (w\<lparr>tv_session := close_now s\<rparr>)"
  using assms close_now_ok [OF assms(1)] by (simp add: tv_inv_def close_now_none close_now_reads del: not_None_eq)

lemma ts_handle_read_ok:
  assumes "ts_ok h n [] s" "ts_controller s \<noteq> None"
  shows "ts_ok h n [] (ts_handle_read est now error buffer s) \<and> ts_controller (ts_handle_read est now error buffer s) \<noteq> None"
proof (cases "ts_stopped s \<or> error \<noteq> None")
  case True
  then show ?thesis using assms close_now_ok [OF assms(1), of n "[]"] by (auto simp: ts_handle_read_def close_now_none)
next
  case False
  obtain res d where p: "push (ts_decoder s) buffer = (res, d)" by fastforce
  have ok: "ts_ok h n [] (s\<lparr>ts_decoder := d\<rparr>)" using assms by simp
  show ?thesis
  proof (cases res)
    case (Inl e)
    then show ?thesis using False p close_now_ok [OF ok, of n "[]"] assms(2)
      by (simp add: ts_handle_read_def close_now_none)
  next
    case (Inr fs)
    obtain s' where s': "handle_frames est now fs (s\<lparr>ts_decoder := d\<rparr>) = (Inr (), s')" "ts_ok h n [] s'"
      "ts_controller s' \<noteq> None" using handle_frames_ok [OF ok, of est now fs] False assms(2) by auto
    then show ?thesis using False p Inr by (simp add: ts_handle_read_def ts_read_next_def emit_ok)
  qed
qed

lemma ts_handle_write_ok:
  assumes ok: "ts_ok h n [] s" and c: "ts_controller s \<noteq> None" and out: "n < length (wire_writes (ts_log s))"
  shows "ts_ok h (Suc n) [] (ts_handle_write error s) \<and> ts_controller (ts_handle_write error s) \<noteq> None"
proof (cases "ts_stopped s \<or> error \<noteq> None")
  case True
  have "ts_ok h (Suc n) [] s" if "ts_stopped s" using ok that by (simp add: ts_ok_def ts_wire_def)
  then show ?thesis using True c close_now_ok [OF ok, of "Suc n" "[]"] by (auto simp: ts_handle_write_def close_now_none)
next
  case False
  obtain ctl where ctl: "ts_controller s = Some ctl" using c by blast
  obtain fs where fs: "encodes fs (wire_writes (ts_log s) @ tl (frame_queue (ts_queue s)))"
    "numbered 1 (fs @ []) (next_outbound_sequence ctl)"
    and len: "length (wire_writes (ts_log s)) = n + (if frame_queue (ts_queue s) = [] then 0 else 1)"
    and base: "ts_base h s" and qi: "queue_inv (ts_queue s)" using queue_running [OF ok _ ctl] False by blast
  obtain b rest where q: "frame_queue (ts_queue s) = b # rest" using out len by (cases "frame_queue (ts_queue s)") auto
  let ?s = "s\<lparr>ts_queue := snd (pop_front (ts_queue s))\<rparr>"
  have q': "frame_queue (snd (pop_front (ts_queue s))) = rest" "fst (pop_front (ts_queue s)) = Inr ()"
    using q by (simp_all add: pop_front_def)
  have "ts_base h ?s" using base queue_inv_pop [OF qi] False by (simp add: ts_base_def)
  from write_next_ok [OF this _ _ _ fs(2), of "Suc n"] fs(1) q q' len False ctl
  have "ts_ok h (Suc n) [] (write_next ?s)" "ts_controller (write_next ?s) \<noteq> None" by simp_all
  then show ?thesis using False q' by (cases "pop_front (ts_queue s)") (simp add: ts_handle_write_def)
qed

lemma send_from_tun_ok:
  assumes ok: "ts_ok h n [] s"
  shows "ts_ok h n [] (send_ipv4_from_tun packet now s) \<and> ts_ok h n [] (send_ipv6_from_tun packet now s)
    \<and> (ts_controller (send_ipv4_from_tun packet now s) = None \<longleftrightarrow> ts_controller s = None)
    \<and> (ts_controller (send_ipv6_from_tun packet now s) = None \<longleftrightarrow> ts_controller s = None)"
proof (cases "ts_controller s")
  case None
  then show ?thesis using ok by (simp add: send_ipv4_from_tun_def send_ipv6_from_tun_def)
next
  case (Some c)
  show ?thesis
  proof (cases "ts_stopped s")
    case True
    then show ?thesis using ok Some by (simp add: send_ipv4_from_tun_def send_ipv6_from_tun_def)
  next
    case False
    obtain f c' m' where f: "make_data_to_client (c, ts_leases s) packet now = (f, (c', m'))" by (metis surj_pair)
    have inv: "sess_inv (c, ts_leases s)" using ok Some by (simp add: ts_ok_def ts_base_def)
    from make_data_inv [OF inv f] have i': "sess_inv (c', m')"
      and num: "numbered (next_outbound_sequence c) (frame_list f) (next_outbound_sequence c')" by simp_all
    let ?s = "s\<lparr>ts_controller := Some c', ts_leases := m'\<rparr>"
    have lm: "lm_inv m'" using i' by (simp add: sess_inv_def sess_base_def)
    have ok': "ts_ok h n (frame_list f) ?s"
    proof -
      obtain fs where fs: "encodes fs (wire_writes (ts_log s) @ tl (frame_queue (ts_queue s)))"
        "numbered 1 (fs @ []) (next_outbound_sequence c)" using queue_running [OF ok False Some] by blast
      then have "numbered 1 (fs @ frame_list f) (next_outbound_sequence c')" using numbered_append [OF _ num] by simp
      with ok fs(1) i' lm Some False show ?thesis by (auto simp: ts_ok_def ts_base_def ts_wire_def)
    qed
    show ?thesis
    proof (cases f)
      case None
      then show ?thesis using ok' close_now_ok [OF ok', of n "[]"] f False Some
        by (simp add: send_ipv4_from_tun_def send_ipv6_from_tun_def frame_list_def close_now_none Let_def)
    next
      case frame: (Some frame)
      have "ts_ok h n [] (close_now (count g ?s))" "ts_ok h n [] (close_now ?s)" for g
        using close_now_ok [OF ok', of n "[]"] close_now_ok [of h n "frame_list f" "count g ?s" n "[]"] ok' by simp_all
      with enqueue_frame_ok [of h n frame "[]" ?s c'] ok' frame f False Some show ?thesis
        by (auto simp: send_ipv4_from_tun_def send_ipv6_from_tun_def frame_list_def close_now_none)
    qed
  qed
qed

lemma handshake_ok:
  assumes ok: "ts_ok h n [] s" and none: "ts_controller s = None" and nr: "filter is_read (ts_log s) = []"
    and hs: "tv_handshaken w" and n: "tv_writes_done w = n"
  shows "tv_inv h (w\<lparr>tv_session := handle_handshake error identity s\<rparr>)"
proof (cases "ts_stopped s")
  case True
  then show ?thesis using assms by (simp add: handle_handshake_def tv_inv_def)
next
  case run: False
  have closed: "tv_inv h (w\<lparr>tv_session := close_now (count f s)\<rparr>)" "tv_inv h (w\<lparr>tv_session := close_now s\<rparr>)" for f
    using tv_inv_close [of h n "[]" "count f s" w] tv_inv_close [of h n "[]" s w] assms by simp_all
  show ?thesis
  proof (cases "error = None")
    case False
    then show ?thesis using run closed by (simp add: handle_handshake_def)
  next
    case True
    show ?thesis
    proof (cases "and_then identity new_SessionController")
      case (Inl e)
      then show ?thesis using run True closed by (simp add: handle_handshake_def)
    next
      case (Inr c)
      then obtain i where i: "new_SessionController i = Inr c" by (auto simp: and_then_Inr_iff)
      have "lm_inv (ts_leases s)" using ok by (simp add: ts_ok_def ts_base_def)
      then have "sess_inv (c, ts_leases s)" "next_outbound_sequence c = 1"
        using sess_inv_new [OF i] i by (auto simp: new_SessionController_def split: if_splits)
      then have "ts_ok h n [] (s\<lparr>ts_controller := Some c\<rparr>)"
        using ok none run by (auto simp: ts_ok_def ts_base_def ts_wire_def intro: exI [of _ "[]"])
      then show ?thesis using run True Inr hs n nr
        by (simp add: handle_handshake_def ts_read_next_def arm_idle_timeout_def emit_ok tv_inv_def)
    qed
  qed
qed

lemma other_ok: "ts_ok h n due s \<Longrightarrow> ts_ok h n due (s\<lparr>ts_leases := lease_step e (ts_leases s)\<rparr>)"
proof -
  assume ok: "ts_ok h n due s"
  have "sess_inv (c, lease_step e (ts_leases s))" if "sess_inv (c, ts_leases s)" for c
    using session_step_facts [OF that, of "Se_other e"] by simp
  moreover have "ts_wire n due (s\<lparr>ts_leases := lease_step e (ts_leases s)\<rparr>) = ts_wire n due s"
    by (simp add: ts_wire_def cong: option.case_cong)
  moreover have "lm_inv (lease_step e (ts_leases s))" using ok by (simp add: ts_ok_def ts_base_def lease_step_inv)
  ultimately show ?thesis
    using ok unfolding ts_ok_def ts_base_def by (cases h; cases "ts_stopped s") simp_all
qed

lemma write_done_ok:
  assumes inv: "tv_inv h w" and out: "tv_writes_done w < length (wire_writes (ts_log (tv_session w)))"
  shows "tv_inv h (tv_apply (ts_handle_write error) (w\<lparr>tv_writes_done := tv_writes_done w + 1\<rparr>))"
proof (cases "ts_stopped (tv_session w)")
  case True
  then show ?thesis using inv by (simp add: tv_inv_def tv_apply_def ts_handle_write_def ts_ok_def ts_wire_def)
next
  case False
  have ok: "ts_ok h (tv_writes_done w) [] (tv_session w)" using inv by (simp add: tv_inv_def)
  then have c: "ts_controller (tv_session w) \<noteq> None"
    using False out by (cases "ts_controller (tv_session w)") (simp_all add: ts_ok_def ts_wire_def)
  from ts_handle_write_ok [OF ok c out, of error] c inv show ?thesis by (auto simp: tv_inv_def tv_apply_def)
qed

lemma tv_step_inv:
  assumes inv: "tv_inv h w"
  shows "tv_inv h (tv_step e w)"
proof -
  let ?s = "tv_session w"
  have ok: "ts_ok h (tv_writes_done w) [] ?s" and nr: "ts_controller ?s = None \<longrightarrow> filter is_read (ts_log ?s) = []"
    and hs: "ts_controller ?s \<noteq> None \<longrightarrow> tv_handshaken w" using inv by (auto simp: tv_inv_def)
  have closed: "tv_inv h (w\<lparr>tv_session := close_now (count f ?s)\<rparr>)" "tv_inv h (w\<lparr>tv_session := close_now ?s\<rparr>)" for f
    using tv_inv_close [of h "tv_writes_done w" "[]" "count f ?s" w] tv_inv_close [OF ok nr hs] ok nr hs by simp_all
  have self: "w\<lparr>tv_session := ?s\<rparr> = w" by simp
  show ?thesis
  proof (cases e)
    case Tv_start
    then show ?thesis using inv by (auto simp: tv_apply_def ts_start_on_strand_def tv_inv_def emit_ok)
  next
    case (Tv_handshake error identity)
    then show ?thesis using handshake_ok [OF ok, of "w\<lparr>tv_handshaken := True\<rparr>" error identity] inv hs nr
      by (auto simp: tv_apply_def)
  next
    case (Tv_handshake_deadline error)
    then show ?thesis using closed inv self by (simp add: tv_apply_def handshake_deadline_def)
  next
    case (Tv_idle_deadline error)
    then show ?thesis using closed inv self by (simp add: tv_apply_def idle_deadline_def)
  next
    case (Tv_read est now error buffer)
    have "ts_controller ?s \<noteq> None" if "\<not> length (filter is_read (ts_log ?s)) \<le> tv_reads_done w"
      using that nr by auto
    then show ?thesis using ts_handle_read_ok [OF ok, of est now error buffer] Tv_read inv hs
      by (auto simp: tv_apply_def tv_inv_def)
  next
    case (Tv_write_done error)
    then show ?thesis using write_done_ok [OF inv, of error] inv by (simp add: not_le)
  next
    case (Tv_send_ipv4 packet now)
    have "send_ipv4_from_tun packet now ?s = ?s" if "ts_controller ?s = None"
      using that by (simp add: send_ipv4_from_tun_def)
    then show ?thesis using send_from_tun_ok [OF ok, of packet now] Tv_send_ipv4 nr hs
      by (auto simp: tv_apply_def tv_inv_def)
  next
    case (Tv_send_ipv6 packet now)
    have "send_ipv6_from_tun packet now ?s = ?s" if "ts_controller ?s = None"
      using that by (simp add: send_ipv6_from_tun_def)
    then show ?thesis using send_from_tun_ok [OF ok, of packet now] Tv_send_ipv6 nr hs
      by (auto simp: tv_apply_def tv_inv_def)
  next
    case Tv_stop
    then show ?thesis using closed by (simp add: tv_apply_def)
  next
    case (Tv_other le)
    then show ?thesis using other_ok [OF ok, of le] nr hs by (simp add: tv_apply_def tv_inv_def)
  qed
qed

interpretation tls_session: event_machine tv_step "tv_inv h"
  by unfold_locales (rule tv_step_inv)

lemma tv_inv_initial:
  assumes "new_TlsTunnelSession leases sink h mf mb ht it metrics = Inr s" "lm_inv leases"
  shows "tv_inv h (tv_initial s)"
proof -
  obtain q where q: "new_OutboundFrameQueue mf mb = Inr q" and s: "ts_queue s = q" "ts_leases s = leases"
    "ts_close_handler s = h" "ts_controller s = None" "ts_log s = []" "\<not> ts_stopped s" "\<not> ts_write_in_progress s"
    using assms(1) by (auto simp: new_TlsTunnelSession_def and_then_Inr_iff split: if_splits)
  have "frame_queue q = []" using q by (auto simp: new_OutboundFrameQueue_def split: if_splits)
  then show ?thesis using s assms(2) queue_inv_new [OF q] by (simp add: tv_inv_def tv_initial_def ts_ok_def ts_base_def ts_wire_def)
qed

section \<open>Properties\<close>

text \<open>
  C24: what a session writes. After any interleaving of its client, the TUN device, the timers,
  the transport and the other sessions, the buffers a TLS session has handed to the stream are the
  encodings of frames numbered 1, 2, 3, \<dots> in this order, at most one of them still in flight
  while the session runs; its queue respects its limits; and no exception leaves a handler and no
  null controller is used.
\<close>

theorem tls_session_wire_order:
  assumes "new_TlsTunnelSession leases sink handler max_frames max_bytes ht it metrics = Inr s" and "lm_inv leases"
    and "w = fold tv_step events (tv_initial s)"
  shows "(\<exists>fs. map encode_frame fs = map Inr (wire_writes (ts_log (tv_session w)))
       \<and> map frame_sequence fs = map (\<lambda>i. 1 + word_of_nat i) [0..<length fs])
    \<and> (ts_stopped (tv_session w) \<or> length (wire_writes (ts_log (tv_session w))) \<le> tv_writes_done w + 1)
    \<and> queue_inv (ts_queue (tv_session w))
    \<and> (\<forall>e. Ts_uncaught e \<notin> set (ts_log (tv_session w)))"
proof -
  have inv: "tv_inv handler w"
    unfolding assms(3) by (rule tls_session.run_invar [OF tv_inv_initial [OF assms(1,2)]])
  then have ok: "ts_ok handler (tv_writes_done w) [] (tv_session w)" by (simp add: tv_inv_def)
  have "\<exists>fs. map encode_frame fs = map Inr (wire_writes (ts_log (tv_session w)))
       \<and> map frame_sequence fs = map (\<lambda>i. 1 + word_of_nat i) [0..<length fs]"
  proof -
    let ?c = "close_now (tv_session w)"
    have "ts_ok handler 0 [] ?c" by (rule close_now_ok [OF ok])
    then obtain fs k where "encodes fs (wire_writes (ts_log ?c))" "numbered 1 fs k"
      by (auto simp: ts_ok_def ts_wire_def)
    moreover have "wire_writes (ts_log ?c) = wire_writes (ts_log (tv_session w))"
      by (simp add: close_now_def Let_def split: option.split prod.split)
    ultimately show ?thesis unfolding encodes_def numbered_def by auto
  qed
  moreover have "Ts_uncaught e \<notin> set (ts_log (tv_session w))" for e
  proof (cases "ts_stopped (tv_session w)")
    case True
    then obtain before where "ts_log (tv_session w) = before @ [Ts_cancel_timer, Ts_close_socket]
        @ (if handler then [Ts_closed (route_lease (tv_session w))] else [])" "filter ts_final before = []"
      using ok by (auto simp: ts_ok_def ts_base_def)
    then show ?thesis by (auto simp: filter_empty_conv)
  next
    case False
    then show ?thesis using ok by (auto simp: ts_ok_def ts_base_def filter_empty_conv)
  qed
  moreover have "ts_stopped (tv_session w) \<or> length (wire_writes (ts_log (tv_session w))) \<le> tv_writes_done w + 1"
    "queue_inv (ts_queue (tv_session w))"
    using ok unfolding ts_ok_def ts_base_def ts_wire_def by (auto split: if_splits)
  ultimately show ?thesis by blast
qed

text \<open>A session of the small pool that completes its handshake and is then stopped.\<close>

definition demo_tls :: TlsTunnelSession where
  "demo_tls = projr (new_TlsTunnelSession small_pool True True 8 4096 10000 300000 (Some new_ServerMetrics))"

lemma demo_tls_new:
  "new_TlsTunnelSession small_pool True True 8 4096 10000 300000 (Some new_ServerMetrics) = Inr demo_tls"
  by (simp add: demo_tls_def new_TlsTunnelSession_def new_OutboundFrameQueue_def kHeaderSize_def)

definition demo_tls_events :: "ts_event list" where
  "demo_tls_events = [Tv_start, Tv_handshake None (Inr ''alice''), Tv_idle_deadline (Some 125), Tv_stop]"

lemma demo_tls_run:
  "ts_stopped (tv_session (fold tv_step demo_tls_events (tv_initial demo_tls)))"
  "ts_controller (tv_session (fold tv_step demo_tls_events (tv_initial demo_tls))) \<noteq> None"
  by (simp_all add: demo_tls_events_def demo_tls_def new_TlsTunnelSession_def new_OutboundFrameQueue_def kHeaderSize_def
      tv_initial_def tv_apply_def ts_start_on_strand_def handle_handshake_def new_SessionController_def
      ts_read_next_def arm_idle_timeout_def idle_deadline_def)

theorem tls_session_wire_order_witness:
  "\<exists>w fs. w = fold tv_step demo_tls_events (tv_initial demo_tls) \<and> ts_controller (tv_session w) \<noteq> None
     \<and> map encode_frame fs = map Inr (wire_writes (ts_log (tv_session w)))
     \<and> map frame_sequence fs = map (\<lambda>i. 1 + word_of_nat i) [0..<length fs]"
  using tls_session_wire_order [OF demo_tls_new small_pool_inv refl, of demo_tls_events] demo_tls_run(2) by blast

text \<open>
  C25: a session ends once. It registers its lease with the server at most once, and only the lease
  it later reports; as long as it has not stopped it has closed nothing; once it has, its last
  effects are to close the socket and to report the lease it registered, exactly once, and its
  controller holds no lease any more.
\<close>

theorem tls_session_closes_once:
  assumes "new_TlsTunnelSession leases sink True max_frames max_bytes ht it metrics = Inr s" and "lm_inv leases"
    and "w = fold tv_step events (tv_initial s)"
  shows "(registered (ts_log (tv_session w)) = [] \<or>
       (\<exists>l. route_lease (tv_session w) = Some l \<and> registered (ts_log (tv_session w)) = [l]))
    \<and> (if ts_stopped (tv_session w)
       then (\<exists>before. ts_log (tv_session w) = before @ [Ts_cancel_timer, Ts_close_socket, Ts_closed (route_lease (tv_session w))]
               \<and> filter ts_final before = [])
         \<and> (\<forall>c. ts_controller (tv_session w) = Some c \<longrightarrow> sc_lease c = None)
       else filter ts_final (ts_log (tv_session w)) = [])"
proof -
  have "tv_inv True w"
    unfolding assms(3) by (rule tls_session.run_invar [OF tv_inv_initial [OF assms(1,2)]])
  then show ?thesis by (simp add: tv_inv_def ts_ok_def ts_base_def split: if_splits)
qed

theorem tls_session_closes_once_witness:
  "\<exists>w before. w = fold tv_step demo_tls_events (tv_initial demo_tls)
     \<and> ts_log (tv_session w) = before @ [Ts_cancel_timer, Ts_close_socket, Ts_closed (route_lease (tv_session w))]
     \<and> filter ts_final before = []"
  using tls_session_closes_once [OF demo_tls_new small_pool_inv refl, of demo_tls_events] demo_tls_run(1) by auto

end
