(* ===== verification/Tls_Server.thy ===== *)
theory Tls_Server
  imports Tunnel_Router Tls_Session
begin

text \<open>
  The server that accepts TLS connections, \<^verbatim>\<open>src/server/tls_tunnel_server.cpp\<close>: it creates a session
  per connection up to a limit, registers the routes of established sessions, routes the packets of
  the TUN device and removes closed sessions. A session is known here by its identity, the number
  of its creation, and by what it calls: the established handler, the close handler and the packet
  sink that \<open>handle_accept\<close> gives it.
\<close>

section \<open>State\<close>

datatype accept_error = Connection_aborted | Accept_failed nat

datatype sv_effect =
    Sv_tun_start
  | Sv_accept
  | Sv_refuse_socket
  | Sv_session_start peer nat
  | Sv_post_remove peer
  | Sv_close_acceptor
  | Sv_tun_stop
  | Sv_session_stop peer
  | Sv_shutdown
  | Sv_tun_write bytes
  | Sv_send_ipv4 peer bytes
  | Sv_send_ipv6 peer bytes
  | Sv_completion bool

text \<open>\<open>sv_next\<close> is the identity of the next session object; the TLS context is known by a number.\<close>

record TlsTunnelServer =
  sv_tls_context :: nat
  sv_maximum_sessions :: nat
  sv_handshake_timeout :: int
  sv_idle_timeout :: int
  sv_shutdown_handler :: bool
  sv_router :: TunnelRouter
  sv_sessions :: "peer list"
  sv_active_session_count :: nat
  sv_metrics :: ServerMetrics
  sv_started :: bool
  sv_stopping :: bool
  sv_next :: peer
  sv_log :: "sv_effect list"

definition sv_emit :: "sv_effect \<Rightarrow> TlsTunnelServer \<Rightarrow> TlsTunnelServer" where
  "sv_emit e s = s\<lparr>sv_log := sv_log s @ [e]\<rparr>"

text \<open>\<open>None\<close> is a null pointer. Opening the acceptor is left to the environment.\<close>

definition new_TlsTunnelServer ::
  "nat option \<Rightarrow> bool \<Rightarrow> nat \<Rightarrow> bool \<Rightarrow> int \<Rightarrow> int \<Rightarrow> TlsTunnelServer result" where
  "new_TlsTunnelServer tls_context has_tun_device maximum_sessions shutdown_handler handshake_timeout idle_timeout =
     (case tls_context of
        None \<Rightarrow> Inl (Invalid_argument ''TLS context must not be null'')
      | Some context \<Rightarrow>
          if \<not> has_tun_device then Inl (Invalid_argument ''TUN device must not be null'')
          else if maximum_sessions = 0 then Inl (Invalid_argument ''maximum session count must be positive'')
          else if handshake_timeout \<le> 0 \<or> idle_timeout \<le> 0 then
            Inl (Invalid_argument ''server session timeouts must be positive'')
          else
            Inr \<lparr>sv_tls_context = context, sv_maximum_sessions = maximum_sessions,
                 sv_handshake_timeout = handshake_timeout, sv_idle_timeout = idle_timeout,
                 sv_shutdown_handler = shutdown_handler, sv_router = new_TunnelRouter, sv_sessions = [],
                 sv_active_session_count = 0, sv_metrics = new_ServerMetrics, sv_started = False,
                 sv_stopping = False, sv_next = 0, sv_log = []\<rparr>)"

section \<open>Handlers\<close>

definition accept_next :: "TlsTunnelServer \<Rightarrow> TlsTunnelServer" where
  "accept_next s = (if sv_stopping s then s else sv_emit Sv_accept s)"

definition sv_start_on_strand :: "TlsTunnelServer \<Rightarrow> TlsTunnelServer" where
  "sv_start_on_strand s =
     (if sv_started s \<or> sv_stopping s then s
      else accept_next (sv_emit Sv_tun_start (s\<lparr>sv_started := True\<rparr>)))"

text \<open>The packet handler that \<open>start_on_strand\<close> gives to the TUN device.\<close>

definition sv_tun_packet :: "(peer \<Rightarrow> bool) \<Rightarrow> bytes \<Rightarrow> TlsTunnelServer \<Rightarrow> TlsTunnelServer" where
  "sv_tun_packet alive packet s =
     (if packet \<noteq> [] \<and> drop_bit 4 (packet ! 0) = 6 then
       (let ((_, sent), router) = route_ipv6_packet alive (sv_router s) packet
        in s\<lparr>sv_router := router, sv_log := sv_log s @ map (\<lambda>(p, b). Sv_send_ipv6 p b) sent\<rparr>)
      else
       (let ((_, sent), router) = route_ipv4_packet alive (sv_router s) packet
        in s\<lparr>sv_router := router, sv_log := sv_log s @ map (\<lambda>(p, b). Sv_send_ipv4 p b) sent\<rparr>))"

definition sv_stop_on_strand :: "TlsTunnelServer \<Rightarrow> TlsTunnelServer" where
  "sv_stop_on_strand s =
     (if sv_stopping s then s
      else
       (let s = sv_emit Sv_tun_stop (sv_emit Sv_close_acceptor (s\<lparr>sv_stopping := True\<rparr>));
            s = foldl (\<lambda>s session. sv_emit (Sv_session_stop session) s) s (sv_sessions s)
        in if sv_shutdown_handler s then sv_emit Sv_shutdown (s\<lparr>sv_shutdown_handler := False\<rparr>) else s))"

definition handle_accept :: "accept_error option \<Rightarrow> TlsTunnelServer \<Rightarrow> TlsTunnelServer" where
  "handle_accept error s =
     (if sv_stopping s then s
      else
       (case error of
          Some e \<Rightarrow> if e = Connection_aborted then accept_next s else sv_stop_on_strand s
        | None \<Rightarrow>
            accept_next
             (if length (sv_sessions s) \<ge> sv_maximum_sessions s then
                sv_emit Sv_refuse_socket
                  (s\<lparr>sv_metrics := (sv_metrics s)\<lparr>capacity_rejections := capacity_rejections (sv_metrics s) + 1\<rparr>\<rparr>)
              else
               (let s = s\<lparr>sv_metrics := (sv_metrics s)\<lparr>accepted_connections := accepted_connections (sv_metrics s) + 1\<rparr>\<rparr>;
                    session = sv_next s;
                    s = s\<lparr>sv_next := session + 1, sv_sessions := session # sv_sessions s\<rparr>;
                    s = s\<lparr>sv_active_session_count := length (sv_sessions s)\<rparr>
                in sv_emit (Sv_session_start session (sv_tls_context s)) s))))"

text \<open>The three handlers that \<open>handle_accept\<close> gives to a session.\<close>

definition sv_packet_sink :: "bytes \<Rightarrow> TlsTunnelServer \<Rightarrow> TlsTunnelServer" where
  "sv_packet_sink packet s = sv_emit (Sv_tun_write packet) s"

definition sv_established :: "(peer \<Rightarrow> bool) \<Rightarrow> Lease \<Rightarrow> peer \<Rightarrow> TlsTunnelServer \<Rightarrow> bool \<times> TlsTunnelServer" where
  "sv_established alive lease session s =
     (case register_peer alive (sv_router s) (lease_address lease) (Some session) of
        (False, router) \<Rightarrow> (False, s\<lparr>sv_router := router\<rparr>)
      | (True, router) \<Rightarrow>
          if lease_ipv6_address lease \<noteq> zero_ipv6 then
           (case register_peer_v6 alive router (lease_ipv6_address lease) (Some session) of
              (False, router) \<Rightarrow>
                (False, s\<lparr>sv_router := snd (unregister_peer alive router (lease_address lease) (Some session))\<rparr>)
            | (True, router) \<Rightarrow> (True, s\<lparr>sv_router := router\<rparr>))
          else (True, s\<lparr>sv_router := router\<rparr>))"

definition handle_session_closed :: "(peer \<Rightarrow> bool) \<Rightarrow> Lease option \<Rightarrow> peer \<Rightarrow> TlsTunnelServer \<Rightarrow> TlsTunnelServer" where
  "handle_session_closed alive lease session s =
     sv_emit (Sv_post_remove session)
      (case lease of
         None \<Rightarrow> s
       | Some l \<Rightarrow>
          (let router = snd (unregister_peer alive (sv_router s) (lease_address l) (Some session));
               router = (if lease_ipv6_address l \<noteq> zero_ipv6
                         then snd (unregister_peer_v6 alive router (lease_ipv6_address l) (Some session)) else router)
           in s\<lparr>sv_router := router\<rparr>))"

definition remove_session :: "peer \<Rightarrow> TlsTunnelServer \<Rightarrow> TlsTunnelServer" where
  "remove_session session s =
     (if session \<in> set (sv_sessions s) then
       (let s = s\<lparr>sv_sessions := remove1 session (sv_sessions s)\<rparr>
        in s\<lparr>sv_active_session_count := length (sv_sessions s)\<rparr>)
      else s)"

text \<open>
  \<open>replacement\<close> is the context that reading the configuration produced, \<open>None\<close> when the key file or
  the configuration was refused; \<open>has_completion\<close> tells whether a completion handler was given.
\<close>

definition reload_tls_context :: "nat option \<Rightarrow> bool \<Rightarrow> TlsTunnelServer \<Rightarrow> TlsTunnelServer" where
  "reload_tls_context replacement has_completion s =
     (if sv_stopping s then (if has_completion then sv_emit (Sv_completion False) s else s)
      else
       (case replacement of
          Some context \<Rightarrow>
           (let s = s\<lparr>sv_tls_context := context\<rparr> in if has_completion then sv_emit (Sv_completion True) s else s)
        | None \<Rightarrow> if has_completion then sv_emit (Sv_completion False) s else s))"

definition active_session_count :: "TlsTunnelServer \<Rightarrow> nat" where
  "active_session_count s = sv_active_session_count s"

definition active_route_count :: "(peer \<Rightarrow> bool) \<Rightarrow> TlsTunnelServer \<Rightarrow> nat \<times> TlsTunnelServer" where
  "active_route_count alive s =
     (let (n, router) = active_routes alive (sv_router s) in (n, s\<lparr>sv_router := router\<rparr>))"

section \<open>The server and its sessions\<close>

text \<open>
  What a session has called so far. A session calls the established handler at most once and the
  close handler once, afterwards, with the lease of that call if there was one; its removal follows
  the close. Which of these is possible next is recorded per session.
\<close>

datatype session_life = Opened | Announced Lease bool | Ended

record server_world =
  sw_server :: TlsTunnelServer
  sw_life :: "(peer \<times> session_life) list"

datatype server_event =
    Sx_start
  | Sx_accept "accept_error option"
  | Sx_established peer Lease "peer \<Rightarrow> bool"
  | Sx_closed peer "peer \<Rightarrow> bool"
  | Sx_remove peer
  | Sx_tun_packet bytes "peer \<Rightarrow> bool"
  | Sx_uplink bytes
  | Sx_reload "nat option" bool
  | Sx_routes "peer \<Rightarrow> bool"
  | Sx_stop

text \<open>Sessions that the server holds exist; \<open>others\<close> tells which further ones do.\<close>

definition existing :: "server_world \<Rightarrow> (peer \<Rightarrow> bool) \<Rightarrow> peer \<Rightarrow> bool" where
  "existing w others p \<longleftrightarrow> p \<in> set (sv_sessions (sw_server w)) \<or> others p"

fun server_step :: "server_event \<Rightarrow> server_world \<Rightarrow> server_world" where
  "server_step Sx_start w = w\<lparr>sw_server := sv_start_on_strand (sw_server w)\<rparr>"
| "server_step (Sx_accept error) w =
     (let s = handle_accept error (sw_server w)
      in w\<lparr>sw_server := s,
           sw_life := (if sv_next s \<noteq> sv_next (sw_server w) then [(sv_next (sw_server w), Opened)] else []) @ sw_life w\<rparr>)"
| "server_step (Sx_established p lease others) w =
     (if map_of (sw_life w) p = Some Opened then
       (let (ok, s) = sv_established (existing w others) lease p (sw_server w)
        in w\<lparr>sw_server := s, sw_life := AList.update p (Announced lease ok) (sw_life w)\<rparr>)
      else w)"
| "server_step (Sx_closed p others) w =
     (case map_of (sw_life w) p of
        Some Opened \<Rightarrow>
          w\<lparr>sw_server := handle_session_closed (existing w others) None p (sw_server w),
            sw_life := AList.update p Ended (sw_life w)\<rparr>
      | Some (Announced lease ok) \<Rightarrow>
          w\<lparr>sw_server := handle_session_closed (existing w others) (Some lease) p (sw_server w),
            sw_life := AList.update p Ended (sw_life w)\<rparr>
      | _ \<Rightarrow> w)"
| "server_step (Sx_remove p) w =
     (if map_of (sw_life w) p = Some Ended then w\<lparr>sw_server := remove_session p (sw_server w)\<rparr> else w)"
| "server_step (Sx_tun_packet packet others) w =
     w\<lparr>sw_server := sv_tun_packet (existing w others) packet (sw_server w)\<rparr>"
| "server_step (Sx_uplink packet) w = w\<lparr>sw_server := sv_packet_sink packet (sw_server w)\<rparr>"
| "server_step (Sx_reload replacement has_completion) w =
     w\<lparr>sw_server := reload_tls_context replacement has_completion (sw_server w)\<rparr>"
| "server_step (Sx_routes others) w = w\<lparr>sw_server := snd (active_route_count (existing w others) (sw_server w))\<rparr>"
| "server_step Sx_stop w = w\<lparr>sw_server := sv_stop_on_strand (sw_server w)\<rparr>"

definition server_initial :: "TlsTunnelServer \<Rightarrow> server_world" where
  "server_initial s = \<lparr>sw_server = s, sw_life = []\<rparr>"

section \<open>Routes\<close>

text \<open>What the four router operations do to the entries of a peer.\<close>

lemma register_entries:
  "map_of (router_peers (snd (register_peer alive r a (Some p)))) k = Some q \<Longrightarrow>
     map_of (router_peers r) k = Some q \<or> fst (register_peer alive r a (Some p)) \<and> k = address_key a \<and> q = p"
  "router_ipv6_peers (snd (register_peer alive r a (Some p))) = router_ipv6_peers r"
  "\<not> fst (register_peer alive r a (Some p)) \<Longrightarrow> snd (register_peer alive r a (Some p)) = r"
  by (auto simp: register_peer_def table_register_def map_of_emplace split_beta split: option.splits if_splits)

lemma register_v6_entries:
  "map_of (router_ipv6_peers (snd (register_peer_v6 alive r b (Some p)))) c = Some q \<Longrightarrow>
     map_of (router_ipv6_peers r) c = Some q \<or> fst (register_peer_v6 alive r b (Some p)) \<and> c = b \<and> q = p"
  "router_peers (snd (register_peer_v6 alive r b (Some p))) = router_peers r"
  "\<not> fst (register_peer_v6 alive r b (Some p)) \<Longrightarrow> snd (register_peer_v6 alive r b (Some p)) = r"
  by (auto simp: register_peer_v6_def table_register_def map_of_emplace split_beta split: option.splits if_splits)

lemma unregister_entries:
  "map_of (router_peers (snd (unregister_peer alive r a (Some p)))) k = Some q \<Longrightarrow>
     map_of (router_peers r) k = Some q \<and> (k, q) \<noteq> (address_key a, p)"
  "router_ipv6_peers (snd (unregister_peer alive r a (Some p))) = router_ipv6_peers r"
  by (auto simp: unregister_peer_def table_unregister_def split_beta split: option.splits if_splits)

lemma unregister_v6_entries:
  "map_of (router_ipv6_peers (snd (unregister_peer_v6 alive r b (Some p)))) c = Some q \<Longrightarrow>
     map_of (router_ipv6_peers r) c = Some q \<and> (c, q) \<noteq> (b, p)"
  "router_peers (snd (unregister_peer_v6 alive r b (Some p))) = router_peers r"
  by (auto simp: unregister_peer_v6_def table_unregister_def split_beta split: option.splits if_splits)

lemma find_entries: "map_of (snd (table_find alive k t)) j = Some q \<Longrightarrow> map_of t j = Some q"
  by (auto simp: table_find_def split: option.splits if_splits)

lemma route_entries:
  "map_of (router_peers (snd (route_ipv4_packet alive r packet))) k = Some q \<Longrightarrow> map_of (router_peers r) k = Some q"
  "map_of (router_ipv6_peers (snd (route_ipv6_packet alive r packet))) c = Some q \<Longrightarrow> map_of (router_ipv6_peers r) c = Some q"
  using route_ipv4_tables(1) [of alive r packet] route_ipv6_tables(1) [of alive r packet] find_entries by metis+

lemma active_entries:
  assumes "router_inv r"
  shows "map_of (router_peers (snd (active_routes alive r))) k = Some q \<Longrightarrow> map_of (router_peers r) k = Some q"
    "map_of (router_ipv6_peers (snd (active_routes alive r))) c = Some q \<Longrightarrow> map_of (router_ipv6_peers r) c = Some q"
  using assms by (auto simp: active_routes_def remove_expired_locked_def Let_def router_inv_def map_of_filter_distinct
      split: option.splits if_splits)

text \<open>Every route belongs to a session whose announcement was accepted and that has not ended.\<close>

definition routes_ok :: "(peer \<rightharpoonup> session_life) \<Rightarrow> TunnelRouter \<Rightarrow> bool" where
  "routes_ok life r \<longleftrightarrow> router_inv r
     \<and> (\<forall>k p. map_of (router_peers r) k = Some p \<longrightarrow>
          (\<exists>l. life p = Some (Announced l True) \<and> k = address_key (lease_address l)))
     \<and> (\<forall>c p. map_of (router_ipv6_peers r) c = Some p \<longrightarrow>
          (\<exists>l. life p = Some (Announced l True) \<and> c = lease_ipv6_address l \<and> c \<noteq> zero_ipv6))"

lemma routes_okD:
  "routes_ok life r \<Longrightarrow> map_of (router_peers r) k = Some p \<Longrightarrow>
     \<exists>l. life p = Some (Announced l True) \<and> k = address_key (lease_address l)"
  "routes_ok life r \<Longrightarrow> map_of (router_ipv6_peers r) c = Some p \<Longrightarrow>
     \<exists>l. life p = Some (Announced l True) \<and> c = lease_ipv6_address l \<and> c \<noteq> zero_ipv6"
  by (simp_all add: routes_ok_def)

lemma routes_ok_shrink:
  assumes "routes_ok life r" "router_inv r'"
    "\<And>k p. map_of (router_peers r') k = Some p \<Longrightarrow> map_of (router_peers r) k = Some p"
    "\<And>c p. map_of (router_ipv6_peers r') c = Some p \<Longrightarrow> map_of (router_ipv6_peers r) c = Some p"
  shows "routes_ok life r'"
  using assms by (simp add: routes_ok_def)

lemma routes_ok_fresh:
  assumes ok: "routes_ok life r" and new: "life p = None"
  shows "routes_ok (life(p \<mapsto> Opened)) r"
proof -
  have other: "q \<noteq> p" if "life q = Some x" for q x using that new by auto
  show ?thesis unfolding routes_ok_def
  proof (intro conjI allI impI)
    show "router_inv r" using ok by (simp add: routes_ok_def)
    show "\<exists>l. (life(p \<mapsto> Opened)) q = Some (Announced l True) \<and> k = address_key (lease_address l)"
      if "map_of (router_peers r) k = Some q" for k q
      using routes_okD(1) [OF ok that] other by auto
    show "\<exists>l. (life(p \<mapsto> Opened)) q = Some (Announced l True) \<and> c = lease_ipv6_address l \<and> c \<noteq> zero_ipv6"
      if "map_of (router_ipv6_peers r) c = Some q" for c q
      using routes_okD(2) [OF ok that] other by auto
  qed
qed

lemma router_inv_ops:
  assumes "router_inv r"
  shows "router_inv (snd (register_peer alive r a (Some p)))" "router_inv (snd (unregister_peer alive r a (Some p)))"
    "router_inv (snd (register_peer_v6 alive r b (Some p)))" "router_inv (snd (unregister_peer_v6 alive r b (Some p)))"
    "router_inv (snd (route_ipv4_packet alive r packet))" "router_inv (snd (route_ipv6_packet alive r packet))"
    "router_inv (snd (active_routes alive r))"
  using router_step_inv [OF assms, of "(alive, Rc_register a p)"] router_step_inv [OF assms, of "(alive, Rc_unregister a p)"]
    router_step_inv [OF assms, of "(alive, Rc_register_v6 b p)"] router_step_inv [OF assms, of "(alive, Rc_unregister_v6 b p)"]
    router_step_inv [OF assms, of "(alive, Rc_route packet)"] router_step_inv [OF assms, of "(alive, Rc_route_v6 packet)"]
    router_step_inv [OF assms, of "(alive, Rc_active_routes)"] by simp_all

text \<open>Announcing a session adds its own routes or none.\<close>

lemma sv_established_cases:
  assumes est: "sv_established alive lease p s = (accepted, s')"
  defines "x4 \<equiv> register_peer alive (sv_router s) (lease_address lease) (Some p)"
  defines "x6 \<equiv> register_peer_v6 alive (snd x4) (lease_ipv6_address lease) (Some p)"
  obtains (refused) "\<not> fst x4" "\<not> accepted" "s' = s\<lparr>sv_router := snd x4\<rparr>"
  | (ipv4) "fst x4" accepted "lease_ipv6_address lease = zero_ipv6" "s' = s\<lparr>sv_router := snd x4\<rparr>"
  | (both) "fst x4" "fst x6" accepted "lease_ipv6_address lease \<noteq> zero_ipv6" "s' = s\<lparr>sv_router := snd x6\<rparr>"
  | (undone) "fst x4" "\<not> fst x6" "\<not> accepted"
      "s' = s\<lparr>sv_router := snd (unregister_peer alive (snd x6) (lease_address lease) (Some p))\<rparr>"
proof -
  note e = est [unfolded sv_established_def case_prod_unfold, folded x4_def, folded x6_def]
  show thesis
  proof (cases "fst x4")
    case False
    then show ?thesis using e by (intro refused) simp_all
  next
    case x4: True
    show ?thesis
    proof (cases "lease_ipv6_address lease = zero_ipv6")
      case True
      then show ?thesis using e x4 by (intro ipv4) simp_all
    next
      case x6: False
      show ?thesis
      proof (cases "fst x6")
        case True
        then show ?thesis using e x4 x6 by (intro both) simp_all
      next
        case False
        then show ?thesis using e x4 x6 by (intro undone) simp_all
      qed
    qed
  qed
qed

lemma established_routes:
  assumes ok: "routes_ok life (sv_router s)" and fresh: "life p = Some Opened"
    and est: "sv_established alive lease p s = (accepted, s')"
  shows "routes_ok (life(p \<mapsto> Announced lease accepted)) (sv_router s') \<and> s' = s\<lparr>sv_router := sv_router s'\<rparr>"
proof -
  let ?life = "life(p \<mapsto> Announced lease accepted)" and ?r = "sv_router s"
  define x4 where "x4 = register_peer alive ?r (lease_address lease) (Some p)"
  define x6 where "x6 = register_peer_v6 alive (snd x4) (lease_ipv6_address lease) (Some p)"
  define u where "u = snd (unregister_peer alive (snd x6) (lease_address lease) (Some p))"
  note E4 = register_entries [of alive ?r "lease_address lease" p, folded x4_def]
  note E6 = register_v6_entries [of alive "snd x4" "lease_ipv6_address lease" p, folded x6_def]
  note U = unregister_entries [of alive "snd x6" "lease_address lease" p, folded u_def]
  have inv: "router_inv (snd x4)" "router_inv (snd x6)" "router_inv u"
    using ok by (simp_all add: routes_ok_def router_inv_ops x4_def x6_def u_def)
  have other: "q \<noteq> p" if "life q = Some (Announced l b)" for q l b using that fresh by auto
  have old: "routes_ok ?life ?r" using ok other unfolding routes_ok_def by fastforce
  have r4: "routes_ok ?life (snd x4)" if accepted
    unfolding routes_ok_def
  proof (intro conjI allI impI)
    show "router_inv (snd x4)" by (rule inv)
    show "\<exists>l. ?life q = Some (Announced l True) \<and> k = address_key (lease_address l)"
      if "map_of (router_peers (snd x4)) k = Some q" for k q
      using E4(1) [OF that] routes_okD(1) [OF old, of k q] \<open>accepted\<close> by auto
    show "\<exists>l. ?life q = Some (Announced l True) \<and> c = lease_ipv6_address l \<and> c \<noteq> zero_ipv6"
      if "map_of (router_ipv6_peers (snd x4)) c = Some q" for c q
      using routes_okD(2) [OF old, of c q] that unfolding E4(2) by blast
  qed
  from est show ?thesis
  proof (cases rule: sv_established_cases [case_names refused ipv4 both undone])
    case refused
    then show ?thesis using old E4(3) by (simp add: x4_def)
  next
    case ipv4
    then show ?thesis using r4 by (simp add: x4_def)
  next
    case both
    have "routes_ok ?life (snd x6)"
      unfolding routes_ok_def
    proof (intro conjI allI impI)
      show "router_inv (snd x6)" by (rule inv)
      show "\<exists>l. ?life q = Some (Announced l True) \<and> k = address_key (lease_address l)"
        if "map_of (router_peers (snd x6)) k = Some q" for k q
        using routes_okD(1) [OF r4, of k q] that both(3) unfolding E6(2) by blast
      show "\<exists>l. ?life q = Some (Announced l True) \<and> c = lease_ipv6_address l \<and> c \<noteq> zero_ipv6"
        if "map_of (router_ipv6_peers (snd x6)) c = Some q" for c q
        using E6(1) [OF that] routes_okD(2) [OF r4, of c q] both(3,4) by auto
    qed
    then show ?thesis using both by (simp add: x4_def x6_def)
  next
    case undone
    then have same: "snd x6 = snd x4" using E6(3) by (simp add: x4_def x6_def)
    have "routes_ok ?life u"
    proof (rule routes_ok_shrink [OF old inv(3)])
      show "map_of (router_peers ?r) k = Some q" if "map_of (router_peers u) k = Some q" for k q
        using U(1) [OF that] E4(1) [of k q] same by auto
      show "map_of (router_ipv6_peers ?r) c = Some q" if "map_of (router_ipv6_peers u) c = Some q" for c q
        using that unfolding U(2) same E4(2) .
    qed
    then show ?thesis using undone by (simp add: x4_def x6_def u_def)
  qed
qed

text \<open>After the close of a session no route leads to it.\<close>

lemma closed_routes:
  assumes ok: "routes_ok life (sv_router s)"
    and l: "life p = Some Opened \<and> lease = None \<or> (\<exists>l b. life p = Some (Announced l b) \<and> lease = Some l)"
  shows "routes_ok (life(p \<mapsto> Ended)) (sv_router (handle_session_closed alive lease p s))"
proof -
  let ?r = "sv_router s" and ?r' = "sv_router (handle_session_closed alive lease p s)"
  have inv: "router_inv ?r'"
    using ok by (simp add: handle_session_closed_def sv_emit_def Let_def routes_ok_def router_inv_ops split: option.split)
  have k: "map_of (router_peers ?r) k = Some q \<and> (\<forall>l. lease = Some l \<longrightarrow> (k, q) \<noteq> (address_key (lease_address l), p))"
    if "map_of (router_peers ?r') k = Some q" for k q
  proof (cases lease)
    case (Some l)
    then have "map_of (router_peers (snd (unregister_peer alive ?r (lease_address l) (Some p)))) k = Some q"
      using that by (simp add: handle_session_closed_def sv_emit_def Let_def unregister_v6_entries(2) split: if_splits)
    from unregister_entries(1) [OF this] Some show ?thesis by simp
  qed (use that in \<open>simp add: handle_session_closed_def sv_emit_def\<close>)
  have c: "map_of (router_ipv6_peers ?r) c = Some q
      \<and> (\<forall>l. lease = Some l \<and> lease_ipv6_address l \<noteq> zero_ipv6 \<longrightarrow> (c, q) \<noteq> (lease_ipv6_address l, p))"
    if "map_of (router_ipv6_peers ?r') c = Some q" for c q
  proof (cases "\<exists>l. lease = Some l \<and> lease_ipv6_address l \<noteq> zero_ipv6")
    case True
    then obtain l where l: "lease = Some l" "lease_ipv6_address l \<noteq> zero_ipv6" by blast
    let ?x = "snd (unregister_peer alive ?r (lease_address l) (Some p))"
    have "map_of (router_ipv6_peers (snd (unregister_peer_v6 alive ?x (lease_ipv6_address l) (Some p)))) c = Some q"
      using that l by (simp add: handle_session_closed_def sv_emit_def Let_def)
    from unregister_v6_entries(1) [OF this] l show ?thesis by (simp add: unregister_entries(2))
  next
    case False
    then have "router_ipv6_peers ?r' = router_ipv6_peers ?r"
      by (cases lease) (simp_all add: handle_session_closed_def sv_emit_def Let_def unregister_entries(2))
    with that False show ?thesis by auto
  qed
  show ?thesis unfolding routes_ok_def
  proof (intro conjI allI impI)
    show "router_inv ?r'" by (rule inv)
    fix k q assume "map_of (router_peers ?r') k = Some q"
    with k [of k q] routes_okD(1) [OF ok, of k q] l show "\<exists>l. (life(p \<mapsto> Ended)) q = Some (Announced l True) \<and> k = address_key (lease_address l)"
      by auto
  next
    fix c q assume "map_of (router_ipv6_peers ?r') c = Some q"
    with c [of c q] routes_okD(2) [OF ok, of c q] l show "\<exists>l. (life(p \<mapsto> Ended)) q = Some (Announced l True) \<and> c = lease_ipv6_address l \<and> c \<noteq> zero_ipv6"
      by auto
  qed
qed

section \<open>Invariant\<close>

definition server_inv :: "nat \<Rightarrow> server_world \<Rightarrow> bool" where
  "server_inv limit w \<longleftrightarrow>
     sv_maximum_sessions (sw_server w) = limit
     \<and> length (sv_sessions (sw_server w)) \<le> limit
     \<and> distinct (sv_sessions (sw_server w))
     \<and> sv_active_session_count (sw_server w) = length (sv_sessions (sw_server w))
     \<and> (\<forall>p \<in> set (sv_sessions (sw_server w)). p < sv_next (sw_server w))
     \<and> (\<forall>p life. map_of (sw_life w) p = Some life \<longrightarrow> p < sv_next (sw_server w)
          \<and> (life \<noteq> Ended \<longrightarrow> p \<in> set (sv_sessions (sw_server w))))
     \<and> routes_ok (map_of (sw_life w)) (sv_router (sw_server w))"

lemma sv_emit_fields [simp]:
  "sv_maximum_sessions (sv_emit e s) = sv_maximum_sessions s" "sv_sessions (sv_emit e s) = sv_sessions s"
  "sv_active_session_count (sv_emit e s) = sv_active_session_count s" "sv_next (sv_emit e s) = sv_next s"
  "sv_router (sv_emit e s) = sv_router s" "sv_stopping (sv_emit e s) = sv_stopping s"
  "sv_shutdown_handler (sv_emit e s) = sv_shutdown_handler s"
  by (simp_all add: sv_emit_def)

text \<open>Operations that touch neither sessions nor routes.\<close>

definition same_sessions :: "TlsTunnelServer \<Rightarrow> TlsTunnelServer \<Rightarrow> bool" where
  "same_sessions s s' \<longleftrightarrow> sv_maximum_sessions s' = sv_maximum_sessions s \<and> sv_sessions s' = sv_sessions s
     \<and> sv_active_session_count s' = sv_active_session_count s \<and> sv_next s' = sv_next s"

lemma stop_loop_fields:
  "same_sessions s (foldl (\<lambda>s session. sv_emit (Sv_session_stop session) s) s ps)
   \<and> sv_router (foldl (\<lambda>s session. sv_emit (Sv_session_stop session) s) s ps) = sv_router s"
  by (induction ps arbitrary: s) (simp_all add: same_sessions_def)

lemma quiet_operations:
  "same_sessions s (accept_next s) \<and> sv_router (accept_next s) = sv_router s"
  "same_sessions s (sv_start_on_strand s) \<and> sv_router (sv_start_on_strand s) = sv_router s"
  "same_sessions s (sv_stop_on_strand s) \<and> sv_router (sv_stop_on_strand s) = sv_router s"
  "same_sessions s (sv_packet_sink b s) \<and> sv_router (sv_packet_sink b s) = sv_router s"
  "same_sessions s (reload_tls_context c h s) \<and> sv_router (reload_tls_context c h s) = sv_router s"
proof -
  show "same_sessions s (sv_stop_on_strand s) \<and> sv_router (sv_stop_on_strand s) = sv_router s"
    using stop_loop_fields [of "sv_emit Sv_tun_stop (sv_emit Sv_close_acceptor (s\<lparr>sv_stopping := True\<rparr>))" "sv_sessions s"]
    by (simp add: sv_stop_on_strand_def Let_def same_sessions_def)
qed (simp_all add: accept_next_def sv_start_on_strand_def sv_packet_sink_def reload_tls_context_def same_sessions_def Let_def
      split: option.split)

lemma inv_same:
  "server_inv limit w \<Longrightarrow> same_sessions (sw_server w) s \<Longrightarrow> routes_ok (map_of (sw_life w)) (sv_router s) \<Longrightarrow>
     server_inv limit (w\<lparr>sw_server := s\<rparr>)"
  by (simp add: server_inv_def same_sessions_def)

lemma inv_quiet:
  "server_inv limit w \<Longrightarrow> same_sessions (sw_server w) s \<and> sv_router s = sv_router (sw_server w) \<Longrightarrow>
     server_inv limit (w\<lparr>sw_server := s\<rparr>)"
  by (rule inv_same) (simp_all add: server_inv_def)

lemma accept_inv:
  assumes inv: "server_inv limit w"
  shows "server_inv limit (server_step (Sx_accept error) w)"
proof (cases "error = None \<and> \<not> sv_stopping (sw_server w) \<and> length (sv_sessions (sw_server w)) < sv_maximum_sessions (sw_server w)")
  case False
  let ?s = "sw_server w"
  have "same_sessions ?s (handle_accept error ?s) \<and> sv_router (handle_accept error ?s) = sv_router ?s"
  proof (cases error)
    case None
    then show ?thesis using False by (cases "sv_stopping ?s") (simp_all add: handle_accept_def accept_next_def same_sessions_def)
  next
    case (Some e)
    then show ?thesis using quiet_operations(1,3) [of ?s] by (simp add: handle_accept_def) (simp add: same_sessions_def)
  qed
  moreover from this have "server_step (Sx_accept error) w = w\<lparr>sw_server := handle_accept error ?s\<rparr>"
    by (simp add: same_sessions_def Let_def)
  ultimately show ?thesis using inv_quiet [OF inv] by simp
next
  case True
  let ?s = "sw_server w" and ?p = "sv_next (sw_server w)"
  obtain s' where s': "handle_accept error ?s = s'" "sv_sessions s' = ?p # sv_sessions ?s"
    "sv_maximum_sessions s' = sv_maximum_sessions ?s" "sv_active_session_count s' = Suc (length (sv_sessions ?s))"
    "sv_next s' = Suc ?p" "sv_router s' = sv_router ?s"
    using True by (simp add: handle_accept_def accept_next_def Let_def)
  have new: "map_of (sw_life w) ?p = None"
    using inv by (cases "map_of (sw_life w) ?p") (auto simp: server_inv_def)
  have "routes_ok (map_of ((?p, Opened) # sw_life w)) (sv_router ?s)"
    using inv new unfolding map_of.simps fst_conv snd_conv by (intro routes_ok_fresh) (simp_all add: server_inv_def)
  moreover have "server_step (Sx_accept error) w = w\<lparr>sw_server := s', sw_life := (?p, Opened) # sw_life w\<rparr>"
    using s' by (simp add: Let_def)
  moreover have "distinct (?p # sv_sessions ?s)" using inv by (auto simp: server_inv_def)
  moreover have "\<forall>q life. map_of ((?p, Opened) # sw_life w) q = Some life \<longrightarrow> q < sv_next s'
      \<and> (life \<noteq> Ended \<longrightarrow> q \<in> set (sv_sessions s'))"
    using inv s'(2,5) unfolding server_inv_def by (auto simp: less_Suc_eq split: if_splits)
  moreover have "\<forall>q \<in> set (sv_sessions s'). q < sv_next s'"
    using inv s'(2,5) unfolding server_inv_def by (auto simp: less_Suc_eq)
  moreover have "sv_maximum_sessions (sw_server w) = limit" using inv by (simp add: server_inv_def)
  ultimately show ?thesis
    using True s'(2-6) unfolding server_inv_def by (simp del: server_step.simps map_of.simps)
qed

lemma established_inv:
  assumes inv: "server_inv limit w" and p: "map_of (sw_life w) p = Some Opened"
  shows "server_inv limit (server_step (Sx_established p lease others) w)"
proof -
  obtain ok s where e: "sv_established (existing w others) lease p (sw_server w) = (ok, s)" by fastforce
  have "routes_ok (map_of (sw_life w)) (sv_router (sw_server w))" using inv by (simp add: server_inv_def)
  from established_routes [of "map_of (sw_life w)", OF this p e]
  have r: "routes_ok ((map_of (sw_life w))(p \<mapsto> Announced lease ok)) (sv_router s)"
    and s: "s = (sw_server w)\<lparr>sv_router := sv_router s\<rparr>" by blast+
  from s have f: "sv_maximum_sessions s = sv_maximum_sessions (sw_server w)" "sv_sessions s = sv_sessions (sw_server w)"
    "sv_active_session_count s = sv_active_session_count (sw_server w)" "sv_next s = sv_next (sw_server w)"
    by (metis TlsTunnelServer.select_convs TlsTunnelServer.surjective TlsTunnelServer.update_convs(6))+
  have "server_step (Sx_established p lease others) w =
      w\<lparr>sw_server := s, sw_life := AList.update p (Announced lease ok) (sw_life w)\<rparr>" using p e by simp
  with inv p f r show ?thesis unfolding server_inv_def by (auto simp: update_conv')
qed

lemma closed_inv:
  assumes inv: "server_inv limit w"
  shows "server_inv limit (server_step (Sx_closed p others) w)"
proof -
  have same: "same_sessions (sw_server w) (handle_session_closed al l p (sw_server w))" for al l
    by (simp add: handle_session_closed_def same_sessions_def Let_def split: option.split)
  have ok: "routes_ok (map_of (sw_life w)) (sv_router (sw_server w))" using inv by (simp add: server_inv_def)
  have go: "server_inv limit (w\<lparr>sw_server := handle_session_closed al lease p (sw_server w),
      sw_life := AList.update p Ended (sw_life w)\<rparr>)"
    if "map_of (sw_life w) p = Some Opened \<and> lease = None \<or> (\<exists>l b. map_of (sw_life w) p = Some (Announced l b) \<and> lease = Some l)"
    for al lease
    using inv same [of al lease] closed_routes [OF ok that, of al] that
    by (auto simp: server_inv_def same_sessions_def update_conv')
  show ?thesis
  proof (cases "map_of (sw_life w) p")
    case None
    then show ?thesis using inv by simp
  next
    case (Some life)
    then show ?thesis using inv go by (cases life) simp_all
  qed
qed

lemma server_step_inv:
  assumes inv: "server_inv limit w"
  shows "server_inv limit (server_step e w)"
proof (cases e)
  case (Sx_remove p)
  have "server_inv limit (w\<lparr>sw_server := remove_session p (sw_server w)\<rparr>)" if "map_of (sw_life w) p = Some Ended"
  proof (cases "p \<in> set (sv_sessions (sw_server w))")
    case True
    let ?ss = "remove1 p (sv_sessions (sw_server w))"
    have "distinct (sv_sessions (sw_server w))" using inv by (simp add: server_inv_def)
    then have ss: "distinct ?ss" "set ?ss = set (sv_sessions (sw_server w)) - {p}"
      "length ?ss \<le> length (sv_sessions (sw_server w))" by (simp_all add: length_remove1)
    have "server_inv limit (w\<lparr>sw_server := (sw_server w)\<lparr>sv_sessions := ?ss, sv_active_session_count := length ?ss\<rparr>\<rparr>)"
      using inv that ss unfolding server_inv_def by auto
    then show ?thesis using True by (simp add: remove_session_def Let_def)
  qed (use inv in \<open>simp add: remove_session_def\<close>)
  then show ?thesis using inv Sx_remove by simp
next
  case (Sx_tun_packet packet others)
  let ?s = "sv_tun_packet (existing w others) packet (sw_server w)"
  have same: "same_sessions (sw_server w) ?s" by (simp add: sv_tun_packet_def same_sessions_def split_beta)
  have ok: "routes_ok (map_of (sw_life w)) (sv_router (sw_server w))" using inv by (simp add: server_inv_def)
  then have ri: "router_inv (sv_router (sw_server w))" by (simp add: routes_ok_def)
  have "routes_ok (map_of (sw_life w)) (sv_router ?s)"
  proof (cases "packet \<noteq> [] \<and> drop_bit 4 (packet ! 0) = 6")
    case True
    then have r: "sv_router ?s = snd (route_ipv6_packet (existing w others) (sv_router (sw_server w)) packet)"
      by (simp add: sv_tun_packet_def split_beta)
    show ?thesis unfolding r
      by (rule routes_ok_shrink [OF ok router_inv_ops(6) [OF ri]]) (simp add: route_ipv6_tables(2), erule route_entries(2))
  next
    case False
    then have r: "sv_router ?s = snd (route_ipv4_packet (existing w others) (sv_router (sw_server w)) packet)"
      by (simp only: sv_tun_packet_def split_beta if_False Let_def) simp
    show ?thesis unfolding r
      by (rule routes_ok_shrink [OF ok router_inv_ops(5) [OF ri]]) (erule route_entries(1), simp add: route_ipv4_tables(2))
  qed
  with inv_same [OF inv same] Sx_tun_packet show ?thesis by simp
next
  case (Sx_routes others)
  have ok: "routes_ok (map_of (sw_life w)) (sv_router (sw_server w))" using inv by (simp add: server_inv_def)
  then have ri: "router_inv (sv_router (sw_server w))" by (simp add: routes_ok_def)
  have "routes_ok (map_of (sw_life w)) (snd (active_routes (existing w others) (sv_router (sw_server w))))"
    by (rule routes_ok_shrink [OF ok router_inv_ops(7) [OF ri]]) (simp_all add: active_entries [OF ri])
  then show ?thesis using Sx_routes
    by (simp add: active_route_count_def split_beta) (rule inv_same [OF inv], simp_all add: same_sessions_def)
next
  case (Sx_established p lease others)
  then show ?thesis using established_inv [OF inv, of p lease others] inv by (cases "map_of (sw_life w) p = Some Opened") simp_all
next
  case (Sx_accept error)
  then show ?thesis using accept_inv [OF inv] by blast
next
  case (Sx_closed p others)
  then show ?thesis using closed_inv [OF inv] by blast
next
  case Sx_start
  show ?thesis unfolding Sx_start server_step.simps by (rule inv_quiet [OF inv quiet_operations(2)])
next
  case (Sx_uplink packet)
  show ?thesis unfolding Sx_uplink server_step.simps by (rule inv_quiet [OF inv quiet_operations(4)])
next
  case (Sx_reload replacement has_completion)
  show ?thesis unfolding Sx_reload server_step.simps by (rule inv_quiet [OF inv quiet_operations(5)])
next
  case Sx_stop
  show ?thesis unfolding Sx_stop server_step.simps by (rule inv_quiet [OF inv quiet_operations(3)])
qed

interpretation tls_server: event_machine server_step "server_inv limit"
  by unfold_locales (rule server_step_inv)

lemma server_inv_initial:
  "new_TlsTunnelServer ctx tun limit sh ht it = Inr s \<Longrightarrow> server_inv limit (server_initial s)"
  by (auto simp: new_TlsTunnelServer_def server_inv_def server_initial_def routes_ok_def new_TunnelRouter_def router_inv_def
      split: option.splits if_splits)

section \<open>Properties\<close>

text \<open>What the packet handler of the TUN device sends.\<close>

definition tun_sends :: "(peer \<Rightarrow> bool) \<Rightarrow> bytes \<Rightarrow> TlsTunnelServer \<Rightarrow> sv_effect list" where
  "tun_sends alive packet s = drop (length (sv_log s)) (sv_log (sv_tun_packet alive packet s))"

lemma tun_sends_cases:
  assumes "e \<in> set (tun_sends alive packet s)"
  obtains (ipv4) p where "e = Sv_send_ipv4 p packet" "routable_ipv4 packet"
      "map_of (router_peers (sv_router s)) (address_key [packet ! 16, packet ! 17, packet ! 18, packet ! 19]) = Some p"
  | (ipv6) p where "e = Sv_send_ipv6 p packet" "routable_ipv6 packet"
      "map_of (router_ipv6_peers (sv_router s)) (take 16 (drop 24 packet)) = Some p"
proof (cases "packet \<noteq> [] \<and> drop_bit 4 (packet ! 0) = 6")
  case True
  then have "e \<in> (\<lambda>(p, b). Sv_send_ipv6 p b) ` set (snd (fst (route_ipv6_packet alive (sv_router s) packet)))"
    using assms by (simp add: tun_sends_def sv_tun_packet_def split_beta)
  then show ?thesis by (auto simp: route_ipv6_result table_owner_def intro: ipv6 split: option.splits if_splits)
next
  case False
  then have "e \<in> (\<lambda>(p, b). Sv_send_ipv4 p b) ` set (snd (fst (route_ipv4_packet alive (sv_router s) packet)))"
    using assms by (simp only: tun_sends_def sv_tun_packet_def split_beta if_False Let_def) simp
  then show ?thesis by (auto simp: route_ipv4_result table_owner_def intro: ipv4 split: option.splits if_splits)
qed

text \<open>A server for two sessions, a third connection, and a packet for the second session.\<close>

definition demo_server :: TlsTunnelServer where
  "demo_server = projr (new_TlsTunnelServer (Some 1) True 2 False 10000 300000)"

definition demo_lease :: Lease where
  "demo_lease = \<lparr>lease_id = 1, lease_identity = ''alice'', lease_address = [10, 8, 0, 2],
     lease_ipv6_address = zero_ipv6, expires_at = 100\<rparr>"

definition demo_server_events :: "server_event list" where
  "demo_server_events = [Sx_start, Sx_accept None, Sx_accept None, Sx_established 1 demo_lease (\<lambda>_. False),
     Sx_closed 0 (\<lambda>_. False), Sx_remove 0]"

definition demo_server_packet :: bytes where
  "demo_server_packet = [0x45, 0, 0, 20, 0, 0, 0, 0, 64, 17, 0, 0, 1, 1, 1, 1, 10, 8, 0, 2]"

lemmas demo_server_defs = demo_server_def new_TlsTunnelServer_def demo_server_events_def server_initial_def
  sv_start_on_strand_def accept_next_def handle_accept_def sv_emit_def Let_def

lemma demo_server_new: "new_TlsTunnelServer (Some 1) True 2 False 10000 300000 = Inr demo_server"
  by (simp add: demo_server_def new_TlsTunnelServer_def)

lemma demo_server_full:
  "sv_sessions (sw_server (fold server_step [Sx_start, Sx_accept None, Sx_accept None, Sx_accept None]
     (server_initial demo_server))) = [1, 0]"
  by (simp add: demo_server_defs)

lemma demo_server_sends:
  "tun_sends (existing (fold server_step demo_server_events (server_initial demo_server)) (\<lambda>_. False)) demo_server_packet
     (sw_server (fold server_step demo_server_events (server_initial demo_server))) = [Sv_send_ipv4 1 demo_server_packet]"
  by code_simp

text \<open>
  However connections arrive, sessions end and the server is stopped, the server holds at most
  the configured number of sessions, each once, the published session count is their number, and a
  session that has not ended is one of them.
\<close>

theorem server_capacity:
  assumes "new_TlsTunnelServer tls_context has_tun limit handler handshake idle = Inr s"
    and "w = fold server_step events (server_initial s)"
  shows "length (sv_sessions (sw_server w)) \<le> limit \<and> distinct (sv_sessions (sw_server w))
    \<and> active_session_count (sw_server w) = length (sv_sessions (sw_server w))
    \<and> (\<forall>p life. map_of (sw_life w) p = Some life \<and> life \<noteq> Ended \<longrightarrow> p \<in> set (sv_sessions (sw_server w)))"
  using tls_server.run_invar [OF server_inv_initial [OF assms(1)], of events] assms(2)
  by (simp add: server_inv_def active_session_count_def)

theorem server_capacity_witness:
  "\<exists>w. w = fold server_step [Sx_start, Sx_accept None, Sx_accept None, Sx_accept None] (server_initial demo_server)
     \<and> sv_sessions (sw_server w) = [1, 0] \<and> length (sv_sessions (sw_server w)) \<le> 2 \<and> active_session_count (sw_server w) = 2"
  using server_capacity [OF demo_server_new refl, of "[Sx_start, Sx_accept None, Sx_accept None, Sx_accept None]"] demo_server_full
  by auto

text \<open>
  C26: A packet of the TUN device goes only to a live session whose lease covers its destination.
  After any run of the server, whatever the TUN device delivers, each send is the unchanged,
  well-formed packet to a session that announced a lease, whose announcement the server accepted,
  that has not ended since, and whose lease has the destination address.
\<close>

theorem server_routes_live:
  assumes "new_TlsTunnelServer tls_context has_tun limit handler handshake idle = Inr s"
    and "w = fold server_step events (server_initial s)"
    and "e \<in> set (tun_sends (existing w others) packet (sw_server w))"
  shows "\<exists>p lease. map_of (sw_life w) p = Some (Announced lease True) \<and> p \<in> set (sv_sessions (sw_server w))
    \<and> (e = Sv_send_ipv4 p packet \<and> routable_ipv4 packet
         \<and> address_key [packet ! 16, packet ! 17, packet ! 18, packet ! 19] = address_key (lease_address lease)
       \<or> e = Sv_send_ipv6 p packet \<and> routable_ipv6 packet \<and> take 16 (drop 24 packet) = lease_ipv6_address lease)"
proof -
  have inv: "server_inv limit w"
    unfolding assms(2) by (rule tls_server.run_invar [OF server_inv_initial [OF assms(1)]])
  then have ok: "routes_ok (map_of (sw_life w)) (sv_router (sw_server w))" by (simp add: server_inv_def)
  have live: "p \<in> set (sv_sessions (sw_server w))" if "map_of (sw_life w) p = Some (Announced l b)" for p l b
    using inv that by (auto simp: server_inv_def)
  from assms(3) show ?thesis
  proof (cases rule: tun_sends_cases)
    case (ipv4 p)
    with routes_okD(1) [OF ok ipv4(3)] live show ?thesis by auto
  next
    case (ipv6 p)
    with routes_okD(2) [OF ok ipv6(3)] live show ?thesis by auto
  qed
qed

theorem server_routes_live_witness:
  "\<exists>w p lease. w = fold server_step demo_server_events (server_initial demo_server)
     \<and> map_of (sw_life w) p = Some (Announced lease True) \<and> p \<in> set (sv_sessions (sw_server w))"
  using server_routes_live [OF demo_server_new refl, of "Sv_send_ipv4 1 demo_server_packet" demo_server_events "\<lambda>_. False"
      demo_server_packet] demo_server_sends
  by (metis list.set_intros(1))

end
