(* ===== verification/Server_Config.thy ===== *)
theory Server_Config
  imports Lease_Manager Tun_Device Tls_Server
begin

text \<open>
  The command line of the server, \<^verbatim>\<open>src/server/server_config.cpp\<close>, and the construction of the
  server's parts from it at the start of \<^verbatim>\<open>run_server\<close> in \<^verbatim>\<open>src/server/main.cpp\<close>. Boost.Asio's
  \<^verbatim>\<open>make_address\<close> and \<^verbatim>\<open>make_address_v6\<close>, the check of the key file and the TLS context are
  parameters.
\<close>

section \<open>Configuration\<close>

datatype MetricsFormat = Json | Prometheus

record ServerConfig =
  cfg_listen_address :: string
  cfg_listen_port :: u16
  cfg_tun_name :: string
  cfg_certificate_chain_file :: string
  cfg_private_key_file :: string
  cfg_client_ca_file :: string
  cfg_client_crl_file :: string
  cfg_first_lease_address :: string
  cfg_last_lease_address :: string
  cfg_gateway_address :: string
  cfg_ipv6_prefix_address :: string
  cfg_ipv6_gateway_address :: string
  cfg_prefix_length :: u8
  cfg_mtu :: u16
  cfg_lease_seconds :: u32
  cfg_worker_threads :: nat
  cfg_maximum_sessions :: nat
  cfg_handshake_timeout_seconds :: u32
  cfg_idle_timeout_seconds :: u32
  cfg_metrics_interval_seconds :: u32
  cfg_metrics_format :: MetricsFormat
  show_help :: bool
  show_version :: bool

definition default_ServerConfig :: ServerConfig where
  "default_ServerConfig =
     \<lparr>cfg_listen_address = ''0.0.0.0'', cfg_listen_port = 8443, cfg_tun_name = ''pvpn0'',
      cfg_certificate_chain_file = [], cfg_private_key_file = [], cfg_client_ca_file = [], cfg_client_crl_file = [],
      cfg_first_lease_address = ''10.8.0.2'', cfg_last_lease_address = ''10.8.0.254'',
      cfg_gateway_address = ''10.8.0.1'', cfg_ipv6_prefix_address = ''fd00:8::'',
      cfg_ipv6_gateway_address = ''fd00:8::1'', cfg_prefix_length = 24, cfg_mtu = 1400, cfg_lease_seconds = 3600,
      cfg_worker_threads = 2, cfg_maximum_sessions = 1024, cfg_handshake_timeout_seconds = 10,
      cfg_idle_timeout_seconds = 300, cfg_metrics_interval_seconds = 60, cfg_metrics_format = Json,
      show_help = False, show_version = False\<rparr>"

definition parse_unsigned :: "string \<Rightarrow> string \<Rightarrow> nat \<Rightarrow> nat \<Rightarrow> nat result" where
  "parse_unsigned option value minimum maximum =
     (let invalid = Inl (Invalid_argument (''invalid value for '' @ option @ '': '' @ value))
      in case from_chars 64 value of
           Fc_ok parsed rest \<Rightarrow>
             if value = [] \<or> rest \<noteq> [] \<or> parsed < minimum \<or> parsed > maximum then invalid else Inr parsed
         | _ \<Rightarrow> invalid)"

text \<open>The chain of comparisons in the loop, for an option that has a value.\<close>

definition apply_option :: "string \<Rightarrow> string \<Rightarrow> ServerConfig \<Rightarrow> ServerConfig result" where
  "apply_option option value config =
     (if option = ''--listen-address'' then Inr (config\<lparr>cfg_listen_address := value\<rparr>)
      else if option = ''--port'' then
        and_then (parse_unsigned option value 1 65535) (\<lambda>n. Inr (config\<lparr>cfg_listen_port := word_of_nat n\<rparr>))
      else if option = ''--tun-name'' then Inr (config\<lparr>cfg_tun_name := value\<rparr>)
      else if option = ''--server-cert'' then Inr (config\<lparr>cfg_certificate_chain_file := value\<rparr>)
      else if option = ''--server-key'' then Inr (config\<lparr>cfg_private_key_file := value\<rparr>)
      else if option = ''--client-ca'' then Inr (config\<lparr>cfg_client_ca_file := value\<rparr>)
      else if option = ''--client-crl'' then Inr (config\<lparr>cfg_client_crl_file := value\<rparr>)
      else if option = ''--lease-start'' then Inr (config\<lparr>cfg_first_lease_address := value\<rparr>)
      else if option = ''--lease-end'' then Inr (config\<lparr>cfg_last_lease_address := value\<rparr>)
      else if option = ''--gateway'' then Inr (config\<lparr>cfg_gateway_address := value\<rparr>)
      else if option = ''--ipv6-prefix'' then Inr (config\<lparr>cfg_ipv6_prefix_address := value\<rparr>)
      else if option = ''--ipv6-gateway'' then Inr (config\<lparr>cfg_ipv6_gateway_address := value\<rparr>)
      else if option = ''--prefix-length'' then
        and_then (parse_unsigned option value 1 32) (\<lambda>n. Inr (config\<lparr>cfg_prefix_length := word_of_nat n\<rparr>))
      else if option = ''--mtu'' then
        and_then (parse_unsigned option value (unat kMinimumIpv6Mtu) (unat kMaximumTunnelMtu))
          (\<lambda>n. Inr (config\<lparr>cfg_mtu := word_of_nat n\<rparr>))
      else if option = ''--lease-seconds'' then
        and_then (parse_unsigned option value 1 4294967295) (\<lambda>n. Inr (config\<lparr>cfg_lease_seconds := word_of_nat n\<rparr>))
      else if option = ''--threads'' then
        and_then (parse_unsigned option value 1 256) (\<lambda>n. Inr (config\<lparr>cfg_worker_threads := n\<rparr>))
      else if option = ''--max-sessions'' then
        and_then (parse_unsigned option value 1 1000000) (\<lambda>n. Inr (config\<lparr>cfg_maximum_sessions := n\<rparr>))
      else if option = ''--handshake-timeout'' then
        and_then (parse_unsigned option value 1 300) (\<lambda>n. Inr (config\<lparr>cfg_handshake_timeout_seconds := word_of_nat n\<rparr>))
      else if option = ''--idle-timeout'' then
        and_then (parse_unsigned option value 1 86400) (\<lambda>n. Inr (config\<lparr>cfg_idle_timeout_seconds := word_of_nat n\<rparr>))
      else if option = ''--metrics-interval'' then
        and_then (parse_unsigned option value 0 86400) (\<lambda>n. Inr (config\<lparr>cfg_metrics_interval_seconds := word_of_nat n\<rparr>))
      else if option = ''--metrics-format'' then
        (if value = ''json'' then Inr (config\<lparr>cfg_metrics_format := Json\<rparr>)
         else if value = ''prometheus'' then Inr (config\<lparr>cfg_metrics_format := Prometheus\<rparr>)
         else Inl (Invalid_argument ''--metrics-format must be json or prometheus''))
      else Inl (Invalid_argument (''unknown option: '' @ option)))"

fun parse_options :: "string list \<Rightarrow> ServerConfig \<Rightarrow> ServerConfig result" where
  "parse_options [] config = Inr config"
| "parse_options (option # arguments) config =
     (if option = ''--help'' \<or> option = ''-h'' then parse_options arguments (config\<lparr>show_help := True\<rparr>)
      else if option = ''--version'' then parse_options arguments (config\<lparr>show_version := True\<rparr>)
      else
       (case arguments of
          [] \<Rightarrow> Inl (Invalid_argument (''missing value for '' @ option))
        | value # arguments \<Rightarrow>
           (case apply_option option value config of
              Inl e \<Rightarrow> Inl e
            | Inr config \<Rightarrow> parse_options arguments config)))"

text \<open>The lease manager of a configuration, as \<^verbatim>\<open>validate\<close> and \<^verbatim>\<open>run_server\<close> construct it.\<close>

definition config_lease_manager :: "(string \<Rightarrow> (bytes \<times> u32) option) \<Rightarrow> ServerConfig \<Rightarrow> LeaseManager result" where
  "config_lease_manager make_address_v6 config =
     and_then (parse_ipv4_address (cfg_first_lease_address config)) (\<lambda>first_addr.
     and_then (parse_ipv4_address (cfg_last_lease_address config)) (\<lambda>last_addr.
     and_then (parse_ipv4_address (cfg_gateway_address config)) (\<lambda>gateway.
     and_then (parse_ipv6_address make_address_v6 (cfg_ipv6_prefix_address config)) (\<lambda>v6_prefix.
     and_then (parse_ipv6_address make_address_v6 (cfg_ipv6_gateway_address config)) (\<lambda>v6_gateway.
       new_LeaseManager first_addr last_addr gateway (cfg_prefix_length config) (cfg_mtu config)
         (uint (cfg_lease_seconds config)) v6_prefix v6_gateway 64)))))"

definition validate :: "(string \<Rightarrow> bool) \<Rightarrow> (string \<Rightarrow> (bytes \<times> u32) option) \<Rightarrow> ServerConfig \<Rightarrow> unit result" where
  "validate is_address make_address_v6 config =
     (if show_help config \<or> show_version config then Inr ()
      else if cfg_certificate_chain_file config = [] \<or> cfg_private_key_file config = [] \<or> cfg_client_ca_file config = [] then
        Inl (Invalid_argument ''--server-cert, --server-key, and --client-ca are required'')
      else if \<not> is_address (cfg_listen_address config) then
        Inl (Invalid_argument ''--listen-address must be a valid IPv4 or IPv6 address'')
      else if cfg_tun_name config = [] \<or> length (cfg_tun_name config) > 15 then
        Inl (Invalid_argument ''--tun-name must contain between 1 and 15 bytes'')
      else and_then (config_lease_manager make_address_v6 config) (\<lambda>_. Inr ()))"

definition parse_server_arguments ::
  "(string \<Rightarrow> bool) \<Rightarrow> (string \<Rightarrow> (bytes \<times> u32) option) \<Rightarrow> string list \<Rightarrow> ServerConfig result" where
  "parse_server_arguments is_address make_address_v6 arguments =
     and_then (parse_options arguments default_ServerConfig) (\<lambda>config.
     and_then (validate is_address make_address_v6 config) (\<lambda>_. Inr config))"

section \<open>Start of the server\<close>

text \<open>
  The objects \<^verbatim>\<open>run_server\<close> constructs, in its order. \<open>tls_context\<close> is what the check of the key
  file and the construction of the TLS context return or throw, \<open>open_tun\<close> and \<open>set_iff\<close> are the
  answers of the kernel; the queue limits of the TUN device are its default arguments.
\<close>

definition start_server :: "nat result \<Rightarrow> (string \<Rightarrow> bool) \<Rightarrow> (string \<Rightarrow> (bytes \<times> u32) option) \<Rightarrow> int
    \<Rightarrow> (string \<Rightarrow> string option) \<Rightarrow> ServerConfig \<Rightarrow> (LeaseManager \<times> LinuxTunDevice \<times> TlsTunnelServer) result" where
  "start_server tls_context is_address make_address_v6 open_tun set_iff config =
     and_then tls_context (\<lambda>context.
     and_then (config_lease_manager make_address_v6 config) (\<lambda>lease_manager.
     and_then (fst (tun_open open_tun set_iff (cfg_tun_name config) 256 (4 * 2 ^ 20))) (\<lambda>tun_device.
     if \<not> is_address (cfg_listen_address config) then Inl (Runtime_error ''make_address'')
     else
       and_then (new_TlsTunnelServer (Some context) True (cfg_maximum_sessions config) True
           (1000 * uint (cfg_handshake_timeout_seconds config)) (1000 * uint (cfg_idle_timeout_seconds config)))
         (\<lambda>server. Inr (lease_manager, tun_device, server)))))"

section \<open>Ranges\<close>

text \<open>What the parser guarantees of the numbers, as far as the rest of the server relies on it.\<close>

definition config_ranges :: "ServerConfig \<Rightarrow> bool" where
  "config_ranges c \<longleftrightarrow> unat (cfg_listen_port c) \<in> {1..65535} \<and> unat (cfg_prefix_length c) \<in> {1..32}
     \<and> unat (cfg_mtu c) \<in> {1280..9000} \<and> 1 \<le> unat (cfg_lease_seconds c)
     \<and> cfg_worker_threads c \<in> {1..256} \<and> cfg_maximum_sessions c \<in> {1..1000000}
     \<and> unat (cfg_handshake_timeout_seconds c) \<in> {1..300} \<and> unat (cfg_idle_timeout_seconds c) \<in> {1..86400}
     \<and> unat (cfg_metrics_interval_seconds c) \<in> {0..86400}"

lemma parse_unsigned_Inr_iff:
  "parse_unsigned option value lo hi = Inr n \<longleftrightarrow>
     from_chars 64 value = Fc_ok n [] \<and> value \<noteq> [] \<and> lo \<le> n \<and> n \<le> hi"
  by (auto simp: parse_unsigned_def Let_def split: from_chars_result.splits if_splits)

lemma parse_unsigned_to_string:
  "n < 2 ^ 64 \<Longrightarrow> lo \<le> n \<Longrightarrow> n \<le> hi \<Longrightarrow> parse_unsigned option (to_string n) lo hi = Inr n"
  using from_chars_to_string [of n 64 "[]"] by (simp add: parse_unsigned_Inr_iff)

lemma mtu_limits: "unat kMinimumIpv6Mtu = 1280" "unat kMaximumTunnelMtu = 9000"
  by (simp_all add: kMinimumIpv6Mtu_def kMaximumTunnelMtu_def)

lemma default_ranges: "config_ranges default_ServerConfig"
  by (simp add: config_ranges_def default_ServerConfig_def)

lemma word_limits:
  "n \<le> 65535 \<Longrightarrow> unat (word_of_nat n :: u16) = n" "n \<le> 255 \<Longrightarrow> unat (word_of_nat n :: u8) = n"
  "n \<le> 4294967295 \<Longrightarrow> unat (word_of_nat n :: u32) = n"
  by (simp_all add: unat_of_nat)

lemma if_Inr_cases: "(if b then x else y) = Inr r \<Longrightarrow> (x = Inr r \<Longrightarrow> P) \<Longrightarrow> (y = Inr r \<Longrightarrow> P) \<Longrightarrow> P"
  by (simp split: if_splits)

lemma unsigned_cases:
  "and_then (parse_unsigned option value lo hi) f = Inr r \<Longrightarrow> (\<And>n. lo \<le> n \<Longrightarrow> n \<le> hi \<Longrightarrow> f n = Inr r \<Longrightarrow> P) \<Longrightarrow> P"
  by (auto simp: and_then_Inr_iff parse_unsigned_Inr_iff)

lemma ranges_text:
  "config_ranges (c\<lparr>cfg_listen_address := v\<rparr>) = config_ranges c" "config_ranges (c\<lparr>cfg_tun_name := v\<rparr>) = config_ranges c"
  "config_ranges (c\<lparr>cfg_certificate_chain_file := v\<rparr>) = config_ranges c" "config_ranges (c\<lparr>cfg_private_key_file := v\<rparr>) = config_ranges c"
  "config_ranges (c\<lparr>cfg_client_ca_file := v\<rparr>) = config_ranges c" "config_ranges (c\<lparr>cfg_client_crl_file := v\<rparr>) = config_ranges c"
  "config_ranges (c\<lparr>cfg_first_lease_address := v\<rparr>) = config_ranges c" "config_ranges (c\<lparr>cfg_last_lease_address := v\<rparr>) = config_ranges c"
  "config_ranges (c\<lparr>cfg_gateway_address := v\<rparr>) = config_ranges c" "config_ranges (c\<lparr>cfg_ipv6_prefix_address := v\<rparr>) = config_ranges c"
  "config_ranges (c\<lparr>cfg_ipv6_gateway_address := v\<rparr>) = config_ranges c" "config_ranges (c\<lparr>cfg_metrics_format := f\<rparr>) = config_ranges c"
  "config_ranges (c\<lparr>show_help := b\<rparr>) = config_ranges c" "config_ranges (c\<lparr>show_version := b\<rparr>) = config_ranges c"
  by (simp_all add: config_ranges_def)

lemma ranges_number:
  assumes "config_ranges c" "lo \<le> n" "n \<le> hi"
  shows "lo = 1 \<Longrightarrow> hi = 65535 \<Longrightarrow> config_ranges (c\<lparr>cfg_listen_port := word_of_nat n\<rparr>)"
    "lo = 1 \<Longrightarrow> hi = 32 \<Longrightarrow> config_ranges (c\<lparr>cfg_prefix_length := word_of_nat n\<rparr>)"
    "lo = 1280 \<Longrightarrow> hi = 9000 \<Longrightarrow> config_ranges (c\<lparr>cfg_mtu := word_of_nat n\<rparr>)"
    "lo = 1 \<Longrightarrow> hi = 4294967295 \<Longrightarrow> config_ranges (c\<lparr>cfg_lease_seconds := word_of_nat n\<rparr>)"
    "lo = 1 \<Longrightarrow> hi = 256 \<Longrightarrow> config_ranges (c\<lparr>cfg_worker_threads := n\<rparr>)"
    "lo = 1 \<Longrightarrow> hi = 1000000 \<Longrightarrow> config_ranges (c\<lparr>cfg_maximum_sessions := n\<rparr>)"
    "lo = 1 \<Longrightarrow> hi = 300 \<Longrightarrow> config_ranges (c\<lparr>cfg_handshake_timeout_seconds := word_of_nat n\<rparr>)"
    "lo = 1 \<Longrightarrow> hi = 86400 \<Longrightarrow> config_ranges (c\<lparr>cfg_idle_timeout_seconds := word_of_nat n\<rparr>)"
    "lo = 0 \<Longrightarrow> hi = 86400 \<Longrightarrow> config_ranges (c\<lparr>cfg_metrics_interval_seconds := word_of_nat n\<rparr>)"
  using assms by (simp_all add: config_ranges_def word_limits)

lemma apply_option_ranges:
  assumes "config_ranges c" "apply_option option value c = Inr c'"
  shows "config_ranges c'"
  using assms(2) unfolding apply_option_def
  by (elim if_Inr_cases unsigned_cases)
    (simp_all only: sum.inject sum.distinct, (hypsubst, simp only: ranges_text assms(1)
      ranges_number [OF assms(1)] mtu_limits refl)+)

lemma parse_options_ranges:
  "config_ranges c \<Longrightarrow> parse_options arguments c = Inr c' \<Longrightarrow> config_ranges c'"
proof (induction arguments c rule: parse_options.induct)
  case (2 option arguments c)
  show ?case
  proof (cases "option = ''--help'' \<or> option = ''-h'' \<or> option = ''--version''")
    case True
    with 2 show ?thesis by (auto simp: config_ranges_def split: if_splits)
  next
    case False
    with 2(5) obtain v rest where "arguments = v # rest" by (cases arguments) simp_all
    with False 2 apply_option_ranges [OF 2(4), of option v] show ?thesis by (auto split: sum.splits)
  qed
qed simp

section \<open>Properties\<close>

lemma new_LeaseManager_mtu: "new_LeaseManager f l g p u d vp vg vl = Inr m \<Longrightarrow> lm_mtu m = u"
  by (auto simp: new_LeaseManager_def Let_def split: if_splits)

text \<open>The command line that names every option, with the values of a configuration.\<close>

definition print_format :: "MetricsFormat \<Rightarrow> string" where
  "print_format f = (case f of Json \<Rightarrow> ''json'' | Prometheus \<Rightarrow> ''prometheus'')"

definition print_arguments :: "ServerConfig \<Rightarrow> string list" where
  "print_arguments c =
     [''--listen-address'', cfg_listen_address c, ''--port'', to_string (unat (cfg_listen_port c)),
      ''--tun-name'', cfg_tun_name c, ''--server-cert'', cfg_certificate_chain_file c,
      ''--server-key'', cfg_private_key_file c, ''--client-ca'', cfg_client_ca_file c,
      ''--client-crl'', cfg_client_crl_file c, ''--lease-start'', cfg_first_lease_address c,
      ''--lease-end'', cfg_last_lease_address c, ''--gateway'', cfg_gateway_address c,
      ''--ipv6-prefix'', cfg_ipv6_prefix_address c, ''--ipv6-gateway'', cfg_ipv6_gateway_address c,
      ''--prefix-length'', to_string (unat (cfg_prefix_length c)), ''--mtu'', to_string (unat (cfg_mtu c)),
      ''--lease-seconds'', to_string (unat (cfg_lease_seconds c)), ''--threads'', to_string (cfg_worker_threads c),
      ''--max-sessions'', to_string (cfg_maximum_sessions c),
      ''--handshake-timeout'', to_string (unat (cfg_handshake_timeout_seconds c)),
      ''--idle-timeout'', to_string (unat (cfg_idle_timeout_seconds c)),
      ''--metrics-interval'', to_string (unat (cfg_metrics_interval_seconds c)),
      ''--metrics-format'', print_format (cfg_metrics_format c)]"

lemma lease_seconds_limit: "unat (w :: u32) \<le> 4294967295"
  using unsigned_less [where 'a=nat, of w] by simp

lemma apply_text_options:
  "apply_option ''--listen-address'' v c = Inr (c\<lparr>cfg_listen_address := v\<rparr>)"
  "apply_option ''--tun-name'' v c = Inr (c\<lparr>cfg_tun_name := v\<rparr>)"
  "apply_option ''--server-cert'' v c = Inr (c\<lparr>cfg_certificate_chain_file := v\<rparr>)"
  "apply_option ''--server-key'' v c = Inr (c\<lparr>cfg_private_key_file := v\<rparr>)"
  "apply_option ''--client-ca'' v c = Inr (c\<lparr>cfg_client_ca_file := v\<rparr>)"
  "apply_option ''--client-crl'' v c = Inr (c\<lparr>cfg_client_crl_file := v\<rparr>)"
  "apply_option ''--lease-start'' v c = Inr (c\<lparr>cfg_first_lease_address := v\<rparr>)"
  "apply_option ''--lease-end'' v c = Inr (c\<lparr>cfg_last_lease_address := v\<rparr>)"
  "apply_option ''--gateway'' v c = Inr (c\<lparr>cfg_gateway_address := v\<rparr>)"
  "apply_option ''--ipv6-prefix'' v c = Inr (c\<lparr>cfg_ipv6_prefix_address := v\<rparr>)"
  "apply_option ''--ipv6-gateway'' v c = Inr (c\<lparr>cfg_ipv6_gateway_address := v\<rparr>)"
  by (simp_all add: apply_option_def)

lemma apply_format_option: "apply_option ''--metrics-format'' (print_format f) c = Inr (c\<lparr>cfg_metrics_format := f\<rparr>)"
  by (cases f) (simp_all add: apply_option_def print_format_def)

lemma apply_number_options:
  assumes "config_ranges d"
  shows "apply_option ''--port'' (to_string (unat (cfg_listen_port d))) c = Inr (c\<lparr>cfg_listen_port := cfg_listen_port d\<rparr>)"
  "apply_option ''--prefix-length'' (to_string (unat (cfg_prefix_length d))) c = Inr (c\<lparr>cfg_prefix_length := cfg_prefix_length d\<rparr>)"
  "apply_option ''--mtu'' (to_string (unat (cfg_mtu d))) c = Inr (c\<lparr>cfg_mtu := cfg_mtu d\<rparr>)"
  "apply_option ''--lease-seconds'' (to_string (unat (cfg_lease_seconds d))) c = Inr (c\<lparr>cfg_lease_seconds := cfg_lease_seconds d\<rparr>)"
  "apply_option ''--threads'' (to_string (cfg_worker_threads d)) c = Inr (c\<lparr>cfg_worker_threads := cfg_worker_threads d\<rparr>)"
  "apply_option ''--max-sessions'' (to_string (cfg_maximum_sessions d)) c = Inr (c\<lparr>cfg_maximum_sessions := cfg_maximum_sessions d\<rparr>)"
  "apply_option ''--handshake-timeout'' (to_string (unat (cfg_handshake_timeout_seconds d))) c
     = Inr (c\<lparr>cfg_handshake_timeout_seconds := cfg_handshake_timeout_seconds d\<rparr>)"
  "apply_option ''--idle-timeout'' (to_string (unat (cfg_idle_timeout_seconds d))) c
     = Inr (c\<lparr>cfg_idle_timeout_seconds := cfg_idle_timeout_seconds d\<rparr>)"
  "apply_option ''--metrics-interval'' (to_string (unat (cfg_metrics_interval_seconds d))) c
     = Inr (c\<lparr>cfg_metrics_interval_seconds := cfg_metrics_interval_seconds d\<rparr>)"
  using assms lease_seconds_limit [of "cfg_lease_seconds d"]
  by (simp_all add: apply_option_def config_ranges_def parse_unsigned_to_string mtu_limits)

lemma parse_options_print:
  assumes "config_ranges c" "\<not> show_help c" "\<not> show_version c"
  shows "parse_options (print_arguments c) default_ServerConfig = Inr c"
  using assms(2,3)
  by (simp add: print_arguments_def apply_text_options apply_format_option apply_number_options [OF assms(1)] default_ServerConfig_def)

text \<open>
  C29: the command line determines the configuration. For every configuration within the ranges of
  the options that the validation accepts, the command line that names every option with its value
  is parsed to exactly that configuration; so each option sets its own field and no other.
\<close>

theorem server_arguments_roundtrip:
  assumes "config_ranges c" and "\<not> show_help c" and "\<not> show_version c"
    and "validate is_address make_address_v6 c = Inr ()"
  shows "parse_server_arguments is_address make_address_v6 (print_arguments c) = Inr c"
  using parse_options_print [OF assms(1-3)] assms(4) by (simp add: parse_server_arguments_def)

text \<open>A concrete configuration: IPv6 texts as the default configuration has them.\<close>

definition demo_mk6 :: "string \<Rightarrow> (bytes \<times> u32) option" where
  "demo_mk6 s =
     (if s = ''fd00:8::'' then Some ([0xFD, 0, 0, 8] @ replicate 12 0, 0)
      else if s = ''fd00:8::1'' then Some ([0xFD, 0, 0, 8] @ replicate 11 0 @ [1], 0) else None)"

definition demo_config :: ServerConfig where
  "demo_config = default_ServerConfig\<lparr>cfg_certificate_chain_file := ''cert.pem'', cfg_private_key_file := ''key.pem'',
     cfg_client_ca_file := ''ca.pem''\<rparr>"

lemma demo_addresses:
  "parse_ipv4_address ''10.8.0.2'' = Inr [10, 8, 0, 2]" "parse_ipv4_address ''10.8.0.254'' = Inr [10, 8, 0, 254]"
  "parse_ipv4_address ''10.8.0.1'' = Inr [10, 8, 0, 1]"
proof -
  have "format_ipv4_address [10, 8, 0, 2] = ''10.8.0.2''" "format_ipv4_address [10, 8, 0, 254] = ''10.8.0.254''"
    "format_ipv4_address [10, 8, 0, 1] = ''10.8.0.1''" by code_simp+
  then show "parse_ipv4_address ''10.8.0.2'' = Inr [10, 8, 0, 2]" "parse_ipv4_address ''10.8.0.254'' = Inr [10, 8, 0, 254]"
    "parse_ipv4_address ''10.8.0.1'' = Inr [10, 8, 0, 1]"
    using parse_format_ipv4 [of 10 8 0 2] parse_format_ipv4 [of 10 8 0 254] parse_format_ipv4 [of 10 8 0 1] by simp_all
qed

lemma demo_pool:
  "\<exists>m. new_LeaseManager [10, 8, 0, 2] [10, 8, 0, 254] [10, 8, 0, 1] 24 1400 3600 ([0xFD, 0, 0, 8] @ replicate 12 0)
     ([0xFD, 0, 0, 8] @ replicate 11 0 @ [1]) 64 = Inr m"
proof -
  have "isl (new_LeaseManager [10, 8, 0, 2] [10, 8, 0, 254] [10, 8, 0, 1] 24 1400 3600 ([0xFD, 0, 0, 8] @ replicate 12 0)
     ([0xFD, 0, 0, 8] @ replicate 11 0 @ [1]) 64) = False" by code_simp
  then show ?thesis using sum.collapse(2) by metis
qed

lemma demo_config_valid: "validate (\<lambda>_. True) demo_mk6 demo_config = Inr ()"
  using demo_pool
  by (auto simp: validate_def demo_config_def default_ServerConfig_def config_lease_manager_def demo_addresses
      parse_ipv6_address_def demo_mk6_def)

lemma demo_config_ranges: "config_ranges demo_config" "\<not> show_help demo_config" "\<not> show_version demo_config"
  using default_ranges by (simp_all add: demo_config_def ranges_text) (simp_all add: default_ServerConfig_def)

theorem server_arguments_roundtrip_witness:
  "parse_server_arguments (\<lambda>_. True) demo_mk6 (print_arguments demo_config) = Inr demo_config"
  by (rule server_arguments_roundtrip [OF demo_config_ranges demo_config_valid])

text \<open>
  An accepted command line starts. If the parser accepts the arguments and neither help nor
  version was asked for, then, with a usable TLS configuration and a kernel that provides the TUN
  device, the construction of the lease manager, the TUN device and the server throws nothing, the
  lease manager satisfies its invariant, the server has the configured limit, and at least one
  worker thread is configured.
\<close>

theorem accepted_arguments_start:
  assumes "parse_server_arguments is_address make_address_v6 arguments = Inr c"
    and "\<not> show_help c" and "\<not> show_version c"
    and "\<forall>s bytes scope. make_address_v6 s = Some (bytes, scope) \<longrightarrow> length bytes = 16"
    and "0 \<le> open_tun" and "set_iff (cfg_tun_name c) = Some name" and "name \<noteq> []"
  shows "\<exists>leases tun server. start_server (Inr context) is_address make_address_v6 open_tun set_iff c = Inr (leases, tun, server)
    \<and> lm_inv leases \<and> lm_mtu leases = cfg_mtu c \<and> tun_name tun = name
    \<and> sv_maximum_sessions server = cfg_maximum_sessions c \<and> 1 \<le> cfg_worker_threads c"
proof -
  have c: "config_ranges c" and v: "validate is_address make_address_v6 c = Inr ()"
    using assms(1) parse_options_ranges [OF default_ranges, of arguments c]
    by (auto simp: parse_server_arguments_def and_then_Inr_iff)
  then obtain lm where lm: "config_lease_manager make_address_v6 c = Inr lm" and a: "is_address (cfg_listen_address c)"
    and n: "length (cfg_tun_name c) \<le> 15"
    using assms(2,3) by (auto simp: validate_def and_then_Inr_iff split: if_splits)
  have len: "parse_ipv4_address s = Inr x \<Longrightarrow> length x = 4" for s x using parse_ipv4_length by blast
  have len6: "parse_ipv6_address make_address_v6 s = Inr x \<Longrightarrow> length x = 16" for s x
    using assms(4) unfolding parse_ipv6_address_def by (auto split: option.splits if_splits) blast
  have "lm_inv lm \<and> lm_mtu lm = cfg_mtu c"
    using lm lm_inv_new len len6 unfolding config_lease_manager_def and_then_Inr_iff
    by (metis new_LeaseManager_mtu)
  moreover have "fst (tun_open open_tun set_iff (cfg_tun_name c) 256 (4 * 2 ^ 20)) = Inr (new_LinuxTunDevice name 256 (4 * 2 ^ 20))"
    using n assms(5-7) by (simp add: tun_open_def tun_adopt_def IFNAMSIZ_def)
  moreover have "\<exists>server. new_TlsTunnelServer (Some context) True (cfg_maximum_sessions c) True
        (1000 * uint (cfg_handshake_timeout_seconds c)) (1000 * uint (cfg_idle_timeout_seconds c)) = Inr server
      \<and> sv_maximum_sessions server = cfg_maximum_sessions c"
    using c by (auto simp: new_TlsTunnelServer_def config_ranges_def uint_0_iff)
  ultimately show ?thesis using lm a c
    by (auto simp: start_server_def new_LinuxTunDevice_def config_ranges_def)
qed

theorem accepted_arguments_start_witness:
  "\<exists>leases tun server. start_server (Inr 1) (\<lambda>_. True) demo_mk6 3 Some demo_config = Inr (leases, tun, server)
     \<and> lm_inv leases \<and> sv_maximum_sessions server = 1024"
proof -
  have "parse_server_arguments (\<lambda>_. True) demo_mk6 (print_arguments demo_config) = Inr demo_config"
    using parse_options_print [OF demo_config_ranges] demo_config_valid by (simp add: parse_server_arguments_def)
  moreover have "\<forall>s bytes scope. demo_mk6 s = Some (bytes, scope) \<longrightarrow> length bytes = 16" by (auto simp: demo_mk6_def)
  moreover have "cfg_tun_name demo_config \<noteq> []" "cfg_maximum_sessions demo_config = 1024"
    by (simp_all add: demo_config_def default_ServerConfig_def)
  ultimately show ?thesis
    using accepted_arguments_start [OF _ demo_config_ranges(2,3), of "\<lambda>_. True" demo_mk6 "print_arguments demo_config" 3 Some
        "cfg_tun_name demo_config" 1] by auto
qed

end
