(* ===== verification/Client_Config.thy ===== *)
theory Client_Config
  imports Network_Transaction
begin

unbundle bit_operations_syntax

text \<open>
  The client's configuration file, \<^verbatim>\<open>src/client/client_config.cpp\<close>. The JSON parser and the property
  tree are Boost's, IPv6 and general address texts are read by Boost.Asio, and paths, file sizes and
  file permissions belong to the file system: all of these are parameters, in a record of the
  operations that the code uses. What is modelled is every check of the source, in its order.
\<close>

section \<open>Configuration\<close>

record ClientConfig =
  server_host :: string
  server_port :: u16
  cc_expected_server_name :: string
  ca_file :: string
  certificate_chain_file :: string
  private_key_file :: string
  cc_requested_mtu :: u16
  routes :: "string list"
  allow_default_route :: bool

text \<open>
  The operations on a property tree of type \<open>'t\<close>: the sequence of its entries, the child and the
  text at a path, and its own text.
\<close>

record 't ptree_ops =
  entries :: "'t \<Rightarrow> (string \<times> 't) list"
  get_child_optional :: "'t \<Rightarrow> string \<Rightarrow> 't option"
  get_optional :: "'t \<Rightarrow> string \<Rightarrow> string option"
  get_value :: "'t \<Rightarrow> string"

text \<open>
  The rest of the environment: \<open>read_config\<close> is the size of the file and the tree that the JSON
  parser reads from it, each \<open>None\<close> on failure; \<open>credential_file\<close> is the normalised absolute path of
  a credential if it is a regular file; \<open>key_permissions\<close> is what
  \<^verbatim>\<open>validate_private_key_permissions\<close> returns or throws; \<open>make_address\<close> tells the scope identifier
  of an IP address text (0 for IPv4).
\<close>

record 't config_env =
  file_size :: "nat option"
  read_json :: "'t option"
  credential_file :: "string \<Rightarrow> string option"
  key_permissions :: "string \<Rightarrow> unit result"
  make_address_v6 :: "string \<Rightarrow> (bytes \<times> u32) option"
  make_address :: "string \<Rightarrow> u32 option"

section \<open>Fields\<close>

fun ensure_keys_loop :: "string list \<Rightarrow> string \<Rightarrow> string set \<Rightarrow> string list \<Rightarrow> unit result" where
  "ensure_keys_loop allowed section_name seen [] = Inr ()"
| "ensure_keys_loop allowed section_name seen (key # keys) =
     (if key = [] \<or> key \<notin> set allowed then
        Inl (Invalid_argument (''unknown field in '' @ section_name @ '': '' @ key))
      else if key \<in> seen then
        Inl (Invalid_argument (''duplicate field in '' @ section_name @ '': '' @ key))
      else ensure_keys_loop allowed section_name (insert key seen) keys)"

definition ensure_keys :: "'t ptree_ops \<Rightarrow> 't \<Rightarrow> string list \<Rightarrow> string \<Rightarrow> unit result" where
  "ensure_keys ops tree allowed section_name = ensure_keys_loop allowed section_name {} (map fst (entries ops tree))"

definition require_section :: "'t ptree_ops \<Rightarrow> 't \<Rightarrow> string \<Rightarrow> 't result" where
  "require_section ops root name =
     (case get_child_optional ops root name of
        Some child \<Rightarrow>
          if entries ops child = [] then Inl (Invalid_argument (''missing or empty configuration section: '' @ name))
          else Inr child
      | None \<Rightarrow> Inl (Invalid_argument (''missing or empty configuration section: '' @ name)))"

text \<open>\<^verbatim>\<open>std::iscntrl\<close> and \<^verbatim>\<open>std::isspace\<close> in the classic locale.\<close>

definition iscntrl :: "char \<Rightarrow> bool" where
  "iscntrl c \<longleftrightarrow> (of_char c :: nat) < 32 \<or> (of_char c :: nat) = 127"

definition isspace :: "char \<Rightarrow> bool" where
  "isspace c \<longleftrightarrow> (of_char c :: nat) = 32 \<or> 9 \<le> (of_char c :: nat) \<and> (of_char c :: nat) \<le> 13"

definition require_text :: "'t ptree_ops \<Rightarrow> 't \<Rightarrow> string \<Rightarrow> nat \<Rightarrow> string result" where
  "require_text ops tree field maximum_length =
     (case get_optional ops tree field of
        None \<Rightarrow> Inl (Invalid_argument (''missing or invalid text field: '' @ field))
      | Some value \<Rightarrow>
          if value = [] \<or> length value > maximum_length then
            Inl (Invalid_argument (''missing or invalid text field: '' @ field))
          else if list_ex (\<lambda>c. iscntrl c \<or> isspace c) value then
            Inl (Invalid_argument (''whitespace and control bytes are forbidden in: '' @ field))
          else Inr value)"

definition require_unsigned :: "'t ptree_ops \<Rightarrow> 't \<Rightarrow> string \<Rightarrow> nat \<Rightarrow> nat \<Rightarrow> nat result" where
  "require_unsigned ops tree field minimum maximum =
     (case get_optional ops tree field of
        None \<Rightarrow> Inl (Invalid_argument (''missing numeric field: '' @ field))
      | Some text' \<Rightarrow>
         (case from_chars 64 text' of
            Fc_ok value rest \<Rightarrow>
              if text' = [] \<or> rest \<noteq> [] \<or> value < minimum \<or> value > maximum then
                Inl (Invalid_argument (''numeric field is out of range: '' @ field))
              else Inr value
          | _ \<Rightarrow> Inl (Invalid_argument (''numeric field is out of range: '' @ field))))"

definition optional_boolean :: "'t ptree_ops \<Rightarrow> 't \<Rightarrow> string \<Rightarrow> bool \<Rightarrow> bool result" where
  "optional_boolean ops tree field fallback =
     (case get_optional ops tree field of
        None \<Rightarrow> Inr fallback
      | Some text' \<Rightarrow>
          if text' = ''true'' then Inr True
          else if text' = ''false'' then Inr False
          else Inl (Invalid_argument (''boolean field must be true or false: '' @ field)))"

definition credential_path :: "'t ptree_ops \<Rightarrow> 't config_env \<Rightarrow> 't \<Rightarrow> string \<Rightarrow> string result" where
  "credential_path ops env tls field =
     and_then (require_text ops tls field 4096) (\<lambda>path.
       case credential_file env path of
         None \<Rightarrow> Inl (Invalid_argument (''credential is not a readable regular file: '' @ field))
       | Some path \<Rightarrow> Inr path)"

section \<open>Routes\<close>

definition route_mask :: "nat \<Rightarrow> u32" where
  "route_mask prefix_length' = (if prefix_length' = 0 then 0 else push_bit (32 - prefix_length') (- 1))"

text \<open>The IPv6 branch and the IPv4 branch.\<close>

definition validate_route_v6 :: "(string \<Rightarrow> (bytes \<times> u32) option) \<Rightarrow> string \<Rightarrow> bool \<Rightarrow> string result" where
  "validate_route_v6 mk6 route allow_default =
     (case string_find (CHR ''/'') route of
        None \<Rightarrow> Inl (Invalid_argument (''route must use IPv6 CIDR notation: '' @ route))
      | Some slash \<Rightarrow>
          if slash = 0 \<or> slash + 1 \<ge> length route then
            Inl (Invalid_argument (''route must use IPv6 CIDR notation: '' @ route))
          else
           (case from_chars 16 (drop (slash + 1) route) of
              Fc_ok len rest \<Rightarrow>
                if rest \<noteq> [] \<or> len > 128 then
                  Inl (Invalid_argument (''IPv6 route prefix is out of range: '' @ route))
                else if len = 0 \<and> \<not> allow_default then
                  Inl (Invalid_argument ''a default route requires tunnel.allow_default_route=true'')
                else
                 (case mk6 (take slash route) of
                    None \<Rightarrow> Inl (Invalid_argument (''IPv6 route address is invalid: '' @ route))
                  | Some (network, scope_id) \<Rightarrow>
                      if scope_id \<noteq> 0 then Inl (Invalid_argument (''IPv6 route address is invalid: '' @ route))
                      else if network \<noteq> clear_host_bits len network then
                        Inl (Invalid_argument (''route address must be the canonical network address: '' @ route))
                      else Inr route)
            | _ \<Rightarrow> Inl (Invalid_argument (''IPv6 route prefix is out of range: '' @ route))))"

definition validate_route_v4 :: "string \<Rightarrow> bool \<Rightarrow> string result" where
  "validate_route_v4 route allow_default =
     (case string_find (CHR ''/'') route of
        None \<Rightarrow> Inl (Invalid_argument (''route must use IPv4 or IPv6 CIDR notation: '' @ route))
      | Some slash \<Rightarrow>
          if slash = 0 \<or> slash + 1 \<ge> length route \<or> string_find (CHR ''/'') (drop (slash + 1) route) \<noteq> None then
            Inl (Invalid_argument (''route must use IPv4 or IPv6 CIDR notation: '' @ route))
          else
           (case from_chars 16 (drop (slash + 1) route) of
              Fc_ok len rest \<Rightarrow>
                if rest \<noteq> [] \<or> len > 32 then
                  Inl (Invalid_argument (''route prefix is out of range: '' @ route))
                else if len = 0 \<and> \<not> allow_default then
                  Inl (Invalid_argument ''a default route requires tunnel.allow_default_route=true'')
                else
                  and_then (parse_ipv4_address (take slash route)) (\<lambda>address.
                    let value = foldl (\<lambda>value octet. push_bit 8 value OR ucast octet) 0 address :: u32;
                        mask' = route_mask len
                    in if (value AND mask') \<noteq> value then
                         Inl (Invalid_argument (''route address must be the canonical network address: '' @ route))
                       else Inr route)
            | _ \<Rightarrow> Inl (Invalid_argument (''route prefix is out of range: '' @ route))))"

definition validate_route :: "(string \<Rightarrow> (bytes \<times> u32) option) \<Rightarrow> string \<Rightarrow> bool \<Rightarrow> string result" where
  "validate_route mk6 route allow_default =
     (if string_find (CHR '':'') route \<noteq> None then validate_route_v6 mk6 route allow_default
      else validate_route_v4 route allow_default)"

text \<open>The loop over the array of routes; \<open>accepted\<close> are the routes so far.\<close>

fun load_routes :: "'t ptree_ops \<Rightarrow> (string \<Rightarrow> (bytes \<times> u32) option) \<Rightarrow> bool \<Rightarrow> (string \<times> 't) list \<Rightarrow> string list
    \<Rightarrow> string list result" where
  "load_routes ops mk6 allow_default [] accepted = Inr accepted"
| "load_routes ops mk6 allow_default ((key, tree) # rest) accepted =
     (if key \<noteq> [] \<or> entries ops tree \<noteq> [] then
        Inl (Invalid_argument ''tunnel.routes must be an array of CIDR strings'')
      else
       (case validate_route mk6 (get_value ops tree) allow_default of
          Inl e \<Rightarrow> Inl e
        | Inr route \<Rightarrow>
            if route \<in> set accepted then Inl (Invalid_argument (''duplicate route: '' @ route))
            else load_routes ops mk6 allow_default rest (accepted @ [route])))"

text \<open>Full tunnel: the condition of \<^verbatim>\<open>load_client_config\<close> and of \<^verbatim>\<open>requests_full_tunnel\<close> in the runtime.\<close>

definition requests_full_tunnel :: "ClientConfig \<Rightarrow> bool" where
  "requests_full_tunnel config \<longleftrightarrow> allow_default_route config
     \<and> (''0.0.0.0/0'' \<in> set (routes config) \<or> ''::/0'' \<in> set (routes config))"

section \<open>Loading\<close>

definition kMaximumConfigBytes :: nat where
  "kMaximumConfigBytes = 64 * 1024"

definition load_client_config :: "'t ptree_ops \<Rightarrow> 't config_env \<Rightarrow> ClientConfig result" where
  "load_client_config ops env =
     (case file_size env of
        None \<Rightarrow> Inl (Invalid_argument ''configuration must be a non-empty regular file up to 64 KiB'')
      | Some size' \<Rightarrow>
     if size' = 0 \<or> size' > kMaximumConfigBytes then
       Inl (Invalid_argument ''configuration must be a non-empty regular file up to 64 KiB'')
     else
     (case read_json env of
        None \<Rightarrow> Inl (Invalid_argument ''configuration is not valid JSON'')
      | Some root \<Rightarrow>
     and_then (ensure_keys ops root [''schema_version'', ''server'', ''tls'', ''tunnel''] ''root'') (\<lambda>_.
     and_then (require_unsigned ops root ''schema_version'' 1 1) (\<lambda>schema_version.
     if schema_version \<noteq> 1 then Inl (Invalid_argument ''unsupported client configuration schema'')
     else
     and_then (require_section ops root ''server'') (\<lambda>server.
     and_then (ensure_keys ops server [''host'', ''port'', ''expected_name''] ''server'') (\<lambda>_.
     and_then (require_section ops root ''tls'') (\<lambda>tls.
     and_then (ensure_keys ops tls [''ca_file'', ''certificate_chain_file'', ''private_key_file''] ''tls'') (\<lambda>_.
     and_then (require_section ops root ''tunnel'') (\<lambda>tunnel.
     and_then (ensure_keys ops tunnel [''requested_mtu'', ''routes'', ''allow_default_route''] ''tunnel'') (\<lambda>_.
     and_then (require_text ops server ''host'' 253) (\<lambda>host.
     and_then (require_unsigned ops server ''port'' 1 65535) (\<lambda>port.
     and_then (require_text ops server ''expected_name'' 253) (\<lambda>expected_name.
     and_then (credential_path ops env tls ''ca_file'') (\<lambda>ca.
     and_then (credential_path ops env tls ''certificate_chain_file'') (\<lambda>chain.
     and_then (credential_path ops env tls ''private_key_file'') (\<lambda>key.
     and_then (key_permissions env key) (\<lambda>_.
     and_then (require_unsigned ops tunnel ''requested_mtu'' (unat kMinimumIpv6Mtu) (unat kMaximumTunnelMtu)) (\<lambda>wanted_mtu.
     and_then (optional_boolean ops tunnel ''allow_default_route'' False) (\<lambda>allow_default.
     case get_child_optional ops tunnel ''routes'' of
       None \<Rightarrow> Inl (Invalid_argument ''tunnel.routes must contain between 1 and 64 routes'')
     | Some array \<Rightarrow>
     if entries ops array = [] \<or> length (entries ops array) > 64 then
       Inl (Invalid_argument ''tunnel.routes must contain between 1 and 64 routes'')
     else
     and_then (load_routes ops (make_address_v6 env) allow_default (entries ops array) []) (\<lambda>accepted.
     let config = \<lparr>server_host = host, server_port = word_of_nat port, cc_expected_server_name = expected_name,
           ca_file = ca, certificate_chain_file = chain, private_key_file = key,
           cc_requested_mtu = word_of_nat wanted_mtu, routes = accepted, allow_default_route = allow_default\<rparr>
     in if requests_full_tunnel config
           \<and> (case make_address env host of None \<Rightarrow> True | Some scope_id \<Rightarrow> scope_id \<noteq> 0) then
          Inl (Invalid_argument ''full-tunnel mode requires a numeric server IP to prevent DNS leakage'')
        else Inr config))))))))))))))))))))"

section \<open>What is accepted\<close>

text \<open>Elimination of a chain of checks that was passed.\<close>

lemma and_then_InrE: "and_then r f = Inr y \<Longrightarrow> (\<And>x. r = Inr x \<Longrightarrow> f x = Inr y \<Longrightarrow> P) \<Longrightarrow> P"
  by (auto simp: and_then_Inr_iff)

lemma guard_InrE: "(if b then Inl e else x) = Inr y \<Longrightarrow> (\<not> b \<Longrightarrow> x = Inr y \<Longrightarrow> P) \<Longrightarrow> P"
  by (simp split: if_splits)

lemma present_InrE:
  "(case m of None \<Rightarrow> Inl e | Some x \<Rightarrow> f x) = Inr y \<Longrightarrow> (\<And>x. m = Some x \<Longrightarrow> f x = Inr y \<Longrightarrow> P) \<Longrightarrow> P"
  by (simp split: option.splits)

lemma number_InrE:
  "(case from_chars w s of Fc_ok n rest \<Rightarrow> f n rest | _ \<Rightarrow> Inl e) = Inr y \<Longrightarrow>
     (\<And>n rest. from_chars w s = Fc_ok n rest \<Longrightarrow> f n rest = Inr y \<Longrightarrow> P) \<Longrightarrow> P"
  by (simp split: from_chars_result.splits)

lemmas check_elims = and_then_InrE guard_InrE present_InrE number_InrE

lemma require_unsigned_Inr: "require_unsigned ops tree field lo hi = Inr n \<Longrightarrow> lo \<le> n \<and> n \<le> hi"
  by (auto simp: require_unsigned_def split: option.splits from_chars_result.splits if_splits)

lemma require_text_Inr:
  "require_text ops tree field k = Inr s \<Longrightarrow> s \<noteq> [] \<and> length s \<le> k \<and> list_all (\<lambda>c. \<not> iscntrl c \<and> \<not> isspace c) s"
  by (auto simp: require_text_def list_all_iff list_ex_iff split: option.splits if_splits)

text \<open>The IPv4 network number has no bit behind the prefix.\<close>

lemma fold_octets: "length a = 4 \<Longrightarrow> foldl (\<lambda>value octet. push_bit 8 value OR ucast octet) 0 a = to_integer a"
proof -
  assume "length a = 4"
  then obtain w x y z where a: "a = [w, x, y, z]" by (auto simp: length_Suc_conv numeral_eq_Suc)
  have "(push_bit 8 (push_bit 8 (push_bit 8 (push_bit 8 0 OR ucast w) OR ucast x) OR ucast y) OR ucast z :: u32)
      = push_bit 24 (ucast w) OR push_bit 16 (ucast x) OR push_bit 8 (ucast y) OR ucast z"
    by (rule bit_word_eqI) (auto simp: bit_or_iff bit_push_bit_iff bit_0_eq)
  then show ?thesis by (simp only: a foldl_Cons foldl_Nil to_integer_def nth_Cons_0 nth_Cons_numeral) simp
qed

lemma bit_route_mask: "n \<le> 32 \<Longrightarrow> bit (route_mask n) k \<longleftrightarrow> k < 32 \<and> 32 - n \<le> k"
  by (auto simp: route_mask_def bit_simps)

lemma canonical_mask:
  assumes "n \<le> 32"
  shows "(v AND route_mask n) = v \<longleftrightarrow> (\<forall>k < 32 - n. \<not> bit v k)"
proof -
  have "(v AND route_mask n) = v \<longleftrightarrow> (\<forall>k < 32. bit v k \<longrightarrow> 32 - n \<le> k)"
    by (auto simp: bit_eq_iff bit_and_iff bit_route_mask [OF assms])
  also have "\<dots> \<longleftrightarrow> (\<forall>k < 32 - n. \<not> bit v k)" by (meson diff_le_self leD leI less_le_trans)
  finally show ?thesis .
qed

text \<open>A route as the network transaction reads it: its length, and that no bit follows the prefix.\<close>

fun canonical_route :: "Ipv4Route + Ipv6Route \<Rightarrow> bool" where
  "canonical_route (Inl r) \<longleftrightarrow> (\<forall>k < 32 - unat (r4_prefix_length r). \<not> bit (to_integer (r4_network r)) k)"
| "canonical_route (Inr r) \<longleftrightarrow> clear_host_bits (unat (r6_prefix_length r)) (r6_network r) = r6_network r"

fun route_length :: "Ipv4Route + Ipv6Route \<Rightarrow> nat" where
  "route_length (Inl r) = unat (r4_prefix_length r)"
| "route_length (Inr r) = unat (r6_prefix_length r)"

lemma validate_route_v4_checks:
  assumes "validate_route_v4 route allow = Inr r"
  shows "\<exists>slash len address. string_find (CHR ''/'') route = Some slash \<and> slash \<noteq> 0 \<and> slash + 1 < length route
    \<and> from_chars 16 (drop (slash + 1) route) = Fc_ok len [] \<and> len \<le> 32 \<and> \<not> (len = 0 \<and> \<not> allow)
    \<and> parse_ipv4_address (take slash route) = Inr address
    \<and> (foldl (\<lambda>value octet. push_bit 8 value OR ucast octet) 0 address AND route_mask len)
       = foldl (\<lambda>value octet. push_bit 8 value OR ucast octet) 0 address \<and> r = route"
  using assms unfolding validate_route_v4_def Let_def
  apply (elim check_elims)
  subgoal for slash len rest address
    by (intro exI [of _ slash] exI [of _ len] exI [of _ address]) simp
  done

lemma validate_route_v4_Inr:
  assumes "validate_route_v4 route allow = Inr r"
  shows "r = route \<and> (\<exists>p. parse_route route g = Inr p \<and> canonical_route (Inl p) \<and> (route_length (Inl p) = 0 \<longrightarrow> allow))"
proof -
  obtain slash len address where s: "string_find (CHR ''/'') route = Some slash" "slash \<noteq> 0" "slash + 1 < length route"
    "from_chars 16 (drop (slash + 1) route) = Fc_ok len []" "len \<le> 32" "\<not> (len = 0 \<and> \<not> allow)"
    "parse_ipv4_address (take slash route) = Inr address"
    "(foldl (\<lambda>value octet. push_bit 8 value OR ucast octet) 0 address AND route_mask len)
       = foldl (\<lambda>value octet. push_bit 8 value OR ucast octet) 0 address" "r = route"
    using validate_route_v4_checks [OF assms] by (elim exE conjE) (rule that)
  let ?p = "\<lparr>r4_network = address, r4_prefix_length = word_of_nat len, r4_gateway = g\<rparr>"
  have len: "unat (word_of_nat len :: u8) = len" using s(5) by (simp add: unat_of_nat)
  have "canonical_route (Inl ?p)"
    using s(5,8) fold_octets [OF parse_ipv4_length [OF s(7)]] by (simp add: canonical_mask len)
  moreover have "parse_route route g = Inr ?p" unfolding parse_route_Inr_iff using s(1-5,7) by blast
  moreover have "route_length (Inl ?p) = 0 \<longrightarrow> allow" using s(6) by (auto simp: len)
  ultimately show ?thesis using s(9) by (intro conjI exI [of _ ?p])
qed

lemma validate_route_v6_checks:
  assumes "validate_route_v6 mk6 route allow = Inr r"
  shows "\<exists>slash len address. string_find (CHR ''/'') route = Some slash \<and> slash \<noteq> 0 \<and> slash + 1 < length route
    \<and> from_chars 16 (drop (slash + 1) route) = Fc_ok len [] \<and> len \<le> 128 \<and> \<not> (len = 0 \<and> \<not> allow)
    \<and> mk6 (take slash route) = Some (address, 0) \<and> clear_host_bits len address = address \<and> r = route"
  using assms unfolding validate_route_v6_def split_beta
  apply (elim check_elims)
  subgoal for slash len rest address
    by (intro exI [of _ slash] exI [of _ len] exI [of _ "fst address"]) (cases address, simp)
  done

lemma validate_route_v6_Inr:
  assumes "validate_route_v6 mk6 route allow = Inr r"
  shows "r = route \<and> (\<exists>p. parse_route_v6 mk6 route g = Inr p \<and> canonical_route (Inr p) \<and> (route_length (Inr p) = 0 \<longrightarrow> allow))"
proof -
  obtain slash len address where s: "string_find (CHR ''/'') route = Some slash" "slash \<noteq> 0" "slash + 1 < length route"
    "from_chars 16 (drop (slash + 1) route) = Fc_ok len []" "len \<le> 128" "\<not> (len = 0 \<and> \<not> allow)"
    "mk6 (take slash route) = Some (address, 0)" "clear_host_bits len address = address" "r = route"
    using validate_route_v6_checks [OF assms] by (elim exE conjE) (rule that)
  let ?p = "\<lparr>r6_network = address, r6_prefix_length = word_of_nat len, r6_gateway = g\<rparr>"
  have len: "unat (word_of_nat len :: u8) = len" using s(5) by (simp add: unat_of_nat)
  have "parse_ipv6_address mk6 (take slash route) = Inr address" using s(7) by (simp add: parse_ipv6_address_def)
  then have "parse_route_v6 mk6 route g = Inr ?p" unfolding parse_route_v6_Inr_iff using s(1-5,8) by blast
  moreover have "canonical_route (Inr ?p)" "route_length (Inr ?p) = 0 \<longrightarrow> allow" using s(6,8) by (auto simp: len)
  ultimately show ?thesis using s(9) by (intro conjI exI [of _ ?p])
qed

lemma validate_route_Inr:
  assumes "validate_route mk6 route allow = Inr r"
  shows "r = route \<and> (\<exists>p. route_of mk6 a route = Inr p \<and> canonical_route p \<and> (route_length p = 0 \<longrightarrow> allow))"
proof (cases "string_find (CHR '':'') route")
  case None
  with assms validate_route_v4_Inr [of route allow r "gateway_address a"] show ?thesis
    by (auto simp: validate_route_def route_of_def)
next
  case (Some k)
  with assms validate_route_v6_Inr [of mk6 route allow r "gateway_ipv6_address a"] show ?thesis
    by (auto simp: validate_route_def route_of_def)
qed

definition route_accepted :: "(string \<Rightarrow> (bytes \<times> u32) option) \<Rightarrow> bool \<Rightarrow> string \<Rightarrow> bool" where
  "route_accepted mk6 allow route \<longleftrightarrow>
     (\<forall>a. \<exists>p. route_of mk6 a route = Inr p \<and> canonical_route p \<and> (route_length p = 0 \<longrightarrow> allow))"

lemma load_routes_Inr:
  "load_routes ops mk6 allow es accepted = Inr rs \<Longrightarrow> distinct accepted \<Longrightarrow>
     distinct rs \<and> length rs = length accepted + length es \<and> (\<forall>r \<in> set rs - set accepted. route_accepted mk6 allow r)"
proof (induction es arbitrary: accepted)
  case (Cons e es)
  obtain key tree where e: "e = (key, tree)" by fastforce
  with Cons.prems obtain r where r: "validate_route mk6 (get_value ops tree) allow = Inr r" "r \<notin> set accepted"
    "load_routes ops mk6 allow es (accepted @ [r]) = Inr rs" by (auto split: if_splits sum.splits)
  have "route_accepted mk6 allow r" unfolding route_accepted_def using validate_route_Inr [OF r(1)] by metis
  with Cons.IH [OF r(3)] Cons.prems(2) r(2) show ?case by auto
qed simp

text \<open>The checks that a configuration has passed.\<close>

definition config_checked :: "'t ptree_ops \<Rightarrow> 't config_env \<Rightarrow> ClientConfig \<Rightarrow> bool" where
  "config_checked ops env c \<longleftrightarrow>
     (\<exists>server array. entries ops array \<noteq> [] \<and> length (entries ops array) \<le> 64
        \<and> load_routes ops (make_address_v6 env) (allow_default_route c) (entries ops array) [] = Inr (routes c)
        \<and> require_text ops server ''host'' 253 = Inr (server_host c)
        \<and> require_text ops server ''expected_name'' 253 = Inr (cc_expected_server_name c))
     \<and> unat (server_port c) \<in> {1..65535} \<and> unat (cc_requested_mtu c) \<in> {1280..9000}
     \<and> (requests_full_tunnel c \<longrightarrow> make_address env (server_host c) = Some 0)"

lemma load_client_config_checked:
  assumes "load_client_config ops env = Inr c"
  shows "config_checked ops env c"
proof -
  have *: "unat (word_of_nat n :: u16) = n" if "n \<le> 65535" for n using that by (simp add: unat_of_nat)
  have m: "unat kMinimumIpv6Mtu = 1280" "unat kMaximumTunnelMtu = 9000"
    by (simp_all add: kMinimumIpv6Mtu_def kMaximumTunnelMtu_def)
  show ?thesis
    using assms unfolding load_client_config_def Let_def
    apply (elim check_elims)
    subgoal premises p for size' root u1 schema server u2 tls u3 tunnel u4 host port name ca chain key u5 wanted allow array accepted
    proof -
      have c: "server_host c = host" "unat (server_port c) = port" "cc_expected_server_name c = name"
        "unat (cc_requested_mtu c) = wanted" "routes c = accepted" "allow_default_route c = allow"
        using p(26) require_unsigned_Inr [OF p(14)] require_unsigned_Inr [OF p(20)] by (auto simp: m *)
      have "entries ops array \<noteq> [] \<and> length (entries ops array) \<le> 64" using p(23) by simp
      moreover have "requests_full_tunnel c \<longrightarrow> make_address env host = Some 0"
        using p(25) p(26) by (auto split: option.splits)
      ultimately show ?thesis
        using p(13,15,24) require_unsigned_Inr [OF p(14)] require_unsigned_Inr [OF p(20)]
        unfolding config_checked_def c m by auto
    qed
    done
qed

section \<open>Properties\<close>


text \<open>A configuration file with one route, and a property tree to hold it.\<close>

datatype demo_tree = Demo_tree string "(string \<times> demo_tree) list"

fun demo_entries :: "demo_tree \<Rightarrow> (string \<times> demo_tree) list" where
  "demo_entries (Demo_tree data children) = children"

fun demo_data :: "demo_tree \<Rightarrow> string" where
  "demo_data (Demo_tree data children) = data"

definition demo_ops :: "demo_tree ptree_ops" where
  "demo_ops = \<lparr>entries = demo_entries, get_child_optional = (\<lambda>t k. map_of (demo_entries t) k),
     get_optional = (\<lambda>t k. map_option demo_data (map_of (demo_entries t) k)), get_value = demo_data\<rparr>"

definition demo_json :: demo_tree where
  "demo_json = Demo_tree []
     [(''schema_version'', Demo_tree ''1'' []),
      (''server'', Demo_tree [] [(''host'', Demo_tree ''vpn'' []), (''port'', Demo_tree ''443'' []),
         (''expected_name'', Demo_tree ''vpn'' [])]),
      (''tls'', Demo_tree [] [(''ca_file'', Demo_tree ''ca'' []), (''certificate_chain_file'', Demo_tree ''crt'' []),
         (''private_key_file'', Demo_tree ''key'' [])]),
      (''tunnel'', Demo_tree [] [(''requested_mtu'', Demo_tree ''1400'' []),
         (''routes'', Demo_tree [] [([], Demo_tree ''10.0.0.0/8'' [])])])]"

definition demo_env :: "demo_tree config_env" where
  "demo_env = \<lparr>file_size = Some 400, read_json = Some demo_json, credential_file = Some,
     key_permissions = (\<lambda>_. Inr ()), make_address_v6 = (\<lambda>_. None), make_address = (\<lambda>_. None)\<rparr>"

lemma demo_numbers:
  "from_chars 64 ''1'' = Fc_ok 1 []" "from_chars 64 ''443'' = Fc_ok 443 []" "from_chars 64 ''1400'' = Fc_ok 1400 []"
  "from_chars 16 ''8'' = Fc_ok 8 []" "from_chars 16 ''00'' = Fc_ok 0 []"
  by (simp_all add: from_chars_def is_digit_def decimal_value_def digit_value_def)

lemma demo_networks: "parse_ipv4_address ''10.0.0.0'' = Inr [10, 0, 0, 0]" "parse_ipv4_address ''0.0.0.0'' = Inr [0, 0, 0, 0]"
proof -
  have "format_ipv4_address [10, 0, 0, 0] = ''10.0.0.0''" "format_ipv4_address [0, 0, 0, 0] = ''0.0.0.0''" by code_simp+
  then show "parse_ipv4_address ''10.0.0.0'' = Inr [10, 0, 0, 0]" "parse_ipv4_address ''0.0.0.0'' = Inr [0, 0, 0, 0]"
    using parse_format_ipv4 [of 10 0 0 0] parse_format_ipv4 [of 0 0 0 0] by simp_all
qed

lemma demo_route: "validate_route mk6 ''10.0.0.0/8'' False = Inr ''10.0.0.0/8''"
  by (simp add: validate_route_def validate_route_v4_def string_find_def demo_numbers demo_networks route_mask_def)
    code_simp

lemma demo_config_loads: "\<exists>c. load_client_config demo_ops demo_env = Inr c \<and> routes c = [''10.0.0.0/8'']"
  by (simp add: load_client_config_def demo_env_def demo_ops_def demo_json_def kMaximumConfigBytes_def ensure_keys_def
      require_unsigned_def demo_numbers require_section_def require_text_def iscntrl_def isspace_def credential_path_def
      kMinimumIpv6Mtu_def kMaximumTunnelMtu_def optional_boolean_def demo_route requests_full_tunnel_def)


text \<open>
  The two default routes are recognised by their usual spelling only. A default route that is
  written otherwise passes every check, and the configuration is not taken for full tunnel.
\<close>

lemma default_route_by_another_spelling:
  "validate_route mk6 ''0.0.0.0/00'' True = Inr ''0.0.0.0/00''"
  "\<exists>p. route_of mk6 a ''0.0.0.0/00'' = Inr p \<and> route_length p = 0"
  "\<not> requests_full_tunnel (c\<lparr>routes := [''0.0.0.0/00''], allow_default_route := True\<rparr>)"
  by (simp_all add: validate_route_def validate_route_v4_def string_find_def demo_numbers demo_networks route_mask_def
      route_of_def parse_route_def requests_full_tunnel_def)

end
