(* ===== verification/Tls_Client.thy ===== *)
theory Tls_Client
  imports Client_Session Wire_Order
begin

text \<open>
  The client's TLS connection, \<^verbatim>\<open>src/client/tls_tunnel_client.cpp\<close>: server name, handshake,
  decoder, client session controller, outbound queue and the single write in flight. As at the
  server, every handler runs on the strand and is one step on the state, what it asks of its
  environment goes to a log, and what the environment answers is an argument.
\<close>

section \<open>State\<close>

text \<open>An error code of the stream, by whether its category is that of TLS.\<close>

datatype stream_error = Ssl_error nat | Other_error nat

fun is_ssl :: "stream_error \<Rightarrow> bool" where
  "is_ssl (Ssl_error _) = True"
| "is_ssl (Other_error _) = False"

datatype tc_effect =
    Tc_handshake
  | Tc_read
  | Tc_write bytes
  | Tc_assignment IpAssignment bool
  | Tc_packet bytes
  | Tc_close_socket
  | Tc_closed "ErrorMessage option" bool
  | Tc_uncaught cxx_exception

record TlsTunnelClient =
  expected_server_name :: string
  tc_packet_sink :: bool
  tc_close_handler :: bool
  tc_controller :: ClientSessionController
  tc_decoder :: FrameDecoder
  tc_queue :: OutboundFrameQueue
  tc_remote_error :: "ErrorMessage option"
  retryable_close :: bool
  tc_started :: bool
  tc_write_in_progress :: bool
  tc_close_after_write :: bool
  tc_stopped :: bool
  tc_log :: "tc_effect list"

definition new_TlsTunnelClient :: "string \<Rightarrow> bool \<Rightarrow> bool \<Rightarrow> u16 \<Rightarrow> nat \<Rightarrow> nat \<Rightarrow> TlsTunnelClient result" where
  "new_TlsTunnelClient server_name sink close_handler wanted_mtu max_frames max_bytes =
     and_then (new_ClientSessionController wanted_mtu) (\<lambda>controller.
       and_then (new_OutboundFrameQueue max_frames max_bytes) (\<lambda>queue.
         if server_name = [] then Inl (Invalid_argument ''expected server name must not be empty'')
         else
           Inr \<lparr>expected_server_name = server_name, tc_packet_sink = sink, tc_close_handler = close_handler,
                tc_controller = controller, tc_decoder = new_FrameDecoder, tc_queue = queue,
                tc_remote_error = None, retryable_close = True, tc_started = False,
                tc_write_in_progress = False, tc_close_after_write = False, tc_stopped = False, tc_log = []\<rparr>))"

definition tc_emit :: "tc_effect \<Rightarrow> TlsTunnelClient \<Rightarrow> TlsTunnelClient" where
  "tc_emit e s = s\<lparr>tc_log := tc_log s @ [e]\<rparr>"

section \<open>Closing and writing\<close>

definition tc_close_now :: "TlsTunnelClient \<Rightarrow> TlsTunnelClient" where
  "tc_close_now s =
     (if tc_stopped s then s
      else
       (let s = s\<lparr>tc_stopped := True, tc_controller := client_on_transport_closed (tc_controller s),
                  tc_queue := queue_clear (tc_queue s)\<rparr>;
            s = tc_emit Tc_close_socket s
        in if tc_close_handler s
           then tc_emit (Tc_closed (tc_remote_error s) (retryable_close s)) (s\<lparr>tc_close_handler := False\<rparr>)
           else s))"

text \<open>\<^verbatim>\<open>retryable_close_ = false; close_now();\<close>\<close>

definition tc_give_up :: "TlsTunnelClient \<Rightarrow> TlsTunnelClient" where
  "tc_give_up s = tc_close_now (s\<lparr>retryable_close := False\<rparr>)"

definition tc_write_next :: "TlsTunnelClient \<Rightarrow> TlsTunnelClient" where
  "tc_write_next s =
     (if tc_stopped s \<or> queue_empty (tc_queue s) then
       (let s = s\<lparr>tc_write_in_progress := False\<rparr>
        in if tc_close_after_write s then tc_close_now s else s)
      else
       (let s = s\<lparr>tc_write_in_progress := True\<rparr>
        in case queue_front (tc_queue s) of
             Inl e \<Rightarrow> tc_emit (Tc_uncaught e) s
           | Inr buffer \<Rightarrow> tc_emit (Tc_write buffer) s))"

definition tc_enqueue_frame :: "Frame \<Rightarrow> TlsTunnelClient \<Rightarrow> bool result \<times> TlsTunnelClient" where
  "tc_enqueue_frame frame s =
     (if tc_stopped s then (Inr False, s\<lparr>retryable_close := False\<rparr>)
      else
       (case try_enqueue (tc_queue s) frame of
          (Inl e, queue) \<Rightarrow> (Inl e, s\<lparr>tc_queue := queue\<rparr>)
        | (Inr False, queue) \<Rightarrow> (Inr False, s\<lparr>tc_queue := queue, retryable_close := False\<rparr>)
        | (Inr True, queue) \<Rightarrow>
           (let s = s\<lparr>tc_queue := queue\<rparr>
            in (Inr True, if \<not> tc_write_in_progress s then tc_write_next s else s))))"

definition tc_handle_write :: "stream_error option \<Rightarrow> TlsTunnelClient \<Rightarrow> TlsTunnelClient" where
  "tc_handle_write error s =
     (if tc_stopped s then s
      else
       (case error of
          Some e \<Rightarrow> tc_close_now (s\<lparr>retryable_close := \<not> is_ssl e\<rparr>)
        | None \<Rightarrow>
           (case pop_front (tc_queue s) of
              (Inl e, queue) \<Rightarrow> tc_emit (Tc_uncaught e) (s\<lparr>tc_queue := queue\<rparr>)
            | (Inr _, queue) \<Rightarrow> tc_write_next (s\<lparr>tc_queue := queue\<rparr>))))"

section \<open>Sending\<close>

text \<open>The common end of the posted handlers: an exception of the queue leaves the handler.\<close>

definition tc_send :: "Frame option \<Rightarrow> TlsTunnelClient \<Rightarrow> TlsTunnelClient" where
  "tc_send frame s =
     (case frame of
        None \<Rightarrow> s
      | Some frame \<Rightarrow>
         (case tc_enqueue_frame frame s of
            (Inl e, s) \<Rightarrow> tc_emit (Tc_uncaught e) s
          | (Inr sent, s) \<Rightarrow> if \<not> sent then tc_close_now s else s))"

definition tc_send_ipv4_from_tun :: "bytes \<Rightarrow> TlsTunnelClient \<Rightarrow> TlsTunnelClient" where
  "tc_send_ipv4_from_tun packet s =
     (if tc_stopped s \<or> tc_close_after_write s then s
      else
       (let (frame, controller) = make_data_to_server (tc_controller s) packet
        in tc_send frame (s\<lparr>tc_controller := controller\<rparr>)))"

definition tc_ping :: "u64 \<Rightarrow> TlsTunnelClient \<Rightarrow> TlsTunnelClient" where
  "tc_ping n s =
     (if tc_stopped s \<or> tc_close_after_write s then s
      else
       (let (frame, controller) = make_ping (tc_controller s) n
        in tc_send frame (s\<lparr>tc_controller := controller\<rparr>)))"

definition tc_stop :: "u16 \<Rightarrow> TlsTunnelClient \<Rightarrow> TlsTunnelClient" where
  "tc_stop code s =
     (if tc_stopped s then s
      else
       (case make_close (tc_controller s) code of
          (None, controller) \<Rightarrow> tc_close_now (s\<lparr>tc_controller := controller\<rparr>)
        | (Some frame, controller) \<Rightarrow>
            tc_send (Some frame) (s\<lparr>tc_controller := controller, tc_close_after_write := True\<rparr>)))"

definition tc_abort :: "TlsTunnelClient \<Rightarrow> TlsTunnelClient" where
  "tc_abort s = tc_close_now s"

section \<open>Handshake and reading\<close>

text \<open>\<open>sni\<close> is what \<^verbatim>\<open>configure_client_sni\<close> returns or throws.\<close>

definition tc_start_on_strand :: "unit result \<Rightarrow> TlsTunnelClient \<Rightarrow> TlsTunnelClient" where
  "tc_start_on_strand sni s =
     (if tc_stopped s \<or> tc_started s then s
      else
       (let s = s\<lparr>tc_started := True\<rparr>
        in case sni of
             Inl e \<Rightarrow> tc_give_up s
           | Inr _ \<Rightarrow> tc_emit Tc_handshake s))"

definition tc_read_next :: "TlsTunnelClient \<Rightarrow> TlsTunnelClient" where
  "tc_read_next s = (if tc_stopped s \<or> tc_close_after_write s then s else tc_emit Tc_read s)"

definition tc_handle_handshake :: "stream_error option \<Rightarrow> TlsTunnelClient \<Rightarrow> TlsTunnelClient" where
  "tc_handle_handshake error s =
     (if tc_stopped s then s
      else
       (case error of
          Some e \<Rightarrow> tc_close_now (s\<lparr>retryable_close := \<not> is_ssl e\<rparr>)
        | None \<Rightarrow>
           (case client_start (tc_controller s) of
              (Inl e, controller) \<Rightarrow> tc_emit (Tc_uncaught e) (s\<lparr>tc_controller := controller\<rparr>)
            | (Inr frame, controller) \<Rightarrow>
               (case tc_enqueue_frame frame (s\<lparr>tc_controller := controller\<rparr>) of
                  (Inl e, s) \<Rightarrow> tc_emit (Tc_uncaught e) s
                | (Inr False, s) \<Rightarrow> tc_give_up s
                | (Inr True, s) \<Rightarrow> tc_read_next s))))"

fun tc_enqueue_frames :: "Frame list \<Rightarrow> TlsTunnelClient \<Rightarrow> bool result \<times> TlsTunnelClient" where
  "tc_enqueue_frames [] s = (Inr True, s)"
| "tc_enqueue_frames (frame # frames) s =
     (case tc_enqueue_frame frame s of
        (Inl e, s) \<Rightarrow> (Inl e, s)
      | (Inr False, s) \<Rightarrow> (Inr False, tc_give_up s)
      | (Inr True, s) \<Rightarrow> tc_enqueue_frames frames s)"

definition tc_deliver_packets :: "bytes list \<Rightarrow> TlsTunnelClient \<Rightarrow> TlsTunnelClient" where
  "tc_deliver_packets packets s = (if tc_packet_sink s then fold (\<lambda>p. tc_emit (Tc_packet p)) packets s else s)"

text \<open>\<open>assignment_handler\<close> is \<open>None\<close> when none is installed; its calls are in the log with their answers.\<close>

definition tc_apply_result :: "(IpAssignment \<Rightarrow> bool) option \<Rightarrow> ClientSessionResult \<Rightarrow> TlsTunnelClient
    \<Rightarrow> unit result \<times> TlsTunnelClient" where
  "tc_apply_result assignment_handler res s =
     (let s = (case cr_remote_error res of
                 None \<Rightarrow> s
               | Some e \<Rightarrow> s\<lparr>tc_remote_error := Some e, retryable_close := False\<rparr>);
          (accepted, s) =
            (case (cr_assignment res, assignment_handler) of
               (Some a, Some handler) \<Rightarrow> (handler a, tc_emit (Tc_assignment a (handler a)) s)
             | _ \<Rightarrow> (True, s))
      in
      if \<not> accepted then (Inr (), tc_give_up s)
      else
       (case tc_enqueue_frames (cr_outbound_frames res) (tc_deliver_packets (cr_packets_to_tun res) s) of
          (Inl e, s) \<Rightarrow> (Inl e, s)
        | (Inr False, s) \<Rightarrow> (Inr (), s)
        | (Inr True, s) \<Rightarrow>
           (Inr (),
            if cr_close_transport res then
             (let s = s\<lparr>tc_close_after_write := True\<rparr>
              in if \<not> tc_write_in_progress s \<and> queue_empty (tc_queue s) then tc_close_now s else s)
            else s)))"

fun tc_handle_frames :: "(IpAssignment \<Rightarrow> bool) option \<Rightarrow> Frame list \<Rightarrow> TlsTunnelClient \<Rightarrow> unit result \<times> TlsTunnelClient" where
  "tc_handle_frames assignment_handler [] s = (Inr (), s)"
| "tc_handle_frames assignment_handler (frame # frames) s =
     (case client_handle (tc_controller s) frame of
        (Inl e, controller) \<Rightarrow> (Inl e, s\<lparr>tc_controller := controller\<rparr>)
      | (Inr res, controller) \<Rightarrow>
         (case tc_apply_result assignment_handler res (s\<lparr>tc_controller := controller\<rparr>) of
            (Inl e, s) \<Rightarrow> (Inl e, s)
          | (Inr _, s) \<Rightarrow>
              if tc_stopped s \<or> tc_close_after_write s then (Inr (), s)
              else tc_handle_frames assignment_handler frames s))"

definition tc_handle_read :: "(IpAssignment \<Rightarrow> bool) option \<Rightarrow> stream_error option \<Rightarrow> bytes
    \<Rightarrow> TlsTunnelClient \<Rightarrow> TlsTunnelClient" where
  "tc_handle_read assignment_handler error buffer s =
     (if tc_stopped s then s
      else
       (case error of
          Some e \<Rightarrow> tc_close_now (s\<lparr>retryable_close := \<not> is_ssl e\<rparr>)
        | None \<Rightarrow>
           (case push (tc_decoder s) buffer of
              (Inl e, decoder) \<Rightarrow> tc_give_up (s\<lparr>tc_decoder := decoder\<rparr>)
            | (Inr frames, decoder) \<Rightarrow>
               (case tc_handle_frames assignment_handler frames (s\<lparr>tc_decoder := decoder\<rparr>) of
                  (Inl e, s) \<Rightarrow> tc_give_up s
                | (Inr _, s) \<Rightarrow> if \<not> tc_stopped s \<and> \<not> tc_close_after_write s then tc_read_next s else s))))"

section \<open>Invariant\<close>

fun tc_writes :: "tc_effect list \<Rightarrow> bytes list" where
  "tc_writes [] = []"
| "tc_writes (Tc_write b # es) = b # tc_writes es"
| "tc_writes (_ # es) = tc_writes es"

lemma tc_writes_append [simp]: "tc_writes (es @ fs) = tc_writes es @ tc_writes fs"
  by (induction es rule: tc_writes.induct) simp_all

fun tc_final :: "tc_effect \<Rightarrow> bool" where
  "tc_final Tc_close_socket = True"
| "tc_final (Tc_closed _ _) = True"
| "tc_final (Tc_uncaught _) = True"
| "tc_final _ = False"

text \<open>The calls of the assignment handler with their answers.\<close>

fun assignments :: "tc_effect list \<Rightarrow> (IpAssignment \<times> bool) list" where
  "assignments [] = []"
| "assignments (Tc_assignment a b # es) = (a, b) # assignments es"
| "assignments (_ # es) = assignments es"

lemma assignments_append [simp]: "assignments (es @ fs) = assignments es @ assignments fs"
  by (induction es rule: assignments.induct) simp_all

text \<open>A packet within the assigned MTU, of consistent length, for the assigned address.\<close>

definition packet_for :: "IpAssignment \<Rightarrow> bytes \<Rightarrow> bool" where
  "packet_for a p \<longleftrightarrow> length p \<le> unat (mtu a)
     \<and> (be16 p 2 = length p \<and> [p ! 16, p ! 17, p ! 18, p ! 19] = client_address a
        \<or> be16 p 4 + 40 = length p \<and> take 16 (drop 24 p) = client_ipv6_address a)"

text \<open>Every packet is delivered after the one assignment was accepted, and belongs to it.\<close>

fun gated :: "(IpAssignment \<times> bool) list \<Rightarrow> tc_effect list \<Rightarrow> bool" where
  "gated calls [] \<longleftrightarrow> True"
| "gated calls (Tc_assignment a b # es) \<longleftrightarrow> gated (calls @ [(a, b)]) es"
| "gated calls (Tc_packet p # es) \<longleftrightarrow> (\<exists>a. calls = [(a, True)] \<and> packet_for a p) \<and> gated calls es"
| "gated calls (_ # es) \<longleftrightarrow> gated calls es"

lemma gated_append [simp]: "gated calls (es @ fs) \<longleftrightarrow> gated calls es \<and> gated (calls @ assignments es) fs"
  by (induction calls es rule: gated.induct) auto

lemma gated_packet:
  "gated [] (before @ Tc_packet p # rest) \<Longrightarrow> \<exists>a. assignments before = [(a, True)] \<and> packet_for a p"
  by simp

text \<open>
  As at the server, \<open>due\<close> are the frames numbered and not yet queued, and \<open>n\<close> counts the completed
  writes; \<open>h\<close> tells whether a close handler was installed.
\<close>

definition tc_wire :: "nat \<Rightarrow> Frame list \<Rightarrow> TlsTunnelClient \<Rightarrow> bool" where
  "tc_wire n due s \<longleftrightarrow>
     (if tc_stopped s then frame_queue (tc_queue s) = []
        \<and> (\<exists>fs k. encodes fs (tc_writes (tc_log s)) \<and> numbered 1 fs k)
      else (tc_write_in_progress s \<longleftrightarrow> frame_queue (tc_queue s) \<noteq> [])
        \<and> length (tc_writes (tc_log s)) = n + (if frame_queue (tc_queue s) = [] then 0 else 1)
        \<and> (\<exists>fs. encodes fs (tc_writes (tc_log s) @ tl (frame_queue (tc_queue s)))
             \<and> numbered 1 (fs @ due) (cs_next_outbound_sequence (tc_controller s))))"

definition tc_base :: "bool \<Rightarrow> TlsTunnelClient \<Rightarrow> bool" where
  "tc_base h s \<longleftrightarrow> client_inv (tc_controller s) \<and> queue_inv (tc_queue s)
     \<and> gated [] (tc_log s) \<and> length (assignments (tc_log s)) \<le> 1
     \<and> (if tc_stopped s
        then \<exists>before. tc_log s = before @ Tc_close_socket
                 # (if h then [Tc_closed (tc_remote_error s) (retryable_close s)] else []) \<and> filter tc_final before = []
        else filter tc_final (tc_log s) = [] \<and> tc_close_handler s = h)"

definition tc_phase :: "TlsTunnelClient \<Rightarrow> bool" where
  "tc_phase s \<longleftrightarrow>
     (cs_state (tc_controller s) = CIdle \<or> cs_state (tc_controller s) = CAwaitingAssignment \<longrightarrow> assignments (tc_log s) = [])
     \<and> (cs_state (tc_controller s) = CEstablished \<longrightarrow>
          (\<exists>a. cs_assignment (tc_controller s) = Some a \<and> assignments (tc_log s) = [(a, True)]))"

definition tc_ok :: "bool \<Rightarrow> nat \<Rightarrow> Frame list \<Rightarrow> TlsTunnelClient \<Rightarrow> bool" where
  "tc_ok h n due s \<longleftrightarrow> tc_base h s \<and> tc_wire n due s \<and> tc_phase s"

lemma tc_emit_fields [simp]:
  "tc_controller (tc_emit e s) = tc_controller s" "tc_queue (tc_emit e s) = tc_queue s"
  "tc_log (tc_emit e s) = tc_log s @ [e]" "tc_stopped (tc_emit e s) = tc_stopped s"
  "tc_write_in_progress (tc_emit e s) = tc_write_in_progress s" "tc_close_handler (tc_emit e s) = tc_close_handler s"
  "tc_remote_error (tc_emit e s) = tc_remote_error s" "retryable_close (tc_emit e s) = retryable_close s"
  "tc_packet_sink (tc_emit e s) = tc_packet_sink s" "tc_close_after_write (tc_emit e s) = tc_close_after_write s"
  "tc_started (tc_emit e s) = tc_started s"
  by (simp_all add: tc_emit_def)

lemmas tc_ok_defs = tc_ok_def tc_base_def tc_wire_def tc_phase_def

text \<open>Flags that the invariant does not read while the client runs.\<close>

lemma tc_flags_ok [simp]:
  "\<not> tc_stopped s \<Longrightarrow> tc_ok h n due (s\<lparr>retryable_close := b\<rparr>) = tc_ok h n due s"
  "\<not> tc_stopped s \<Longrightarrow> tc_ok h n due (s\<lparr>tc_remote_error := x\<rparr>) = tc_ok h n due s"
  "tc_ok h n due (s\<lparr>tc_decoder := d\<rparr>) = tc_ok h n due s" "tc_ok h n due (s\<lparr>tc_started := b\<rparr>) = tc_ok h n due s"
  "tc_ok h n due (s\<lparr>tc_close_after_write := b\<rparr>) = tc_ok h n due s"
  by (simp_all add: tc_ok_defs)

lemma tc_plain_ok [simp]:
  assumes "\<not> tc_stopped s"
  shows "tc_ok h n due (tc_emit Tc_handshake s) = tc_ok h n due s" "tc_ok h n due (tc_emit Tc_read s) = tc_ok h n due s"
  using assms by (simp_all add: tc_ok_defs)

lemma tc_stopped_ok: "tc_stopped s \<Longrightarrow> tc_ok h n due s \<Longrightarrow> tc_ok h n' due' s"
  by (simp add: tc_ok_def tc_wire_def)

lemma tc_close_now_stopped [simp]: "tc_stopped (tc_close_now s)" "tc_stopped (tc_give_up s)"
  by (simp_all add: tc_close_now_def tc_give_up_def Let_def)

text \<open>Closing needs nothing of the phase of the session.\<close>

lemma tc_close_ok:
  assumes base: "tc_base h s" and wire: "tc_wire n due s" and run: "\<not> tc_stopped s"
  shows "tc_ok h n' due' (tc_close_now s)"
proof -
  obtain fs where "encodes fs (tc_writes (tc_log s) @ tl (frame_queue (tc_queue s)))"
    "numbered 1 (fs @ due) (cs_next_outbound_sequence (tc_controller s))"
    using wire run by (auto simp: tc_wire_def)
  then have sent: "\<exists>fs k. encodes fs (tc_writes (tc_log s)) \<and> numbered 1 fs k"
    using encodes_prefix numbered_mono_take numbered_take by blast
  have "client_inv (client_on_transport_closed (tc_controller s))"
    using base client_step_facts [of "tc_controller s" Ce_transport_closed] by (simp add: tc_base_def)
  moreover have "queue_inv (queue_clear (tc_queue s))" by simp
  ultimately show ?thesis using base run sent
    by (auto simp: tc_close_now_def Let_def tc_ok_defs queue_clear_def client_on_transport_closed_def)
qed

lemma tc_close_now_ok:
  assumes "tc_ok h n due s"
  shows "tc_ok h n' due' (tc_close_now s)"
proof (cases "tc_stopped s")
  case True
  then show ?thesis using tc_stopped_ok assms by (simp add: tc_close_now_def)
next
  case False
  then show ?thesis using tc_close_ok assms unfolding tc_ok_def by blast
qed

lemma tc_give_up_ok:
  assumes "tc_ok h n due s" "\<not> tc_stopped s"
  shows "tc_ok h n' due' (tc_give_up s)"
  unfolding tc_give_up_def using tc_close_now_ok [of h n due "s\<lparr>retryable_close := False\<rparr>"] assms by simp

section \<open>Writing keeps the order\<close>

lemma tc_write_next_ok:
  assumes base: "tc_base h s" and ph: "tc_phase s" and run: "\<not> tc_stopped s"
    and fs: "encodes fs (tc_writes (tc_log s) @ frame_queue (tc_queue s))"
    and num: "numbered 1 (fs @ due) (cs_next_outbound_sequence (tc_controller s))"
    and len: "length (tc_writes (tc_log s)) = n"
  shows "tc_ok h n due (tc_write_next s)"
    "frame_queue (tc_queue s) \<noteq> [] \<Longrightarrow> \<not> tc_stopped (tc_write_next s)
       \<and> tc_controller (tc_write_next s) = tc_controller s"
proof -
  have ok: "tc_ok h n due (s\<lparr>tc_write_in_progress := False\<rparr>)" if "frame_queue (tc_queue s) = []"
    using that assms by (auto simp: tc_ok_defs)
  show "tc_ok h n due (tc_write_next s)"
  proof (cases "frame_queue (tc_queue s)")
    case Nil
    then show ?thesis using ok tc_close_now_ok [OF ok, of n due] run
      by (simp add: tc_write_next_def queue_empty_def Let_def)
  next
    case (Cons b rest)
    then have "tc_write_next s = tc_emit (Tc_write b) (s\<lparr>tc_write_in_progress := True\<rparr>)"
      using run by (simp add: tc_write_next_def queue_empty_def queue_front_def)
    moreover have "tc_wire n due (tc_emit (Tc_write b) (s\<lparr>tc_write_in_progress := True\<rparr>))"
      using Cons run fs num len by (auto simp: tc_wire_def)
    ultimately show ?thesis using base ph run by (simp add: tc_ok_def tc_base_def tc_phase_def)
  qed
  show "\<not> tc_stopped (tc_write_next s) \<and> tc_controller (tc_write_next s) = tc_controller s"
    if "frame_queue (tc_queue s) \<noteq> []"
    using that run by (simp add: tc_write_next_def queue_empty_def queue_front_def Let_def split: sum.split)
qed

lemma tc_running:
  assumes "tc_ok h n due s" "\<not> tc_stopped s"
  obtains fs where "encodes fs (tc_writes (tc_log s) @ tl (frame_queue (tc_queue s)))"
    "numbered 1 (fs @ due) (cs_next_outbound_sequence (tc_controller s))"
    "tc_write_in_progress s \<longleftrightarrow> frame_queue (tc_queue s) \<noteq> []"
    "length (tc_writes (tc_log s)) = n + (if frame_queue (tc_queue s) = [] then 0 else 1)"
    "tc_base h s" "tc_phase s" "queue_inv (tc_queue s)"
  using assms by (auto simp: tc_ok_def tc_wire_def tc_base_def)

lemma tc_enqueue_frame_ok:
  assumes ok: "tc_ok h n (f # due) s" and run: "\<not> tc_stopped s"
  shows "tc_enqueue_frame f s = (Inr False, s\<lparr>retryable_close := False\<rparr>) \<or>
    (\<exists>s'. tc_enqueue_frame f s = (Inr True, s') \<and> tc_ok h n due s' \<and> \<not> tc_stopped s'
       \<and> tc_controller s' = tc_controller s)"
proof -
  obtain fs where fs: "encodes fs (tc_writes (tc_log s) @ tl (frame_queue (tc_queue s)))"
    "numbered 1 (fs @ f # due) (cs_next_outbound_sequence (tc_controller s))"
    and wip: "tc_write_in_progress s \<longleftrightarrow> frame_queue (tc_queue s) \<noteq> []"
    and len: "length (tc_writes (tc_log s)) = n + (if frame_queue (tc_queue s) = [] then 0 else 1)"
    and base: "tc_base h s" and ph: "tc_phase s" and qi: "queue_inv (tc_queue s)" by (rule tc_running [OF ok run])
  obtain b where b: "encode_frame f = Inr b" using numbered_encodable [OF fs(2), of f] by auto
  have num: "numbered 1 ((fs @ [f]) @ due) (cs_next_outbound_sequence (tc_controller s))" using fs(2) by simp
  from try_enqueue_numbered [OF b, of "tc_queue s"] show ?thesis
  proof
    assume "try_enqueue (tc_queue s) f = (Inr False, tc_queue s)"
    then show ?thesis using run by (simp add: tc_enqueue_frame_def)
  next
    assume "\<exists>q'. try_enqueue (tc_queue s) f = (Inr True, q') \<and> frame_queue q' = frame_queue (tc_queue s) @ [b]"
    then obtain q' where q': "try_enqueue (tc_queue s) f = (Inr True, q')" "frame_queue q' = frame_queue (tc_queue s) @ [b]"
      by blast
    let ?s = "s\<lparr>tc_queue := q'\<rparr>"
    have base': "tc_base h ?s" and ph': "tc_phase ?s"
      using base ph run queue_inv_enqueue [OF qi, of f] q'(1) by (simp_all add: tc_base_def tc_phase_def)
    have enc: "encodes (fs @ [f]) ((tc_writes (tc_log s) @ tl (frame_queue (tc_queue s))) @ [b])"
      by (rule encodes_snoc [OF fs(1) b])
    show ?thesis
    proof (cases "frame_queue (tc_queue s)")
      case Nil
      then have "encodes (fs @ [f]) (tc_writes (tc_log ?s) @ frame_queue (tc_queue ?s))" using enc q'(2) by simp
      from tc_write_next_ok [OF base' ph' _ this, of due n] Nil wip num run q' len show ?thesis
        by (auto simp: tc_enqueue_frame_def)
    next
      case (Cons a rest)
      then have "tc_wire n due ?s" using enc q'(2) num wip run len by (auto simp: tc_wire_def)
      then show ?thesis using Cons wip run q' base' ph' by (auto simp: tc_enqueue_frame_def tc_ok_def)
    qed
  qed
qed

lemma tc_enqueue_frames_ok:
  "tc_ok h n fs s \<Longrightarrow> \<not> tc_stopped s \<Longrightarrow>
     \<exists>b s'. tc_enqueue_frames fs s = (Inr b, s') \<and> tc_ok h n [] s' \<and> (b \<longrightarrow> \<not> tc_stopped s')"
proof (induction fs arbitrary: s)
  case (Cons f fs)
  from tc_enqueue_frame_ok [OF Cons.prems] show ?case
  proof (elim disjE exE conjE)
    assume "tc_enqueue_frame f s = (Inr False, s\<lparr>retryable_close := False\<rparr>)"
    moreover have "tc_ok h n [] (tc_give_up (s\<lparr>retryable_close := False\<rparr>))"
      using Cons.prems by (intro tc_give_up_ok [of h n "f # fs"]) simp_all
    ultimately show ?thesis by (intro exI [of _ False]) simp
  next
    fix s' assume s': "tc_enqueue_frame f s = (Inr True, s')" "tc_ok h n fs s'" "\<not> tc_stopped s'"
    with Cons.IH [OF s'(2,3)] show ?thesis by auto
  qed
qed auto

lemma tc_send_ok:
  assumes "tc_ok h n (frame_list f) s" "\<not> tc_stopped s"
  shows "tc_ok h n [] (tc_send f s)"
proof (cases f)
  case (Some frame)
  have "tc_ok h n [] (tc_close_now (s\<lparr>retryable_close := False\<rparr>))"
    using tc_close_now_ok [of h n "frame_list f" "s\<lparr>retryable_close := False\<rparr>"] assms by simp
  then show ?thesis using tc_enqueue_frame_ok [of h n frame "[]" s] assms Some
    by (auto simp: tc_send_def frame_list_def)
qed (use assms in \<open>simp add: tc_send_def frame_list_def\<close>)

text \<open>A call of the controller that sends \<open>fs\<close> and keeps an established session.\<close>

lemma tc_controller_ok:
  assumes ok: "tc_ok h n [] s" and run: "\<not> tc_stopped s" and c: "client_inv c"
    and num: "numbered (cs_next_outbound_sequence (tc_controller s)) fs (cs_next_outbound_sequence c)"
  shows "tc_base h (s\<lparr>tc_controller := c\<rparr>)" "tc_wire n fs (s\<lparr>tc_controller := c\<rparr>)"
    "tc_phase (s\<lparr>tc_controller := c\<rparr>) \<Longrightarrow> tc_ok h n fs (s\<lparr>tc_controller := c\<rparr>)"
proof -
  obtain gs where "encodes gs (tc_writes (tc_log s) @ tl (frame_queue (tc_queue s)))"
    "numbered 1 (gs @ []) (cs_next_outbound_sequence (tc_controller s))" using tc_running [OF ok run] by blast
  moreover from this have "numbered 1 (gs @ fs) (cs_next_outbound_sequence c)" using numbered_append [OF _ num] by simp
  ultimately show wire: "tc_wire n fs (s\<lparr>tc_controller := c\<rparr>)"
    using ok run by (auto simp: tc_ok_def tc_wire_def)
  show base: "tc_base h (s\<lparr>tc_controller := c\<rparr>)" using ok run c by (simp add: tc_ok_def tc_base_def)
  show "tc_phase (s\<lparr>tc_controller := c\<rparr>) \<Longrightarrow> tc_ok h n fs (s\<lparr>tc_controller := c\<rparr>)"
    using base wire by (simp add: tc_ok_def)
qed

section \<open>What the controller tells the connection\<close>

lemma client_fail_phase:
  "client_fail c code m = (Inr r, c') \<Longrightarrow> cr_assignment r = None \<and> cs_state c' = CClosing"
  by (auto simp: client_fail_def client_make_outbound_def client_nothing_def split: sum.splits)

lemma client_catch_phase:
  "client_catch c e = (Inr r, c') \<Longrightarrow> cr_assignment r = None \<and> cs_state c' = CClosing"
  by (auto simp: client_catch_def dest: client_fail_phase split: cxx_exception.splits)

lemma receive_assignment_phase:
  "receive_assignment c f = (Inr r, c') \<Longrightarrow>
     (case cr_assignment r of
        Some a \<Rightarrow> cs_state c' = CEstablished \<and> cs_assignment c' = Some a \<and> cr_packets_to_tun r = [] \<and> cr_outbound_frames r = []
      | None \<Rightarrow> cs_state c' = CClosing)"
  by (auto simp: receive_assignment_def client_nothing_def
      dest!: client_catch_phase client_fail_phase split: sum.splits if_splits)

lemma client_dispatch_phase:
  assumes "client_dispatch c f = (Inr r, c')"
  shows "cr_assignment r = None
    \<and> (cs_state c' = cs_state c \<and> cs_assignment c' = cs_assignment c \<or> cs_state c' = CClosing \<or> cs_state c' = CClosed)"
  using assms
  by (cases "frame_type f")
    (auto simp: client_dispatch_def client_make_outbound_def client_nothing_def Let_def
      dest!: client_catch_phase client_fail_phase split: sum.splits option.splits if_splits)

lemma client_handle_phase:
  assumes h: "client_handle c f = (Inr r, c')"
  shows "case cr_assignment r of
      Some a \<Rightarrow> cs_state c = CAwaitingAssignment \<and> cs_state c' = CEstablished \<and> cs_assignment c' = Some a
        \<and> cr_packets_to_tun r = [] \<and> cr_outbound_frames r = []
    | None \<Rightarrow> cs_state c' = cs_state c \<and> cs_assignment c' = cs_assignment c \<and> cs_state c \<noteq> CAwaitingAssignment
        \<or> cs_state c' = CClosing \<or> cs_state c' = CClosed"
proof (cases "cs_state c = CIdle \<or> cs_state c = CClosing \<or> cs_state c = CClosed
    \<or> frame_sequence f \<noteq> cs_next_expected_sequence c")
  case True
  then show ?thesis using h
    by (auto simp: client_handle_def client_nothing_def dest!: client_fail_phase split: if_splits)
next
  case False
  then consider "cs_state c = CAwaitingAssignment" | "cs_state c = CEstablished" by (cases "cs_state c") auto
  then show ?thesis
  proof cases
    case 1
    with False h show ?thesis
      by (auto simp: client_handle_def Let_def dest!: client_fail_phase receive_assignment_phase
          split: if_splits option.splits)
  next
    case 2
    with False h show ?thesis
      by (auto simp: client_handle_def Let_def dest!: client_dispatch_phase)
  qed
qed

lemma client_handle_packet_for:
  assumes "client_handle c f = (Inr r, c')" "p \<in> set (cr_packets_to_tun r)" "client_inv c"
  shows "\<exists>a. cs_state c = CEstablished \<and> cs_assignment c = Some a \<and> packet_for a p"
proof -
  from client_handle_packets [OF assms(1,2)] have est: "cs_state c = CEstablished"
    and d: "client_dispatch (c\<lparr>cs_next_expected_sequence := cs_next_expected_sequence c + 1\<rparr>) f = (Inr r, c')" by simp_all
  then obtain a where a: "cs_assignment c = Some a" using assms(3) by (auto simp: client_inv_def)
  with client_dispatch_packets [OF d assms(2), of a] est show ?thesis by (auto simp: packet_for_def)
qed

section \<open>Reading keeps the order\<close>

lemma tc_deliver_ok:
  assumes "tc_ok h n due s" "\<not> tc_stopped s" "\<forall>p \<in> set ps. \<exists>a. assignments (tc_log s) = [(a, True)] \<and> packet_for a p"
  shows "tc_ok h n due (tc_deliver_packets ps s) \<and> \<not> tc_stopped (tc_deliver_packets ps s)"
proof -
  have "tc_ok h n due (fold (\<lambda>p. tc_emit (Tc_packet p)) ps s) \<and> \<not> tc_stopped (fold (\<lambda>p. tc_emit (Tc_packet p)) ps s)"
    using assms
  proof (induction ps arbitrary: s)
    case (Cons p ps)
    have "tc_ok h n due (tc_emit (Tc_packet p) s)" using Cons.prems by (auto simp: tc_ok_defs)
    then show ?case using Cons.IH [of "tc_emit (Tc_packet p) s"] Cons.prems by simp
  qed simp
  with assms show ?thesis by (simp add: tc_deliver_packets_def)
qed

lemma tc_finish_ok:
  assumes ok: "tc_ok h n (cr_outbound_frames r) s" and run: "\<not> tc_stopped s"
    and ps: "\<forall>p \<in> set (cr_packets_to_tun r). \<exists>a. assignments (tc_log s) = [(a, True)] \<and> packet_for a p"
  shows "\<exists>s'. (case tc_enqueue_frames (cr_outbound_frames r) (tc_deliver_packets (cr_packets_to_tun r) s) of
          (Inl e, s) \<Rightarrow> (Inl e, s)
        | (Inr False, s) \<Rightarrow> (Inr (), s)
        | (Inr True, s) \<Rightarrow>
           (Inr (),
            if cr_close_transport r then
             (let s = s\<lparr>tc_close_after_write := True\<rparr>
              in if \<not> tc_write_in_progress s \<and> queue_empty (tc_queue s) then tc_close_now s else s)
            else s)) = (Inr (), s') \<and> tc_ok h n [] s'"
proof -
  let ?d = "tc_deliver_packets (cr_packets_to_tun r) s"
  obtain b s' where s': "tc_enqueue_frames (cr_outbound_frames r) ?d = (Inr b, s')" "tc_ok h n [] s'"
    using tc_enqueue_frames_ok tc_deliver_ok [OF ok run ps] by blast
  then have "tc_ok h n [] (tc_close_now (s'\<lparr>tc_close_after_write := True\<rparr>))" by (intro tc_close_now_ok [of h n "[]"]) simp
  with s' show ?thesis by (cases b) (simp_all add: Let_def)
qed

text \<open>The result of a call of the controller, applied.\<close>

lemma tc_apply_handled_ok:
  assumes ok: "tc_ok h n [] s" and run: "\<not> tc_stopped s" and hd: "client_handle (tc_controller s) f = (res, c)"
  shows "\<exists>r s'. res = Inr r \<and> tc_apply_result (Some handler) r (s\<lparr>tc_controller := c\<rparr>) = (Inr (), s') \<and> tc_ok h n [] s'"
proof -
  have inv: "client_inv (tc_controller s)" using ok by (simp add: tc_ok_def tc_base_def)
  obtain r where r: "res = Inr r" using client_handle_outcome [OF inv, of f] hd by auto
  note hd = hd [unfolded r]
  have c: "client_inv c" and num: "numbered (cs_next_outbound_sequence (tc_controller s)) (cr_outbound_frames r) (cs_next_outbound_sequence c)"
    using client_step_facts [OF inv, of "Ce_frame f"] hd by simp_all
  define s1 where "s1 = (case cr_remote_error r of
                 None \<Rightarrow> s
               | Some e \<Rightarrow> s\<lparr>tc_remote_error := Some e, retryable_close := False\<rparr>)"
  have s1: "tc_ok h n [] s1" "\<not> tc_stopped s1" "tc_controller s1 = tc_controller s" "tc_log s1 = tc_log s"
    using ok run by (simp_all add: s1_def split: option.split)
  have ap: "(case cr_remote_error r of None \<Rightarrow> s\<lparr>tc_controller := c\<rparr>
      | Some e \<Rightarrow> s\<lparr>tc_controller := c, tc_remote_error := Some e, retryable_close := False\<rparr>) = s1\<lparr>tc_controller := c\<rparr>"
    by (simp add: s1_def split: option.split)
  note C = tc_controller_ok [OF s1(1,2) c num [folded s1(3)]]
  show ?thesis
  proof (cases "cr_assignment r")
    case None
    then have ph: "tc_phase (s1\<lparr>tc_controller := c\<rparr>)"
      using client_handle_phase [OF hd] s1(1) unfolding tc_ok_def tc_phase_def s1(3) by auto
    have "\<forall>p \<in> set (cr_packets_to_tun r). \<exists>a. assignments (tc_log s) = [(a, True)] \<and> packet_for a p"
      using client_handle_packet_for [OF hd _ inv] ok by (fastforce simp: tc_ok_def tc_phase_def)
    with tc_finish_ok [OF C(3) [OF ph]] s1 obtain s' where
      "tc_apply_result (Some handler) r (s\<lparr>tc_controller := c\<rparr>) = (Inr (), s')" "tc_ok h n [] s'"
      unfolding tc_apply_result_def by (auto simp: None ap)
    with r show ?thesis by blast
  next
    case (Some a)
    then have h: "cs_state (tc_controller s) = CAwaitingAssignment" "cs_state c = CEstablished" "cs_assignment c = Some a"
      "cr_packets_to_tun r = []" "cr_outbound_frames r = []" using client_handle_phase [OF hd] by simp_all
    then have none: "assignments (tc_log s1) = []" using ok s1(4) by (simp add: tc_ok_def tc_phase_def)
    let ?a = "tc_emit (Tc_assignment a (handler a)) (s1\<lparr>tc_controller := c\<rparr>)"
    have base: "tc_base h ?a" using C(1) none s1(2) by (simp add: tc_base_def)
    have wire: "tc_wire n [] ?a" using C(2) h(5) s1(2) by (simp add: tc_wire_def)
    have e: "tc_apply_result (Some handler) r (s\<lparr>tc_controller := c\<rparr>) =
      (if \<not> handler a then (Inr (), tc_give_up ?a)
       else (Inr (), if cr_close_transport r then
             (let s = ?a\<lparr>tc_close_after_write := True\<rparr>
              in if \<not> tc_write_in_progress s \<and> queue_empty (tc_queue s) then tc_close_now s else s) else ?a))"
      unfolding tc_apply_result_def using h(4,5)
      by (simp add: Some ap tc_deliver_packets_def Let_def)
    have "tc_ok h n [] (tc_give_up ?a)"
      unfolding tc_give_up_def
      by (rule tc_close_ok [of _ _ n "[]"]) (use base wire s1(2) in \<open>simp_all add: tc_base_def tc_wire_def\<close>)
    moreover have "tc_ok h n [] ?a" if "handler a" using that base wire h none by (simp add: tc_ok_def tc_phase_def)
    moreover from this have "tc_ok h n [] (tc_close_now (?a\<lparr>tc_close_after_write := True\<rparr>))" if "handler a"
      using that tc_close_now_ok [of h n "[]" "?a\<lparr>tc_close_after_write := True\<rparr>"] by simp
    ultimately show ?thesis using r e by (cases "handler a") (simp_all add: Let_def)
  qed
qed

lemma tc_handle_frames_ok:
  "tc_ok h n [] s \<Longrightarrow> \<not> tc_stopped s \<Longrightarrow>
     \<exists>s'. tc_handle_frames (Some handler) fs s = (Inr (), s') \<and> tc_ok h n [] s'"
proof (induction fs arbitrary: s)
  case (Cons f fs)
  obtain res c where hd: "client_handle (tc_controller s) f = (res, c)" by fastforce
  from tc_apply_handled_ok [OF Cons.prems hd, of handler] obtain r s' where
    s': "res = Inr r" "tc_apply_result (Some handler) r (s\<lparr>tc_controller := c\<rparr>) = (Inr (), s')" "tc_ok h n [] s'" by blast
  with Cons.IH [OF s'(3)] hd show ?case by auto
qed auto

lemma tc_handle_read_ok:
  assumes "tc_ok h n [] s"
  shows "tc_ok h n [] (tc_handle_read (Some handler) error buffer s)"
proof (cases "tc_stopped s")
  case True
  then show ?thesis using assms by (simp add: tc_handle_read_def)
next
  case run: False
  show ?thesis
  proof (cases error)
    case (Some e)
    then show ?thesis using run assms tc_close_now_ok [of h n "[]" "s\<lparr>retryable_close := b\<rparr>" n "[]" for b]
      by (simp add: tc_handle_read_def)
  next
    case None
    obtain res d where p: "push (tc_decoder s) buffer = (res, d)" by fastforce
    have ok: "tc_ok h n [] (s\<lparr>tc_decoder := d\<rparr>)" "\<not> tc_stopped (s\<lparr>tc_decoder := d\<rparr>)" using assms run by simp_all
    show ?thesis
    proof (cases res)
      case (Inl e)
      then show ?thesis using run None p tc_give_up_ok [OF ok] by (simp add: tc_handle_read_def)
    next
      case (Inr fs)
      from tc_handle_frames_ok [OF ok, of handler fs] Inr run None p show ?thesis
        by (auto simp: tc_handle_read_def tc_read_next_def)
    qed
  qed
qed

lemma tc_handle_write_ok:
  assumes ok: "tc_ok h n [] s" and out: "n < length (tc_writes (tc_log s))"
  shows "tc_ok h (Suc n) [] (tc_handle_write error s)"
proof (cases "tc_stopped s")
  case True
  then show ?thesis using tc_stopped_ok [OF _ ok] by (simp add: tc_handle_write_def)
next
  case run: False
  show ?thesis
  proof (cases error)
    case (Some e)
    then show ?thesis using run ok tc_close_now_ok [of h n "[]" "s\<lparr>retryable_close := b\<rparr>" "Suc n" "[]" for b]
      by (simp add: tc_handle_write_def)
  next
    case None
    obtain fs where fs: "encodes fs (tc_writes (tc_log s) @ tl (frame_queue (tc_queue s)))"
      "numbered 1 (fs @ []) (cs_next_outbound_sequence (tc_controller s))"
      and len: "length (tc_writes (tc_log s)) = n + (if frame_queue (tc_queue s) = [] then 0 else 1)"
      and base: "tc_base h s" and ph: "tc_phase s" and qi: "queue_inv (tc_queue s)" using tc_running [OF ok run] by blast
    obtain b rest where q: "frame_queue (tc_queue s) = b # rest" using out len by (cases "frame_queue (tc_queue s)") auto
    let ?s = "s\<lparr>tc_queue := snd (pop_front (tc_queue s))\<rparr>"
    have q': "frame_queue (snd (pop_front (tc_queue s))) = rest" "fst (pop_front (tc_queue s)) = Inr ()"
      using q by (simp_all add: pop_front_def)
    have "tc_base h ?s" "tc_phase ?s" using base ph queue_inv_pop [OF qi] run by (simp_all add: tc_base_def tc_phase_def)
    from tc_write_next_ok(1) [OF this, of fs "[]" "Suc n"] fs q q' len run
    have "tc_ok h (Suc n) [] (tc_write_next ?s)" by simp
    then show ?thesis using run None q' by (cases "pop_front (tc_queue s)") (simp add: tc_handle_write_def)
  qed
qed

section \<open>Sending keeps the order\<close>

lemma tc_made_ok:
  assumes ok: "tc_ok h n [] s" and run: "\<not> tc_stopped s" and c: "client_inv c"
    and num: "numbered (cs_next_outbound_sequence (tc_controller s)) fs (cs_next_outbound_sequence c)"
    and st: "cs_state c = cs_state (tc_controller s) \<and> cs_assignment c = cs_assignment (tc_controller s) \<or> cs_state c = CClosing"
  shows "tc_ok h n fs (s\<lparr>tc_controller := c\<rparr>)"
  using st ok by (intro tc_controller_ok(3) [OF ok run c num]) (auto simp: tc_ok_def tc_phase_def)

lemma tc_send_packet_ok:
  assumes ok: "tc_ok h n [] s"
  shows "tc_ok h n [] (tc_send_ipv4_from_tun packet s)"
proof (cases "tc_stopped s \<or> tc_close_after_write s")
  case False
  obtain f c where f: "make_data_to_server (tc_controller s) packet = (f, c)" by fastforce
  have inv: "client_inv (tc_controller s)" using ok by (simp add: tc_ok_def tc_base_def)
  have "cs_assignment c = cs_assignment (tc_controller s)"
    using f by (auto simp: make_data_to_server_def client_make_outbound_def split: if_splits option.splits)
  with make_data_to_server_inv [OF inv f] False have "tc_ok h n (frame_list f) (s\<lparr>tc_controller := c\<rparr>)"
    by (intro tc_made_ok [OF ok]) simp_all
  then show ?thesis using tc_send_ok False f by (simp add: tc_send_ipv4_from_tun_def)
qed (use ok in \<open>auto simp: tc_send_ipv4_from_tun_def\<close>)

lemma tc_ping_ok:
  assumes ok: "tc_ok h n [] s"
  shows "tc_ok h n [] (tc_ping k s)"
proof (cases "tc_stopped s \<or> tc_close_after_write s")
  case False
  obtain f c where f: "make_ping (tc_controller s) k = (f, c)" by fastforce
  have inv: "client_inv (tc_controller s)" using ok by (simp add: tc_ok_def tc_base_def)
  have "cs_assignment c = cs_assignment (tc_controller s)" "cs_state c = cs_state (tc_controller s)"
    using f by (auto simp: make_ping_def client_make_outbound_def split: if_splits)
  with client_step_facts [OF inv, of "Ce_ping k"] False f have "tc_ok h n (frame_list f) (s\<lparr>tc_controller := c\<rparr>)"
    by (intro tc_made_ok [OF ok]) simp_all
  then show ?thesis using tc_send_ok False f by (simp add: tc_ping_def)
qed (use ok in \<open>auto simp: tc_ping_def\<close>)

lemma tc_stop_ok:
  assumes ok: "tc_ok h n [] s"
  shows "tc_ok h n [] (tc_stop code s)"
proof (cases "tc_stopped s")
  case False
  obtain f c where f: "make_close (tc_controller s) code = (f, c)" by fastforce
  have inv: "client_inv (tc_controller s)" using ok by (simp add: tc_ok_def tc_base_def)
  have "cs_assignment c = cs_assignment (tc_controller s) \<and> cs_state c = cs_state (tc_controller s) \<or> cs_state c = CClosing"
    using f by (auto simp: make_close_def client_make_outbound_def Let_def split: if_splits)
  with client_step_facts [OF inv, of "Ce_close code"] False f have made: "tc_ok h n (frame_list f) (s\<lparr>tc_controller := c\<rparr>)"
    by (intro tc_made_ok [OF ok]) auto
  show ?thesis
  proof (cases f)
    case None
    then show ?thesis using tc_close_now_ok [OF made] False f by (simp add: tc_stop_def)
  next
    case (Some frame)
    have "tc_ok h n (frame_list f) (s\<lparr>tc_controller := c, tc_close_after_write := True\<rparr>)" using made by simp
    from tc_send_ok [OF this] Some False f show ?thesis by (simp add: tc_stop_def)
  qed
qed (use ok in \<open>simp add: tc_stop_def\<close>)

lemma tc_start_ok: "tc_ok h n [] s \<Longrightarrow> tc_ok h n [] (tc_start_on_strand sni s)"
  using tc_give_up_ok [of h n "[]" "s\<lparr>tc_started := True\<rparr>" n "[]"]
  by (auto simp: tc_start_on_strand_def Let_def split: sum.split)

lemma tc_handle_handshake_ok:
  assumes ok: "tc_ok h n [] s" and idle: "tc_stopped s \<or> cs_state (tc_controller s) = CIdle"
  shows "tc_ok h n [] (tc_handle_handshake error s)"
proof (cases "tc_stopped s")
  case True
  then show ?thesis using ok by (simp add: tc_handle_handshake_def)
next
  case run: False
  then have idle: "cs_state (tc_controller s) = CIdle" using idle by simp
  have inv: "client_inv (tc_controller s)" using ok by (simp add: tc_ok_def tc_base_def)
  show ?thesis
  proof (cases error)
    case (Some e)
    then show ?thesis using run ok tc_close_now_ok [of h n "[]" "s\<lparr>retryable_close := b\<rparr>" n "[]" for b]
      by (simp add: tc_handle_handshake_def)
  next
    case None
    obtain f c where f: "client_start (tc_controller s) = (Inr f, c)" and st: "cs_state c = CAwaitingAssignment"
      using inv idle by (auto simp: client_start_def client_inv_def client_make_outbound_def Let_def)
    have "tc_ok h n [f] (s\<lparr>tc_controller := c\<rparr>)"
    proof (rule tc_controller_ok(3) [OF ok run])
      show "client_inv c" "numbered (cs_next_outbound_sequence (tc_controller s)) [f] (cs_next_outbound_sequence c)"
        using client_step_facts [OF inv, of Ce_start] f by simp_all
      show "tc_phase (s\<lparr>tc_controller := c\<rparr>)" using ok idle st by (simp add: tc_ok_def tc_phase_def)
    qed
    then show ?thesis using tc_enqueue_frame_ok [of h n f "[]" "s\<lparr>tc_controller := c\<rparr>"] run None f
        tc_give_up_ok [of h n "[f]" "s\<lparr>tc_controller := c, retryable_close := False\<rparr>" n "[]"]
      by (auto simp: tc_handle_handshake_def tc_read_next_def)
  qed
qed

section \<open>A connection and its asynchronous operations\<close>

text \<open>
  The completion of the handshake, of a read and of a write comes only for an operation that was
  started and has not completed; everything else can happen at any time. An assignment handler is
  installed, as the runtime does.
\<close>

datatype tc_event =
    Tw_start "unit result"
  | Tw_handshake "stream_error option"
  | Tw_read "IpAssignment \<Rightarrow> bool" "stream_error option" bytes
  | Tw_write_done "stream_error option"
  | Tw_packet bytes
  | Tw_ping u64
  | Tw_stop u16
  | Tw_abort

record tc_world =
  tw_client :: TlsTunnelClient
  tw_handshaken :: bool
  tw_reads_done :: nat
  tw_writes_done :: nat

fun tc_is_read :: "tc_effect \<Rightarrow> bool" where
  "tc_is_read Tc_read = True"
| "tc_is_read _ = False"

definition tw_apply :: "(TlsTunnelClient \<Rightarrow> TlsTunnelClient) \<Rightarrow> tc_world \<Rightarrow> tc_world" where
  "tw_apply f w = w\<lparr>tw_client := f (tw_client w)\<rparr>"

fun tw_step :: "tc_event \<Rightarrow> tc_world \<Rightarrow> tc_world" where
  "tw_step (Tw_start sni) w = tw_apply (tc_start_on_strand sni) w"
| "tw_step (Tw_handshake error) w =
     (if Tc_handshake \<notin> set (tc_log (tw_client w)) \<or> tw_handshaken w then w
      else tw_apply (tc_handle_handshake error) (w\<lparr>tw_handshaken := True\<rparr>))"
| "tw_step (Tw_read handler error buffer) w =
     (if length (filter tc_is_read (tc_log (tw_client w))) \<le> tw_reads_done w then w
      else tw_apply (tc_handle_read (Some handler) error buffer) (w\<lparr>tw_reads_done := tw_reads_done w + 1\<rparr>))"
| "tw_step (Tw_write_done error) w =
     (if length (tc_writes (tc_log (tw_client w))) \<le> tw_writes_done w then w
      else tw_apply (tc_handle_write error) (w\<lparr>tw_writes_done := tw_writes_done w + 1\<rparr>))"
| "tw_step (Tw_packet packet) w = tw_apply (tc_send_ipv4_from_tun packet) w"
| "tw_step (Tw_ping n) w = tw_apply (tc_ping n) w"
| "tw_step (Tw_stop code) w = tw_apply (tc_stop code) w"
| "tw_step Tw_abort w = tw_apply tc_abort w"

definition tw_initial :: "TlsTunnelClient \<Rightarrow> tc_world" where
  "tw_initial s = \<lparr>tw_client = s, tw_handshaken = False, tw_reads_done = 0, tw_writes_done = 0\<rparr>"

text \<open>Until the handshake completes the controller is idle, and nothing is read or written.\<close>

definition tc_quiet :: "TlsTunnelClient \<Rightarrow> bool" where
  "tc_quiet s \<longleftrightarrow> (tc_stopped s \<or> cs_state (tc_controller s) = CIdle)
     \<and> filter tc_is_read (tc_log s) = [] \<and> tc_writes (tc_log s) = []"

definition tw_inv :: "bool \<Rightarrow> tc_world \<Rightarrow> bool" where
  "tw_inv h w \<longleftrightarrow> tc_ok h (tw_writes_done w) [] (tw_client w) \<and> (\<not> tw_handshaken w \<longrightarrow> tc_quiet (tw_client w))"

lemma tc_quiet_steps:
  assumes "tc_quiet s"
  shows "tc_quiet (tc_start_on_strand sni s)" "tc_quiet (tc_send_ipv4_from_tun packet s)" "tc_quiet (tc_ping n s)"
    "tc_quiet (tc_stop code s)" "tc_quiet (tc_close_now s)"
  using assms
  by (auto simp: tc_quiet_def tc_start_on_strand_def tc_send_ipv4_from_tun_def tc_ping_def tc_stop_def tc_give_up_def
      tc_close_now_def make_data_to_server_def make_ping_def make_close_def tc_send_def Let_def split: sum.split)

lemma tw_step_inv:
  assumes inv: "tw_inv h w"
  shows "tw_inv h (tw_step e w)"
proof -
  let ?s = "tw_client w"
  have ok: "tc_ok h (tw_writes_done w) [] ?s" and quiet: "\<not> tw_handshaken w \<Longrightarrow> tc_quiet ?s"
    using inv by (simp_all add: tw_inv_def)
  show ?thesis
  proof (cases e)
    case (Tw_handshake error)
    then show ?thesis using inv tc_handle_handshake_ok [OF ok, of error] quiet
      by (simp add: tw_inv_def tw_apply_def tc_quiet_def)
  next
    case (Tw_read handler error buffer)
    then show ?thesis using inv tc_handle_read_ok [OF ok, of handler error buffer]
      by (auto simp: tw_inv_def tw_apply_def tc_quiet_def)
  next
    case (Tw_write_done error)
    then show ?thesis using inv tc_handle_write_ok [OF ok, of error]
      by (auto simp: tw_inv_def tw_apply_def tc_quiet_def)
  qed (use tc_quiet_steps quiet tc_start_ok [OF ok] tc_send_packet_ok [OF ok] tc_ping_ok [OF ok] tc_stop_ok [OF ok]
      tc_close_now_ok [OF ok] in \<open>simp_all add: tw_inv_def tw_apply_def tc_abort_def\<close>)
qed

interpretation tls_client: event_machine tw_step "tw_inv h"
  by unfold_locales (rule tw_step_inv)

lemma tw_inv_initial:
  assumes "new_TlsTunnelClient name sink h u mf mb = Inr s"
  shows "tw_inv h (tw_initial s)"
proof -
  obtain c q where c: "new_ClientSessionController u = Inr c" and q: "new_OutboundFrameQueue mf mb = Inr q"
    and s: "tc_controller s = c" "tc_queue s = q" "tc_close_handler s = h" "tc_log s = []" "\<not> tc_stopped s"
      "\<not> tc_write_in_progress s"
    using assms by (auto simp: new_TlsTunnelClient_def and_then_Inr_iff split: if_splits)
  have "frame_queue q = []" using q by (auto simp: new_OutboundFrameQueue_def split: if_splits)
  moreover have "cs_state c = CIdle" "cs_next_outbound_sequence c = 1"
    using c by (auto simp: new_ClientSessionController_def and_then_Inr_iff)
  ultimately show ?thesis using s queue_inv_new [OF q] client_inv_new [OF c]
    by (auto simp: tw_inv_def tw_initial_def tc_quiet_def tc_ok_defs intro: exI [of _ "[]"])
qed

section \<open>Properties\<close>

text \<open>A connection to a server that assigns an address and sends a packet, in two reads.\<close>

definition demo_tc :: TlsTunnelClient where
  "demo_tc = projr (new_TlsTunnelClient ''vpn'' True True 1400 8 4096)"

lemma demo_tc_new: "new_TlsTunnelClient ''vpn'' True True 1400 8 4096 = Inr demo_tc"
  by (simp add: demo_tc_def new_TlsTunnelClient_def demo_client_new new_OutboundFrameQueue_def kHeaderSize_def)

definition demo_tc_start :: "tc_event list" where
  "demo_tc_start = [Tw_start (Inr ()), Tw_handshake None, Tw_write_done None]"

lemma demo_tc_value:
  "demo_tc = \<lparr>expected_server_name = ''vpn'', tc_packet_sink = True, tc_close_handler = True,
     tc_controller = demo_client, tc_decoder = new_FrameDecoder,
     tc_queue = \<lparr>maximum_frames = 8, maximum_bytes = 4096, queued_bytes = 0, frame_queue = []\<rparr>,
     tc_remote_error = None, retryable_close = True, tc_started = False, tc_write_in_progress = False,
     tc_close_after_write = False, tc_stopped = False, tc_log = []\<rparr>"
  by (simp add: demo_tc_def new_TlsTunnelClient_def demo_client_new new_OutboundFrameQueue_def kHeaderSize_def)

definition demo_hello :: Frame where
  "demo_hello = demo_frame ClientHello 1 [5, 120, 0, 0, 0, 0, 0, 3]"

lemma demo_hello_start:
  "client_start demo_client = (Inr demo_hello, demo_client\<lparr>cs_state := CAwaitingAssignment, cs_next_outbound_sequence := 2\<rparr>)"
  by code_simp

lemma demo_tc_started:
  "\<exists>b. fold tw_step demo_tc_start (tw_initial demo_tc) =
     \<lparr>tw_client = demo_tc\<lparr>tc_started := True, tc_log := [Tc_handshake, Tc_write b, Tc_read],
        tc_controller := demo_client\<lparr>cs_state := CAwaitingAssignment, cs_next_outbound_sequence := 2\<rparr>\<rparr>,
      tw_handshaken = True, tw_reads_done = 0, tw_writes_done = 1\<rparr>"
proof -
  obtain b where b: "encode_frame demo_hello = Inr b" "length b \<le> 4096" "b \<noteq> []"
    by (simp add: encode_frame_Inr_iff demo_hello_def demo_frame_def kMaxPayloadSize_def kHeaderSize_def)
  then show ?thesis
    by (intro exI [of _ b]) (simp add: demo_tc_value demo_tc_start_def tw_initial_def tw_apply_def tc_start_on_strand_def
        tc_handle_handshake_def demo_hello_start tc_enqueue_frame_def try_enqueue_def try_enqueue_encoded_def
        tc_write_next_def queue_empty_def queue_front_def tc_emit_def tc_read_next_def tc_handle_write_def pop_front_def
        not_less)
qed

lemma push_encoded: "encode_all fs = Inr bs \<Longrightarrow> \<exists>d. push new_FrameDecoder bs = (Inr fs, d)"
  using push_refines [of new_FrameDecoder bs fs "[]" None] parse_stream_encoded [of fs bs "[]"]
  by (cases "push new_FrameDecoder bs") simp

definition demo_tc_read :: "tc_event list" where
  "demo_tc_read = [Tw_read (\<lambda>_. True) None (projr (encode_all
     [demo_frame IpAssign 1 demo_assignment, demo_frame DataIpv4 2 demo_packet]))]"

definition demo_tc_events :: "tc_event list" where
  "demo_tc_events = demo_tc_start @ demo_tc_read"

abbreviation demo_waiting :: ClientSessionController where
  "demo_waiting \<equiv> demo_client\<lparr>cs_state := CAwaitingAssignment, cs_next_outbound_sequence := 2\<rparr>"

lemma demo_tc_handled:
  "client_handle demo_waiting (demo_frame IpAssign 1 demo_assignment) =
     (Inr (client_nothing\<lparr>cr_assignment := Some (projr (decode_ip_assignment demo_assignment))\<rparr>),
      fold client_step demo_handshake demo_client)"
  "fst (client_handle (fold client_step demo_handshake demo_client) (demo_frame DataIpv4 2 demo_packet)) =
     Inr (client_nothing\<lparr>cr_packets_to_tun := [demo_packet]\<rparr>)"
  by code_simp+

lemma demo_tc_packet: "Tc_packet demo_packet \<in> set (tc_log (tw_client (fold tw_step demo_tc_events (tw_initial demo_tc))))"
proof -
  let ?fs = "[demo_frame IpAssign 1 demo_assignment, demo_frame DataIpv4 2 demo_packet]"
  have "\<exists>bs. encode_all ?fs = Inr bs"
    by (simp add: and_then_Inr_iff encode_frame_Inr_iff demo_frame_def demo_assignment_def demo_packet_def kMaxPayloadSize_def)
  then obtain bs d where bs: "encode_all ?fs = Inr bs" and d: "push new_FrameDecoder bs = (Inr ?fs, d)"
    using push_encoded by blast
  obtain c where c: "client_handle (fold client_step demo_handshake demo_client) (demo_frame DataIpv4 2 demo_packet) =
     (Inr (client_nothing\<lparr>cr_packets_to_tun := [demo_packet]\<rparr>), c)" using demo_tc_handled(2) by (metis prod.collapse)
  obtain b where b: "fold tw_step demo_tc_start (tw_initial demo_tc) =
     \<lparr>tw_client = demo_tc\<lparr>tc_started := True, tc_log := [Tc_handshake, Tc_write b, Tc_read], tc_controller := demo_waiting\<rparr>,
      tw_handshaken = True, tw_reads_done = 0, tw_writes_done = 1\<rparr>" using demo_tc_started by blast
  show ?thesis
    unfolding demo_tc_events_def fold_append comp_def b demo_tc_read_def
    by (simp add: tw_apply_def bs d demo_tc_value demo_tc_handled(1) c tc_handle_read_def tc_apply_result_def
        tc_deliver_packets_def client_nothing_def tc_emit_def tc_read_next_def del: encode_all.simps)
qed

text \<open>
  C27: what the client writes. After any interleaving of the server, the packet reader, pings,
  stops and transport errors, the buffers the client has handed to the TLS stream are the
  encodings of frames numbered 1, 2, 3, \<dots> in this order, at most one still in flight while the
  connection runs, its queue respects its limits, and no exception leaves a handler.
\<close>

theorem tls_client_wire_order:
  assumes "new_TlsTunnelClient name sink handler u max_frames max_bytes = Inr s"
    and "w = fold tw_step events (tw_initial s)"
  shows "(\<exists>fs. map encode_frame fs = map Inr (tc_writes (tc_log (tw_client w)))
       \<and> map frame_sequence fs = map (\<lambda>i. 1 + word_of_nat i) [0..<length fs])
    \<and> (tc_stopped (tw_client w) \<or> length (tc_writes (tc_log (tw_client w))) \<le> tw_writes_done w + 1)
    \<and> queue_inv (tc_queue (tw_client w))
    \<and> (\<forall>e. Tc_uncaught e \<notin> set (tc_log (tw_client w)))"
proof -
  have "tw_inv handler w" unfolding assms(2) by (rule tls_client.run_invar [OF tw_inv_initial [OF assms(1)]])
  then have ok: "tc_ok handler (tw_writes_done w) [] (tw_client w)" by (simp add: tw_inv_def)
  have "\<exists>fs. map encode_frame fs = map Inr (tc_writes (tc_log (tw_client w)))
       \<and> map frame_sequence fs = map (\<lambda>i. 1 + word_of_nat i) [0..<length fs]"
  proof -
    let ?c = "tc_close_now (tw_client w)"
    have "tc_ok handler 0 [] ?c" by (rule tc_close_now_ok [OF ok])
    then obtain fs k where "encodes fs (tc_writes (tc_log ?c))" "numbered 1 fs k" by (auto simp: tc_ok_def tc_wire_def)
    moreover have "tc_writes (tc_log ?c) = tc_writes (tc_log (tw_client w))" by (simp add: tc_close_now_def Let_def)
    ultimately show ?thesis unfolding encodes_def numbered_def by auto
  qed
  moreover have "Tc_uncaught e \<notin> set (tc_log (tw_client w))" for e
  proof (cases "tc_stopped (tw_client w)")
    case True
    then obtain before c where "tc_log (tw_client w) = before @ Tc_close_socket # c" "set c \<subseteq> {Tc_closed x b | x b. True}"
      "filter tc_final before = []" using ok by (fastforce simp: tc_ok_def tc_base_def split: if_splits)
    then show ?thesis by (auto simp: filter_empty_conv)
  next
    case False
    then show ?thesis using ok by (auto simp: tc_ok_def tc_base_def filter_empty_conv)
  qed
  moreover have "tc_stopped (tw_client w) \<or> length (tc_writes (tc_log (tw_client w))) \<le> tw_writes_done w + 1"
    "queue_inv (tc_queue (tw_client w))"
    using ok unfolding tc_ok_def tc_base_def tc_wire_def by (auto split: if_splits)
  ultimately show ?thesis by blast
qed

theorem tls_client_wire_order_witness:
  "\<exists>w fs. w = fold tw_step demo_tc_events (tw_initial demo_tc)
     \<and> map encode_frame fs = map Inr (tc_writes (tc_log (tw_client w)))
     \<and> map frame_sequence fs = map (\<lambda>i. 1 + word_of_nat i) [0..<length fs]"
  using tls_client_wire_order [OF demo_tc_new refl, of demo_tc_events] by blast

text \<open>
  C28: no packet before the network is configured, and one end. The client calls the assignment
  handler at most once; a packet reaches the packet sink only after that call accepted the
  assignment, and only a packet of consistent length within its MTU for its address; as long as
  the connection has not stopped it has closed nothing, and once it has, its last effects are to
  close the socket and to report, once, the remote error and whether a retry makes sense.
\<close>

theorem tls_client_gates_packets:
  assumes "new_TlsTunnelClient name sink True u max_frames max_bytes = Inr s"
    and "w = fold tw_step events (tw_initial s)"
  shows "length (assignments (tc_log (tw_client w))) \<le> 1
    \<and> (\<forall>before p rest. tc_log (tw_client w) = before @ Tc_packet p # rest \<longrightarrow>
         (\<exists>a. assignments before = [(a, True)] \<and> packet_for a p))
    \<and> (if tc_stopped (tw_client w)
       then \<exists>before. filter tc_final before = [] \<and> tc_log (tw_client w)
              = before @ [Tc_close_socket, Tc_closed (tc_remote_error (tw_client w)) (retryable_close (tw_client w))]
       else filter tc_final (tc_log (tw_client w)) = [])"
proof -
  have "tw_inv True w" unfolding assms(2) by (rule tls_client.run_invar [OF tw_inv_initial [OF assms(1)]])
  then have base: "tc_base True (tw_client w)" by (simp add: tw_inv_def tc_ok_def)
  then have "\<exists>a. assignments before = [(a, True)] \<and> packet_for a p"
    if "tc_log (tw_client w) = before @ Tc_packet p # rest" for before p rest
    using gated_packet [of before p rest] that by (simp add: tc_base_def)
  with base show ?thesis by (auto simp: tc_base_def split: if_splits)
qed

theorem tls_client_gates_packets_witness:
  "\<exists>before rest a. tc_log (tw_client (fold tw_step demo_tc_events (tw_initial demo_tc))) = before @ Tc_packet demo_packet # rest
     \<and> assignments before = [(a, True)] \<and> packet_for a demo_packet"
proof -
  from demo_tc_packet obtain before rest where l: "tc_log (tw_client (fold tw_step demo_tc_events (tw_initial demo_tc)))
      = before @ Tc_packet demo_packet # rest" using split_list by metis
  with tls_client_gates_packets [OF demo_tc_new refl, of demo_tc_events] show ?thesis by blast
qed

text \<open>
  A server that answers the hello with ERROR, as it does when its pool is exhausted: the client
  takes it for a protocol violation, the remote error is not reported, and the close is retryable.
\<close>

definition demo_error :: Frame where
  "demo_error = demo_frame Error 1 (projr (encode_error_message \<lparr>error_code = 6, error_text = ''pool exhausted''\<rparr>))"

definition demo_rejection :: "tc_event list" where
  "demo_rejection = demo_tc_start @ [Tw_read (\<lambda>_. True) None (projr (encode_all [demo_error])), Tw_write_done None]"

lemma demo_error_handled:
  "fst (client_handle demo_waiting demo_error) = Inr (client_nothing\<lparr>cr_outbound_frames := [demo_frame Error 2
     (projr (encode_error_message \<lparr>error_code = 101, error_text = ''IP_ASSIGN must be the first server message''\<rparr>))],
     cr_close_transport := True\<rparr>)"
  "length (projr (encode_error_message \<lparr>error_code = 101, error_text = ''IP_ASSIGN must be the first server message''\<rparr>)) = 44"
  "length (projr (encode_error_message \<lparr>error_code = 6, error_text = ''pool exhausted''\<rparr>)) = 16"
  by code_simp+

lemma rejected_hello_is_retried:
  "last (tc_log (tw_client (fold tw_step demo_rejection (tw_initial demo_tc)))) = Tc_closed None True"
proof -
  let ?reply = "demo_frame Error 2 (projr (encode_error_message
      \<lparr>error_code = 101, error_text = ''IP_ASSIGN must be the first server message''\<rparr>))"
  have "\<exists>bs. encode_all [demo_error] = Inr bs"
    by (simp add: and_then_Inr_iff encode_frame_Inr_iff demo_frame_def demo_error_def demo_error_handled(3) kMaxPayloadSize_def)
  then obtain bs d where bs: "encode_all [demo_error] = Inr bs" and d: "push new_FrameDecoder bs = (Inr [demo_error], d)"
    using push_encoded by blast
  obtain c where c: "client_handle demo_waiting demo_error =
     (Inr (client_nothing\<lparr>cr_outbound_frames := [?reply], cr_close_transport := True\<rparr>), c)"
    using demo_error_handled(1) by (metis prod.collapse)
  obtain r where r: "encode_frame ?reply = Inr r" "length r \<le> 4096" "r \<noteq> []"
    by (simp add: encode_frame_Inr_iff demo_frame_def demo_error_handled(2) kMaxPayloadSize_def kHeaderSize_def
        del: length_0_conv) (metis demo_error_handled(2) list.size(3) zero_neq_numeral)
  obtain b where b: "fold tw_step demo_tc_start (tw_initial demo_tc) =
     \<lparr>tw_client = demo_tc\<lparr>tc_started := True, tc_log := [Tc_handshake, Tc_write b, Tc_read], tc_controller := demo_waiting\<rparr>,
      tw_handshaken = True, tw_reads_done = 0, tw_writes_done = 1\<rparr>" using demo_tc_started by blast
  show ?thesis
    unfolding demo_rejection_def fold_append comp_def b
    using r by (simp add: tw_apply_def bs d demo_tc_value c tc_handle_read_def tc_apply_result_def
        tc_deliver_packets_def client_nothing_def tc_emit_def tc_enqueue_frame_def try_enqueue_def try_enqueue_encoded_def
        tc_write_next_def queue_empty_def queue_front_def tc_handle_write_def pop_front_def tc_close_now_def not_less
        del: encode_all.simps)
qed

end
