(* ===== verification/Effects.thy ===== *)
theory Effects
  imports Prelude
begin

text \<open>
  Computations that call an environment: the calls made so far are threaded through, and what the
  environment answers may depend on all of them. A computation may throw, and it may fail to return
  (\<open>None\<close>), since some loops end only if the environment lets them. Two calculi for them: \<open>emits\<close> for
  the calls that a computation makes, \<open>wp\<close> for its final state.
\<close>

section \<open>Computations\<close>

type_synonym ('s, 'a) comp = "'s \<Rightarrow> ('a result \<times> 's) option"

definition io_return :: "'a \<Rightarrow> ('s, 'a) comp" where
  "io_return x log = Some (Inr x, log)"

definition io_throw :: "cxx_exception \<Rightarrow> ('s, 'a) comp" where
  "io_throw e log = Some (Inl e, log)"

text \<open>A call of the environment \<open>env\<close>, which answers it in view of the calls before.\<close>

definition ask :: "('c list \<Rightarrow> 'c \<Rightarrow> 'a) \<Rightarrow> 'c \<Rightarrow> ('c list, 'a) comp" where
  "ask env c log = Some (Inr (env log c), log @ [c])"

definition io_bind :: "('s, 'a) comp \<Rightarrow> ('a \<Rightarrow> ('s, 'b) comp) \<Rightarrow> ('s, 'b) comp" where
  "io_bind m f log =
     (case m log of
        None \<Rightarrow> None
      | Some (Inl e, log) \<Rightarrow> Some (Inl e, log)
      | Some (Inr x, log) \<Rightarrow> f x log)"

definition io_then :: "('s, 'a) comp \<Rightarrow> ('s, 'b) comp \<Rightarrow> ('s, 'b) comp" where
  "io_then m n = io_bind m (\<lambda>_. n)"

fun io_each :: "('a \<Rightarrow> ('s, unit) comp) \<Rightarrow> 'a list \<Rightarrow> ('s, unit) comp" where
  "io_each f [] = io_return ()"
| "io_each f (x # xs) = io_then (f x) (io_each f xs)"

text \<open>What runs when a scope is left, by an exception (a handler that throws again) or in any case (a destructor).\<close>

definition io_on_throw :: "('s, 'a) comp \<Rightarrow> ('s, unit) comp \<Rightarrow> ('s, 'a) comp" where
  "io_on_throw m cleanup log =
     (case m log of
        Some (Inl e, log) \<Rightarrow> io_then cleanup (io_throw e) log
      | r \<Rightarrow> r)"

definition io_finally :: "('s, 'a) comp \<Rightarrow> ('s, unit) comp \<Rightarrow> ('s, 'a) comp" where
  "io_finally m cleanup log =
     (case m log of
        None \<Rightarrow> None
      | Some (Inl e, log) \<Rightarrow> io_then cleanup (io_throw e) log
      | Some (Inr x, log) \<Rightarrow> io_then cleanup (io_return x) log)"

section \<open>What a computation calls\<close>

text \<open>
  \<open>emits m P\<close>: when \<open>m\<close>, started after the calls \<open>log\<close>, returns with result \<open>r\<close>, the calls \<open>cs\<close> it has
  made satisfy \<open>P log r cs\<close>.
\<close>

definition emits :: "('c list, 'a) comp \<Rightarrow> ('c list \<Rightarrow> 'a result \<Rightarrow> 'c list \<Rightarrow> bool) \<Rightarrow> bool" where
  "emits m P \<longleftrightarrow> (\<forall>log r log'. m log = Some (r, log') \<longrightarrow> (\<exists>cs. log' = log @ cs \<and> P log r cs))"

lemma emitsD:
  assumes "emits m P" "m log = Some (r, log')"
  obtains cs where "log' = log @ cs" "P log r cs"
  using assms unfolding emits_def by blast

lemma emits_mono: "emits m P \<Longrightarrow> (\<And>log r cs. P log r cs \<Longrightarrow> Q log r cs) \<Longrightarrow> emits m Q"
  unfolding emits_def by blast

lemma emits_return [simp]: "emits (io_return x) P \<longleftrightarrow> (\<forall>log. P log (Inr x) [])"
  by (auto simp: emits_def io_return_def)

lemma emits_throw [simp]: "emits (io_throw e) P \<longleftrightarrow> (\<forall>log. P log (Inl e) [])"
  by (auto simp: emits_def io_throw_def)

lemma emits_ask [simp]: "emits (ask env c) P \<longleftrightarrow> (\<forall>log. P log (Inr (env log c)) [c])"
  by (auto simp: emits_def ask_def)

lemma emits_bind:
  assumes m: "emits m P" and f: "\<And>x. emits (f x) (Q x)"
    and threw: "\<And>log e cs. P log (Inl e) cs \<Longrightarrow> R log (Inl e) cs"
    and went_on: "\<And>log x cs1 r cs2. P log (Inr x) cs1 \<Longrightarrow> Q x (log @ cs1) r cs2 \<Longrightarrow> R log r (cs1 @ cs2)"
  shows "emits (io_bind m f) R"
  unfolding emits_def
proof (intro allI impI)
  fix log r log'
  assume run: "io_bind m f log = Some (r, log')"
  obtain s mid where s: "m log = Some (s, mid)"
    using run by (auto simp: io_bind_def split: option.splits)
  from emitsD [OF m s] obtain cs1 where cs1: "mid = log @ cs1" "P log s cs1" .
  show "\<exists>cs. log' = log @ cs \<and> R log r cs"
  proof (cases s)
    case (Inl e)
    then show ?thesis using run s cs1 threw by (auto simp: io_bind_def)
  next
    case (Inr x)
    then have "f x mid = Some (r, log')" using run s by (simp add: io_bind_def)
    from emitsD [OF f this] obtain cs2 where "log' = mid @ cs2" "Q x mid r cs2" .
    then show ?thesis using cs1 Inr went_on by (intro exI [of _ "cs1 @ cs2"]) auto
  qed
qed

lemma emits_then:
  assumes "emits m P" and "emits n Q"
    and "\<And>log e cs. P log (Inl e) cs \<Longrightarrow> R log (Inl e) cs"
    and "\<And>log x cs1 r cs2. P log (Inr x) cs1 \<Longrightarrow> Q (log @ cs1) r cs2 \<Longrightarrow> R log r (cs1 @ cs2)"
  shows "emits (io_then m n) R"
  unfolding io_then_def using assms by (rule emits_bind)

lemma emits_cleanup:
  assumes m: "emits m P" and c: "emits c C" and quiet: "\<And>log e log'. c log \<noteq> Some (Inl e, log')"
    and Q: "\<And>log r cs ds x. P log r cs \<Longrightarrow> C (log @ cs) (Inr x) ds \<Longrightarrow> Q log r (cs @ ds)"
  shows "emits (io_finally m c) Q"
  unfolding emits_def
proof (intro allI impI)
  fix log r log'
  assume run: "io_finally m c log = Some (r, log')"
  then obtain s mid where s: "m log = Some (s, mid)" by (auto simp: io_finally_def split: option.splits)
  from emitsD [OF m s] obtain cs where cs: "mid = log @ cs" "P log s cs" .
  have "\<exists>x. c mid = Some (Inr x, log') \<and> r = s"
    using run s quiet by (cases s; cases "c mid")
      (auto simp: io_finally_def io_then_def io_bind_def io_return_def io_throw_def split: sum.splits)
  then obtain x where x: "c mid = Some (Inr x, log')" "r = s" by blast
  from emitsD [OF c x(1)] obtain ds where "log' = mid @ ds" "C mid (Inr x) ds" .
  then show "\<exists>cs. log' = log @ cs \<and> Q log r cs" using cs x(2) Q by (intro exI [of _ "cs @ ds"]) auto
qed

lemma emits_recover:
  assumes m: "emits m P" and c: "emits c C"
    and ok: "\<And>log x cs. P log (Inr x) cs \<Longrightarrow> Q log (Inr x) cs"
    and bad: "\<And>log e cs r ds e'. P log (Inl e) cs \<Longrightarrow> C (log @ cs) r ds \<Longrightarrow> Q log (Inl e') (cs @ ds)"
  shows "emits (io_on_throw m c) Q"
  unfolding emits_def
proof (intro allI impI)
  fix log r log'
  assume run: "io_on_throw m c log = Some (r, log')"
  then obtain s mid where s: "m log = Some (s, mid)" by (auto simp: io_on_throw_def split: option.splits)
  from emitsD [OF m s] obtain cs where cs: "mid = log @ cs" "P log s cs" .
  show "\<exists>cs. log' = log @ cs \<and> Q log r cs"
  proof (cases s)
    case (Inl e)
    then have "io_then c (io_throw e) mid = Some (r, log')" using run s by (simp add: io_on_throw_def)
    then obtain x where x: "c mid = Some (x, log')" "\<exists>e'. r = Inl e'"
      by (auto simp: io_then_def io_bind_def io_throw_def split: option.splits sum.splits)
    from emitsD [OF c x(1)] obtain ds where "log' = mid @ ds" "C mid x ds" .
    then show ?thesis using cs Inl x(2) bad by (intro exI [of _ "cs @ ds"]) auto
  next
    case (Inr x)
    then show ?thesis using run s cs ok by (auto simp: io_on_throw_def)
  qed
qed

text \<open>\<open>only P m\<close>: all calls of \<open>m\<close> satisfy \<open>P\<close>.\<close>

definition only :: "('c \<Rightarrow> bool) \<Rightarrow> ('c list, 'a) comp \<Rightarrow> bool" where
  "only P m \<longleftrightarrow> emits m (\<lambda>_ _ cs. list_all P cs)"

lemma only_simps [simp]: "only P (io_return x)" "only P (io_throw e)" "only P (ask env c) = P c"
  by (simp_all add: only_def)

lemma only_bind: "only P m \<Longrightarrow> (\<And>x. only P (f x)) \<Longrightarrow> only P (io_bind m f)"
  unfolding only_def by (erule emits_bind, assumption) simp_all

lemma only_then: "only P m \<Longrightarrow> only P n \<Longrightarrow> only P (io_then m n)"
  by (simp add: io_then_def only_bind)

lemma only_each: "(\<And>x. only P (f x)) \<Longrightarrow> only P (io_each f xs)"
  by (induction xs) (simp_all add: only_then)

lemma only_after:
  assumes m: "only P m" and n: "\<And>r. only P (n r)"
    and run: "\<And>log. q log = (case m log of None \<Rightarrow> None | Some (r, mid) \<Rightarrow> n r mid)"
  shows "only P q"
  unfolding only_def emits_def
proof (intro allI impI)
  fix log r log'
  assume "q log = Some (r, log')"
  then obtain s mid where s: "m log = Some (s, mid)" "n s mid = Some (r, log')" unfolding run by (auto split: option.splits)
  obtain cs where "mid = log @ cs" "list_all P cs" by (rule emitsD [OF m [unfolded only_def] s(1)])
  moreover obtain ds where "log' = mid @ ds" "list_all P ds" by (rule emitsD [OF n [unfolded only_def] s(2)])
  ultimately show "\<exists>cs. log' = log @ cs \<and> list_all P cs" by (intro exI [of _ "cs @ ds"]) simp
qed

lemma only_on_throw: "only P m \<Longrightarrow> only P c \<Longrightarrow> only P (io_on_throw m c)"
  by (rule only_after [where n = "\<lambda>r. case r of Inl e \<Rightarrow> io_then c (io_throw e) | Inr x \<Rightarrow> io_return x"])
    (auto simp: only_then io_on_throw_def io_return_def split: sum.split option.split)

lemma only_finally: "only P m \<Longrightarrow> only P c \<Longrightarrow> only P (io_finally m c)"
  by (rule only_after [where n = "\<lambda>r. case r of Inl e \<Rightarrow> io_then c (io_throw e) | Inr x \<Rightarrow> io_then c (io_return x)"])
    (auto simp: only_then io_finally_def split: sum.split option.split)

lemmas only_intros = only_bind only_then only_each only_on_throw only_finally

text \<open>Runs that return.\<close>

lemma bind_Inr: "io_bind m f log = Some (Inr y, log') \<longleftrightarrow> (\<exists>x mid. m log = Some (Inr x, mid) \<and> f x mid = Some (Inr y, log'))"
  by (auto simp: io_bind_def split: option.split sum.split)

lemma then_Inr: "io_then m n log = Some (Inr y, log') \<longleftrightarrow> (\<exists>x mid. m log = Some (Inr x, mid) \<and> n mid = Some (Inr y, log'))"
  by (simp add: io_then_def bind_Inr)

lemma on_throw_Inr: "io_on_throw m c log = Some (Inr y, log') \<longleftrightarrow> m log = Some (Inr y, log')"
  by (auto simp: io_on_throw_def io_then_def io_bind_def io_throw_def split: option.split sum.split)

lemma basic_Inr:
  "io_return x s = Some (Inr y, s') \<longleftrightarrow> x = y \<and> s = s'" "\<not> io_throw e s = Some (Inr y, s')"
  "ask env c log = Some (Inr a, log') \<longleftrightarrow> a = env log c \<and> log' = log @ [c]"
  by (auto simp: io_return_def io_throw_def ask_def)

lemma if_Inr: "(if b then m else n) s = Some (Inr y, s') \<longleftrightarrow> (if b then m s = Some (Inr y, s') else n s = Some (Inr y, s'))"
  by simp

lemma finally_Inr: "io_finally m c log = Some (Inr y, log') \<longleftrightarrow> (\<exists>x mid. m log = Some (Inr y, mid) \<and> c mid = Some (Inr x, log'))"
  by (auto simp: io_finally_def io_then_def io_bind_def io_return_def io_throw_def split: option.split sum.split)

lemmas run_Inr = bind_Inr then_Inr on_throw_Inr finally_Inr basic_Inr if_Inr

text \<open>Whether a computation returns.\<close>

definition returns :: "('s, 'a) comp \<Rightarrow> bool" where
  "returns m \<longleftrightarrow> (\<forall>log. m log \<noteq> None)"

lemma returns_simps [simp]:
  "returns (io_return x)" "returns (io_throw e)" "returns (ask env c)"
  by (simp_all add: returns_def io_return_def io_throw_def ask_def)

lemma returns_bind: "returns m \<Longrightarrow> (\<And>x. returns (f x)) \<Longrightarrow> returns (io_bind m f)"
  by (auto simp: returns_def io_bind_def split: option.split sum.split)

lemma returns_then: "returns m \<Longrightarrow> returns n \<Longrightarrow> returns (io_then m n)"
  by (simp add: io_then_def returns_bind)

lemma returns_each: "(\<And>x. returns (f x)) \<Longrightarrow> returns (io_each f xs)"
  by (induction xs) (simp_all add: returns_then)

lemma returns_on_throw:
  fixes m :: "('s, 'a) comp"
  assumes "returns m" "returns c"
  shows "returns (io_on_throw m c)"
proof -
  have "returns (io_then c (io_throw e :: ('s, 'a) comp))" for e
    by (rule returns_then [OF assms(2)]) simp
  then have "io_then c (io_throw e :: ('s, 'a) comp) log \<noteq> None" for e log unfolding returns_def by blast
  then show ?thesis using assms(1) by (auto simp: returns_def io_on_throw_def split: option.split sum.split)
qed

lemma returns_finally:
  fixes m :: "('s, 'a) comp"
  assumes "returns m" "returns c"
  shows "returns (io_finally m c)"
proof -
  have "returns (io_then c (io_throw e :: ('s, 'a) comp))" "returns (io_then c (io_return x))" for e and x :: 'a
    by (rule returns_then [OF assms(2)], simp)+
  then have "io_then c (io_throw e :: ('s, 'a) comp) log \<noteq> None" "io_then c (io_return x) log \<noteq> None" for e log and x :: 'a
    unfolding returns_def by blast+
  then show ?thesis using assms(1) by (auto simp: returns_def io_finally_def split: option.split sum.split)
qed

section \<open>Weakest preconditions\<close>

text \<open>\<open>wp m Q s\<close>: if \<open>m\<close> returns from \<open>s\<close>, then with a result and a state that satisfy \<open>Q\<close>.\<close>

definition wp :: "('s, 'a) comp \<Rightarrow> ('a result \<Rightarrow> 's \<Rightarrow> bool) \<Rightarrow> 's \<Rightarrow> bool" where
  "wp m Q s \<longleftrightarrow> (case m s of None \<Rightarrow> True | Some (r, s') \<Rightarrow> Q r s')"

lemma wp_basic [simp]:
  "wp (io_return x) Q s = Q (Inr x) s" "wp (io_throw e) Q s = Q (Inl e) s"
  "wp (ask env c) R log = R (Inr (env log c)) (log @ [c])"
  by (simp_all add: wp_def io_return_def io_throw_def ask_def)

lemma wp_bind [simp]:
  "wp (io_bind m f) Q s = wp m (\<lambda>r s. case r of Inl e \<Rightarrow> Q (Inl e) s | Inr x \<Rightarrow> wp (f x) Q s) s"
  by (auto simp: wp_def io_bind_def split: option.split sum.split)

lemma wp_then [simp]:
  "wp (io_then m n) Q s = wp m (\<lambda>r s. case r of Inl e \<Rightarrow> Q (Inl e) s | Inr x \<Rightarrow> wp n Q s) s"
  by (simp add: io_then_def)

lemma wp_on_throw [simp]:
  "wp (io_on_throw m c) Q s = wp m (\<lambda>r s. case r of Inr x \<Rightarrow> Q (Inr x) s
     | Inl e \<Rightarrow> wp c (\<lambda>r s. case r of Inl e' \<Rightarrow> Q (Inl e') s | Inr _ \<Rightarrow> Q (Inl e) s) s) s"
  by (auto simp: wp_def io_on_throw_def io_then_def io_bind_def io_throw_def split: option.split sum.split)

lemma wp_mono: "wp m P s \<Longrightarrow> (\<And>r s. P r s \<Longrightarrow> Q r s) \<Longrightarrow> wp m Q s"
  by (auto simp: wp_def split: option.splits)

lemma wp_each:
  assumes "\<And>x s. x \<in> set xs \<Longrightarrow> I s \<Longrightarrow> wp (f x) (\<lambda>_ s. I s) s" and "I s"
  shows "wp (io_each f xs) (\<lambda>_ s. I s) s"
  using assms
proof (induction xs arbitrary: s)
  case (Cons x xs)
  have "wp (f x) (\<lambda>_ s. I s) s" using Cons.prems by simp
  then show ?case unfolding io_each.simps wp_then
    by (rule wp_mono) (use Cons in \<open>auto split: sum.split\<close>)
qed simp

end
