(* ===== verification/Windows_Api.thy ===== *)
theory Windows_Api
  imports Effects
begin

text \<open>
  The interface between the client's Windows code and Windows itself: the calls that
  \<^verbatim>\<open>src/client/windows_kill_switch.cpp\<close> and \<^verbatim>\<open>src/client/windows_network_backend.cpp\<close> make of the
  Windows Filtering Platform (WFP), the IP helper API and Wintun. They are
  made by the computations of \<^verbatim>\<open>Effects\<close>; what a call answers is a parameter.
\<close>

section \<open>Calls and answers\<close>

type_synonym guid = "u32 \<times> u16 \<times> u16 \<times> bytes"

text \<open>A handle or pointer; 0 is the null pointer.\<close>

type_synonym handle = nat

datatype win_status =
    Success
  | Provider_not_found
  | Sublayer_not_found
  | Filter_not_found
  | Object_already_exists
  | Not_found
  | No_more_items
  | Win_error u32

text \<open>The condition values and the filters of WFP, as far as the code sets them.\<close>

datatype condition_value =
    V_uint8 u8
  | V_uint16 u16
  | V_uint32 u32
  | V_v4_addr_mask u32 u32
  | V_v6_addr_mask bytes nat

record filter_condition =
  field_key :: guid
  condition_value :: condition_value

datatype filter_action = Action_permit | Action_block

record fwpm_filter =
  filter_flags :: u32
  filter_provider :: "guid option"
  filter_layer :: guid
  filter_sublayer :: guid
  filter_weight :: u64
  filter_conditions :: "filter_condition list"
  filter_action :: filter_action

text \<open>
  The rows of the IP helper API: an address family, addresses as bytes in network order. The fields
  that the code sets to the same constant in every row (origins, state of the duplicate detection) are left out.
\<close>

record unicast_row =
  ur_luid :: u64
  ur_ipv6 :: bool
  ur_address :: bytes
  ur_prefix_length :: u8

record forward_row =
  fr_luid :: u64
  fr_family :: nat
  fr_prefix :: bytes
  fr_prefix_length :: u8
  fr_next_hop :: bytes
  fr_site_prefix_length :: u8
  fr_metric :: u32
  fr_protocol :: nat

datatype wfp_call =
    Engine_open bool
  | Engine_close handle
  | Transaction_begin handle
  | Transaction_abort handle
  | Transaction_commit handle
  | Provider_get handle
  | Provider_add handle u32
  | Sublayer_get handle
  | Sublayer_add handle u32 u16
  | Enum_create handle
  | Filter_enum handle handle
  | Enum_destroy handle handle
  | Filter_delete handle guid
  | Filter_add handle fwpm_filter
  | Sublayer_delete handle
  | Provider_delete handle

datatype wintun_call =
    Create_event
  | Close_event handle
  | Set_event handle
  | Reset_event handle
  | Load_library
  | Get_proc_address handle string
  | Free_library handle
  | Wintun_open handle
  | Wintun_create handle
  | Wintun_close handle
  | Wintun_luid handle
  | Wintun_start_session handle u32
  | Wintun_end_session handle
  | Wintun_read_event handle
  | Wintun_receive handle
  | Wintun_release handle bytes
  | Wintun_allocate handle nat
  | Wintun_send handle bytes
  | Wait_for_events handle handle

datatype ip_call =
    Luid_to_index u64
  | Alias_to_luid
  | Create_unicast unicast_row
  | Delete_unicast unicast_row
  | Create_forward forward_row
  | Delete_forward forward_row
  | Flush_path_table bool
  | Get_interface bool u64
  | Set_interface bool u64 u32
  | Get_forward_table
  | Free_forward_table
  | Get_best_route bool bytes

datatype win_call = Wfp wfp_call | Wintun wintun_call | Ip ip_call

record win_answer =
  status :: win_status
  answer_handle :: handle
  answer_flags :: u32
  answer_owner :: "guid option"
  answer_keys :: "guid list"
  answer_number :: u64
  answer_bytes :: bytes
  answer_rows :: "forward_row list"

text \<open>\<open>windows_message\<close> is the text that the system category has for a code.\<close>

record windows =
  windows_answer :: "win_call list \<Rightarrow> win_call \<Rightarrow> win_answer"
  windows_message :: "win_status \<Rightarrow> string"

section \<open>Computations\<close>

type_synonym 'a win = "(win_call list, 'a) comp"

definition win_call :: "windows \<Rightarrow> win_call \<Rightarrow> win_answer win" where
  "win_call w c log = Some (Inr (windows_answer w log c), log @ [c])"

text \<open>A call whose answer is not looked at.\<close>

definition win_ignore :: "windows \<Rightarrow> win_call \<Rightarrow> unit win" where
  "win_ignore w c = io_then (win_call w c) (io_return ())"

text \<open>\<^verbatim>\<open>std::system_error\<close>, a \<^verbatim>\<open>std::runtime_error\<close> whose text is that of the operation and of the code.\<close>

definition windows_error :: "windows \<Rightarrow> string \<Rightarrow> win_status \<Rightarrow> cxx_exception" where
  "windows_error w operation code = Runtime_error (operation @ '': '' @ windows_message w code)"

lemma emits_call [simp]: "emits (win_call w c) P \<longleftrightarrow> (\<forall>log. P log (Inr (windows_answer w log c)) [c])"
  by (auto simp: emits_def win_call_def)

lemma ignore_run [simp]: "io_then (win_ignore w c) n log = n (log @ [c])"
  by (simp add: io_then_def io_bind_def win_ignore_def win_call_def io_return_def)

lemma returns_call [simp]: "returns (win_call w c)" "returns (win_ignore w c)"
  by (simp_all add: returns_def io_return_def win_call_def win_ignore_def io_then_def io_bind_def)

end
