(* ===== verification/Kill_Switch.thy ===== *)
theory Kill_Switch
  imports Windows_Api Ip_Address
begin

unbundle bit_operations_syntax

text \<open>
  The fail-closed policy of the Windows client, \<^verbatim>\<open>src/client/windows_kill_switch.cpp\<close>: persistent
  filters that block all outbound traffic but that to the VPN server, and a permit for the tunnel
  interface that lives as long as its session. The destructors of \<^verbatim>\<open>Engine\<close> and \<^verbatim>\<open>Transaction\<close> run
  in the reverse order of construction on every way out of the scope.
\<close>

section \<open>Constants and endpoints\<close>

definition kOutboundIpPacketV4 :: guid where
  "kOutboundIpPacketV4 = (0x1e5c9fae, 0x8a84, 0x4135, [0xa3, 0x31, 0x95, 0x0b, 0x54, 0x22, 0x9e, 0xcd])"

definition kOutboundIpPacketV6 :: guid where
  "kOutboundIpPacketV6 = (0xa3b3ab6b, 0x3564, 0x488c, [0x91, 0x17, 0xf3, 0x4e, 0x82, 0x14, 0x27, 0x63])"

definition kOutboundTransportV4 :: guid where
  "kOutboundTransportV4 = (0x09e61aea, 0xd214, 0x46e2, [0x9b, 0x21, 0xb2, 0x6b, 0x0b, 0x2f, 0x28, 0xc8])"

definition kOutboundTransportV6 :: guid where
  "kOutboundTransportV6 = (0xe1735bde, 0x013f, 0x4655, [0xb3, 0x51, 0xa4, 0x9e, 0x15, 0x76, 0x2d, 0xf0])"

definition kRemoteAddressCondition :: guid where
  "kRemoteAddressCondition = (0xb235ae9a, 0x1d64, 0x49b8, [0xa4, 0x4c, 0x5f, 0xf3, 0xd9, 0x09, 0x50, 0x45])"

definition kInterfaceIndexCondition :: guid where
  "kInterfaceIndexCondition = (0x667fd755, 0xd695, 0x434a, [0x8a, 0xf5, 0xd3, 0x83, 0x5a, 0x12, 0x59, 0xbc])"

definition kProtocolCondition :: guid where
  "kProtocolCondition = (0x3971ef2b, 0x623e, 0x4f9a, [0x8c, 0xb1, 0x6e, 0x79, 0xb8, 0x06, 0xb9, 0xa7])"

definition kRemotePortCondition :: guid where
  "kRemotePortCondition = (0xc35a604d, 0xd22b, 0x4e1a, [0x91, 0xb4, 0x68, 0xf6, 0x74, 0xee, 0x67, 0x4b])"

definition kProviderKey :: guid where
  "kProviderKey = (0x8c73dcad, 0xa270, 0x45a9, [0x90, 0x27, 0x2f, 0x5b, 0x13, 0x90, 0x7d, 0x11])"

definition kSubLayerKey :: guid where
  "kSubLayerKey = (0x02a254b3, 0x51d2, 0x4b0c, [0x8e, 0xf7, 0x6a, 0x79, 0xa1, 0x7f, 0x42, 0x3e])"

definition kProviderPersistent :: u32 where "kProviderPersistent = 1"
definition kSubLayerPersistent :: u32 where "kSubLayerPersistent = 1"
definition kFilterPersistent :: u32 where "kFilterPersistent = 1"
definition kFilterBootTime :: u32 where "kFilterBootTime = 2"
definition kAllowWeight :: u64 where "kAllowWeight = 0xF000000000000000"
definition kBlockWeight :: u64 where "kBlockWeight = 0x1000000000000000"
definition kMaximumEndpoints :: nat where "kMaximumEndpoints = 32"

text \<open>\<^verbatim>\<open>IPPROTO_TCP\<close>, the number of TCP in the protocol field of IP.\<close>

definition IPPROTO_TCP :: u8 where "IPPROTO_TCP = 6"

text \<open>The address is an array of 16 bytes; an IPv4 address has the first four.\<close>

record WindowsVpnEndpoint =
  ve_address :: bytes
  ve_port :: u16
  ve_ipv6 :: bool

section \<open>Engine and transaction\<close>

definition check_wfp :: "windows \<Rightarrow> wfp_call \<Rightarrow> string \<Rightarrow> win_answer win" where
  "check_wfp w c operation =
     io_bind (win_call w (Wfp c)) (\<lambda>a.
       if status a \<noteq> Success then io_throw (windows_error w operation (status a)) else io_return a)"

definition with_engine :: "windows \<Rightarrow> (handle \<Rightarrow> 'a win) \<Rightarrow> 'a win" where
  "with_engine w body =
     io_bind (check_wfp w (Engine_open False) ''open Windows Filtering Platform engine'') (\<lambda>a.
       io_finally (body (answer_handle a))
         (if answer_handle a \<noteq> 0 then win_ignore w (Wfp (Engine_close (answer_handle a))) else io_return ()))"

text \<open>Every transaction of the source ends with \<^verbatim>\<open>commit\<close>, after which its destructor does nothing.\<close>

definition with_transaction :: "windows \<Rightarrow> handle \<Rightarrow> unit win \<Rightarrow> unit win" where
  "with_transaction w engine body =
     io_then (check_wfp w (Transaction_begin engine) ''begin WFP transaction'')
       (io_on_throw
          (io_then body
            (io_then (check_wfp w (Transaction_commit engine) ''commit WFP transaction'') (io_return ())))
          (win_ignore w (Wfp (Transaction_abort engine))))"

section \<open>Provider and sublayer\<close>

definition ensure_provider :: "windows \<Rightarrow> handle \<Rightarrow> unit win" where
  "ensure_provider w engine =
     io_bind (win_call w (Wfp (Provider_get engine))) (\<lambda>a.
       if status a = Success then
         (if answer_flags a AND kProviderPersistent = 0 then
            io_throw (Runtime_error ''existing PersonalVPN WFP provider is not persistent'')
          else io_return ())
       else if status a = Provider_not_found then
         io_then (check_wfp w (Provider_add engine kProviderPersistent) ''add persistent WFP provider'') (io_return ())
       else io_throw (windows_error w ''inspect WFP provider'' (status a)))"

definition ensure_sublayer :: "windows \<Rightarrow> handle \<Rightarrow> unit win" where
  "ensure_sublayer w engine =
     io_bind (win_call w (Wfp (Sublayer_get engine))) (\<lambda>a.
       if status a = Success then
         (if answer_flags a AND kSubLayerPersistent \<noteq> 0 \<and> answer_owner a = Some kProviderKey then io_return ()
          else io_throw (Runtime_error ''existing PersonalVPN WFP sublayer has invalid ownership''))
       else if status a = Sublayer_not_found then
         io_then (check_wfp w (Sublayer_add engine kSubLayerPersistent 0x7fff) ''add persistent WFP sublayer'')
           (io_return ())
       else io_throw (windows_error w ''inspect WFP sublayer'' (status a)))"

definition ensure_provider_and_sublayer :: "windows \<Rightarrow> handle \<Rightarrow> unit win" where
  "ensure_provider_and_sublayer w engine = io_then (ensure_provider w engine) (ensure_sublayer w engine)"

section \<open>Removing filters\<close>

text \<open>The loop over the enumeration ends when Windows returns no more filters.\<close>

partial_function (option) enumerate_loop :: "windows \<Rightarrow> handle \<Rightarrow> handle \<Rightarrow> guid list \<Rightarrow> guid list win" where
  "enumerate_loop w engine enumeration keys log =
     (let a = windows_answer w log (Wfp (Filter_enum engine enumeration));
          log = log @ [Wfp (Filter_enum engine enumeration)]
      in if status a \<noteq> Success then
           Some (Inl (windows_error w ''enumerate PersonalVPN WFP filters'' (status a)), log)
         else if answer_keys a = [] then Some (Inr keys, log)
         else enumerate_loop w engine enumeration (keys @ answer_keys a) log)"

declare enumerate_loop.simps [code]

definition enumerate_provider_filters :: "windows \<Rightarrow> handle \<Rightarrow> guid list win" where
  "enumerate_provider_filters w engine =
     io_bind (check_wfp w (Enum_create engine) ''create WFP filter enumeration'') (\<lambda>a.
     io_bind (io_on_throw (enumerate_loop w engine (answer_handle a) [])
                 (win_ignore w (Wfp (Enum_destroy engine (answer_handle a))))) (\<lambda>keys.
     io_then (check_wfp w (Enum_destroy engine (answer_handle a)) ''destroy WFP filter enumeration'')
       (io_return keys)))"

definition delete_filter :: "windows \<Rightarrow> handle \<Rightarrow> guid \<Rightarrow> unit win" where
  "delete_filter w engine key =
     io_bind (win_call w (Wfp (Filter_delete engine key))) (\<lambda>a.
       if status a \<noteq> Success \<and> status a \<noteq> Filter_not_found then
         io_throw (windows_error w ''delete PersonalVPN WFP filter'' (status a))
       else io_return ())"

definition delete_provider_filters :: "windows \<Rightarrow> handle \<Rightarrow> unit win" where
  "delete_provider_filters w engine = io_bind (enumerate_provider_filters w engine) (io_each (delete_filter w engine))"

section \<open>Adding filters\<close>

definition make_filter :: "guid \<Rightarrow> u32 \<Rightarrow> filter_action \<Rightarrow> u64 \<Rightarrow> filter_condition list \<Rightarrow> bool \<Rightarrow> fwpm_filter" where
  "make_filter layer flags action weight conditions persistent_provider_owned =
     \<lparr>filter_flags = flags,
      filter_provider = (if persistent_provider_owned then Some kProviderKey else None),
      filter_layer = layer, filter_sublayer = kSubLayerKey, filter_weight = weight,
      filter_conditions = conditions, filter_action = action\<rparr>"

definition add_filter :: "windows \<Rightarrow> handle \<Rightarrow> guid \<Rightarrow> u32 \<Rightarrow> filter_action \<Rightarrow> u64 \<Rightarrow> filter_condition list \<Rightarrow> bool \<Rightarrow> unit win" where
  "add_filter w engine layer flags action weight conditions persistent_provider_owned =
     io_then (check_wfp w (Filter_add engine (make_filter layer flags action weight conditions persistent_provider_owned))
       ''add WFP kill-switch filter'') (io_return ())"

definition add_unconditional_filter :: "windows \<Rightarrow> handle \<Rightarrow> guid \<Rightarrow> u32 \<Rightarrow> filter_action \<Rightarrow> u64 \<Rightarrow> unit win" where
  "add_unconditional_filter w engine layer flags action weight = add_filter w engine layer flags action weight [] True"

definition interface_condition :: "u32 \<Rightarrow> filter_condition" where
  "interface_condition interface_index =
     \<lparr>field_key = kInterfaceIndexCondition, condition_value = V_uint32 interface_index\<rparr>"

definition add_interface_allow :: "windows \<Rightarrow> handle \<Rightarrow> u32 \<Rightarrow> guid \<Rightarrow> unit win" where
  "add_interface_allow w engine interface_index layer =
     add_filter w engine layer 0 Action_permit kAllowWeight [interface_condition interface_index] False"

text \<open>\<^verbatim>\<open>memcpy\<close> and \<^verbatim>\<open>ntohl\<close> read the first four bytes as a number in network order.\<close>

definition endpoint_address_condition :: "WindowsVpnEndpoint \<Rightarrow> filter_condition" where
  "endpoint_address_condition endpoint =
     \<lparr>field_key = kRemoteAddressCondition,
      condition_value =
        (if ve_ipv6 endpoint then V_v6_addr_mask (ve_address endpoint) 128
         else V_v4_addr_mask (to_integer (take 4 (ve_address endpoint))) 0xffffffff)\<rparr>"

definition add_endpoint_allow :: "windows \<Rightarrow> handle \<Rightarrow> guid \<Rightarrow> guid \<Rightarrow> WindowsVpnEndpoint \<Rightarrow> unit win" where
  "add_endpoint_allow w engine packet_layer transport_layer endpoint =
     io_then
       (add_filter w engine packet_layer kFilterPersistent Action_permit kAllowWeight
         [endpoint_address_condition endpoint] True)
       (add_filter w engine transport_layer kFilterPersistent Action_permit kAllowWeight
         [endpoint_address_condition endpoint,
          \<lparr>field_key = kProtocolCondition, condition_value = V_uint8 IPPROTO_TCP\<rparr>,
          \<lparr>field_key = kRemotePortCondition, condition_value = V_uint16 (ve_port endpoint)\<rparr>] True)"

definition add_family_policy :: "windows \<Rightarrow> handle \<Rightarrow> guid \<Rightarrow> guid \<Rightarrow> bool \<Rightarrow> WindowsVpnEndpoint list \<Rightarrow> unit win" where
  "add_family_policy w engine packet_layer transport_layer ipv6 endpoints =
     io_then
       (io_each (\<lambda>endpoint. if ve_ipv6 endpoint = ipv6
                            then add_endpoint_allow w engine packet_layer transport_layer endpoint
                            else io_return ()) endpoints)
     (io_then
       (add_unconditional_filter w engine transport_layer kFilterPersistent Action_block kBlockWeight)
       (add_unconditional_filter w engine packet_layer kFilterPersistent Action_block kBlockWeight))"

definition remove_provider :: "windows \<Rightarrow> handle \<Rightarrow> unit win" where
  "remove_provider w engine =
     io_bind (win_call w (Wfp (Sublayer_delete engine))) (\<lambda>a.
       if status a \<noteq> Success \<and> status a \<noteq> Sublayer_not_found then
         io_throw (windows_error w ''remove PersonalVPN WFP sublayer'' (status a))
       else
         io_bind (win_call w (Wfp (Provider_delete engine))) (\<lambda>a.
           if status a \<noteq> Success \<and> status a \<noteq> Provider_not_found then
             io_throw (windows_error w ''remove PersonalVPN WFP provider'' (status a))
           else io_return ()))"

section \<open>The operations\<close>

definition endpoint_valid :: "WindowsVpnEndpoint \<Rightarrow> bool" where
  "endpoint_valid endpoint \<longleftrightarrow>
     ve_port endpoint \<noteq> 0 \<and> \<not> list_all (\<lambda>octet. octet = 0) (take (if ve_ipv6 endpoint then 16 else 4) (ve_address endpoint))"

definition enable_windows_kill_switch :: "windows \<Rightarrow> WindowsVpnEndpoint list \<Rightarrow> unit win" where
  "enable_windows_kill_switch w endpoints =
     (if endpoints = [] \<or> length endpoints > kMaximumEndpoints then
        io_throw (Invalid_argument ''kill switch requires valid VPN endpoints and interface'')
      else if \<not> list_all endpoint_valid endpoints then
        io_throw (Invalid_argument ''kill switch endpoint address or port is invalid'')
      else
        with_engine w (\<lambda>engine. with_transaction w engine
          (io_then (ensure_provider_and_sublayer w engine)
          (io_then (delete_provider_filters w engine)
          (io_then (add_unconditional_filter w engine kOutboundIpPacketV4 kFilterBootTime Action_block kBlockWeight)
          (io_then (add_unconditional_filter w engine kOutboundIpPacketV6 kFilterBootTime Action_block kBlockWeight)
          (io_then (add_family_policy w engine kOutboundIpPacketV4 kOutboundTransportV4 False endpoints)
                    (add_family_policy w engine kOutboundIpPacketV6 kOutboundTransportV6 True endpoints))))))))"

definition close_windows_tunnel_permit :: "windows \<Rightarrow> handle \<Rightarrow> handle win" where
  "close_windows_tunnel_permit w dynamic_session =
     (if dynamic_session \<noteq> 0 then
        io_then (win_ignore w (Wfp (Engine_close dynamic_session))) (io_return 0)
      else io_return dynamic_session)"

text \<open>The new dynamic session with its four permits; it is closed again when one of them fails.\<close>

definition open_tunnel_permit :: "windows \<Rightarrow> u32 \<Rightarrow> handle win" where
  "open_tunnel_permit w tunnel_interface_index =
     io_bind (check_wfp w (Engine_open True) ''open dynamic WFP tunnel-permit session'') (\<lambda>a.
       let new_session = answer_handle a
       in io_on_throw
            (io_then (with_transaction w new_session
                (io_each (add_interface_allow w new_session tunnel_interface_index)
                   [kOutboundIpPacketV4, kOutboundIpPacketV6, kOutboundTransportV4, kOutboundTransportV6]))
              (io_return new_session))
            (win_ignore w (Wfp (Engine_close new_session))))"

text \<open>
  The reference parameter \<^verbatim>\<open>dynamic_session\<close> is passed in and returned: the first component of the
  result is what was returned or thrown, the second the new session. Windows returns a non-null
  handle when it has opened a session.
\<close>

definition replace_windows_tunnel_permit :: "windows \<Rightarrow> handle \<Rightarrow> u32 \<Rightarrow> win_call list
    \<Rightarrow> ((unit result \<times> handle) \<times> win_call list) option" where
  "replace_windows_tunnel_permit w dynamic_session tunnel_interface_index log =
     (if tunnel_interface_index = 0 then
        Some ((Inl (Invalid_argument ''Wintun interface index is invalid''), dynamic_session), log)
      else
       (case close_windows_tunnel_permit w dynamic_session log of
          None \<Rightarrow> None
        | Some (_, log) \<Rightarrow>
           (case open_tunnel_permit w tunnel_interface_index log of
              None \<Rightarrow> None
            | Some (Inl e, log) \<Rightarrow> Some ((Inl e, 0), log)
            | Some (Inr new_session, log) \<Rightarrow> Some ((Inr (), new_session), log))))"

definition disable_windows_kill_switch :: "windows \<Rightarrow> unit win" where
  "disable_windows_kill_switch w =
     with_engine w (\<lambda>engine. with_transaction w engine
       (io_bind (enumerate_provider_filters w engine) (\<lambda>filters.
          if filters = [] then remove_provider w engine
          else io_then (delete_provider_filters w engine) (remove_provider w engine))))"

section \<open>What the operations ask of WFP\<close>

text \<open>Calls inside a transaction, the filters they add and delete, and the filters Windows has reported.\<close>

fun inner_call :: "win_call \<Rightarrow> bool" where
  "inner_call (Wfp (Engine_open _)) = False"
| "inner_call (Wfp (Engine_close _)) = False"
| "inner_call (Wfp (Transaction_begin _)) = False"
| "inner_call (Wfp (Transaction_abort _)) = False"
| "inner_call (Wfp (Transaction_commit _)) = False"
| "inner_call (Wfp _) = True"
| "inner_call _ = False"

fun added :: "win_call list \<Rightarrow> fwpm_filter list" where
  "added [] = []"
| "added (Wfp (Filter_add h f) # cs) = f # added cs"
| "added (_ # cs) = added cs"

fun deleted :: "win_call list \<Rightarrow> guid list" where
  "deleted [] = []"
| "deleted (Wfp (Filter_delete h key) # cs) = key # deleted cs"
| "deleted (_ # cs) = deleted cs"

fun reported :: "windows \<Rightarrow> win_call list \<Rightarrow> win_call list \<Rightarrow> guid list" where
  "reported w past [] = []"
| "reported w past (Wfp (Filter_enum h e) # cs) =
     answer_keys (windows_answer w past (Wfp (Filter_enum h e))) @ reported w (past @ [Wfp (Filter_enum h e)]) cs"
| "reported w past (c # cs) = reported w (past @ [c]) cs"

lemma added_append [simp]: "added (cs @ ds) = added cs @ added ds"
  by (induction cs rule: added.induct) simp_all

lemma deleted_append [simp]: "deleted (cs @ ds) = deleted cs @ deleted ds"
  by (induction cs rule: deleted.induct) simp_all

lemma reported_append [simp]: "reported w past (cs @ ds) = reported w past cs @ reported w (past @ cs) ds"
  by (induction w past cs rule: reported.induct) simp_all

text \<open>The filters of the policy, in the order in which they are added.\<close>

definition endpoint_filters :: "guid \<Rightarrow> guid \<Rightarrow> WindowsVpnEndpoint \<Rightarrow> fwpm_filter list" where
  "endpoint_filters packet_layer transport_layer endpoint =
     [make_filter packet_layer kFilterPersistent Action_permit kAllowWeight [endpoint_address_condition endpoint] True,
      make_filter transport_layer kFilterPersistent Action_permit kAllowWeight
        [endpoint_address_condition endpoint,
         \<lparr>field_key = kProtocolCondition, condition_value = V_uint8 IPPROTO_TCP\<rparr>,
         \<lparr>field_key = kRemotePortCondition, condition_value = V_uint16 (ve_port endpoint)\<rparr>] True]"

definition family_filters :: "guid \<Rightarrow> guid \<Rightarrow> bool \<Rightarrow> WindowsVpnEndpoint list \<Rightarrow> fwpm_filter list" where
  "family_filters packet_layer transport_layer ipv6 endpoints =
     concat (map (\<lambda>endpoint. if ve_ipv6 endpoint = ipv6 then endpoint_filters packet_layer transport_layer endpoint else [])
       endpoints)
     @ [make_filter transport_layer kFilterPersistent Action_block kBlockWeight [] True,
        make_filter packet_layer kFilterPersistent Action_block kBlockWeight [] True]"

definition kill_switch_filters :: "WindowsVpnEndpoint list \<Rightarrow> fwpm_filter list" where
  "kill_switch_filters endpoints =
     [make_filter kOutboundIpPacketV4 kFilterBootTime Action_block kBlockWeight [] True,
      make_filter kOutboundIpPacketV6 kFilterBootTime Action_block kBlockWeight [] True]
     @ family_filters kOutboundIpPacketV4 kOutboundTransportV4 False endpoints
     @ family_filters kOutboundIpPacketV6 kOutboundTransportV6 True endpoints"

text \<open>
  \<open>performs w fs m\<close>: \<open>m\<close> stays inside the transaction, and when it returns it has added exactly the
  filters \<open>fs\<close> and deleted exactly the filters that were reported to it.
\<close>

definition performs :: "windows \<Rightarrow> fwpm_filter list \<Rightarrow> 'a win \<Rightarrow> bool" where
  "performs w fs m \<longleftrightarrow> emits m (\<lambda>log r cs. list_all inner_call cs
     \<and> (\<forall>x. r = Inr x \<longrightarrow> added cs = fs \<and> deleted cs = reported w log cs))"

lemma performs_bind: "performs w fs m \<Longrightarrow> (\<And>x. performs w gs (f x)) \<Longrightarrow> performs w (fs @ gs) (io_bind m f)"
  unfolding performs_def by (erule emits_bind, assumption) auto

lemma performs_bind0: "performs w [] m \<Longrightarrow> (\<And>x. performs w gs (f x)) \<Longrightarrow> performs w gs (io_bind m f)"
  using performs_bind [of w "[]" m gs f] by simp

lemma performs_then: "performs w fs m \<Longrightarrow> performs w gs n \<Longrightarrow> performs w (fs @ gs) (io_then m n)"
  unfolding io_then_def by (rule performs_bind)

lemma performs_return [simp]: "performs w [] (io_return x)"
  by (simp add: performs_def)

lemma performs_throw [simp]: "performs w fs (io_throw e)"
  by (simp add: performs_def)

lemma performs_each: "(\<And>x. performs w (g x) (f x)) \<Longrightarrow> performs w (concat (map g xs)) (io_each f xs)"
  by (induction xs) (simp_all add: performs_then)

text \<open>The calls that neither add, delete nor report a filter.\<close>

fun plain_call :: "wfp_call \<Rightarrow> bool" where
  "plain_call (Filter_add _ _) = False"
| "plain_call (Filter_delete _ _) = False"
| "plain_call (Filter_enum _ _) = False"
| "plain_call c = inner_call (Wfp c)"

lemma plain_facts: "plain_call c \<Longrightarrow> inner_call (Wfp c) \<and> added [Wfp c] = [] \<and> deleted [Wfp c] = [] \<and> reported w log [Wfp c] = []"
  by (cases c) simp_all

lemma performs_call: "plain_call c \<Longrightarrow> performs w [] (win_call w (Wfp c))"
  using plain_facts [of c w] by (simp add: performs_def)

lemma performs_check: "plain_call c \<Longrightarrow> performs w [] (check_wfp w c operation)"
  unfolding check_wfp_def by (rule performs_bind0 [OF performs_call]) simp_all

lemma check_emits: "emits (check_wfp w c operation) (\<lambda>log r cs. cs = [Wfp c]
     \<and> (r = Inr (windows_answer w log (Wfp c)) \<and> status (windows_answer w log (Wfp c)) = Success
        \<or> r = Inl (windows_error w operation (status (windows_answer w log (Wfp c))))))"
  by (simp add: emits_def check_wfp_def io_bind_def win_call_def io_throw_def io_return_def)

lemma performs_add: "performs w [make_filter layer flags action weight conditions owned]
    (add_filter w engine layer flags action weight conditions owned)"
  unfolding performs_def add_filter_def
  by (rule emits_then [OF check_emits, of "io_return ()" "\<lambda>log r cs. cs = []"]) auto

lemma performs_provider: "performs w [] (ensure_provider_and_sublayer w engine)"
proof -
  have "performs w [] (ensure_provider w engine)" "performs w [] (ensure_sublayer w engine)"
    unfolding ensure_provider_def ensure_sublayer_def io_then_def
    by (intro performs_bind0 performs_call; simp add: performs_bind0 performs_check)+
  from performs_then [OF this] show ?thesis by (simp add: ensure_provider_and_sublayer_def)
qed

lemma enumerate_loop_calls:
  assumes "enumerate_loop w engine enumeration keys log = Some y"
  shows "\<exists>cs. snd y = log @ cs \<and> list_all inner_call cs \<and> added cs = [] \<and> deleted cs = []
     \<and> (\<forall>ks. fst y = Inr ks \<longrightarrow> ks = keys @ reported w log cs)"
proof (rule enumerate_loop.raw_induct [OF _ assms], goal_cases)
  case (1 loop w engine enumeration keys log y)
  let ?c = "Wfp (Filter_enum engine enumeration)"
  let ?a = "windows_answer w log ?c"
  show ?case
  proof (cases "status ?a = Success \<and> answer_keys ?a \<noteq> []")
    case True
    then have "loop w engine enumeration (keys @ answer_keys ?a) (log @ [?c]) = Some y" using 1(2) by (simp add: Let_def)
    from 1(1) [OF this] obtain cs where "snd y = (log @ [?c]) @ cs" "list_all inner_call cs" "added cs = []" "deleted cs = []"
      "\<forall>ks. fst y = Inr ks \<longrightarrow> ks = (keys @ answer_keys ?a) @ reported w (log @ [?c]) cs" by blast
    then show ?thesis by (intro exI [of _ "?c # cs"]) simp
  next
    case False
    then show ?thesis using 1(2) by (intro exI [of _ "[?c]"]) (auto simp: Let_def split: if_splits)
  qed
qed

lemma enumerate_loop_emits:
  "emits (enumerate_loop w engine enumeration keys) (\<lambda>log r cs. list_all inner_call cs \<and> added cs = [] \<and> deleted cs = []
     \<and> (\<forall>ks. r = Inr ks \<longrightarrow> ks = keys @ reported w log cs))"
  unfolding emits_def using enumerate_loop_calls by fastforce

lemma emits_on_throw:
  assumes "emits m P" and "\<And>log x cs. P log (Inr x) cs \<Longrightarrow> Q log (Inr x) cs"
    and "\<And>log e cs. P log (Inl e) cs \<Longrightarrow> Q log (Inl e) (cs @ [c])"
  shows "emits (io_on_throw m (win_ignore w c)) Q"
  unfolding emits_def
proof (intro allI impI)
  fix log r log'
  assume run: "io_on_throw m (win_ignore w c) log = Some (r, log')"
  then obtain s mid where s: "m log = Some (s, mid)" by (auto simp: io_on_throw_def split: option.splits)
  from emitsD [OF assms(1) s] obtain cs where cs: "mid = log @ cs" "P log s cs" .
  show "\<exists>cs. log' = log @ cs \<and> Q log r cs"
    using run s cs assms(2,3) by (cases s) (auto simp: io_on_throw_def io_throw_def)
qed

lemma emits_finally:
  assumes "emits m P" and "\<And>log r cs. P log r cs \<Longrightarrow> Q log r (cs @ [c])"
  shows "emits (io_finally m (win_ignore w c)) Q"
  unfolding emits_def
proof (intro allI impI)
  fix log r log'
  assume run: "io_finally m (win_ignore w c) log = Some (r, log')"
  then obtain s mid where s: "m log = Some (s, mid)" by (auto simp: io_finally_def split: option.splits)
  from emitsD [OF assms(1) s] obtain cs where cs: "mid = log @ cs" "P log s cs" .
  show "\<exists>cs. log' = log @ cs \<and> Q log r cs"
    using run s cs assms(2) by (cases s) (auto simp: io_finally_def io_throw_def io_return_def)
qed

lemma enumerate_emits:
  "emits (enumerate_provider_filters w engine) (\<lambda>log r cs. list_all inner_call cs \<and> added cs = [] \<and> deleted cs = []
     \<and> (\<forall>ks. r = Inr ks \<longrightarrow> ks = reported w log cs))"
  unfolding enumerate_provider_filters_def
proof (rule emits_bind [OF check_emits])
  fix a
  let ?P = "\<lambda>log r cs. list_all inner_call cs \<and> added cs = [] \<and> deleted cs = [] \<and> (\<forall>ks. r = Inr ks \<longrightarrow> ks = reported w log cs)"
  let ?d = "Wfp (Enum_destroy engine (answer_handle a))"
  have "emits (io_on_throw (enumerate_loop w engine (answer_handle a) []) (win_ignore w ?d)) ?P"
    by (rule emits_on_throw [OF enumerate_loop_emits]) auto
  then show "emits (io_bind (io_on_throw (enumerate_loop w engine (answer_handle a) []) (win_ignore w ?d)) (\<lambda>keys.
      io_then (check_wfp w (Enum_destroy engine (answer_handle a)) ''destroy WFP filter enumeration'') (io_return keys))) ?P"
  proof (rule emits_bind)
    show "emits (io_then (check_wfp w (Enum_destroy engine (answer_handle a)) ''destroy WFP filter enumeration'') (io_return keys))
        (\<lambda>log r cs. cs = [?d] \<and> (\<forall>ks. r = Inr ks \<longrightarrow> ks = keys))" for keys
      by (rule emits_then [OF check_emits, of "io_return keys" "\<lambda>log r cs. cs = [] \<and> r = Inr keys"]) auto
  qed auto
qed auto

lemma delete_filter_emits:
  "emits (delete_filter w engine key) (\<lambda>log r cs. cs = [Wfp (Filter_delete engine key)])"
  by (simp add: emits_def delete_filter_def io_bind_def win_call_def io_throw_def io_return_def)

lemma delete_each_emits:
  "emits (io_each (delete_filter w engine) keys) (\<lambda>log r cs. list_all inner_call cs \<and> added cs = [] \<and> reported w log cs = []
     \<and> (\<forall>x. r = Inr x \<longrightarrow> deleted cs = keys))"
proof (induction keys)
  case (Cons key keys)
  show ?case unfolding io_each.simps by (rule emits_then [OF delete_filter_emits Cons.IH]) auto
qed simp

lemma performs_delete: "performs w [] (delete_provider_filters w engine)"
  unfolding performs_def delete_provider_filters_def
  by (rule emits_bind [OF enumerate_emits delete_each_emits]) auto

lemma performs_family: "performs w (family_filters packet_layer transport_layer ipv6 endpoints)
    (add_family_policy w engine packet_layer transport_layer ipv6 endpoints)"
proof -
  have "performs w (if ve_ipv6 e = ipv6 then endpoint_filters packet_layer transport_layer e else [])
      (if ve_ipv6 e = ipv6 then add_endpoint_allow w engine packet_layer transport_layer e else io_return ())" for e
    using performs_then [OF performs_add performs_add] by (simp add: add_endpoint_allow_def endpoint_filters_def)
  from performs_then [OF performs_each [OF this] performs_then [OF performs_add performs_add]]
  show ?thesis unfolding add_family_policy_def family_filters_def add_unconditional_filter_def by simp
qed

text \<open>
  The two ways in which a transaction ends: committed with everything done, or begun and aborted
  after some calls, the last of which may be a commit that Windows refused.
\<close>

definition transaction_calls :: "windows \<Rightarrow> fwpm_filter list \<Rightarrow> handle \<Rightarrow> win_call list \<Rightarrow> unit result \<Rightarrow> win_call list \<Rightarrow> bool" where
  "transaction_calls w fs h log r cs \<longleftrightarrow>
     (case r of
        Inr _ \<Rightarrow> \<exists>mid. cs = Wfp (Transaction_begin h) # mid @ [Wfp (Transaction_commit h)]
          \<and> list_all inner_call mid \<and> added mid = fs
          \<and> deleted mid = reported w (log @ [Wfp (Transaction_begin h)]) mid
          \<and> status (windows_answer w (log @ Wfp (Transaction_begin h) # mid) (Wfp (Transaction_commit h))) = Success
      | Inl _ \<Rightarrow> cs = [Wfp (Transaction_begin h)]
          \<or> (\<exists>mid commit. cs = Wfp (Transaction_begin h) # mid @ commit @ [Wfp (Transaction_abort h)]
               \<and> list_all inner_call mid \<and> (commit = [] \<or> commit = [Wfp (Transaction_commit h)])))"

lemma transaction_emits:
  assumes "performs w fs body"
  shows "emits (with_transaction w h body) (transaction_calls w fs h)"
proof -
  let ?commit = "io_then (check_wfp w (Transaction_commit h) ''commit WFP transaction'') (io_return ())"
  let ?C = "Wfp (Transaction_commit h)"
  have commit: "emits ?commit (\<lambda>log r cs. cs = [?C] \<and> (\<forall>x. r = Inr x \<longrightarrow> status (windows_answer w log ?C) = Success))"
    by (rule emits_then [OF check_emits, of "io_return ()" "\<lambda>log r cs. cs = []"]) auto
  let ?Q = "\<lambda>log r cs. case r of
      Inr _ \<Rightarrow> \<exists>mid. cs = mid @ [?C] \<and> list_all inner_call mid \<and> added mid = fs
        \<and> deleted mid = reported w log mid \<and> status (windows_answer w (log @ mid) ?C) = Success
    | Inl _ \<Rightarrow> \<exists>mid commit. cs = mid @ commit \<and> list_all inner_call mid \<and> (commit = [] \<or> commit = [?C])"
  have "emits (io_then body ?commit) ?Q"
  proof (rule emits_then [OF assms [unfolded performs_def] commit], goal_cases)
    case (1 log e cs)
    then show ?case by (auto intro: exI [of _ "[]"])
  next
    case (2 log x cs1 r cs2)
    then show ?case by (cases r) auto
  qed
  then have "emits (io_on_throw (io_then body ?commit) (win_ignore w (Wfp (Transaction_abort h))))
      (\<lambda>log r cs. case r of Inr _ \<Rightarrow> ?Q log r cs
         | Inl _ \<Rightarrow> \<exists>mid commit. cs = mid @ commit @ [Wfp (Transaction_abort h)] \<and> list_all inner_call mid
             \<and> (commit = [] \<or> commit = [?C]))"
    by (rule emits_on_throw) auto
  then show ?thesis unfolding with_transaction_def
    by (rule emits_then [OF check_emits]) (auto simp: transaction_calls_def split: sum.splits)
qed

definition closing :: "handle \<Rightarrow> win_call list" where
  "closing h = (if h = 0 then [] else [Wfp (Engine_close h)])"

lemma engine_emits:
  assumes "\<And>h. emits (body h) (P h)"
  shows "emits (with_engine w body) (\<lambda>log r cs. (cs = [Wfp (Engine_open False)] \<and> (\<exists>e. r = Inl e))
     \<or> (\<exists>h mid. cs = Wfp (Engine_open False) # mid @ closing h \<and> P h (log @ [Wfp (Engine_open False)]) r mid))"
  unfolding with_engine_def
proof (rule emits_bind [OF check_emits, where Q = "\<lambda>a log r cs. \<exists>mid. cs = mid @ closing (answer_handle a) \<and> P (answer_handle a) log r mid"],
    goal_cases)
  case (1 a)
  let ?h = "answer_handle a"
  have "emits (io_finally (body ?h) (win_ignore w (Wfp (Engine_close ?h)))) (\<lambda>log r cs. \<exists>mid. cs = mid @ [Wfp (Engine_close ?h)] \<and> P ?h log r mid)"
    by (rule emits_finally [OF assms]) auto
  moreover have "emits (io_finally (body ?h) (io_return ())) (P ?h)"
  proof -
    have "io_finally (body ?h) (io_return ()) = body ?h"
      by (rule ext) (auto simp: io_finally_def io_then_def io_bind_def io_return_def io_throw_def split: option.split sum.split)
    then show ?thesis using assms by simp
  qed
  ultimately show ?case
    by (cases "?h = 0") (simp_all add: closing_def)
qed auto

lemma enable_emits:
  "emits (enable_windows_kill_switch w endpoints) (\<lambda>log r cs. (cs = [] \<and> (\<exists>e. r = Inl e))
     \<or> (cs = [Wfp (Engine_open False)] \<and> (\<exists>e. r = Inl e))
     \<or> (\<exists>h mid. cs = Wfp (Engine_open False) # mid @ closing h
          \<and> transaction_calls w (kill_switch_filters endpoints) h (log @ [Wfp (Engine_open False)]) r mid))"
proof -
  let ?body = "\<lambda>engine. io_then (ensure_provider_and_sublayer w engine)
      (io_then (delete_provider_filters w engine)
      (io_then (add_unconditional_filter w engine kOutboundIpPacketV4 kFilterBootTime Action_block kBlockWeight)
      (io_then (add_unconditional_filter w engine kOutboundIpPacketV6 kFilterBootTime Action_block kBlockWeight)
      (io_then (add_family_policy w engine kOutboundIpPacketV4 kOutboundTransportV4 False endpoints)
                (add_family_policy w engine kOutboundIpPacketV6 kOutboundTransportV6 True endpoints)))))"
  have "performs w (kill_switch_filters endpoints) (?body engine)" for engine
    using performs_then [OF performs_provider performs_then [OF performs_delete performs_then [OF performs_add
      performs_then [OF performs_add performs_then [OF performs_family performs_family]]]]]
    unfolding kill_switch_filters_def add_unconditional_filter_def by simp
  then have "emits (with_transaction w engine (?body engine)) (transaction_calls w (kill_switch_filters endpoints) engine)" for engine
    by (rule transaction_emits)
  from engine_emits [where body = "\<lambda>engine. with_transaction w engine (?body engine)", OF this, of w]
  have "emits (with_engine w (\<lambda>engine. with_transaction w engine (?body engine))) (\<lambda>log r cs. (cs = [] \<and> (\<exists>e. r = Inl e))
     \<or> (cs = [Wfp (Engine_open False)] \<and> (\<exists>e. r = Inl e))
     \<or> (\<exists>h mid. cs = Wfp (Engine_open False) # mid @ closing h
          \<and> transaction_calls w (kill_switch_filters endpoints) h (log @ [Wfp (Engine_open False)]) r mid))"
    by (rule emits_mono) blast
  then show ?thesis unfolding enable_windows_kill_switch_def by simp
qed

section \<open>What the filters mean\<close>

text \<open>
  The documented arbitration of WFP, for the outbound packets of the machine. A filter matches when
  all of its conditions hold; in the sublayer of the policy the matching filter of the greatest
  weight decides, so a block stands unless a heavier permit matches; a packet leaves only if it
  passes the packet layer and the transport layer of its family. Boot-time filters are in force until
  the filtering engine runs, the others afterwards.
\<close>

record outbound_packet =
  op_ipv6 :: bool
  op_remote :: bytes
  op_protocol :: u8
  op_port :: u16
  op_interface :: u32

definition same_prefix :: "nat \<Rightarrow> bytes \<Rightarrow> bytes \<Rightarrow> bool" where
  "same_prefix n a b \<longleftrightarrow> list_all (\<lambda>i. bit (a ! (i div 8)) (7 - i mod 8) = bit (b ! (i div 8)) (7 - i mod 8)) [0..<n]"

definition condition_holds :: "outbound_packet \<Rightarrow> filter_condition \<Rightarrow> bool" where
  "condition_holds p c \<longleftrightarrow>
     (if field_key c = kInterfaceIndexCondition then condition_value c = V_uint32 (op_interface p)
      else if field_key c = kProtocolCondition then condition_value c = V_uint8 (op_protocol p)
      else if field_key c = kRemotePortCondition then condition_value c = V_uint16 (op_port p)
      else field_key c = kRemoteAddressCondition \<and>
        (case condition_value c of
           V_v4_addr_mask a m \<Rightarrow> \<not> op_ipv6 p \<and> to_integer (op_remote p) AND m = a AND m
         | V_v6_addr_mask a n \<Rightarrow> op_ipv6 p \<and> same_prefix n a (op_remote p)
         | _ \<Rightarrow> False))"

definition filter_matches :: "guid \<Rightarrow> outbound_packet \<Rightarrow> fwpm_filter \<Rightarrow> bool" where
  "filter_matches layer p f \<longleftrightarrow> filter_layer f = layer \<and> list_all (condition_holds p) (filter_conditions f)"

definition passes_layer :: "fwpm_filter list \<Rightarrow> guid \<Rightarrow> outbound_packet \<Rightarrow> bool" where
  "passes_layer fs layer p \<longleftrightarrow>
     (\<forall>g\<in>set fs. filter_matches layer p g \<longrightarrow> filter_action g = Action_block \<longrightarrow>
        (\<exists>f\<in>set fs. filter_matches layer p f \<and> filter_action f = Action_permit \<and> filter_weight g < filter_weight f))"

definition packet_layer :: "outbound_packet \<Rightarrow> guid" where
  "packet_layer p = (if op_ipv6 p then kOutboundIpPacketV6 else kOutboundIpPacketV4)"

definition transport_layer :: "outbound_packet \<Rightarrow> guid" where
  "transport_layer p = (if op_ipv6 p then kOutboundTransportV6 else kOutboundTransportV4)"

definition passes :: "fwpm_filter list \<Rightarrow> outbound_packet \<Rightarrow> bool" where
  "passes fs p \<longleftrightarrow> passes_layer fs (packet_layer p) p \<and> passes_layer fs (transport_layer p) p"

definition boot_time :: "fwpm_filter list \<Rightarrow> fwpm_filter list" where
  "boot_time fs = filter (\<lambda>f. filter_flags f AND kFilterBootTime \<noteq> 0) fs"

definition run_time :: "fwpm_filter list \<Rightarrow> fwpm_filter list" where
  "run_time fs = filter (\<lambda>f. filter_flags f AND kFilterBootTime = 0) fs"

text \<open>The permits of the tunnel interface.\<close>

definition tunnel_filters :: "u32 \<Rightarrow> fwpm_filter list" where
  "tunnel_filters interface_index =
     map (\<lambda>layer. make_filter layer 0 Action_permit kAllowWeight [interface_condition interface_index] False)
       [kOutboundIpPacketV4, kOutboundIpPacketV6, kOutboundTransportV4, kOutboundTransportV6]"

definition packet_to :: "outbound_packet \<Rightarrow> WindowsVpnEndpoint \<Rightarrow> bool" where
  "packet_to p e \<longleftrightarrow> ve_ipv6 e = op_ipv6 p \<and> take (if ve_ipv6 e then 16 else 4) (ve_address e) = op_remote p"

lemma same_prefix_128:
  assumes "length a = 16" "length b = 16"
  shows "same_prefix 128 a b \<longleftrightarrow> a = b"
proof
  assume p: "same_prefix 128 a b"
  show "a = b"
  proof (rule nth_equalityI)
    fix j assume "j < length a"
    then have j: "j < 16" using assms by simp
    show "a ! j = b ! j"
    proof (rule bit_word_eqI)
      fix n assume "n < LENGTH(8)"
      then have n: "n < 8" by simp
      define i where "i = 8 * j + (7 - n)"
      have "i mod 8 = 7 - n" unfolding i_def by (subst mod_mult_self4) (use n in simp)
      then have "i < 128" "i div 8 = j" "7 - i mod 8 = n" using j n by (auto simp: i_def)
      then show "bit (a ! j) n = bit (b ! j) n" using p by (auto simp: same_prefix_def list_all_iff)
    qed
  qed (use assms in simp)
qed (simp add: same_prefix_def list_all_iff)

lemma layers_distinct [simp]:
  "kOutboundIpPacketV4 \<noteq> kOutboundIpPacketV6" "kOutboundIpPacketV4 \<noteq> kOutboundTransportV4" "kOutboundIpPacketV4 \<noteq> kOutboundTransportV6"
  "kOutboundIpPacketV6 \<noteq> kOutboundIpPacketV4" "kOutboundIpPacketV6 \<noteq> kOutboundTransportV4" "kOutboundIpPacketV6 \<noteq> kOutboundTransportV6"
  "kOutboundTransportV4 \<noteq> kOutboundIpPacketV4" "kOutboundTransportV4 \<noteq> kOutboundIpPacketV6" "kOutboundTransportV4 \<noteq> kOutboundTransportV6"
  "kOutboundTransportV6 \<noteq> kOutboundIpPacketV4" "kOutboundTransportV6 \<noteq> kOutboundIpPacketV6" "kOutboundTransportV6 \<noteq> kOutboundTransportV4"
  by (simp_all add: kOutboundIpPacketV4_def kOutboundIpPacketV6_def kOutboundTransportV4_def kOutboundTransportV6_def)

lemma fields_distinct [simp]:
  "kProtocolCondition \<noteq> kInterfaceIndexCondition" "kRemotePortCondition \<noteq> kInterfaceIndexCondition"
  "kRemoteAddressCondition \<noteq> kInterfaceIndexCondition" "kRemotePortCondition \<noteq> kProtocolCondition"
  "kRemoteAddressCondition \<noteq> kProtocolCondition" "kRemoteAddressCondition \<noteq> kRemotePortCondition"
  by (simp_all add: kProtocolCondition_def kInterfaceIndexCondition_def kRemotePortCondition_def kRemoteAddressCondition_def)

lemma make_filter_fields [simp]:
  "filter_flags (make_filter l fl a wt cs o') = fl" "filter_layer (make_filter l fl a wt cs o') = l"
  "filter_weight (make_filter l fl a wt cs o') = wt" "filter_conditions (make_filter l fl a wt cs o') = cs"
  "filter_action (make_filter l fl a wt cs o') = a"
  by (simp_all add: make_filter_def)

lemma endpoint_condition_holds:
  assumes "length (ve_address e) = 16" "length (op_remote p) = (if op_ipv6 p then 16 else 4)"
  shows "condition_holds p (endpoint_address_condition e) \<longleftrightarrow> packet_to p e"
proof -
  have "(0xffffffff :: u32) = - 1" by simp
  then have all: "x AND 0xffffffff = x" for x :: u32 by (simp only: and.right_neutral)
  show ?thesis
    using assms same_prefix_128 [of "ve_address e" "op_remote p"] to_integer_inject [of "op_remote p" "take 4 (ve_address e)"]
    by (auto simp: condition_holds_def endpoint_address_condition_def packet_to_def all)
qed

lemma run_time_filters:
  "run_time (kill_switch_filters es @ fs) = family_filters kOutboundIpPacketV4 kOutboundTransportV4 False es
     @ family_filters kOutboundIpPacketV6 kOutboundTransportV6 True es @ run_time fs"
proof -
  have "run_time (family_filters pl tr v es) = family_filters pl tr v es" for pl tr v
  proof -
    have "\<forall>f\<in>set (family_filters pl tr v es). filter_flags f AND kFilterBootTime = 0"
      by (auto simp: family_filters_def endpoint_filters_def kFilterPersistent_def kFilterBootTime_def split: if_splits)
    then show ?thesis by (simp add: run_time_def filter_id_conv)
  qed
  then show ?thesis by (simp add: kill_switch_filters_def run_time_def kFilterBootTime_def)
qed

lemma run_time_tunnel [simp]: "run_time (tunnel_filters i) = tunnel_filters i"
  by (simp add: run_time_def tunnel_filters_def)

text \<open>With one unconditional block and heavier permits, a packet passes exactly if a permit matches.\<close>

lemma passes_layer_iff:
  assumes "\<exists>g\<in>set fs. filter_layer g = layer \<and> filter_conditions g = [] \<and> filter_action g = Action_block"
    and "\<forall>f\<in>set fs. filter_weight f = (if filter_action f = Action_permit then kAllowWeight else kBlockWeight)"
  shows "passes_layer fs layer p \<longleftrightarrow> (\<exists>f\<in>set fs. filter_matches layer p f \<and> filter_action f = Action_permit)"
proof -
  have w: "kBlockWeight < kAllowWeight" by (simp add: kBlockWeight_def kAllowWeight_def)
  obtain g where g: "g \<in> set fs" "filter_matches layer p g" "filter_action g = Action_block"
    using assms(1) by (auto simp: filter_matches_def)
  show ?thesis
  proof
    assume "passes_layer fs layer p"
    then show "\<exists>f\<in>set fs. filter_matches layer p f \<and> filter_action f = Action_permit"
      using g unfolding passes_layer_def by blast
  next
    assume "\<exists>f\<in>set fs. filter_matches layer p f \<and> filter_action f = Action_permit"
    then show "passes_layer fs layer p" unfolding passes_layer_def using assms(2) w by auto
  qed
qed

lemma permits_of_family:
  assumes "\<forall>e\<in>set es. length (ve_address e) = 16" "length (op_remote p) = (if op_ipv6 p then 16 else 4)" "pl \<noteq> tr"
  shows "(\<exists>f\<in>set (family_filters pl tr v es). filter_matches pl p f \<and> filter_action f = Action_permit)
      \<longleftrightarrow> (\<exists>e\<in>set es. ve_ipv6 e = v \<and> packet_to p e)"
    "(\<exists>f\<in>set (family_filters pl tr v es). filter_matches tr p f \<and> filter_action f = Action_permit)
      \<longleftrightarrow> (\<exists>e\<in>set es. ve_ipv6 e = v \<and> packet_to p e \<and> op_protocol p = IPPROTO_TCP \<and> ve_port e = op_port p)"
  using assms endpoint_condition_holds [of _ p]
  by (auto simp: family_filters_def endpoint_filters_def filter_matches_def condition_holds_def [of p "\<lparr>field_key = _, condition_value = _\<rparr>"]
      split: if_splits)

lemma weights_of_policy:
  "\<forall>f\<in>set (family_filters pl tr v es @ family_filters pl' tr' v' es @ (if b then tunnel_filters i else [])).
     filter_weight f = (if filter_action f = Action_permit then kAllowWeight else kBlockWeight)"
  by (auto simp: family_filters_def endpoint_filters_def tunnel_filters_def split: if_splits)

lemma interface_permits:
  "(\<exists>f\<in>set (tunnel_filters i). filter_matches layer p f \<and> filter_action f = Action_permit)
     \<longleftrightarrow> layer \<in> {kOutboundIpPacketV4, kOutboundIpPacketV6, kOutboundTransportV4, kOutboundTransportV6} \<and> op_interface p = i"
  by (auto simp: tunnel_filters_def filter_matches_def condition_holds_def interface_condition_def)

text \<open>The traffic that the policy lets through, with and without the permit of the tunnel interface.\<close>

lemma policy_passes:
  assumes es: "\<forall>e\<in>set es. length (ve_address e) = 16" and p: "length (op_remote p) = (if op_ipv6 p then 16 else 4)"
  shows "passes (run_time (kill_switch_filters es @ (if b then tunnel_filters i else []))) p
    \<longleftrightarrow> b \<and> op_interface p = i
      \<or> op_protocol p = IPPROTO_TCP \<and> (\<exists>e\<in>set es. packet_to p e \<and> ve_port e = op_port p)"
proof -
  let ?f4 = "family_filters kOutboundIpPacketV4 kOutboundTransportV4 False es"
  let ?f6 = "family_filters kOutboundIpPacketV6 kOutboundTransportV6 True es"
  let ?t = "if b then tunnel_filters i else []"
  let ?fs = "?f4 @ ?f6 @ ?t"
  let ?permit = "\<lambda>layer fs. \<exists>f\<in>set fs. filter_matches layer p f \<and> filter_action f = Action_permit"
  have t: "run_time ?t = ?t" by (simp add: run_time_def) (simp add: tunnel_filters_def)
  have block: "\<exists>g\<in>set ?fs. filter_layer g = layer \<and> filter_conditions g = [] \<and> filter_action g = Action_block"
    if "layer \<in> {kOutboundIpPacketV4, kOutboundIpPacketV6, kOutboundTransportV4, kOutboundTransportV6}" for layer
    using that by (auto simp: family_filters_def)
  have pass: "passes_layer ?fs layer p \<longleftrightarrow> ?permit layer ?f4 \<or> ?permit layer ?f6 \<or> b \<and> op_interface p = i"
    if "layer \<in> {kOutboundIpPacketV4, kOutboundIpPacketV6, kOutboundTransportV4, kOutboundTransportV6}" for layer
    using passes_layer_iff [OF block [OF that] weights_of_policy, of p] interface_permits [of i layer p] that
    by (auto simp: Bex_def)
  have none: "\<not> ?permit layer (family_filters pl tr v es)" if "layer \<noteq> pl" "layer \<noteq> tr" for layer pl tr v
    using that by (auto simp: family_filters_def endpoint_filters_def filter_matches_def split: if_splits)
  note family = permits_of_family [OF es p]
  have own: "(\<exists>e\<in>set es. ve_ipv6 e = op_ipv6 p \<and> packet_to p e \<and> Q e) \<longleftrightarrow> (\<exists>e\<in>set es. packet_to p e \<and> Q e)" for Q
    by (auto simp: packet_to_def)
  have packet: "passes_layer ?fs (packet_layer p) p \<longleftrightarrow> (\<exists>e\<in>set es. packet_to p e) \<or> b \<and> op_interface p = i"
  proof (cases "op_ipv6 p")
    case True
    then show ?thesis using pass [of kOutboundIpPacketV6] none family(1) [of kOutboundIpPacketV6 kOutboundTransportV6 True]
      own [of "\<lambda>_. True"] by (simp add: packet_layer_def)
  next
    case False
    then show ?thesis using pass [of kOutboundIpPacketV4] none family(1) [of kOutboundIpPacketV4 kOutboundTransportV4 False]
      own [of "\<lambda>_. True"] by (simp add: packet_layer_def)
  qed
  have transport: "passes_layer ?fs (transport_layer p) p
      \<longleftrightarrow> (\<exists>e\<in>set es. packet_to p e \<and> op_protocol p = IPPROTO_TCP \<and> ve_port e = op_port p) \<or> b \<and> op_interface p = i"
  proof (cases "op_ipv6 p")
    case True
    then show ?thesis using pass [of kOutboundTransportV6] none family(2) [of kOutboundIpPacketV6 kOutboundTransportV6 True]
      own [of "\<lambda>e. op_protocol p = IPPROTO_TCP \<and> ve_port e = op_port p"] by (simp add: transport_layer_def)
  next
    case False
    then show ?thesis using pass [of kOutboundTransportV4] none family(2) [of kOutboundIpPacketV4 kOutboundTransportV4 False]
      own [of "\<lambda>e. op_protocol p = IPPROTO_TCP \<and> ve_port e = op_port p"] by (simp add: transport_layer_def)
  qed
  show ?thesis unfolding run_time_filters t passes_def packet transport by blast
qed

section \<open>Properties\<close>

definition demo_windows :: windows where
  "demo_windows = \<lparr>windows_answer = (\<lambda>log c. \<lparr>status = Success, answer_handle = 7, answer_flags = 1,
     answer_owner = Some kProviderKey, answer_keys = [], answer_number = 1, answer_bytes = [], answer_rows = []\<rparr>),
     windows_message = (\<lambda>_. [])\<rparr>"

definition demo_endpoint :: WindowsVpnEndpoint where
  "demo_endpoint = \<lparr>ve_address = [192, 0, 2, 1] @ replicate 12 0, ve_port = 443, ve_ipv6 = False\<rparr>"

definition demo_outbound :: "bytes \<Rightarrow> outbound_packet" where
  "demo_outbound remote = \<lparr>op_ipv6 = False, op_remote = remote, op_protocol = 6, op_port = 443, op_interface = 3\<rparr>"

lemma demo_enabled: "\<exists>log. enable_windows_kill_switch demo_windows [demo_endpoint] [] = Some (Inr (), log)"
proof -
  have "map_option fst (enable_windows_kill_switch demo_windows [demo_endpoint] []) = Some (Inr ())" by code_simp
  then show ?thesis by auto
qed

text \<open>
  C34: the kill switch lets out nothing but the connection to the server. When
  \<^verbatim>\<open>enable_windows_kill_switch\<close> returns, the filters it has added permit an outbound packet, of either
  family and any protocol, exactly if it is a TCP segment to the address and port of one of the
  endpoints; with the permits of the tunnel interface, exactly if it is that or leaves through the
  tunnel; and until the filtering engine runs after a boot they let nothing out.
\<close>

theorem kill_switch_policy_exact:
  assumes "enable_windows_kill_switch w endpoints log = Some (Inr (), log')"
    and "fs = added (drop (length log) log')"
    and "\<forall>e\<in>set endpoints. length (ve_address e) = 16"
    and "length (op_remote p) = (if op_ipv6 p then 16 else 4)"
  shows "(passes (run_time fs) p \<longleftrightarrow>
       op_protocol p = IPPROTO_TCP \<and> (\<exists>e\<in>set endpoints. packet_to p e \<and> ve_port e = op_port p))
    \<and> (passes (run_time (fs @ tunnel_filters i)) p \<longleftrightarrow> op_interface p = i
       \<or> op_protocol p = IPPROTO_TCP \<and> (\<exists>e\<in>set endpoints. packet_to p e \<and> ve_port e = op_port p))
    \<and> \<not> passes_layer (boot_time fs) (packet_layer p) p"
proof -
  obtain h mid where log': "log' = log @ Wfp (Engine_open False) # mid @ closing h"
    and mid: "transaction_calls w (kill_switch_filters endpoints) h (log @ [Wfp (Engine_open False)]) (Inr ()) mid"
    by (rule emitsD [OF enable_emits assms(1)]) auto
  have fs: "fs = kill_switch_filters endpoints"
    using mid unfolding assms(2) log' by (auto simp: transaction_calls_def closing_def)
  have "\<not> passes_layer (boot_time fs) (packet_layer p) p"
  proof -
    have "set (boot_time (family_filters pl tr v endpoints)) = {}" for pl tr v
      by (auto simp: boot_time_def family_filters_def endpoint_filters_def kFilterPersistent_def kFilterBootTime_def split: if_splits)
    then have "boot_time fs = [make_filter kOutboundIpPacketV4 kFilterBootTime Action_block kBlockWeight [] True,
        make_filter kOutboundIpPacketV6 kFilterBootTime Action_block kBlockWeight [] True]"
      by (simp add: fs kill_switch_filters_def boot_time_def kFilterBootTime_def)
    then show ?thesis by (auto simp: passes_layer_def packet_layer_def filter_matches_def)
  qed
  with policy_passes [OF assms(3,4), of True i] policy_passes [OF assms(3,4), of False i] show ?thesis by (simp add: fs)
qed

theorem kill_switch_policy_exact_witness:
  "\<exists>log. enable_windows_kill_switch demo_windows [demo_endpoint] [] = Some (Inr (), log)
     \<and> passes (run_time (added log)) (demo_outbound [192, 0, 2, 1])
     \<and> \<not> passes (run_time (added log)) (demo_outbound [192, 0, 2, 2])
     \<and> passes (run_time (added log @ tunnel_filters 3)) (demo_outbound [192, 0, 2, 2])"
proof -
  obtain log where log: "enable_windows_kill_switch demo_windows [demo_endpoint] [] = Some (Inr (), log)"
    using demo_enabled by blast
  have d: "\<forall>e\<in>set [demo_endpoint]. length (ve_address e) = 16" by (simp add: demo_endpoint_def)
  have l: "length (op_remote (demo_outbound [192, 0, 2, x])) = (if op_ipv6 (demo_outbound [192, 0, 2, x]) then 16 else 4)" for x
    by (simp add: demo_outbound_def)
  show ?thesis
    using kill_switch_policy_exact [OF log refl d l [of 1], of 3] kill_switch_policy_exact [OF log refl d l [of 2], of 3] log
    by (auto simp: demo_outbound_def demo_endpoint_def packet_to_def IPPROTO_TCP_def)
qed



section \<open>Termination\<close>

text \<open>
  What the loop over the enumeration relies on: the enumeration of a finite set of filters comes to
  its end, at the latest in the call after \<open>n\<close> calls that returned filters.
\<close>

definition enumeration_ends :: "windows \<Rightarrow> nat \<Rightarrow> bool" where
  "enumeration_ends w n \<longleftrightarrow> (\<forall>log h e.
     status (windows_answer w (log @ replicate n (Wfp (Filter_enum h e))) (Wfp (Filter_enum h e))) \<noteq> Success
     \<or> answer_keys (windows_answer w (log @ replicate n (Wfp (Filter_enum h e))) (Wfp (Filter_enum h e))) = [])"

lemma enumerate_loop_returns:
  assumes "enumeration_ends w n"
  shows "returns (enumerate_loop w engine enumeration keys)"
proof -
  let ?c = "Wfp (Filter_enum engine enumeration)"
  have "enumerate_loop w engine enumeration keys (log @ replicate k ?c) \<noteq> None" if "k \<le> n" for k keys log
    using that
  proof (induction "n - k" arbitrary: k keys)
    case 0
    then have k: "k = n" by simp
    have "status (windows_answer w (log @ replicate k ?c) ?c) \<noteq> Success \<or> answer_keys (windows_answer w (log @ replicate k ?c) ?c) = []"
      using assms unfolding enumeration_ends_def k by blast
    then show ?case by (subst enumerate_loop.simps) (auto simp: Let_def)
  next
    case (Suc d)
    then have "enumerate_loop w engine enumeration (keys @ ks) (log @ replicate (Suc k) ?c) \<noteq> None" for ks
      by (intro Suc.hyps(1)) simp_all
    moreover have "log @ replicate (Suc k) ?c = (log @ replicate k ?c) @ [?c]" by (simp add: replicate_append_same)
    ultimately show ?case by (subst enumerate_loop.simps) (simp add: Let_def del: replicate_Suc append_assoc)
  qed
  from this [of 0] show ?thesis by (simp add: returns_def)
qed

lemma returns_check: "returns (check_wfp w c operation)"
  unfolding check_wfp_def by (rule returns_bind) simp_all

lemmas returns_intros = returns_bind returns_then returns_each returns_on_throw returns_finally returns_check

lemma enumerate_returns: "enumeration_ends w n \<Longrightarrow> returns (enumerate_provider_filters w engine)"
  unfolding enumerate_provider_filters_def by (intro returns_intros enumerate_loop_returns returns_simps returns_call)

lemma delete_returns: "enumeration_ends w n \<Longrightarrow> returns (delete_provider_filters w engine)"
  unfolding delete_provider_filters_def delete_filter_def
  by (intro returns_intros enumerate_returns) simp_all

lemma replace_returns: "\<exists>r session' log'. replace_windows_tunnel_permit w session index log = Some ((r, session'), log')"
proof -
  have c: "returns (close_windows_tunnel_permit w session)"
    unfolding close_windows_tunnel_permit_def by (auto intro!: returns_intros)
  have o: "returns (open_tunnel_permit w index)"
    unfolding open_tunnel_permit_def with_transaction_def add_interface_allow_def add_filter_def Let_def by (intro returns_intros returns_simps returns_call)
  show ?thesis
    using c o unfolding replace_windows_tunnel_permit_def returns_def
    by (auto split: option.split sum.split) (metis option.distinct(1))+
qed

text \<open>
  C36: the operations return. If the enumeration of filters comes to an end, then enabling and
  disabling the kill switch return or throw, from every history and for every list of endpoints;
  replacing the permit of the tunnel always does.
\<close>

theorem kill_switch_terminates:
  assumes "enumeration_ends w n"
  shows "(\<exists>r log'. enable_windows_kill_switch w endpoints log = Some (r, log'))
    \<and> (\<exists>r log'. disable_windows_kill_switch w log = Some (r, log'))
    \<and> (\<exists>r session' log'. replace_windows_tunnel_permit w session index log = Some ((r, session'), log'))"
proof -
  have "returns (enable_windows_kill_switch w endpoints)"
    unfolding enable_windows_kill_switch_def with_engine_def with_transaction_def ensure_provider_and_sublayer_def
      ensure_provider_def ensure_sublayer_def add_unconditional_filter_def add_family_policy_def add_endpoint_allow_def add_filter_def
    by (auto intro!: returns_intros delete_returns [OF assms])
  moreover have "returns (disable_windows_kill_switch w)"
    unfolding disable_windows_kill_switch_def with_engine_def with_transaction_def remove_provider_def
    by (auto intro!: returns_intros delete_returns [OF assms] enumerate_returns [OF assms])
  ultimately show ?thesis using replace_returns unfolding returns_def by fast
qed

theorem kill_switch_terminates_witness:
  "enumeration_ends demo_windows 0 \<and> (\<exists>r log'. enable_windows_kill_switch demo_windows [demo_endpoint] [] = Some (r, log'))"
proof -
  have "enumeration_ends demo_windows 0" by (simp add: enumeration_ends_def demo_windows_def)
  with kill_switch_terminates [OF this, of "[demo_endpoint]" "[]"] show ?thesis by blast
qed

end
