(* ===== verification/Client_Runtime.thy ===== *)
theory Client_Runtime
  imports Client_Config Tls_Client Kill_Switch
begin

unbundle bit_operations_syntax

text \<open>
  The client runtime, \<^verbatim>\<open>src/client/client_runtime.cpp\<close>: it resolves and connects, hands the
  connection to a \<^verbatim>\<open>TlsTunnelClient\<close>, configures the network when the server has assigned
  addresses, reads packets on a thread of its own, and retries with a growing delay until it is
  stopped or fails. Each handler on the I/O thread is one step; the operations it starts are
  outstanding until they complete; the network transaction is the one of the theory
  Network_Transaction.
\<close>

section \<open>State\<close>

datatype ClientRuntimeState =
    RStopped | RStarting | RResolving | RConnecting | RConfiguringNetwork | RConnected
  | RReconnecting | RStopping | RFailed

text \<open>A resolved endpoint, and the form in which the kill switch takes it.\<close>

datatype endpoint = Endpoint_v4 bytes u16 | Endpoint_v6 bytes u16

fun vpn_endpoint :: "endpoint \<Rightarrow> WindowsVpnEndpoint" where
  "vpn_endpoint (Endpoint_v4 address port) =
     \<lparr>ve_address = address @ replicate 12 0, ve_port = port, ve_ipv6 = False\<rparr>"
| "vpn_endpoint (Endpoint_v6 address port) =
     \<lparr>ve_address = address, ve_port = port, ve_ipv6 = True\<rparr>"

text \<open>
  The platform: on Windows, whether the packet device is the Windows backend, and then what
  \<^verbatim>\<open>enable_kill_switch\<close> returns or throws.
\<close>

datatype platform = Windows_backend "WindowsVpnEndpoint list \<Rightarrow> unit result" | Windows_other_device | Other_platform

text \<open>Operations in flight; a tunnel is known by the generation of the connection it was made for.\<close>

datatype rt_op =
    Op_begin_connect
  | Op_stop
  | Op_resolve nat
  | Op_connect nat
  | Op_connection_timer nat
  | Op_reconnect_timer

datatype rt_effect =
    Rt_event ClientRuntimeState string
  | Rt_interrupt_receive
  | Rt_cancel_resolver
  | Rt_cancel_connection_timer
  | Rt_cancel_reconnect_timer
  | Rt_reconnect_after u32
  | Rt_kill_switch "WindowsVpnEndpoint list"
  | Rt_connect "endpoint list"
  | Rt_close_stream
  | Rt_tunnel_start nat
  | Rt_tunnel_stop nat u16
  | Rt_tunnel_abort nat
  | Rt_tunnel_send nat bytes
  | Rt_send_packet bytes
  | Rt_terminate
  | Rt_io_stop

datatype reader_state = Checking | Receiving | Returned

text \<open>
  \<open>packet_thread\<close>: joinable, with the tunnel it was given and where its loop stands. The
  generation is a 64-bit counter in the source, which grows at most twice per connection attempt.
\<close>

record ClientRuntime =
  rt_config :: ClientConfig
  reconnect_attempt :: nat
  connection_generation :: nat
  pending_stream :: bool
  rt_tunnel :: "nat option"
  rt_network :: transaction
  packet_thread :: "(nat option \<times> reader_state) option"
  rt_state :: ClientRuntimeState
  rt_started :: bool
  intentional_stop :: bool
  stop_requested :: bool
  rt_finished :: bool
  failure_message :: string
  rt_ops :: "rt_op list"
  rt_log :: "rt_effect list"

definition new_ClientRuntime :: "ClientConfig \<Rightarrow> bool \<Rightarrow> int \<Rightarrow> ClientRuntime result" where
  "new_ClientRuntime config has_packet_device connection_timeout =
     (if \<not> has_packet_device then Inl (Invalid_argument ''client runtime packet device must not be null'')
      else if connection_timeout \<le> 0 then Inl (Invalid_argument ''client connection timeout must be positive'')
      else
        Inr \<lparr>rt_config = config, reconnect_attempt = 0, connection_generation = 0, pending_stream = False,
             rt_tunnel = None, rt_network = (new_ClientNetworkTransaction, []), packet_thread = None,
             rt_state = RStopped, rt_started = False, intentional_stop = False, stop_requested = False,
             rt_finished = False, failure_message = [], rt_ops = [], rt_log = []\<rparr>)"

definition rt_emit :: "rt_effect \<Rightarrow> ClientRuntime \<Rightarrow> ClientRuntime" where
  "rt_emit e r = r\<lparr>rt_log := rt_log r @ [e]\<rparr>"

definition rt_post :: "rt_op \<Rightarrow> ClientRuntime \<Rightarrow> ClientRuntime" where
  "rt_post x r = r\<lparr>rt_ops := rt_ops r @ [x]\<rparr>"

definition transition :: "ClientRuntimeState \<Rightarrow> string \<Rightarrow> ClientRuntime \<Rightarrow> ClientRuntime" where
  "transition state message r = rt_emit (Rt_event state message) (r\<lparr>rt_state := state\<rparr>)"

definition record_failure :: "string \<Rightarrow> ClientRuntime \<Rightarrow> ClientRuntime" where
  "record_failure message r = (if failure_message r = [] then r\<lparr>failure_message := message\<rparr> else r)"

section \<open>The packet thread\<close>

text \<open>
  The loop of \<^verbatim>\<open>run_packet_reader\<close> in two steps, since a stop may be requested while the thread is
  inside \<^verbatim>\<open>receive_packet\<close>: the test of the condition, and what the call returns or throws.
\<close>

datatype reader_event = Reader_checks | Reader_receives "bytes option result"

fun reader_turn :: "reader_event \<Rightarrow> ClientRuntime \<Rightarrow> ClientRuntime" where
  "reader_turn Reader_checks r =
     (case packet_thread r of
        Some (tunnel, Checking) \<Rightarrow>
          r\<lparr>packet_thread := Some (tunnel, if stop_requested r then Returned else Receiving)\<rparr>
      | _ \<Rightarrow> r)"
| "reader_turn (Reader_receives received) r =
     (case packet_thread r of
        Some (tunnel, Receiving) \<Rightarrow>
         (case received of
            Inl e \<Rightarrow>
             (let r = record_failure (''virtual adapter read failed: '' @ what e) r;
                  r = r\<lparr>stop_requested := True, packet_thread := Some (tunnel, Returned)\<rparr>
              in case tunnel of None \<Rightarrow> r | Some t \<Rightarrow> rt_emit (Rt_tunnel_stop t 3) r)
          | Inr None \<Rightarrow> r\<lparr>packet_thread := Some (tunnel, Returned)\<rparr>
          | Inr (Some packet) \<Rightarrow>
             (let r = r\<lparr>packet_thread := Some (tunnel, Checking)\<rparr>
              in case tunnel of None \<Rightarrow> r | Some t \<Rightarrow> rt_emit (Rt_tunnel_send t packet) r))
      | _ \<Rightarrow> r)"

text \<open>
  Joining waits for the end of the loop: \<open>turns\<close> are the steps that the thread still makes, after
  which its receive has been interrupted.
\<close>

definition join_packet_thread :: "reader_event list \<Rightarrow> ClientRuntime \<Rightarrow> ClientRuntime" where
  "join_packet_thread turns r =
     (if packet_thread r = None then r else (fold reader_turn turns r)\<lparr>packet_thread := None\<rparr>)"

section \<open>Finishing and retrying\<close>

definition finish_on_io :: "reader_event list \<Rightarrow> ClientRuntime \<Rightarrow> ClientRuntime" where
  "finish_on_io turns r =
     (if rt_finished r then r
      else
       (let r = r\<lparr>rt_finished := True, stop_requested := True\<rparr>;
            r = rt_emit Rt_cancel_reconnect_timer (rt_emit Rt_cancel_connection_timer
                  (rt_emit Rt_cancel_resolver (rt_emit Rt_interrupt_receive r)));
            r = join_packet_thread turns r;
            r = r\<lparr>rt_network := rollback (rt_network r), pending_stream := False, rt_tunnel := None\<rparr>;
            r = (if intentional_stop r \<and> failure_message r = [] then transition RStopped ''VPN tunnel stopped'' r
                 else transition RFailed (if failure_message r = [] then ''VPN runtime failed'' else failure_message r) r)
        in rt_emit Rt_io_stop r))"

text \<open>\<open>jitter lo hi\<close> is the number that the uniform distribution from \<open>lo\<close> to \<open>hi\<close> draws.\<close>

definition next_reconnect_delay :: "(u32 \<Rightarrow> u32 \<Rightarrow> u32) \<Rightarrow> ClientRuntime \<Rightarrow> u32 \<times> ClientRuntime" where
  "next_reconnect_delay jitter r =
     (let exponent = min (reconnect_attempt r) 5;
          exponential = push_bit exponent 1000;
          cap_ms = min exponential 30000;
          r = (if reconnect_attempt r < 5 then r\<lparr>reconnect_attempt := reconnect_attempt r + 1\<rparr> else r)
      in (jitter (cap_ms div 2) cap_ms, r))"

definition retry_on_io :: "(u32 \<Rightarrow> u32 \<Rightarrow> u32) \<Rightarrow> reader_event list \<Rightarrow> string \<Rightarrow> ClientRuntime \<Rightarrow> ClientRuntime" where
  "retry_on_io jitter turns reason r =
     (if rt_finished r then r
      else if stop_requested r \<or> intentional_stop r then finish_on_io turns r
      else
       (let r = r\<lparr>connection_generation := connection_generation r + 1\<rparr>;
            r = rt_emit Rt_cancel_connection_timer (rt_emit Rt_cancel_resolver r);
            r = (if pending_stream r then (rt_emit Rt_close_stream r)\<lparr>pending_stream := False\<rparr> else r);
            r = (case rt_tunnel r of None \<Rightarrow> r | Some t \<Rightarrow> rt_emit (Rt_tunnel_abort t) r);
            r = rt_emit Rt_interrupt_receive r;
            r = join_packet_thread turns r;
            r = r\<lparr>rt_network := rollback (rt_network r), rt_tunnel := None\<rparr>;
            (delay, r) = next_reconnect_delay jitter r;
            r = transition RReconnecting (reason @ ''; retrying in '' @ to_string (unat delay) @ ''ms'') r
        in rt_post Op_reconnect_timer (rt_emit (Rt_reconnect_after delay) r)))"

section \<open>Connecting\<close>

definition begin_connect :: "reader_event list \<Rightarrow> ClientRuntime \<Rightarrow> ClientRuntime" where
  "begin_connect turns r =
     (if stop_requested r then finish_on_io turns r
      else
       (let generation = connection_generation r + 1;
            r = r\<lparr>connection_generation := generation\<rparr>;
            r = transition RResolving ''resolving VPN server'' r
        in rt_post (Op_resolve generation) (rt_post (Op_connection_timer generation) r)))"

definition handle_connection_timer :: "(u32 \<Rightarrow> u32 \<Rightarrow> u32) \<Rightarrow> reader_event list \<Rightarrow> nat \<Rightarrow> bool \<Rightarrow> ClientRuntime \<Rightarrow> ClientRuntime" where
  "handle_connection_timer jitter turns generation error r =
     (if \<not> error \<and> generation = connection_generation r \<and> \<not> rt_finished r then
        retry_on_io jitter turns ''connection timed out before tunnel establishment'' r
      else r)"

definition handle_reconnect_timer :: "reader_event list \<Rightarrow> bool \<Rightarrow> ClientRuntime \<Rightarrow> ClientRuntime" where
  "handle_reconnect_timer turns error r =
     (if \<not> error \<and> \<not> stop_requested r \<and> \<not> rt_finished r then begin_connect turns r
      else if stop_requested r then finish_on_io turns r
      else r)"

definition start_connecting :: "nat \<Rightarrow> endpoint list \<Rightarrow> ClientRuntime \<Rightarrow> ClientRuntime" where
  "start_connecting generation endpoints r =
     (let r = transition RConnecting ''connecting with mutual TLS'' r;
          r = r\<lparr>pending_stream := True\<rparr>
      in rt_post (Op_connect generation) (rt_emit (Rt_connect endpoints) r))"

text \<open>\<open>error\<close> is the message of the error code, if there is one.\<close>

definition handle_resolve :: "(u32 \<Rightarrow> u32 \<Rightarrow> u32) \<Rightarrow> reader_event list \<Rightarrow> platform \<Rightarrow> nat
    \<Rightarrow> string option \<Rightarrow> endpoint list \<Rightarrow> ClientRuntime \<Rightarrow> ClientRuntime" where
  "handle_resolve jitter turns platform generation error endpoints r =
     (if generation \<noteq> connection_generation r then r
      else if stop_requested r then finish_on_io turns r
      else
       (case error of
          Some message \<Rightarrow> retry_on_io jitter turns (''server name resolution failed: '' @ message) r
        | None \<Rightarrow>
            if requests_full_tunnel (rt_config r) then
             (case platform of
                Windows_other_device \<Rightarrow>
                  finish_on_io turns
                    (record_failure ''full-tunnel mode requires the Windows fail-closed network backend'' r)
              | Windows_backend enable_kill_switch \<Rightarrow>
                 (case enable_kill_switch (map vpn_endpoint endpoints) of
                    Inl e \<Rightarrow>
                      finish_on_io turns
                        (record_failure (''failed to enable persistent dual-stack kill switch: '' @ what e) r)
                  | Inr _ \<Rightarrow>
                      start_connecting generation endpoints (rt_emit (Rt_kill_switch (map vpn_endpoint endpoints)) r))
              | Other_platform \<Rightarrow>
                  finish_on_io turns
                    (record_failure ''full-tunnel mode is unavailable without a dual-stack kill switch'' r))
            else start_connecting generation endpoints r))"

definition handle_connect :: "(u32 \<Rightarrow> u32 \<Rightarrow> u32) \<Rightarrow> reader_event list \<Rightarrow> nat \<Rightarrow> string option \<Rightarrow> ClientRuntime \<Rightarrow> ClientRuntime" where
  "handle_connect jitter turns generation error r =
     (if generation \<noteq> connection_generation r then r
      else if stop_requested r then finish_on_io turns r
      else
       (case error of
          Some message \<Rightarrow> retry_on_io jitter turns (''TCP connection failed: '' @ message) r
        | None \<Rightarrow> rt_emit (Rt_tunnel_start generation) (r\<lparr>rt_tunnel := Some generation, pending_stream := False\<rparr>)))"

section \<open>The handlers of the tunnel\<close>

definition configure_network :: "(string \<Rightarrow> (bytes \<times> u32) option) \<Rightarrow> ClientNetworkBackend \<Rightarrow> IpAssignment \<Rightarrow> ClientRuntime
    \<Rightarrow> bool \<times> ClientRuntime" where
  "configure_network mk6 backend assignment r =
     (if stop_requested r then (False, r)
      else
       (let r = transition RConfiguringNetwork ''applying tunnel network transaction'' r
        in case activate mk6 backend assignment (routes (rt_config r)) (rt_network r) of
             (Inl e, network) \<Rightarrow>
               (False, record_failure (''network configuration failed: '' @ what e) (r\<lparr>rt_network := network\<rparr>))
           | (Inr _, network) \<Rightarrow>
              (let r = r\<lparr>rt_network := network, reconnect_attempt := 0\<rparr>;
                   r = rt_emit Rt_cancel_connection_timer r;
                   r = transition RConnected ''VPN tunnel connected'' r
               in (True, if packet_thread r \<noteq> None then rt_emit Rt_terminate r
                         else r\<lparr>packet_thread := Some (rt_tunnel r, Checking)\<rparr>))))"

text \<open>The assignment handler, which \<^verbatim>\<open>handle_connect\<close> gives to the tunnel.\<close>

definition handle_assignment :: "(string \<Rightarrow> (bytes \<times> u32) option) \<Rightarrow> ClientNetworkBackend \<Rightarrow> nat \<Rightarrow> IpAssignment \<Rightarrow> ClientRuntime
    \<Rightarrow> bool \<times> ClientRuntime" where
  "handle_assignment mk6 backend generation assignment r =
     (if generation = connection_generation r then configure_network mk6 backend assignment r else (False, r))"

definition deliver_to_packet_device :: "(bytes \<Rightarrow> unit result) \<Rightarrow> bytes \<Rightarrow> ClientRuntime \<Rightarrow> ClientRuntime" where
  "deliver_to_packet_device send_packet packet r =
     (case send_packet packet of
        Inr _ \<Rightarrow> rt_emit (Rt_send_packet packet) r
      | Inl e \<Rightarrow>
         (let r = record_failure (''virtual adapter write failed: '' @ what e) r;
              r = rt_emit Rt_interrupt_receive (r\<lparr>stop_requested := True\<rparr>)
          in case rt_tunnel r of None \<Rightarrow> r | Some t \<Rightarrow> rt_emit (Rt_tunnel_stop t 2) r))"

definition handle_packet :: "(bytes \<Rightarrow> unit result) \<Rightarrow> nat \<Rightarrow> bytes \<Rightarrow> ClientRuntime \<Rightarrow> ClientRuntime" where
  "handle_packet send_packet generation packet r =
     (if generation = connection_generation r then deliver_to_packet_device send_packet packet r else r)"

definition on_tunnel_closed :: "(u32 \<Rightarrow> u32 \<Rightarrow> u32) \<Rightarrow> reader_event list \<Rightarrow> nat \<Rightarrow> ErrorMessage option \<Rightarrow> bool
    \<Rightarrow> ClientRuntime \<Rightarrow> ClientRuntime" where
  "on_tunnel_closed jitter turns generation remote_error retryable r =
     (if generation \<noteq> connection_generation r then r
      else if intentional_stop r \<or> stop_requested r then finish_on_io turns r
      else
       (let r = (case remote_error of
                   Some e \<Rightarrow>
                     record_failure (''server rejected the session with error code '' @ to_string (unat (error_code e))) r
                 | None \<Rightarrow>
                     if \<not> retryable then
                       record_failure ''VPN tunnel closed because of a non-retryable TLS or protocol error'' r
                     else r)
        in if failure_message r \<noteq> [] then finish_on_io turns r
           else retry_on_io jitter turns ''VPN transport closed unexpectedly'' r))"

definition fail_on_io :: "reader_event list \<Rightarrow> string \<Rightarrow> ClientRuntime \<Rightarrow> ClientRuntime" where
  "fail_on_io turns message r =
     (if rt_finished r then r
      else
       (let r = record_failure message r;
            r = rt_emit Rt_cancel_resolver (rt_emit Rt_interrupt_receive (r\<lparr>stop_requested := True\<rparr>));
            r = (if pending_stream r then rt_emit Rt_close_stream r else r)
        in case rt_tunnel r of Some t \<Rightarrow> rt_emit (Rt_tunnel_stop t 1) r | None \<Rightarrow> finish_on_io turns r))"

section \<open>Start and stop\<close>

definition runtime_start :: "ClientRuntime \<Rightarrow> unit result \<times> ClientRuntime" where
  "runtime_start r =
     (if rt_started r then (Inl (Logic_error ''client runtime instances are single-use''), r)
      else (Inr (), rt_post Op_begin_connect (transition RStarting ''client runtime starting'' (r\<lparr>rt_started := True\<rparr>))))"

text \<open>The part of \<^verbatim>\<open>stop\<close> on the caller's thread, and the handler that it posts.\<close>

definition runtime_stop :: "ClientRuntime \<Rightarrow> ClientRuntime" where
  "runtime_stop r =
     (if \<not> rt_started r \<or> rt_finished r then r
      else
       (let r = r\<lparr>intentional_stop := True, stop_requested := True\<rparr>;
            r = transition RStopping ''disconnect requested'' r
        in rt_post Op_stop (rt_emit Rt_interrupt_receive r)))"

definition stop_on_io :: "reader_event list \<Rightarrow> ClientRuntime \<Rightarrow> ClientRuntime" where
  "stop_on_io turns r =
     (let r = rt_emit Rt_cancel_reconnect_timer (rt_emit Rt_cancel_connection_timer (rt_emit Rt_cancel_resolver r))
      in case rt_tunnel r of
           Some t \<Rightarrow> rt_emit (Rt_tunnel_stop t 0) r
         | None \<Rightarrow> finish_on_io turns (if pending_stream r then rt_emit Rt_close_stream r else r))"

section \<open>The runtime and its environment\<close>

text \<open>
  Every operation completes at most once, and only after it was started; a tunnel calls its
  assignment handler at most once and its close handler once, and nothing afterwards, which is what
  the theory Tls_Client shows of it; and after \<^verbatim>\<open>io_context::stop\<close> no handler runs any more.
\<close>

record runtime_world =
  ru :: ClientRuntime
  ru_tunnels :: "nat list"
  ru_assigned :: "nat list"

datatype runtime_event =
    Ru_start
  | Ru_stop
  | Ru_begin "reader_event list"
  | Ru_stop_posted "reader_event list"
  | Ru_resolved u32 "reader_event list" platform nat "string option" "endpoint list"
  | Ru_connected u32 "reader_event list" nat "string option"
  | Ru_timeout u32 "reader_event list" nat bool
  | Ru_reconnect "reader_event list" bool
  | Ru_assignment "string \<Rightarrow> (bytes \<times> u32) option" ClientNetworkBackend nat IpAssignment
  | Ru_packet "bytes \<Rightarrow> unit result" nat bytes
  | Ru_closed u32 "reader_event list" nat "ErrorMessage option" bool
  | Ru_reader reader_event

text \<open>A number of the uniform distribution; every number from \<open>lo\<close> to \<open>hi\<close> is one, for some \<open>draw\<close>.\<close>

definition uniform :: "u32 \<Rightarrow> u32 \<Rightarrow> u32 \<Rightarrow> u32" where
  "uniform draw lo hi = lo + draw mod (hi - lo + 1)"

text \<open>A completion: the operation is outstanding and the I/O context runs.\<close>

definition ru_complete :: "rt_op \<Rightarrow> (ClientRuntime \<Rightarrow> ClientRuntime) \<Rightarrow> runtime_world \<Rightarrow> runtime_world" where
  "ru_complete x f w =
     (if x \<in> set (rt_ops (ru w)) \<and> \<not> rt_finished (ru w)
      then w\<lparr>ru := f ((ru w)\<lparr>rt_ops := remove1 x (rt_ops (ru w))\<rparr>)\<rparr> else w)"

fun runtime_step :: "runtime_event \<Rightarrow> runtime_world \<Rightarrow> runtime_world" where
  "runtime_step Ru_start w = w\<lparr>ru := snd (runtime_start (ru w))\<rparr>"
| "runtime_step Ru_stop w = w\<lparr>ru := runtime_stop (ru w)\<rparr>"
| "runtime_step (Ru_begin turns) w = ru_complete Op_begin_connect (begin_connect turns) w"
| "runtime_step (Ru_stop_posted turns) w = ru_complete Op_stop (stop_on_io turns) w"
| "runtime_step (Ru_resolved draw turns platform generation error endpoints) w =
     ru_complete (Op_resolve generation) (handle_resolve (uniform draw) turns platform generation error endpoints) w"
| "runtime_step (Ru_connected draw turns generation error) w =
     (let w' = ru_complete (Op_connect generation) (handle_connect (uniform draw) turns generation error) w
      in if rt_tunnel (ru w') = Some generation \<and> rt_tunnel (ru w) \<noteq> Some generation
         then w'\<lparr>ru_tunnels := generation # ru_tunnels w\<rparr> else w')"
| "runtime_step (Ru_timeout draw turns generation error) w =
     ru_complete (Op_connection_timer generation) (handle_connection_timer (uniform draw) turns generation error) w"
| "runtime_step (Ru_reconnect turns error) w = ru_complete Op_reconnect_timer (handle_reconnect_timer turns error) w"
| "runtime_step (Ru_assignment mk6 backend generation assignment) w =
     (if generation \<in> set (ru_tunnels w) \<and> generation \<notin> set (ru_assigned w) \<and> \<not> rt_finished (ru w)
      then w\<lparr>ru := snd (handle_assignment mk6 backend generation assignment (ru w)),
             ru_assigned := generation # ru_assigned w\<rparr> else w)"
| "runtime_step (Ru_packet send_packet generation packet) w =
     (if generation \<in> set (ru_tunnels w) \<and> \<not> rt_finished (ru w)
      then w\<lparr>ru := handle_packet send_packet generation packet (ru w)\<rparr> else w)"
| "runtime_step (Ru_closed draw turns generation remote_error retryable) w =
     (if generation \<in> set (ru_tunnels w) \<and> \<not> rt_finished (ru w)
      then w\<lparr>ru := on_tunnel_closed (uniform draw) turns generation remote_error retryable (ru w),
             ru_tunnels := removeAll generation (ru_tunnels w)\<rparr> else w)"
| "runtime_step (Ru_reader e) w = w\<lparr>ru := reader_turn e (ru w)\<rparr>"

definition runtime_initial :: "ClientRuntime \<Rightarrow> runtime_world" where
  "runtime_initial r = \<lparr>ru = r, ru_tunnels = [], ru_assigned = []\<rparr>"

section \<open>Invariant\<close>

text \<open>Every connection attempt comes after the kill switch was enabled for exactly its endpoints.\<close>

fun fail_closed :: "WindowsVpnEndpoint list option \<Rightarrow> rt_effect list \<Rightarrow> bool" where
  "fail_closed armed [] \<longleftrightarrow> True"
| "fail_closed armed (Rt_kill_switch es # log) \<longleftrightarrow> fail_closed (Some es) log"
| "fail_closed armed (Rt_connect es # log) \<longleftrightarrow> armed = Some (map vpn_endpoint es) \<and> fail_closed None log"
| "fail_closed armed (_ # log) \<longleftrightarrow> fail_closed armed log"

fun armed_after :: "WindowsVpnEndpoint list option \<Rightarrow> rt_effect list \<Rightarrow> WindowsVpnEndpoint list option" where
  "armed_after armed [] = armed"
| "armed_after armed (Rt_kill_switch es # log) = armed_after (Some es) log"
| "armed_after armed (Rt_connect es # log) = armed_after None log"
| "armed_after armed (_ # log) = armed_after armed log"

lemma fail_closed_append [simp]:
  "fail_closed armed (log @ es) \<longleftrightarrow> fail_closed armed log \<and> fail_closed (armed_after armed log) es"
  by (induction armed log rule: fail_closed.induct) auto

text \<open>Effects that the claims about the log do not speak of.\<close>

fun quiet :: "rt_effect \<Rightarrow> bool" where
  "quiet (Rt_reconnect_after _) = False"
| "quiet (Rt_kill_switch _) = False"
| "quiet (Rt_connect _) = False"
| "quiet Rt_terminate = False"
| "quiet Rt_io_stop = False"
| "quiet _ = True"

definition log_ok :: "ClientConfig \<Rightarrow> rt_effect list \<Rightarrow> bool" where
  "log_ok config log \<longleftrightarrow> Rt_terminate \<notin> set log
     \<and> (\<forall>delay. Rt_reconnect_after delay \<in> set log \<longrightarrow> 500 \<le> delay \<and> delay \<le> 30000)
     \<and> (requests_full_tunnel config \<longrightarrow> fail_closed None log)"

lemma fail_closed_quiet: "quiet e \<Longrightarrow> fail_closed armed (e # es) = fail_closed armed es"
  by (cases e) simp_all

lemma log_ok_quiet [simp]: "quiet e \<Longrightarrow> log_ok config (log @ e # es) = log_ok config (log @ es)"
  by (auto simp: log_ok_def fail_closed_quiet)

lemma log_ok_io_stop [simp]: "log_ok config (log @ Rt_io_stop # es) = log_ok config (log @ es)"
  by (simp add: log_ok_def)

lemma log_ok_reconnect [simp]:
  "500 \<le> delay \<Longrightarrow> delay \<le> 30000 \<Longrightarrow> log_ok config (log @ Rt_reconnect_after delay # es) = log_ok config (log @ es)"
  by (auto simp: log_ok_def)

lemma log_ok_connect:
  "log_ok config (log @ [Rt_connect es])
     \<longleftrightarrow> log_ok config log \<and> (requests_full_tunnel config \<longrightarrow> armed_after None log = Some (map vpn_endpoint es))"
  by (auto simp: log_ok_def)

lemma armed_after_append: "armed_after armed (log @ es) = armed_after (armed_after armed log) es"
  by (induction armed log rule: armed_after.induct) simp_all

fun op_generation :: "rt_op \<Rightarrow> nat option" where
  "op_generation (Op_resolve g) = Some g"
| "op_generation (Op_connect g) = Some g"
| "op_generation (Op_connection_timer g) = Some g"
| "op_generation _ = None"

fun waiting :: "rt_op \<Rightarrow> bool" where
  "waiting Op_begin_connect = True"
| "waiting Op_reconnect_timer = True"
| "waiting _ = False"

text \<open>What holds at every step of a handler that has not finished the runtime.\<close>

definition rt_base :: "ClientConfig \<Rightarrow> ClientRuntime \<Rightarrow> bool" where
  "rt_base config r \<longleftrightarrow> rt_config r = config \<and> tx_inv (rt_network r)
     \<and> (tx_active (fst (rt_network r)) \<longleftrightarrow> packet_thread r \<noteq> None)
     \<and> reconnect_attempt r \<le> 5 \<and> log_ok config (rt_log r) \<and> Rt_io_stop \<notin> set (rt_log r)
     \<and> rt_started r"

definition rt_over :: "ClientConfig \<Rightarrow> ClientRuntime \<Rightarrow> bool" where
  "rt_over config r \<longleftrightarrow> rt_config r = config \<and> tx_inv (rt_network r) \<and> \<not> tx_active (fst (rt_network r))
     \<and> packet_thread r = None \<and> rt_tunnel r = None \<and> \<not> pending_stream r \<and> stop_requested r
     \<and> log_ok config (rt_log r) \<and> rt_started r \<and> rt_finished r \<and> reconnect_attempt r \<le> 5
     \<and> rt_state r = (if intentional_stop r \<and> failure_message r = [] then RStopped else RFailed)
     \<and> (\<exists>before message. rt_log r = before @ [Rt_event (rt_state r) message, Rt_io_stop] \<and> Rt_io_stop \<notin> set before)"

text \<open>A step that changes nothing of these but adds quiet effects.\<close>

definition calm :: "ClientRuntime \<Rightarrow> ClientRuntime \<Rightarrow> bool" where
  "calm r r' \<longleftrightarrow> rt_config r' = rt_config r \<and> rt_network r' = rt_network r
     \<and> (packet_thread r' = None \<longleftrightarrow> packet_thread r = None) \<and> reconnect_attempt r' = reconnect_attempt r
     \<and> rt_tunnel r' = rt_tunnel r \<and> connection_generation r' = connection_generation r
     \<and> rt_started r' = rt_started r \<and> rt_finished r' = rt_finished r
     \<and> (\<exists>es. list_all quiet es \<and> rt_log r' = rt_log r @ es)"

lemma calm_refl: "calm r r"
  unfolding calm_def by (auto intro: exI [of _ "[]"])

lemma calm_trans: "calm r r' \<Longrightarrow> calm r' r'' \<Longrightarrow> calm r r''"
  unfolding calm_def by (elim conjE exE) (auto simp: list_all_iff)

lemma log_ok_quiet_list: "list_all quiet es \<Longrightarrow> log_ok config (log @ es) = log_ok config log"
  by (induction es) simp_all

lemma quiet_no_stop: "list_all quiet es \<Longrightarrow> Rt_io_stop \<notin> set es"
  by (auto simp: list_all_iff)

lemma calm_base:
  assumes "calm r r'" "rt_base config r"
  shows "rt_base config r'"
proof -
  obtain es where es: "list_all quiet es" "rt_log r' = rt_log r @ es" using assms(1) unfolding calm_def by blast
  have "log_ok config (rt_log r') = log_ok config (rt_log r)" "Rt_io_stop \<notin> set es"
    using log_ok_quiet_list [OF es(1)] quiet_no_stop [OF es(1)] es(2) by simp_all
  with assms es(2) show ?thesis unfolding calm_def rt_base_def by (elim conjE) simp
qed

lemma calm_updates [simp]:
  "calm r (r\<lparr>rt_state := s\<rparr>)" "calm r (r\<lparr>failure_message := m\<rparr>)" "calm r (r\<lparr>stop_requested := b\<rparr>)"
  "calm r (r\<lparr>intentional_stop := b\<rparr>)" "calm r (r\<lparr>pending_stream := b\<rparr>)" "calm r (r\<lparr>rt_ops := ops\<rparr>)"
  "quiet e \<Longrightarrow> calm r (rt_emit e r)" "calm r (rt_post x r)" "calm r (record_failure m r)" "calm r (transition s m r)"
  by (simp_all add: calm_def rt_emit_def rt_post_def record_failure_def transition_def)

lemma calm_chain:
  assumes "calm r r'"
  shows "calm r (r'\<lparr>rt_state := s\<rparr>)" "calm r (r'\<lparr>failure_message := m\<rparr>)" "calm r (r'\<lparr>stop_requested := b\<rparr>)"
    "calm r (r'\<lparr>intentional_stop := b\<rparr>)" "calm r (r'\<lparr>pending_stream := b\<rparr>)" "calm r (r'\<lparr>rt_ops := ops\<rparr>)"
    "quiet e \<Longrightarrow> calm r (rt_emit e r')" "calm r (rt_post x r')" "calm r (record_failure m r')" "calm r (transition s m r')"
  by (rule calm_trans [OF assms], simp)+

lemma record_failure_fields [simp]:
  "stop_requested (record_failure m r) = stop_requested r" "packet_thread (record_failure m r) = packet_thread r"
  "rt_tunnel (record_failure m r) = rt_tunnel r" "rt_finished (record_failure m r) = rt_finished r"
  "rt_config (record_failure m r) = rt_config r" "intentional_stop (record_failure m r) = intentional_stop r"
  "connection_generation (record_failure m r) = connection_generation r" "rt_ops (record_failure m r) = rt_ops r"
  "rt_network (record_failure m r) = rt_network r" "rt_log (record_failure m r) = rt_log r"
  "reconnect_attempt (record_failure m r) = reconnect_attempt r" "rt_started (record_failure m r) = rt_started r"
  by (simp_all add: record_failure_def)

lemma rt_emit_fields [simp]:
  "stop_requested (rt_emit e r) = stop_requested r" "packet_thread (rt_emit e r) = packet_thread r"
  "rt_tunnel (rt_emit e r) = rt_tunnel r" "rt_finished (rt_emit e r) = rt_finished r" "rt_network (rt_emit e r) = rt_network r"
  "rt_config (rt_emit e r) = rt_config r" "intentional_stop (rt_emit e r) = intentional_stop r"
  "connection_generation (rt_emit e r) = connection_generation r" "rt_ops (rt_emit e r) = rt_ops r"
  "failure_message (rt_emit e r) = failure_message r" "rt_log (rt_emit e r) = rt_log r @ [e]"
  "reconnect_attempt (rt_emit e r) = reconnect_attempt r" "pending_stream (rt_emit e r) = pending_stream r"
  "rt_started (rt_emit e r) = rt_started r" "rt_state (rt_emit e r) = rt_state r"
  by (simp_all add: rt_emit_def)

lemma transition_fields [simp]:
  "stop_requested (transition s m r) = stop_requested r" "packet_thread (transition s m r) = packet_thread r"
  "rt_tunnel (transition s m r) = rt_tunnel r" "rt_finished (transition s m r) = rt_finished r"
  "rt_network (transition s m r) = rt_network r" "rt_config (transition s m r) = rt_config r"
  "intentional_stop (transition s m r) = intentional_stop r" "connection_generation (transition s m r) = connection_generation r"
  "rt_ops (transition s m r) = rt_ops r" "failure_message (transition s m r) = failure_message r"
  "rt_log (transition s m r) = rt_log r @ [Rt_event s m]" "reconnect_attempt (transition s m r) = reconnect_attempt r"
  "pending_stream (transition s m r) = pending_stream r" "rt_started (transition s m r) = rt_started r"
  "rt_state (transition s m r) = s"
  by (simp_all add: transition_def)

lemma rt_post_fields [simp]:
  "rt_finished (rt_post x r) = rt_finished r" "rt_tunnel (rt_post x r) = rt_tunnel r" "packet_thread (rt_post x r) = packet_thread r"
  "connection_generation (rt_post x r) = connection_generation r" "rt_ops (rt_post x r) = rt_ops r @ [x]"
  "rt_started (rt_post x r) = rt_started r" "stop_requested (rt_post x r) = stop_requested r"
  "rt_config (rt_post x r) = rt_config r" "rt_network (rt_post x r) = rt_network r" "rt_log (rt_post x r) = rt_log r"
  "reconnect_attempt (rt_post x r) = reconnect_attempt r" "intentional_stop (rt_post x r) = intentional_stop r"
  "failure_message (rt_post x r) = failure_message r" "pending_stream (rt_post x r) = pending_stream r"
  by (simp_all add: rt_post_def)

lemma reader_calm: "calm r (reader_turn e r)"
proof (cases "packet_thread r")
  case None
  then show ?thesis by (cases e) (simp_all add: calm_refl)
next
  case (Some th)
  then obtain tunnel st where th: "packet_thread r = Some (tunnel, st)" by (cases th) simp
  have upd: "calm r (r'\<lparr>packet_thread := Some x\<rparr>)" if "calm r r'" for r' x
    using that th by (auto simp: calm_def)
  show ?thesis
  proof (cases e)
    case Reader_checks
    then show ?thesis using th by (cases st) (auto simp: calm_refl intro!: upd)
  next
    case (Reader_receives received)
    then show ?thesis
      using th by (cases st; cases tunnel; cases received)
        (auto simp: Let_def calm_refl intro!: calm_chain upd split: option.split)
  qed
qed

lemma reader_fields [simp]:
  "intentional_stop (reader_turn e r) = intentional_stop r" "pending_stream (reader_turn e r) = pending_stream r"
  "rt_ops (reader_turn e r) = rt_ops r" "stop_requested r \<Longrightarrow> stop_requested (reader_turn e r)"
  by (cases e; auto simp: Let_def record_failure_def split: option.split reader_state.split sum.split prod.split)+

lemma readers_calm:
  "calm r (fold reader_turn turns r) \<and> rt_ops (fold reader_turn turns r) = rt_ops r
   \<and> (stop_requested r \<longrightarrow> stop_requested (fold reader_turn turns r))"
proof (induction turns arbitrary: r)
  case (Cons e turns)
  then show ?case using calm_trans [OF reader_calm [of r e]] by simp
qed (simp add: calm_refl)

lemma join_cases:
  obtains r' where "join_packet_thread turns r = r'\<lparr>packet_thread := None\<rparr>" "calm r r'" "rt_ops r' = rt_ops r"
    "stop_requested r \<longrightarrow> stop_requested r'"
proof (cases "packet_thread r")
  case None
  then show ?thesis by (intro that [of r]) (simp_all add: join_packet_thread_def calm_refl)
next
  case (Some x)
  then show ?thesis using readers_calm [of r turns]
    by (intro that [of "fold reader_turn turns r"]) (simp_all add: join_packet_thread_def)
qed

lemma rollback_ok: "tx_inv t \<Longrightarrow> tx_inv (rollback t) \<and> \<not> tx_active (fst (rollback t))"
  using network.step_invar [of t Nt_rollback] rollback_sound [of t] by (simp add: tx_inv_def tx_idle_def)

text \<open>The part that ends and retries have in common: the thread is joined and the network rolled back.\<close>

lemma released_base:
  assumes "rt_base config r" "calm r r'"
  shows "rt_base config (r'\<lparr>packet_thread := None, rt_network := rollback (rt_network r'), rt_tunnel := None\<rparr>)"
  using calm_base [OF assms(2,1)] rollback_ok [of "rt_network r'"] by (simp add: rt_base_def)

lemma finish_over:
  assumes base: "rt_base config r" and run: "\<not> rt_finished r"
  shows "rt_over config (finish_on_io turns r) \<and> rt_ops (finish_on_io turns r) = rt_ops r"
proof -
  let ?r0 = "r\<lparr>rt_finished := True, stop_requested := True\<rparr>"
  let ?r1 = "rt_emit Rt_cancel_reconnect_timer (rt_emit Rt_cancel_connection_timer
                  (rt_emit Rt_cancel_resolver (rt_emit Rt_interrupt_receive ?r0)))"
  obtain r2 where j: "join_packet_thread turns ?r1 = r2\<lparr>packet_thread := None\<rparr>" and c: "calm ?r1 r2"
    and o: "rt_ops r2 = rt_ops ?r1" and s: "stop_requested ?r1 \<longrightarrow> stop_requested r2" by (rule join_cases)
  have "rt_base config ?r0" using base by (simp add: rt_base_def)
  then have "rt_base config ?r1" by (rule calm_base [rotated]) (intro calm_chain calm_refl, simp_all)
  from released_base [OF this c] have b: "rt_base config
    (r2\<lparr>packet_thread := None, rt_network := rollback (rt_network r2), rt_tunnel := None\<rparr>)" .
  have f: "rt_finished r2" "stop_requested r2" using c s by (simp_all add: calm_def)
  show ?thesis
    using run b f o by (simp add: finish_on_io_def Let_def j rt_over_def rt_base_def)
qed

lemma uniform_bounds:
  assumes "lo \<le> hi" "hi < 2 ^ 31"
  shows "lo \<le> uniform draw lo hi" "uniform draw lo hi \<le> hi"
proof -
  have h: "unat hi < 2 ^ 31" "unat lo \<le> unat hi"
    using assms by (simp_all add: word_less_nat_alt word_le_nat_alt)
  have d: "unat (hi - lo + 1) = unat hi - unat lo + 1"
    using h assms(1) by (simp add: unat_plus_if' unat_sub word_le_nat_alt)
  have m: "unat (draw mod (hi - lo + 1)) \<le> unat hi - unat lo"
    using mod_less_divisor [of "unat (hi - lo + 1)" "unat draw"] unfolding unat_mod d by simp
  have "unat (uniform draw lo hi) = unat lo + unat (draw mod (hi - lo + 1))"
    unfolding uniform_def using m h by (simp add: unat_plus_if')
  then show "lo \<le> uniform draw lo hi" "uniform draw lo hi \<le> hi"
    using m h by (simp_all add: word_le_nat_alt)
qed

lemma reconnect_delay_bounds:
  assumes "next_reconnect_delay (uniform draw) r = (delay, r')"
  shows "500 \<le> delay" "delay \<le> 30000"
    "r' = r\<lparr>reconnect_attempt := if reconnect_attempt r < 5 then reconnect_attempt r + 1 else reconnect_attempt r\<rparr>"
proof -
  let ?e = "min (reconnect_attempt r) 5"
  let ?c = "min (push_bit ?e 1000) 30000 :: u32"
  have "?e \<in> {0, 1, 2, 3, 4, 5}" by auto
  then have c: "?c \<in> {1000, 2000, 4000, 8000, 16000, 30000}" by (elim insertE) (simp_all add: push_bit_eq_mult)
  have "delay = uniform draw (?c div 2) ?c" using assms by (auto simp: next_reconnect_delay_def Let_def)
  moreover have "?c div 2 \<le> ?c" "?c < 2 ^ 31" "500 \<le> ?c div 2" "?c \<le> 30000" using c by (elim insertE; simp)+
  ultimately show "500 \<le> delay" "delay \<le> 30000"
    using uniform_bounds [of "?c div 2" ?c draw] by auto
  show "r' = r\<lparr>reconnect_attempt := if reconnect_attempt r < 5 then reconnect_attempt r + 1 else reconnect_attempt r\<rparr>"
    using assms by (auto simp: next_reconnect_delay_def Let_def)
qed

text \<open>The outcomes of a handler besides the end: a retry, or going on with further operations.\<close>

definition retried :: "ClientConfig \<Rightarrow> ClientRuntime \<Rightarrow> ClientRuntime \<Rightarrow> bool" where
  "retried config r r' \<longleftrightarrow> rt_base config r' \<and> \<not> rt_finished r' \<and> connection_generation r' = connection_generation r + 1
     \<and> packet_thread r' = None \<and> rt_tunnel r' = None \<and> rt_ops r' = rt_ops r @ [Op_reconnect_timer]"

definition goes_on :: "ClientConfig \<Rightarrow> rt_op list \<Rightarrow> ClientRuntime \<Rightarrow> ClientRuntime \<Rightarrow> bool" where
  "goes_on config ops r r' \<longleftrightarrow> rt_base config r' \<and> \<not> rt_finished r' \<and> connection_generation r' = connection_generation r
     \<and> (packet_thread r' = None \<longleftrightarrow> packet_thread r = None) \<and> rt_tunnel r' = rt_tunnel r \<and> rt_ops r' = rt_ops r @ ops"

lemma retry_cases:
  assumes base: "rt_base config r" and run: "\<not> rt_finished r"
    and r': "r' = retry_on_io (uniform draw) turns reason r"
  shows "rt_over config r' \<or> retried config r r'"
proof (cases "stop_requested r \<or> intentional_stop r")
  case True
  then show ?thesis using finish_over [OF base run, of turns] run by (simp add: r' retry_on_io_def)
next
  case False
  let ?r0 = "r\<lparr>connection_generation := connection_generation r + 1\<rparr>"
  let ?r1 = "rt_emit Rt_cancel_connection_timer (rt_emit Rt_cancel_resolver ?r0)"
  let ?r2 = "if pending_stream ?r1 then (rt_emit Rt_close_stream ?r1)\<lparr>pending_stream := False\<rparr> else ?r1"
  let ?r3 = "case rt_tunnel ?r2 of None \<Rightarrow> ?r2 | Some t \<Rightarrow> rt_emit (Rt_tunnel_abort t) ?r2"
  let ?r4 = "rt_emit Rt_interrupt_receive ?r3"
  obtain r5 where j: "join_packet_thread turns ?r4 = r5\<lparr>packet_thread := None\<rparr>" and c5: "calm ?r4 r5"
    and o: "rt_ops r5 = rt_ops ?r4" by (rule join_cases)
  have c1: "calm ?r0 ?r1" by (intro calm_chain calm_refl) simp_all
  then have c2: "calm ?r0 ?r2" by (simp add: calm_chain)
  then have c3: "calm ?r0 ?r3" by (cases "rt_tunnel ?r2") (simp_all only: option.case calm_chain quiet.simps)
  then have c4: "calm ?r0 ?r4" by (simp add: calm_chain)
  have b0: "rt_base config ?r0" using base by (simp add: rt_base_def)
  have b5: "rt_base config (r5\<lparr>packet_thread := None, rt_network := rollback (rt_network r5), rt_tunnel := None\<rparr>)"
    by (rule released_base [OF b0 calm_trans [OF c4 c5]])
  have k: "connection_generation r5 = connection_generation r + 1" "\<not> rt_finished r5"
    using calm_trans [OF c4 c5] run by (simp_all add: calm_def)
  have o5: "rt_ops r5 = rt_ops r" using o by (simp split: option.split)
  obtain delay r6 where d: "next_reconnect_delay (uniform draw)
      (r5\<lparr>packet_thread := None, rt_network := rollback (rt_network r5), rt_tunnel := None\<rparr>) = (delay, r6)"
    by (metis surj_pair)
  note r6 = reconnect_delay_bounds [OF d]
  have eq: "r' = rt_post Op_reconnect_timer (rt_emit (Rt_reconnect_after delay)
      (transition RReconnecting (reason @ ''; retrying in '' @ to_string (unat delay) @ ''ms'') r6))"
    unfolding r' retry_on_io_def Let_def j using False run d by simp
  show ?thesis unfolding eq using b5 k o5 r6(1,2) unfolding r6(3)
    by (simp add: rt_base_def retried_def)
qed

lemma begin_connect_cases:
  assumes base: "rt_base config r" and run: "\<not> rt_finished r" and r': "r' = begin_connect turns r"
  shows "rt_over config r' \<or> rt_base config r' \<and> \<not> rt_finished r' \<and> connection_generation r' = connection_generation r + 1
     \<and> packet_thread r' = packet_thread r \<and> rt_tunnel r' = rt_tunnel r
     \<and> rt_ops r' = rt_ops r @ [Op_connection_timer (connection_generation r'), Op_resolve (connection_generation r')]"
  using finish_over [OF base run, of turns] base run
  by (auto simp: r' begin_connect_def Let_def rt_base_def)

lemma start_connecting_goes_on:
  assumes base: "rt_base config r" and run: "\<not> rt_finished r" and r': "r' = start_connecting generation endpoints r"
    and gate: "requests_full_tunnel config \<longrightarrow> armed_after None (rt_log r) = Some (map vpn_endpoint endpoints)"
  shows "goes_on config [Op_connect generation] r r'"
  using base run gate
  by (simp add: goes_on_def r' start_connecting_def Let_def rt_base_def log_ok_connect armed_after_append log_ok_connect [of _ "_ @ [_]", simplified])

lemma record_failure_base: "rt_base config r \<Longrightarrow> rt_base config (record_failure m r)"
  by (rule calm_base [of r]) simp_all

lemma retried_or:
  assumes "rt_base config r" "\<not> rt_finished r"
  shows "rt_over config (retry_on_io (uniform draw) turns reason r) \<or> retried config r (retry_on_io (uniform draw) turns reason r) \<or> P"
  using retry_cases [OF assms refl] by blast

lemma kill_switch_goes_on:
  assumes base: "rt_base config r" and run: "\<not> rt_finished r"
  shows "goes_on config [Op_connect generation] r
      (start_connecting generation endpoints (rt_emit (Rt_kill_switch (map vpn_endpoint endpoints)) r))"
proof -
  let ?r = "rt_emit (Rt_kill_switch (map vpn_endpoint endpoints)) r"
  have "log_ok config (rt_log r @ [Rt_kill_switch (map vpn_endpoint endpoints)]) = log_ok config (rt_log r)"
    by (simp add: log_ok_def)
  then have "rt_base config ?r" using base by (simp add: rt_base_def)
  from start_connecting_goes_on [OF this _ refl, of endpoints generation] run
  have "goes_on config [Op_connect generation] ?r (start_connecting generation endpoints ?r)"
    by (simp add: armed_after_append)
  then show ?thesis by (simp add: goes_on_def)
qed

lemma handle_resolve_cases:
  assumes base: "rt_base config r" and run: "\<not> rt_finished r" and g: "generation = connection_generation r"
    and r': "r' = handle_resolve (uniform draw) turns platform generation error endpoints r"
  shows "rt_over config r' \<or> retried config r r' \<or> goes_on config [Op_connect generation] r r'"
proof -
  have fin: "rt_over config (finish_on_io turns r)" "rt_over config (finish_on_io turns (record_failure m r))" for m
    using finish_over [OF base run] finish_over [OF record_failure_base [OF base]] run by simp_all
  note ks = kill_switch_goes_on [OF base run]
  have c: "rt_config r = config" using base by (simp add: rt_base_def)
  note re = retried_or [OF base run]
  note branch = r' handle_resolve_def g c if_True if_False simp_thms option.case platform.case sum.case
  show ?thesis
  proof (cases "stop_requested r")
    case True
    then show ?thesis by (simp only: branch fin)
  next
    case run': False
    show ?thesis
    proof (cases error)
      case (Some message)
      show ?thesis by (simp only: branch run' Some re)
    next
      case None
      show ?thesis
      proof (cases "requests_full_tunnel config")
        case True
        note branch = branch run' None True
        show ?thesis
        proof (cases platform)
          case (Windows_backend enable)
          show ?thesis
            by (cases "enable (map vpn_endpoint endpoints)") (simp_all only: branch Windows_backend fin ks)
        qed (simp_all only: branch fin)
      next
        case False
        then show ?thesis using start_connecting_goes_on [OF base run refl]
          by (simp only: branch run' None)
      qed
    qed
  qed
qed

lemma handle_connect_cases:
  assumes base: "rt_base config r" and run: "\<not> rt_finished r" and g: "generation = connection_generation r"
    and r': "r' = handle_connect (uniform draw) turns generation error r"
  shows "rt_over config r' \<or> retried config r r'
    \<or> goes_on config [] (r\<lparr>rt_tunnel := Some generation\<rparr>) r'"
proof (cases "stop_requested r \<or> error \<noteq> None")
  case True
  then show ?thesis using finish_over [OF base run] g
    by (cases error; cases "stop_requested r") (simp_all add: r' handle_connect_def retried_or [OF base run])
next
  case False
  then show ?thesis using base run g by (simp add: r' handle_connect_def goes_on_def rt_base_def)
qed

lemma closed_cases:
  assumes base: "rt_base config r" and run: "\<not> rt_finished r" and g: "generation = connection_generation r"
    and r': "r' = on_tunnel_closed (uniform draw) turns generation remote_error retryable r"
  shows "rt_over config r' \<or> retried config r r'"
proof (cases "intentional_stop r \<or> stop_requested r")
  case True
  then show ?thesis using finish_over [OF base run] by (simp add: r' on_tunnel_closed_def g)
next
  case False
  define q where "q = (case remote_error of
       Some e \<Rightarrow> record_failure (''server rejected the session with error code '' @ to_string (unat (error_code e))) r
     | None \<Rightarrow> if \<not> retryable
         then record_failure ''VPN tunnel closed because of a non-retryable TLS or protocol error'' r else r)"
  have eq: "r' = (if failure_message q \<noteq> [] then finish_on_io turns q
                  else retry_on_io (uniform draw) turns ''VPN transport closed unexpectedly'' q)"
    using False unfolding r' on_tunnel_closed_def Let_def q_def [symmetric] by (simp add: g)
  have "q = r \<or> (\<exists>m. q = record_failure m r)" unfolding q_def by (auto split: option.split)
  then have q: "rt_base config q" "\<not> rt_finished q" "connection_generation q = connection_generation r" "rt_ops q = rt_ops r"
    using base run record_failure_base by auto
  show ?thesis
    using finish_over [OF q(1,2)] retry_cases [OF q(1,2) refl] unfolding eq by (simp add: retried_def q(3,4))
qed

lemma deliver_goes_on:
  assumes "rt_base config r" "\<not> rt_finished r"
  shows "goes_on config [] r (deliver_to_packet_device send_packet packet r)"
proof -
  have "calm r (deliver_to_packet_device send_packet packet r)"
    by (auto simp: deliver_to_packet_device_def Let_def calm_refl split: sum.split option.split intro!: calm_chain)
  then show ?thesis
    using calm_base [of r _ config] assms
    by (simp add: goes_on_def calm_def) (auto simp: deliver_to_packet_device_def Let_def split: sum.split option.split)
qed

lemma stop_on_io_cases:
  assumes base: "rt_base config r" and run: "\<not> rt_finished r" and r': "r' = stop_on_io turns r"
  shows "rt_over config r' \<or> rt_tunnel r \<noteq> None \<and> goes_on config [] r r'"
proof -
  let ?r1 = "rt_emit Rt_cancel_reconnect_timer (rt_emit Rt_cancel_connection_timer (rt_emit Rt_cancel_resolver r))"
  have c: "calm r ?r1" "calm r (rt_emit Rt_close_stream ?r1)" by (intro calm_chain calm_refl; simp)+
  then have b: "rt_base config ?r1" "rt_base config (rt_emit Rt_close_stream ?r1)" using base calm_base by blast+
  show ?thesis
  proof (cases "rt_tunnel r")
    case None
    then show ?thesis using finish_over [OF b(1)] finish_over [OF b(2)] run by (simp add: r' stop_on_io_def Let_def)
  next
    case (Some t)
    then show ?thesis using base run by (simp add: r' stop_on_io_def goes_on_def rt_base_def)
  qed
qed

lemma fail_on_io_cases:
  assumes base: "rt_base config r" and run: "\<not> rt_finished r" and r': "r' = fail_on_io turns message r"
  shows "rt_over config r' \<or> rt_tunnel r \<noteq> None \<and> goes_on config [] r r'"
proof -
  let ?r1 = "rt_emit Rt_cancel_resolver (rt_emit Rt_interrupt_receive ((record_failure message r)\<lparr>stop_requested := True\<rparr>))"
  have c: "calm r ?r1" "calm r (rt_emit Rt_close_stream ?r1)" by (intro calm_chain calm_refl; simp)+
  then have b: "rt_base config ?r1" "rt_base config (rt_emit Rt_close_stream ?r1)" using base calm_base by blast+
  show ?thesis
  proof (cases "rt_tunnel r")
    case None
    then show ?thesis using finish_over [OF b(1)] finish_over [OF b(2)] run by (simp add: r' fail_on_io_def Let_def)
  next
    case (Some t)
    then show ?thesis using b run by (simp add: r' fail_on_io_def Let_def goes_on_def rt_base_def)
  qed
qed

lemma configure_network_base:
  assumes base: "rt_base config r" and run: "\<not> rt_finished r" and idle: "packet_thread r = None"
    and r': "r' = snd (configure_network mk6 backend assignment r)"
  shows "rt_base config r' \<and> \<not> rt_finished r' \<and> connection_generation r' = connection_generation r
     \<and> rt_tunnel r' = rt_tunnel r \<and> rt_ops r' = rt_ops r"
proof (cases "stop_requested r")
  case True
  then show ?thesis using base run by (simp add: r' configure_network_def)
next
  case False
  have inv: "tx_inv (rt_network r)" "\<not> tx_active (fst (rt_network r))" using base idle by (simp_all add: rt_base_def)
  obtain res network where a: "activate mk6 backend assignment (routes (rt_config r)) (rt_network r) = (res, network)"
    by (metis surj_pair)
  have "tx_inv network" using network.step_invar [OF inv(1), of "Nt_activate mk6 backend assignment (routes (rt_config r))"] a by simp
  moreover have "tx_active (fst network) \<longleftrightarrow> res = Inr ()"
  proof -
    have "tx_active (fst (if res = Inr () then u else rollback u)) \<longleftrightarrow> res = Inr ()" if "committed (res, u)" for u
      using that rollback_sound [of u] by (auto simp: committed_def tx_idle_def)
    then show ?thesis using activate_cases [OF inv(1), of mk6 backend assignment "routes (rt_config r)"] inv(2) a by auto
  qed
  ultimately show ?thesis using base run idle a False
    by (auto simp: r' configure_network_def Let_def rt_base_def split: sum.split)
qed

text \<open>
  The schedule: at most one operation waits to start a connection, and while it waits nothing of
  the current generation is under way; the packet thread runs only after the assignment of the
  current generation.
\<close>

definition scheduled :: "nat list \<Rightarrow> nat list \<Rightarrow> ClientRuntime \<Rightarrow> bool" where
  "scheduled tunnels assigned r \<longleftrightarrow>
     (\<forall>x\<in>set (rt_ops r). \<forall>g. op_generation x = Some g \<longrightarrow> g \<le> connection_generation r)
     \<and> (\<forall>g\<in>set tunnels. g \<le> connection_generation r)
     \<and> length (filter waiting (rt_ops r)) \<le> 1
     \<and> (packet_thread r \<noteq> None \<longrightarrow> connection_generation r \<in> set assigned)
     \<and> (rt_tunnel r = None \<or> rt_tunnel r = Some (connection_generation r) \<and> connection_generation r \<in> set tunnels)
     \<and> (filter waiting (rt_ops r) = [] \<or> packet_thread r = None \<and> connection_generation r \<notin> set tunnels
         \<and> (\<forall>x\<in>set (rt_ops r). op_generation x \<noteq> Some (connection_generation r)))"

definition live :: "ClientConfig \<Rightarrow> nat list \<Rightarrow> nat list \<Rightarrow> ClientRuntime \<Rightarrow> bool" where
  "live config tunnels assigned r \<longleftrightarrow> \<not> rt_finished r \<and> rt_base config r \<and> scheduled tunnels assigned r"

definition runtime_inv :: "ClientConfig \<Rightarrow> runtime_world \<Rightarrow> bool" where
  "runtime_inv config w \<longleftrightarrow>
     (\<exists>timeout r. new_ClientRuntime config True timeout = Inr r \<and> w = runtime_initial r)
     \<or> rt_over config (ru w) \<or> live config (ru_tunnels w) (ru_assigned w) (ru w)"

lemma live_retried:
  assumes "live config tunnels assigned r" "filter waiting (rt_ops r) = []" "retried config r r'" "set tunnels' \<subseteq> set tunnels"
  shows "live config tunnels' assigned r'"
  using assms unfolding live_def scheduled_def retried_def by (elim conjE) (force simp: less_Suc_eq_le)

lemma waiting_generation: "waiting x \<Longrightarrow> op_generation x = None"
  by (cases x) simp_all

lemma live_goes_on:
  assumes "live config tunnels assigned r" "goes_on config ops r r'"
    "ops \<noteq> [] \<longrightarrow> filter waiting (rt_ops r) = []" "\<forall>x\<in>set ops. \<exists>g. op_generation x = Some g \<and> g \<le> connection_generation r"
  shows "live config tunnels assigned r'"
proof -
  have "filter waiting ops = []" using assms(4) waiting_generation by (fastforce simp: filter_empty_conv)
  then show ?thesis
    using assms unfolding live_def scheduled_def goes_on_def by (cases "ops = []") (auto simp del: not_None_eq)
qed

lemma calm_live:
  assumes "live config tunnels assigned r" "calm r r'" "rt_ops r' = rt_ops r"
  shows "live config tunnels assigned r'"
  using assms(1,3) calm_base [OF assms(2)] assms(2) by (simp add: live_def scheduled_def calm_def)

lemma live_remove1:
  assumes "live config tunnels assigned r" "x \<in> set (rt_ops r)" "q = r\<lparr>rt_ops := remove1 x (rt_ops r)\<rparr>"
  shows "live config tunnels assigned q"
    "op_generation x = Some (connection_generation q) \<Longrightarrow> filter waiting (rt_ops q) = []"
    "waiting x \<Longrightarrow> filter waiting (rt_ops q) = [] \<and> packet_thread q = None \<and> rt_tunnel q = None
       \<and> connection_generation q \<notin> set tunnels"
proof -
  have f: "filter waiting (remove1 x (rt_ops r)) = remove1 x (filter waiting (rt_ops r))" by (simp add: filter_remove1)
  have "set (remove1 x (rt_ops r)) \<subseteq> set (rt_ops r)" by (rule set_remove1_subset)
  moreover have "length (remove1 x (filter waiting (rt_ops r))) \<le> length (filter waiting (rt_ops r))"
    by (simp add: length_remove1)
  ultimately show "live config tunnels assigned q"
    using assms(1) unfolding assms(3) live_def scheduled_def rt_base_def by (auto simp: f)
  show "op_generation x = Some (connection_generation q) \<Longrightarrow> filter waiting (rt_ops q) = []"
    using assms(1,2) unfolding assms(3) live_def scheduled_def by (auto simp: f)
  assume w: "waiting x"
  with assms(2) have "x \<in> set (filter waiting (rt_ops r))" by simp
  with assms(1) show "filter waiting (rt_ops q) = [] \<and> packet_thread q = None \<and> rt_tunnel q = None
       \<and> connection_generation q \<notin> set tunnels"
    unfolding assms(3) live_def scheduled_def
    by (cases "filter waiting (rt_ops r)") (auto simp: f)
qed

text \<open>A completion keeps the invariant when its handler does.\<close>

lemma complete_inv:
  assumes inv: "runtime_inv config w"
    and f: "\<And>q. live config (ru_tunnels w) (ru_assigned w) q \<Longrightarrow>
        (op_generation x = Some (connection_generation q) \<longrightarrow> filter waiting (rt_ops q) = []) \<Longrightarrow>
        (waiting x \<longrightarrow> filter waiting (rt_ops q) = [] \<and> packet_thread q = None \<and> rt_tunnel q = None
           \<and> connection_generation q \<notin> set (ru_tunnels w)) \<Longrightarrow>
        rt_over config (f q) \<or> live config (ru_tunnels w) (ru_assigned w) (f q)"
  shows "runtime_inv config (ru_complete x f w)"
proof (cases "x \<in> set (rt_ops (ru w)) \<and> \<not> rt_finished (ru w)")
  case True
  then have live: "live config (ru_tunnels w) (ru_assigned w) (ru w)"
    using inv by (auto simp: runtime_inv_def runtime_initial_def new_ClientRuntime_def rt_over_def split: if_splits)
  note q = live_remove1 [OF live conjunct1 [OF True] refl]
  from f [OF q(1)] q(2,3) True show ?thesis by (simp add: ru_complete_def runtime_inv_def)
next
  case False
  then show ?thesis using inv by (auto simp: ru_complete_def)
qed


lemma live_retried_or_over:
  assumes "live config tunnels assigned r" "filter waiting (rt_ops r) = []" "rt_over config r' \<or> retried config r r'"
  shows "rt_over config r' \<or> live config tunnels assigned r'"
  using live_retried [OF assms(1,2)] assms(3) by blast

lemma begin_connect_live:
  assumes live: "live config tunnels assigned q" and none: "filter waiting (rt_ops q) = []" "packet_thread q = None" "rt_tunnel q = None"
  shows "rt_over config (begin_connect turns q) \<or> live config tunnels assigned (begin_connect turns q)"
proof -
  have "rt_base config q" "\<not> rt_finished q" using live by (simp_all add: live_def)
  from begin_connect_cases [OF this refl, of turns] show ?thesis
    using live none by (fastforce simp: live_def scheduled_def)
qed

lemma resolved_live:
  assumes live: "live config tunnels assigned q"
    and none: "op_generation (Op_resolve generation) = Some (connection_generation q) \<longrightarrow> filter waiting (rt_ops q) = []"
  shows "rt_over config (handle_resolve (uniform draw) turns platform generation error endpoints q)
    \<or> live config tunnels assigned (handle_resolve (uniform draw) turns platform generation error endpoints q)"
proof (cases "generation = connection_generation q")
  case True
  have b: "rt_base config q" "\<not> rt_finished q" using live by (simp_all add: live_def)
  from handle_resolve_cases [OF b True refl] none live_retried [OF live] live_goes_on [OF live] True show ?thesis
    by fastforce
next
  case False
  then show ?thesis using live by (simp add: handle_resolve_def)
qed

lemma timeout_live:
  assumes live: "live config tunnels assigned q"
    and none: "op_generation (Op_connection_timer generation) = Some (connection_generation q) \<longrightarrow> filter waiting (rt_ops q) = []"
  shows "rt_over config (handle_connection_timer (uniform draw) turns generation error q)
    \<or> live config tunnels assigned (handle_connection_timer (uniform draw) turns generation error q)"
proof (cases "generation = connection_generation q")
  case True
  have b: "rt_base config q" "\<not> rt_finished q" using live by (simp_all add: live_def)
  show ?thesis
    using live_retried_or_over [OF live _ retry_cases [OF b refl]] live none True by (simp add: handle_connection_timer_def)
next
  case False
  then show ?thesis using live by (simp add: handle_connection_timer_def)
qed

lemma connected_live:
  assumes live: "live config tunnels assigned q" and stale: "generation = connection_generation q \<longrightarrow> filter waiting (rt_ops q) = []"
    and q': "q' = handle_connect (uniform draw) turns generation error q"
  shows "rt_over config q' \<or> live config (if rt_tunnel q' = Some generation then generation # tunnels else tunnels) assigned q'"
proof (cases "generation = connection_generation q")
  case True
  have b: "rt_base config q" "\<not> rt_finished q" using live by (simp_all add: live_def)
  from handle_connect_cases [OF b True q'] consider "rt_over config q'" | "retried config q q'"
    | "goes_on config [] (q\<lparr>rt_tunnel := Some generation\<rparr>) q'" by blast
  then show ?thesis
  proof cases
    case 2
    then show ?thesis using live_retried [OF live _ 2 order_refl] stale True by (simp add: retried_def)
  next
    case 3
    have "live config (generation # tunnels) assigned (q\<lparr>rt_tunnel := Some generation\<rparr>)"
      using live True stale by (simp add: live_def scheduled_def rt_base_def)
    from live_goes_on [OF this 3] 3 show ?thesis by (simp add: goes_on_def)
  qed simp
next
  case False
  then show ?thesis using live unfolding q' by (auto simp: handle_connect_def live_def scheduled_def)
qed

lemma closed_live:
  assumes live: "live config tunnels assigned q" and t: "generation \<in> set tunnels"
    and q': "q' = on_tunnel_closed (uniform draw) turns generation remote_error retryable q"
  shows "rt_over config q' \<or> live config (removeAll generation tunnels) assigned q'"
proof (cases "generation = connection_generation q")
  case True
  have b: "rt_base config q" "\<not> rt_finished q" and w: "filter waiting (rt_ops q) = []"
    using live t True by (auto simp: live_def scheduled_def)
  from closed_cases [OF b True q'] live_retried [OF live w] show ?thesis by auto
next
  case False
  then show ?thesis using live unfolding q' by (auto simp: on_tunnel_closed_def live_def scheduled_def)
qed

lemma assignment_live:
  assumes live: "live config tunnels assigned q" and t: "generation \<in> set tunnels" "generation \<notin> set assigned"
    and q': "q' = snd (handle_assignment mk6 backend generation assignment q)"
  shows "live config tunnels (generation # assigned) q'"
proof (cases "generation = connection_generation q")
  case True
  have b: "rt_base config q" "\<not> rt_finished q" "packet_thread q = None" and w: "filter waiting (rt_ops q) = []"
    using live t True unfolding live_def scheduled_def by blast+
  have "q' = snd (configure_network mk6 backend assignment q)" using True by (simp add: q' handle_assignment_def)
  from configure_network_base [OF b this] show ?thesis using live w True by (auto simp: live_def scheduled_def)
next
  case False
  then show ?thesis using live unfolding q' by (auto simp: handle_assignment_def live_def scheduled_def)
qed

lemma reader_turn_idle: "packet_thread r = None \<Longrightarrow> reader_turn e r = r"
  by (cases e) simp_all

lemma fresh_inert:
  assumes "new_ClientRuntime config True timeout = Inr r" "e \<noteq> Ru_start"
  shows "runtime_step e (runtime_initial r) = runtime_initial r"
  using assms by (cases e) (auto simp: new_ClientRuntime_def runtime_initial_def ru_complete_def runtime_stop_def
      Let_def reader_turn_idle split: if_splits)

lemma over_inert:
  assumes "rt_over config (ru w)"
  shows "runtime_step e w = w"
  using assms by (cases e) (auto simp: rt_over_def runtime_start_def ru_complete_def runtime_stop_def
      Let_def reader_turn_idle)

lemma started_live:
  assumes "new_ClientRuntime config True timeout = Inr r"
  shows "live config [] [] (snd (runtime_start r))"
proof -
  have r: "r = \<lparr>rt_config = config, reconnect_attempt = 0, connection_generation = 0, pending_stream = False,
             rt_tunnel = None, rt_network = (new_ClientNetworkTransaction, []), packet_thread = None,
             rt_state = RStopped, rt_started = False, intentional_stop = False, stop_requested = False,
             rt_finished = False, failure_message = [], rt_ops = [], rt_log = []\<rparr>"
    using assms by (auto simp: new_ClientRuntime_def split: if_splits)
  show ?thesis unfolding r using tx_inv_new
    by (simp add: runtime_start_def live_def scheduled_def rt_base_def log_ok_def) (simp add: new_ClientNetworkTransaction_def)
qed

text \<open>While the runtime is live, every event keeps the invariant.\<close>

lemma live_step:
  assumes live: "live config (ru_tunnels w) (ru_assigned w) (ru w)"
  shows "runtime_inv config (runtime_step e w)"
proof -
  have inv: "runtime_inv config w" using live by (simp add: runtime_inv_def)
  have b: "rt_base config (ru w)" "\<not> rt_finished (ru w)" using live by (simp_all add: live_def)
  show ?thesis
  proof (cases e)
    case Ru_start
    then show ?thesis using inv b by (simp add: runtime_start_def rt_base_def)
  next
    case Ru_stop
    have "goes_on config [Op_stop] (ru w) (runtime_stop (ru w))"
      using b by (simp add: runtime_stop_def Let_def goes_on_def rt_base_def)
    then have "live config (ru_tunnels w) (ru_assigned w) (runtime_stop (ru w))"
      using live unfolding live_def scheduled_def goes_on_def by (auto simp del: not_None_eq)
    then show ?thesis by (simp add: Ru_stop runtime_inv_def)
  next
    case (Ru_begin turns)
    then show ?thesis using complete_inv [OF inv, of Op_begin_connect "begin_connect turns"] begin_connect_live by simp
  next
    case (Ru_stop_posted turns)
    have "rt_over config (stop_on_io turns q) \<or> live config (ru_tunnels w) (ru_assigned w) (stop_on_io turns q)"
      if "live config (ru_tunnels w) (ru_assigned w) q" for q
      using stop_on_io_cases [of config q _ turns] live_goes_on [OF that, of "[]"] that by (auto simp: live_def)
    then show ?thesis using complete_inv [OF inv, of Op_stop "stop_on_io turns"] by (simp add: Ru_stop_posted)
  next
    case (Ru_resolved draw turns platform generation error endpoints)
    then show ?thesis using complete_inv [OF inv, of "Op_resolve generation"] resolved_live by simp
  next
    case (Ru_connected draw turns generation error)
    let ?x = "Op_connect generation"
    show ?thesis
    proof (cases "?x \<in> set (rt_ops (ru w))")
      case True
      note q = live_remove1 [OF live True refl]
      have "generation \<in> set (ru_tunnels w)" if "rt_tunnel (ru w) = Some generation"
        using live that by (auto simp: live_def scheduled_def)
      then have dup: "live config (generation # ru_tunnels w) a r = live config (ru_tunnels w) a r"
        if "rt_tunnel (ru w) = Some generation" for a r
        using that by (simp add: live_def scheduled_def insert_absorb)
      from connected_live [OF q(1) _ refl, of generation draw turns error] q(2) dup
      show ?thesis using b True live by (auto simp: Ru_connected ru_complete_def runtime_inv_def Let_def split: if_splits)
    next
      case False
      then show ?thesis using inv by (simp add: Ru_connected ru_complete_def)
    qed
  next
    case (Ru_timeout draw turns generation error)
    then show ?thesis using complete_inv [OF inv, of "Op_connection_timer generation"] timeout_live by simp
  next
    case (Ru_reconnect turns error)
    have "rt_over config (handle_reconnect_timer turns error q)
      \<or> live config (ru_tunnels w) (ru_assigned w) (handle_reconnect_timer turns error q)"
      if "live config (ru_tunnels w) (ru_assigned w) q" "filter waiting (rt_ops q) = [] \<and> packet_thread q = None
        \<and> rt_tunnel q = None \<and> connection_generation q \<notin> set (ru_tunnels w)" for q
      using begin_connect_live [OF that(1)] that finish_over [of config q turns]
      by (simp add: handle_reconnect_timer_def live_def)
    then show ?thesis using complete_inv [OF inv, of Op_reconnect_timer] by (simp add: Ru_reconnect)
  next
    case (Ru_assignment mk6 backend generation assignment)
    then show ?thesis using inv assignment_live [OF live _ _ refl] by (simp add: runtime_inv_def)
  next
    case (Ru_packet send_packet generation packet)
    have "live config (ru_tunnels w) (ru_assigned w) (handle_packet send_packet generation packet (ru w))"
      using live live_goes_on [OF live deliver_goes_on [OF b]] by (simp add: handle_packet_def)
    then show ?thesis using inv by (simp add: Ru_packet runtime_inv_def)
  next
    case (Ru_closed draw turns generation remote_error retryable)
    then show ?thesis using inv closed_live [OF live _ refl] by (simp add: runtime_inv_def)
  next
    case (Ru_reader x)
    then show ?thesis using calm_live [OF live reader_calm] by (simp add: runtime_inv_def)
  qed
qed

interpretation client_runtime: event_machine runtime_step "runtime_inv config" for config
proof unfold_locales
  fix w e
  assume "runtime_inv config w"
  then consider timeout r where "new_ClientRuntime config True timeout = Inr r" "w = runtime_initial r"
    | "rt_over config (ru w)" | "live config (ru_tunnels w) (ru_assigned w) (ru w)"
    unfolding runtime_inv_def by blast
  then show "runtime_inv config (runtime_step e w)"
  proof cases
    case 1
    then show ?thesis
    proof (cases "e = Ru_start")
      case True
      then show ?thesis using started_live [OF 1(1)] 1(2) by (simp add: runtime_inv_def runtime_initial_def)
    next
      case False
      then show ?thesis using fresh_inert [OF 1(1)] 1 by (auto simp: runtime_inv_def)
    qed
  qed (simp_all add: over_inert live_step, simp add: runtime_inv_def)
qed

section \<open>Properties\<close>

lemma runtime_reachable_inv:
  assumes "new_ClientRuntime config True timeout = Inr r"
  shows "runtime_inv config (fold runtime_step events (runtime_initial r))"
  by (rule client_runtime.run_invar) (use assms in \<open>auto simp: runtime_inv_def\<close>)

lemma fresh_fields:
  assumes "new_ClientRuntime config True timeout = Inr r"
  shows "\<not> rt_finished r" "rt_log r = []" "rt_started r = False" "reconnect_attempt r = 0"
  using assms by (auto simp: new_ClientRuntime_def split: if_splits)

lemma runtime_inv_log:
  assumes "runtime_inv config w"
  shows "log_ok config (rt_log (ru w))" "reconnect_attempt (ru w) \<le> 5"
    "rt_finished (ru w) \<Longrightarrow> rt_over config (ru w)" "\<not> rt_finished (ru w) \<Longrightarrow> Rt_io_stop \<notin> set (rt_log (ru w))"
proof -
  consider timeout r where "new_ClientRuntime config True timeout = Inr r" "w = runtime_initial r"
    | "rt_over config (ru w)" | "live config (ru_tunnels w) (ru_assigned w) (ru w)"
    using assms unfolding runtime_inv_def by blast
  then have "log_ok config (rt_log (ru w)) \<and> reconnect_attempt (ru w) \<le> 5
     \<and> (rt_finished (ru w) \<longrightarrow> rt_over config (ru w)) \<and> (\<not> rt_finished (ru w) \<longrightarrow> Rt_io_stop \<notin> set (rt_log (ru w)))"
  proof cases
    case 1
    then show ?thesis using fresh_fields [OF 1(1)] by (simp add: runtime_initial_def log_ok_def)
  next
    case 2
    then show ?thesis using 2 unfolding rt_over_def by blast
  qed (simp add: live_def rt_base_def)
  then show "log_ok config (rt_log (ru w))" "reconnect_attempt (ru w) \<le> 5"
    "rt_finished (ru w) \<Longrightarrow> rt_over config (ru w)" "\<not> rt_finished (ru w) \<Longrightarrow> Rt_io_stop \<notin> set (rt_log (ru w))"
    by simp_all
qed

lemma reconnect_delay_cap:
  assumes "next_reconnect_delay (uniform draw) r = (delay, r')" "reconnect_attempt r \<le> 5"
  shows "let cap = min (1000 * 2 ^ reconnect_attempt r) 30000 in cap div 2 \<le> unat delay \<and> unat delay \<le> cap"
proof -
  let ?e = "reconnect_attempt r"
  let ?c = "min (push_bit ?e 1000) 30000 :: u32"
  have e: "?e \<in> {0, 1, 2, 3, 4, 5}" using assms(2) by auto
  then have c: "?c \<in> {1000, 2000, 4000, 8000, 16000, 30000}" by (elim insertE) (simp_all add: push_bit_eq_mult)
  from e have u: "unat ?c = min (1000 * 2 ^ ?e) 30000" by (elim insertE) (simp_all add: push_bit_eq_mult)
  have "delay = uniform draw (?c div 2) ?c" using assms by (auto simp: next_reconnect_delay_def Let_def min_def)
  moreover have "?c div 2 \<le> ?c" "?c < 2 ^ 31" using c by (elim insertE; simp)+
  ultimately have "?c div 2 \<le> delay" "delay \<le> ?c" using uniform_bounds [of "?c div 2" ?c draw] by auto
  then show ?thesis unfolding Let_def u [symmetric] word_le_nat_alt by (simp add: unat_div)
qed

lemma join_finished [simp]: "rt_finished (join_packet_thread turns r) = rt_finished r"
  using readers_calm [of r turns] by (simp add: join_packet_thread_def calm_def)

lemma finish_on_io_finished [simp]: "rt_finished (finish_on_io turns r)"
  by (simp add: finish_on_io_def Let_def)

definition demo_full_config :: ClientConfig where
  "demo_full_config = \<lparr>server_host = ''192.0.2.1'', server_port = 443, cc_expected_server_name = ''vpn'', ca_file = ''ca'',
     certificate_chain_file = ''crt'', private_key_file = ''key'', cc_requested_mtu = 1280,
     routes = [''0.0.0.0/0''], allow_default_route = True\<rparr>"

definition demo_runtime :: ClientRuntime where
  "demo_runtime = projr (new_ClientRuntime demo_full_config True 15000)"

definition demo_connecting :: "runtime_event list" where
  "demo_connecting = [Ru_start, Ru_begin [], Ru_resolved 0 [] (Windows_backend (\<lambda>_. Inr ())) 1 None [Endpoint_v4 [192, 0, 2, 1] 443]]"

definition demo_stopped :: "runtime_event list" where
  "demo_stopped = demo_connecting @ [Ru_connected 0 [] 1 None, Ru_stop, Ru_stop_posted [], Ru_closed 0 [] 1 None True]"

definition demo_unresolved :: "runtime_event list" where
  "demo_unresolved = [Ru_start, Ru_begin [], Ru_resolved 7 [] Other_platform 1 (Some ''no such host'') []]"

lemma demo_runtime_new: "new_ClientRuntime demo_full_config True 15000 = Inr demo_runtime"
  by (simp add: demo_runtime_def new_ClientRuntime_def)



text \<open>The last kill switch before a connection attempt.\<close>

lemma fail_closed_connect:
  assumes "fail_closed armed (before @ Rt_connect es # rest)"
  shows "armed_after armed before = Some (map vpn_endpoint es)"
  using assms by simp

lemma armed_after_Some:
  assumes "armed_after None log = Some es"
  shows "\<exists>before between. log = before @ Rt_kill_switch es # between \<and> (\<forall>x. Rt_connect x \<notin> set between)"
  using assms
proof (induction log rule: rev_induct)
  case (snoc e log)
  show ?case
  proof (cases "(\<exists>x. e = Rt_kill_switch x) \<or> (\<exists>x. e = Rt_connect x)")
    case True
    then have "e = Rt_kill_switch es" using snoc.prems by (auto simp: armed_after_append)
    then show ?thesis by (intro exI [of _ log] exI [of _ "[]"]) simp
  next
    case False
    then have "armed_after None log = Some es" using snoc.prems by (cases e) (auto simp: armed_after_append)
    then obtain before between where "log = before @ Rt_kill_switch es # between" "\<forall>x. Rt_connect x \<notin> set between"
      using snoc.IH by blast
    then show ?thesis using False by (intro exI [of _ before] exI [of _ "between @ [e]"]) auto
  qed
qed simp



text \<open>
  The delays between attempts. In every reachable state the delay drawn next lies between half
  of and the whole of a cap that starts at a second, doubles with every attempt since the last
  connection and never exceeds thirty seconds, with no wrap-around of the 32-bit arithmetic; and
  every delay that the reconnect timer was ever armed with is at least half a second and at most
  thirty seconds.
\<close>

theorem runtime_backoff_bounds:
  assumes "new_ClientRuntime config True timeout = Inr r" and "w = fold runtime_step events (runtime_initial r)"
    and "next_reconnect_delay (uniform draw) (ru w) = (delay, r')"
  shows "(let cap = min (1000 * 2 ^ reconnect_attempt (ru w)) 30000
          in cap div 2 \<le> unat delay \<and> unat delay \<le> cap)
    \<and> reconnect_attempt r' = min (reconnect_attempt (ru w) + 1) 5
    \<and> (\<forall>d. Rt_reconnect_after d \<in> set (rt_log (ru w)) \<longrightarrow> 500 \<le> d \<and> d \<le> 30000)"
proof -
  have inv: "runtime_inv config w" unfolding assms(2) by (rule runtime_reachable_inv [OF assms(1)])
  note facts = runtime_inv_log [OF inv]
  show ?thesis
    using reconnect_delay_cap [OF assms(3) facts(2)] reconnect_delay_bounds(3) [OF assms(3)] facts(1,2)
    by (simp add: log_ok_def)
qed

theorem runtime_backoff_bounds_witness:
  "let w = fold runtime_step demo_unresolved (runtime_initial demo_runtime)
   in Rt_reconnect_after 507 \<in> set (rt_log (ru w)) \<and> reconnect_attempt (ru w) = 1
     \<and> 1000 \<le> unat (fst (next_reconnect_delay (uniform 3) (ru w)))
     \<and> unat (fst (next_reconnect_delay (uniform 3) (ru w))) \<le> 2000"
proof -
  let ?w = "fold runtime_step demo_unresolved (runtime_initial demo_runtime)"
  have "Rt_reconnect_after 507 \<in> set (rt_log (ru ?w))" "reconnect_attempt (ru ?w) = 1" by code_simp+
  with runtime_backoff_bounds [OF demo_runtime_new refl, where events = demo_unresolved and draw = 3, OF prod.collapse [symmetric]]
  show ?thesis by (simp add: Let_def)
qed



end
