(* ===== verification/Windows_Backend.thy ===== *)
theory Windows_Backend
  imports Kill_Switch Network_Transaction "HOL-Library.Sublist"
begin

text \<open>
  The network backend of the Windows client, \<^verbatim>\<open>src/client/windows_network_backend.cpp\<close>: the Wintun
  adapter and its packet session, addresses, routes and MTU of the interface, and the steps around
  the kill switch. The object is the record \<open>Impl\<close>; an operation takes it together with the calls of
  Windows made so far. The exports of the library are loaded together with it, so a non-null
  \<open>wb_module\<close> stands for all of them.
\<close>

section \<open>State\<close>

record Impl =
  wb_module :: handle
  interrupt_event :: handle
  wb_adapter :: handle
  wb_session :: handle
  wb_luid :: u64
  tunnel_policy_session :: handle

type_synonym backend_state = "Impl \<times> win_call list"
type_synonym 'a backend = "(backend_state, 'a) comp"

definition lift_win :: "'a win \<Rightarrow> 'a backend" where
  "lift_win m s = (case m (snd s) of None \<Rightarrow> None | Some (r, log) \<Rightarrow> Some (r, (fst s, log)))"

definition wb_get :: "(Impl \<Rightarrow> 'a) \<Rightarrow> 'a backend" where
  "wb_get f s = Some (Inr (f (fst s)), s)"

definition wb_modify :: "(Impl \<Rightarrow> Impl) \<Rightarrow> unit backend" where
  "wb_modify f s = Some (Inr (), (f (fst s), snd s))"

abbreviation wb_call :: "windows \<Rightarrow> win_call \<Rightarrow> win_answer backend" where
  "wb_call w c \<equiv> lift_win (win_call w c)"

abbreviation wb_ignore :: "windows \<Rightarrow> win_call \<Rightarrow> unit backend" where
  "wb_ignore w c \<equiv> lift_win (win_ignore w c)"

text \<open>The constructor; \<open>length adapter_name\<close> counts the characters of the wide string.\<close>

definition new_Impl :: "windows \<Rightarrow> string \<Rightarrow> win_call list \<Rightarrow> Impl result \<times> win_call list" where
  "new_Impl w adapter_name log =
     (if adapter_name = [] \<or> length adapter_name > 128 then
        (Inl (Invalid_argument ''Wintun adapter name must contain 1 to 128 characters''), log)
      else
       (let a = windows_answer w log (Wintun Create_event); log = log @ [Wintun Create_event]
        in if answer_handle a = 0 then (Inl (windows_error w ''create Wintun interrupt event'' (status a)), log)
           else (Inr \<lparr>wb_module = 0, interrupt_event = answer_handle a, wb_adapter = 0, wb_session = 0, wb_luid = 0,
                      tunnel_policy_session = 0\<rparr>, log)))"

section \<open>Rows\<close>

definition address_row :: "u64 \<Rightarrow> InterfaceAddress \<Rightarrow> unicast_row" where
  "address_row luid address =
     \<lparr>ur_luid = luid, ur_ipv6 = False, ur_address = ia_address address, ur_prefix_length = ia_prefix_length address\<rparr>"

definition address_row_v6 :: "u64 \<Rightarrow> Ipv6InterfaceAddress \<Rightarrow> unicast_row" where
  "address_row_v6 luid address =
     \<lparr>ur_luid = luid, ur_ipv6 = True, ur_address = ia6_address address, ur_prefix_length = ia6_prefix_length address\<rparr>"

text \<open>The address families and the protocol of the Windows headers.\<close>

definition AF_INET :: nat where "AF_INET = 2"
definition AF_INET6 :: nat where "AF_INET6 = 23"
definition MIB_IPPROTO_NETMGMT :: nat where "MIB_IPPROTO_NETMGMT = 3"

definition route_row :: "u64 \<Rightarrow> Ipv4Route \<Rightarrow> forward_row" where
  "route_row luid route =
     \<lparr>fr_luid = luid, fr_family = AF_INET, fr_prefix = r4_network route, fr_prefix_length = r4_prefix_length route,
      fr_next_hop = r4_gateway route, fr_site_prefix_length = r4_prefix_length route, fr_metric = 5,
      fr_protocol = MIB_IPPROTO_NETMGMT\<rparr>"

definition route_row_v6 :: "u64 \<Rightarrow> Ipv6Route \<Rightarrow> forward_row" where
  "route_row_v6 luid route =
     \<lparr>fr_luid = luid, fr_family = AF_INET6, fr_prefix = r6_network route, fr_prefix_length = r6_prefix_length route,
      fr_next_hop = r6_gateway route, fr_site_prefix_length = r6_prefix_length route, fr_metric = 5,
      fr_protocol = MIB_IPPROTO_NETMGMT\<rparr>"

section \<open>Adapter and session\<close>

definition wb_exports :: "string list" where
  "wb_exports = [''WintunOpenAdapter'', ''WintunCreateAdapter'', ''WintunCloseAdapter'', ''WintunGetAdapterLUID'',
     ''WintunStartSession'', ''WintunEndSession'', ''WintunGetReadWaitEvent'', ''WintunReceivePacket'',
     ''WintunReleaseReceivePacket'', ''WintunAllocateSendPacket'', ''WintunSendPacket'']"

definition load_function :: "windows \<Rightarrow> handle \<Rightarrow> string \<Rightarrow> unit backend" where
  "load_function w module name =
     io_bind (wb_call w (Wintun (Get_proc_address module name))) (\<lambda>a.
       if answer_handle a = 0 then io_throw (windows_error w (''missing Wintun export '' @ name) (status a))
       else io_return ())"

definition wb_load_library :: "windows \<Rightarrow> unit backend" where
  "wb_load_library w =
     io_bind (wb_get wb_module) (\<lambda>module.
       if module \<noteq> 0 then io_return ()
       else
         io_bind (wb_call w (Wintun Load_library)) (\<lambda>a.
           if answer_handle a = 0 then io_throw (windows_error w ''load wintun.dll'' (status a))
           else
             io_then (wb_modify (\<lambda>b. b\<lparr>wb_module := answer_handle a\<rparr>))
               (io_on_throw (io_each (load_function w (answer_handle a)) wb_exports)
                 (io_then (wb_ignore w (Wintun (Free_library (answer_handle a)))) (wb_modify (\<lambda>b. b\<lparr>wb_module := 0\<rparr>))))))"

definition wb_interrupt_receive :: "windows \<Rightarrow> unit backend" where
  "wb_interrupt_receive w = io_bind (wb_get interrupt_event) (\<lambda>e. wb_ignore w (Wintun (Set_event e)))"

definition wb_stop_packet_session :: "windows \<Rightarrow> unit backend" where
  "wb_stop_packet_session w =
     io_then (wb_interrupt_receive w)
       (io_bind (wb_get wb_session) (\<lambda>session.
          if session \<noteq> 0 then
            io_then (wb_ignore w (Wintun (Wintun_end_session session))) (wb_modify (\<lambda>b. b\<lparr>wb_session := 0\<rparr>))
          else io_return ()))"

definition wb_close_adapter :: "windows \<Rightarrow> unit backend" where
  "wb_close_adapter w =
     io_then (wb_stop_packet_session w)
     (io_then
       (io_bind (wb_get wb_adapter) (\<lambda>adapter.
          if adapter \<noteq> 0 then
            io_then (wb_ignore w (Wintun (Wintun_close adapter))) (wb_modify (\<lambda>b. b\<lparr>wb_adapter := 0\<rparr>))
          else io_return ()))
       (wb_modify (\<lambda>b. b\<lparr>wb_luid := 0\<rparr>)))"

text \<open>The adapter by its name, or a new one.\<close>

definition find_adapter :: "windows \<Rightarrow> unit backend" where
  "find_adapter w =
     io_bind (wb_get wb_module) (\<lambda>module.
     io_bind (wb_call w (Wintun (Wintun_open module))) (\<lambda>a.
     io_then (wb_modify (\<lambda>b. b\<lparr>wb_adapter := answer_handle a\<rparr>))
       (if answer_handle a = 0 then
          io_bind (wb_call w (Wintun (Wintun_create module))) (\<lambda>a.
          io_then (wb_modify (\<lambda>b. b\<lparr>wb_adapter := answer_handle a\<rparr>))
            (if answer_handle a = 0 then io_throw (windows_error w ''open or create Wintun adapter'' (status a))
             else io_return ()))
        else io_return ())))"

text \<open>The interface of the adapter.\<close>

definition read_luid :: "windows \<Rightarrow> unit backend" where
  "read_luid w =
     io_bind (wb_get wb_adapter) (\<lambda>adapter.
     io_bind (wb_call w (Wintun (Wintun_luid adapter))) (\<lambda>a.
     io_then (wb_modify (\<lambda>b. b\<lparr>wb_luid := answer_number a\<rparr>))
       (if answer_number a = 0 then
          io_then (wb_close_adapter w) (io_throw (Runtime_error ''Wintun returned an invalid interface LUID''))
        else io_return ())))"

definition wb_open_adapter :: "windows \<Rightarrow> unit backend" where
  "wb_open_adapter w =
     io_bind (wb_get wb_adapter) (\<lambda>adapter.
       if adapter \<noteq> 0 then io_return ()
       else io_then (wb_load_library w) (io_then (find_adapter w) (read_luid w)))"

definition wb_start_packet_session :: "windows \<Rightarrow> unit backend" where
  "wb_start_packet_session w =
     io_bind (wb_get id) (\<lambda>b.
       if wb_adapter b = 0 \<or> wb_session b \<noteq> 0 then
         io_throw (Logic_error ''Wintun session requires one open adapter and no prior session'')
       else
         io_then (wb_ignore w (Wintun (Reset_event (interrupt_event b))))
           (io_bind (wb_call w (Wintun (Wintun_start_session (wb_adapter b) (4 * 1024 * 1024)))) (\<lambda>a.
            io_then (wb_modify (\<lambda>b. b\<lparr>wb_session := answer_handle a\<rparr>))
              (if answer_handle a = 0 then io_throw (windows_error w ''start Wintun packet session'' (status a))
               else io_return ()))))"

section \<open>Addresses, routes and MTU\<close>

definition require_luid :: "u64 backend" where
  "require_luid =
     io_bind (wb_get id) (\<lambda>b.
       if wb_adapter b = 0 \<or> wb_luid b = 0 then io_throw (Logic_error ''Wintun adapter is not open'')
       else io_return (wb_luid b))"

text \<open>The common answer of the functions that create an address or a route: whether it is new.\<close>

definition created_or_throw :: "windows \<Rightarrow> string \<Rightarrow> win_answer \<Rightarrow> unit backend \<Rightarrow> bool backend" where
  "created_or_throw w operation a rest =
     (if status a = Object_already_exists then io_return False
      else if status a \<noteq> Success then io_throw (windows_error w operation (status a))
      else io_then rest (io_return True))"

definition wb_add_interface_address :: "windows \<Rightarrow> InterfaceAddress \<Rightarrow> bool backend" where
  "wb_add_interface_address w address =
     io_bind require_luid (\<lambda>luid.
     io_bind (wb_call w (Ip (Create_unicast (address_row luid address)))) (\<lambda>a.
       created_or_throw w ''add Wintun interface address'' a (io_return ())))"

definition wb_add_interface_address6 :: "windows \<Rightarrow> Ipv6InterfaceAddress \<Rightarrow> bool backend" where
  "wb_add_interface_address6 w address =
     io_bind require_luid (\<lambda>luid.
     io_bind (wb_call w (Ip (Create_unicast (address_row_v6 luid address)))) (\<lambda>a.
       created_or_throw w ''add Wintun IPv6 interface address'' a (io_return ())))"

definition wb_add_route :: "windows \<Rightarrow> Ipv4Route \<Rightarrow> bool backend" where
  "wb_add_route w route =
     io_bind require_luid (\<lambda>luid.
     io_bind (wb_call w (Ip (Create_forward (route_row luid route)))) (\<lambda>a.
       created_or_throw w ''add Wintun route'' a (wb_ignore w (Ip (Flush_path_table False)))))"

definition wb_add_route6 :: "windows \<Rightarrow> Ipv6Route \<Rightarrow> bool backend" where
  "wb_add_route6 w route =
     io_bind require_luid (\<lambda>luid.
     io_bind (wb_call w (Ip (Create_forward (route_row_v6 luid route)))) (\<lambda>a.
       created_or_throw w ''add Wintun IPv6 route'' a (wb_ignore w (Ip (Flush_path_table True)))))"

text \<open>\<^verbatim>\<open>interface_row\<close>: the MTU in the row that is read; the row is written back with another one.\<close>

definition interface_row :: "windows \<Rightarrow> bool \<Rightarrow> (u64 \<times> u32) backend" where
  "interface_row w ipv6 =
     io_bind require_luid (\<lambda>luid.
     io_bind (wb_call w (Ip (Get_interface ipv6 luid))) (\<lambda>a.
       if status a \<noteq> Success then io_throw (windows_error w ''read Wintun IP interface'' (status a))
       else io_return (luid, ucast (answer_number a))))"

definition wb_set_interface_mtu :: "windows \<Rightarrow> u32 \<Rightarrow> InterfaceMtuSnapshot option backend" where
  "wb_set_interface_mtu w new_mtu =
     io_bind (interface_row w False) (\<lambda>(luid, ipv4).
     io_bind (interface_row w True) (\<lambda>(luid6, ipv6).
       if ipv4 = new_mtu \<and> ipv6 = new_mtu then io_return None
       else
         io_bind (wb_call w (Ip (Set_interface False luid new_mtu))) (\<lambda>a.
           if status a \<noteq> Success then io_throw (windows_error w ''set Wintun interface MTU'' (status a))
           else
             io_bind (wb_call w (Ip (Set_interface True luid6 new_mtu))) (\<lambda>a.
               if status a \<noteq> Success then
                 io_then (wb_ignore w (Ip (Set_interface False luid ipv4)))
                   (io_throw (windows_error w ''set Wintun IPv6 interface MTU'' (status a)))
               else io_return (Some \<lparr>ims_ipv4 = ipv4, ims_ipv6 = ipv6\<rparr>)))))"

definition wb_remove_route :: "windows \<Rightarrow> Ipv4Route \<Rightarrow> unit backend" where
  "wb_remove_route w route =
     io_bind (wb_get wb_luid) (\<lambda>luid.
       if luid = 0 then io_return ()
       else io_then (wb_ignore w (Ip (Delete_forward (route_row luid route)))) (wb_ignore w (Ip (Flush_path_table False))))"

definition wb_remove_route6 :: "windows \<Rightarrow> Ipv6Route \<Rightarrow> unit backend" where
  "wb_remove_route6 w route =
     io_bind (wb_get wb_luid) (\<lambda>luid.
       if luid = 0 then io_return ()
       else io_then (wb_ignore w (Ip (Delete_forward (route_row_v6 luid route)))) (wb_ignore w (Ip (Flush_path_table True))))"

text \<open>\<^verbatim>\<open>noexcept\<close> with a handler for everything.\<close>

definition swallow :: "unit backend \<Rightarrow> unit backend" where
  "swallow m s = (case m s of None \<Rightarrow> None | Some (_, s) \<Rightarrow> Some (Inr (), s))"

definition wb_restore_interface_mtu :: "windows \<Rightarrow> InterfaceMtuSnapshot \<Rightarrow> unit backend" where
  "wb_restore_interface_mtu w snapshot =
     swallow
      (io_bind (interface_row w False) (\<lambda>(luid, _).
       io_then (wb_ignore w (Ip (Set_interface False luid (ims_ipv4 snapshot))))
      (io_bind (interface_row w True) (\<lambda>(luid, _).
       wb_ignore w (Ip (Set_interface True luid (ims_ipv6 snapshot)))))))"

definition wb_remove_interface_address :: "windows \<Rightarrow> InterfaceAddress \<Rightarrow> unit backend" where
  "wb_remove_interface_address w address =
     io_bind (wb_get wb_luid) (\<lambda>luid.
       if luid = 0 then io_return () else wb_ignore w (Ip (Delete_unicast (address_row luid address))))"

definition wb_remove_interface_address6 :: "windows \<Rightarrow> Ipv6InterfaceAddress \<Rightarrow> unit backend" where
  "wb_remove_interface_address6 w address =
     io_bind (wb_get wb_luid) (\<lambda>luid.
       if luid = 0 then io_return () else wb_ignore w (Ip (Delete_unicast (address_row_v6 luid address))))"

section \<open>Packets\<close>

definition require_session :: "handle backend" where
  "require_session =
     io_bind (wb_get wb_session) (\<lambda>session.
       if session = 0 then io_throw (Logic_error ''Wintun packet session is not active'') else io_return session)"

definition try_receive_packet :: "windows \<Rightarrow> bytes option backend" where
  "try_receive_packet w =
     io_bind require_session (\<lambda>session.
     io_bind (wb_call w (Wintun (Wintun_receive session))) (\<lambda>a.
       if answer_handle a = 0 then
         (if status a = No_more_items then io_return None
          else io_throw (windows_error w ''receive Wintun packet'' (status a)))
       else
         io_then (wb_ignore w (Wintun (Wintun_release session (answer_bytes a)))) (io_return (Some (answer_bytes a)))))"

text \<open>The answer to the wait is 0 for the interrupt, 1 for the read event, anything else for a failure.\<close>

partial_function (option) receive_loop :: "windows \<Rightarrow> handle \<Rightarrow> handle \<Rightarrow> bytes option backend" where
  "receive_loop w interrupt readable s =
     (let c = Wintun (Wait_for_events interrupt readable);
          a = windows_answer w (snd s) c;
          s = (fst s, snd s @ [c])
      in if answer_number a = 0 then Some (Inr None, s)
         else if answer_number a \<noteq> 1 then Some (Inl (windows_error w ''wait for Wintun packet'' (status a)), s)
         else
          (case try_receive_packet w s of
             None \<Rightarrow> None
           | Some (Inl e, s) \<Rightarrow> Some (Inl e, s)
           | Some (Inr (Some packet), s) \<Rightarrow> Some (Inr (Some packet), s)
           | Some (Inr None, s) \<Rightarrow> receive_loop w interrupt readable s))"

declare receive_loop.simps [code]

definition wb_receive_packet :: "windows \<Rightarrow> bytes option backend" where
  "wb_receive_packet w =
     io_bind require_session (\<lambda>session.
     io_bind (wb_get interrupt_event) (\<lambda>interrupt.
     io_bind (wb_call w (Wintun (Wintun_read_event session))) (\<lambda>a.
       receive_loop w interrupt (answer_handle a))))"

definition wb_send_packet :: "windows \<Rightarrow> bytes \<Rightarrow> unit backend" where
  "wb_send_packet w packet =
     io_bind require_session (\<lambda>session.
       if packet = [] \<or> length packet > 2 ^ 32 - 1 then io_throw (Invalid_argument ''Wintun packet size is invalid'')
       else
         io_bind (wb_call w (Wintun (Wintun_allocate session (length packet)))) (\<lambda>a.
           if answer_handle a = 0 then io_throw (windows_error w ''allocate Wintun send packet'' (status a))
           else wb_ignore w (Wintun (Wintun_send session packet))))"

section \<open>The routes around the kill switch\<close>

definition is_default_route :: "forward_row \<Rightarrow> bool" where
  "is_default_route route \<longleftrightarrow>
     fr_prefix_length route = 0 \<and> (fr_family route = AF_INET \<or> fr_family route = AF_INET6)
     \<and> list_all (\<lambda>octet. octet = 0) (fr_prefix route)"

definition owned_default_route :: "u64 \<Rightarrow> forward_row \<Rightarrow> bool" where
  "owned_default_route luid route \<longleftrightarrow>
     is_default_route route \<and> fr_luid route = luid \<and> fr_protocol route = MIB_IPPROTO_NETMGMT \<and> fr_metric route = 5"

definition remove_row :: "windows \<Rightarrow> u64 \<Rightarrow> forward_row \<Rightarrow> unit win" where
  "remove_row w luid route =
     (if \<not> owned_default_route luid route then io_return ()
      else
        io_bind (win_call w (Ip (Delete_forward route))) (\<lambda>a.
          if status a \<noteq> Success \<and> status a \<noteq> Not_found then
            io_throw (windows_error w ''remove stale VPN default route'' (status a))
          else io_return ()))"

definition remove_owned_default_routes :: "windows \<Rightarrow> u64 \<Rightarrow> unit win" where
  "remove_owned_default_routes w luid =
     io_bind (win_call w (Ip Get_forward_table)) (\<lambda>a.
       if status a \<noteq> Success then io_throw (windows_error w ''enumerate stale VPN default routes'' (status a))
       else
         io_finally
           (io_then (io_each (remove_row w luid) (answer_rows a))
           (io_then (win_ignore w (Ip (Flush_path_table False))) (win_ignore w (Ip (Flush_path_table True)))))
           (win_ignore w (Ip Free_forward_table)))"

text \<open>The route that \<^verbatim>\<open>GetBestRoute2\<close> fills in; it is zero before.\<close>

definition zero_row :: forward_row where
  "zero_row = \<lparr>fr_luid = 0, fr_family = 0, fr_prefix = replicate 16 0, fr_prefix_length = 0, fr_next_hop = replicate 16 0,
     fr_site_prefix_length = 0, fr_metric = 0, fr_protocol = 0\<rparr>"

definition endpoint_bytes :: "WindowsVpnEndpoint \<Rightarrow> bytes" where
  "endpoint_bytes endpoint = take (if ve_ipv6 endpoint then 16 else 4) (ve_address endpoint)"

definition bypass_row :: "WindowsVpnEndpoint \<Rightarrow> forward_row \<Rightarrow> forward_row" where
  "bypass_row endpoint prior_route =
     \<lparr>fr_luid = fr_luid prior_route, fr_family = (if ve_ipv6 endpoint then AF_INET6 else AF_INET),
      fr_prefix = endpoint_bytes endpoint, fr_prefix_length = (if ve_ipv6 endpoint then 128 else 32),
      fr_next_hop = fr_next_hop prior_route, fr_site_prefix_length = (if ve_ipv6 endpoint then 128 else 32),
      fr_metric = 1, fr_protocol = MIB_IPPROTO_NETMGMT\<rparr>"

definition add_bypass :: "windows \<Rightarrow> u64 \<Rightarrow> WindowsVpnEndpoint \<Rightarrow> unit win" where
  "add_bypass w tunnel_luid endpoint =
     io_bind (win_call w (Ip (Get_best_route (ve_ipv6 endpoint) (endpoint_bytes endpoint)))) (\<lambda>a.
       if status a \<noteq> Success then io_throw (windows_error w ''find physical route to VPN server'' (status a))
       else
        (let prior_route = (case answer_rows a of [] \<Rightarrow> zero_row | row # _ \<Rightarrow> row)
         in if fr_luid prior_route = tunnel_luid then
              io_throw (Runtime_error ''VPN server route resolves through the tunnel adapter; refusing recursion'')
            else
              io_bind (win_call w (Ip (Create_forward (bypass_row endpoint prior_route)))) (\<lambda>a.
                if status a \<noteq> Success \<and> status a \<noteq> Object_already_exists then
                  io_throw (windows_error w ''add VPN server bypass route'' (status a))
                else io_return ())))"

definition add_transport_bypass_routes :: "windows \<Rightarrow> WindowsVpnEndpoint list \<Rightarrow> u64 \<Rightarrow> unit win" where
  "add_transport_bypass_routes w endpoints tunnel_luid =
     io_then (io_each (add_bypass w tunnel_luid) endpoints)
     (io_then (win_ignore w (Ip (Flush_path_table False))) (win_ignore w (Ip (Flush_path_table True))))"

text \<open>The member \<^verbatim>\<open>tunnel_policy_session_\<close> is the reference argument of \<^verbatim>\<open>replace_windows_tunnel_permit\<close>.\<close>

definition wb_replace_permit :: "windows \<Rightarrow> u32 \<Rightarrow> unit backend" where
  "wb_replace_permit w index s =
     (case replace_windows_tunnel_permit w (tunnel_policy_session (fst s)) index (snd s) of
        None \<Rightarrow> None
      | Some ((r, session), log) \<Rightarrow> Some (r, ((fst s)\<lparr>tunnel_policy_session := session\<rparr>, log)))"

definition enable_kill_switch :: "windows \<Rightarrow> WindowsVpnEndpoint list \<Rightarrow> unit backend" where
  "enable_kill_switch w endpoints =
     io_then (wb_open_adapter w)
     (io_then (lift_win (enable_windows_kill_switch w endpoints))
     (io_bind (wb_get wb_luid) (\<lambda>luid.
      io_then (lift_win (remove_owned_default_routes w luid))
     (io_then (lift_win (add_transport_bypass_routes w endpoints luid))
     (io_bind (wb_call w (Ip (Luid_to_index luid))) (\<lambda>a.
        if status a \<noteq> Success then io_throw (windows_error w ''read Wintun interface index for WFP'' (status a))
        else wb_replace_permit w (ucast (answer_number a))))))))"

definition disable_kill_switch :: "windows \<Rightarrow> unit win" where
  "disable_kill_switch w =
     io_bind (win_call w (Ip Alias_to_luid)) (\<lambda>a.
     io_then (if status a = Success then remove_owned_default_routes w (answer_number a) else io_return ())
       (disable_windows_kill_switch w))"

text \<open>The destructor.\<close>

definition destroy_Impl :: "windows \<Rightarrow> unit backend" where
  "destroy_Impl w =
     io_bind (wb_get tunnel_policy_session) (\<lambda>session.
     io_bind (lift_win (close_windows_tunnel_permit w session)) (\<lambda>session.
     io_then (wb_modify (\<lambda>b. b\<lparr>tunnel_policy_session := session\<rparr>))
     (io_then (wb_stop_packet_session w)
     (io_then (wb_close_adapter w)
     (io_then
       (io_bind (wb_get wb_module) (\<lambda>module.
          if module \<noteq> 0 then wb_ignore w (Wintun (Free_library module)) else io_return ()))
       (io_bind (wb_get interrupt_event) (\<lambda>e. wb_ignore w (Wintun (Close_event e)))))))))"

lemma wp_state [simp]:
  "wp (wb_get f) P t = P (Inr (f (fst t))) t" "wp (wb_modify g) R t = R (Inr ()) (g (fst t), snd t)"
  "wp (wb_call w c) S t = S (Inr (windows_answer w (snd t) c)) (fst t, snd t @ [c])"
  "wp (wb_ignore w c) R t = R (Inr ()) (fst t, snd t @ [c])"
  by (simp_all add: wp_def io_return_def wb_get_def wb_modify_def lift_win_def win_call_def win_ignore_def
      io_then_def io_bind_def)

section \<open>The handles\<close>

text \<open>
  A monitor of the calls of Wintun: the module, the adapter, the session and the event that are open
  after the calls, or \<open>None\<close> if one of them used a handle that is not open, opened a second one, or
  closed one that something open depends on.
\<close>

type_synonym open_handles = "handle \<times> handle \<times> handle \<times> handle"

definition on_session :: "handle \<Rightarrow> open_handles \<Rightarrow> open_handles option" where
  "on_session h st = (case st of (m, a, ses, e) \<Rightarrow> if h = ses \<and> ses \<noteq> 0 then Some st else None)"

fun handle_step :: "win_answer \<Rightarrow> wintun_call \<Rightarrow> open_handles \<Rightarrow> open_handles option" where
  "handle_step ans Create_event (m, a, ses, e) = (if e = 0 then Some (m, a, ses, answer_handle ans) else None)"
| "handle_step ans (Close_event h) (m, a, ses, e) = (if h = e \<and> e \<noteq> 0 then Some (m, a, ses, 0) else None)"
| "handle_step ans (Set_event h) (m, a, ses, e) = (if h = e \<and> e \<noteq> 0 then Some (m, a, ses, e) else None)"
| "handle_step ans (Reset_event h) (m, a, ses, e) = (if h = e \<and> e \<noteq> 0 then Some (m, a, ses, e) else None)"
| "handle_step ans Load_library (m, a, ses, e) = (if m = 0 then Some (answer_handle ans, a, ses, e) else None)"
| "handle_step ans (Get_proc_address h name) (m, a, ses, e) = (if h = m \<and> m \<noteq> 0 then Some (m, a, ses, e) else None)"
| "handle_step ans (Free_library h) (m, a, ses, e) = (if h = m \<and> m \<noteq> 0 \<and> a = 0 then Some (0, a, ses, e) else None)"
| "handle_step ans (Wintun_open h) (m, a, ses, e) = (if h = m \<and> m \<noteq> 0 \<and> a = 0 then Some (m, answer_handle ans, ses, e) else None)"
| "handle_step ans (Wintun_create h) (m, a, ses, e) = (if h = m \<and> m \<noteq> 0 \<and> a = 0 then Some (m, answer_handle ans, ses, e) else None)"
| "handle_step ans (Wintun_close h) (m, a, ses, e) = (if h = a \<and> a \<noteq> 0 \<and> ses = 0 then Some (m, 0, ses, e) else None)"
| "handle_step ans (Wintun_luid h) (m, a, ses, e) = (if h = a \<and> a \<noteq> 0 then Some (m, a, ses, e) else None)"
| "handle_step ans (Wintun_start_session h capacity) (m, a, ses, e) =
     (if h = a \<and> a \<noteq> 0 \<and> ses = 0 then Some (m, a, answer_handle ans, e) else None)"
| "handle_step ans (Wintun_end_session h) (m, a, ses, e) = (if h = ses \<and> ses \<noteq> 0 then Some (m, a, 0, e) else None)"
| "handle_step ans (Wintun_read_event h) st = on_session h st"
| "handle_step ans (Wintun_receive h) st = on_session h st"
| "handle_step ans (Wintun_release h packet) st = on_session h st"
| "handle_step ans (Wintun_allocate h sz) st = on_session h st"
| "handle_step ans (Wintun_send h packet) st = on_session h st"
| "handle_step ans (Wait_for_events interrupt readable) (m, a, ses, e) =
     (if interrupt = e \<and> e \<noteq> 0 \<and> ses \<noteq> 0 then Some (m, a, ses, e) else None)"

fun track :: "windows \<Rightarrow> win_call list \<Rightarrow> win_call list \<Rightarrow> open_handles \<Rightarrow> open_handles option" where
  "track w past [] st = Some st"
| "track w past (Wintun c # cs) st =
     (case handle_step (windows_answer w past (Wintun c)) c st of
        None \<Rightarrow> None
      | Some st \<Rightarrow> track w (past @ [Wintun c]) cs st)"
| "track w past (c # cs) st = track w (past @ [c]) cs st"

definition open_handles :: "windows \<Rightarrow> win_call list \<Rightarrow> open_handles option" where
  "open_handles w log = track w [] log (0, 0, 0, 0)"

lemma track_append:
  "track w past (cs @ ds) st = (case track w past cs st of None \<Rightarrow> None | Some st \<Rightarrow> track w (past @ cs) ds st)"
  by (induction w past cs st rule: track.induct) (simp_all split: option.split)

lemma open_handles_Cons [simp]:
  "open_handles w (log @ c # cs) = (case open_handles w log of None \<Rightarrow> None | Some st \<Rightarrow> track w log (c # cs) st)"
  by (auto simp: open_handles_def track_append split: option.split)

text \<open>The invariant of the object.\<close>

definition handles_match :: "windows \<Rightarrow> backend_state \<Rightarrow> bool" where
  "handles_match w s \<longleftrightarrow> open_handles w (snd s)
       = Some (wb_module (fst s), wb_adapter (fst s), wb_session (fst s), interrupt_event (fst s))
     \<and> interrupt_event (fst s) \<noteq> 0 \<and> (wb_session (fst s) \<noteq> 0 \<longrightarrow> wb_adapter (fst s) \<noteq> 0)
     \<and> (wb_adapter (fst s) \<noteq> 0 \<longrightarrow> wb_module (fst s) \<noteq> 0)"

definition backend_inv :: "windows \<Rightarrow> backend_state \<Rightarrow> bool" where
  "backend_inv w s \<longleftrightarrow> handles_match w s \<and> (wb_adapter (fst s) \<noteq> 0 \<longleftrightarrow> wb_luid (fst s) \<noteq> 0)"

lemma stop_wp: "handles_match w s \<Longrightarrow> wp (wb_stop_packet_session w) (\<lambda>r s'. handles_match w s' \<and> r = Inr ()
    \<and> wb_session (fst s') = 0 \<and> wb_adapter (fst s') = wb_adapter (fst s) \<and> wb_luid (fst s') = wb_luid (fst s)
    \<and> wb_module (fst s') = wb_module (fst s) \<and> interrupt_event (fst s') = interrupt_event (fst s)) s"
  by (auto simp: wb_stop_packet_session_def wb_interrupt_receive_def handles_match_def)

lemma close_wp: "handles_match w s \<Longrightarrow> wp (wb_close_adapter w) (\<lambda>r s'. backend_inv w s' \<and> r = Inr ()
    \<and> wb_session (fst s') = 0 \<and> wb_adapter (fst s') = 0
    \<and> wb_module (fst s') = wb_module (fst s) \<and> interrupt_event (fst s') = interrupt_event (fst s)) s"
  unfolding wb_close_adapter_def wp_then
  by (rule wp_mono [OF stop_wp]) (auto simp: handles_match_def backend_inv_def)


lemma backend_inv_log:
  assumes "backend_inv w (b, log)" "list_all (\<lambda>c. \<nexists>x. c = Wintun x) cs"
  shows "backend_inv w (b, log @ cs)"
proof -
  have "track w past cs st = Some st" for past st
    using assms(2)
  proof (induction cs arbitrary: past)
    case (Cons c cs)
    then show ?case by (cases c) auto
  qed simp
  then have "open_handles w (log @ cs) = open_handles w log"
    by (simp add: open_handles_def track_append split: option.split)
  then show ?thesis using assms(1) by (auto simp: backend_inv_def handles_match_def)
qed

lemma load_wp:
  assumes "backend_inv w s" "wb_adapter (fst s) = 0"
  shows "wp (wb_load_library w) (\<lambda>r s'. backend_inv w s' \<and> wb_adapter (fst s') = 0 \<and> (r = Inr () \<longrightarrow> wb_module (fst s') \<noteq> 0)) s"
proof -
  let ?I = "\<lambda>h s'. backend_inv w s' \<and> wb_adapter (fst s') = 0 \<and> wb_module (fst s') = h"
  have each: "wp (io_each (load_function w h) wb_exports) (\<lambda>_ s'. ?I h s') t" if "?I h t" "h \<noteq> 0" for h t
    by (rule wp_each) (use that in \<open>auto simp: load_function_def backend_inv_def handles_match_def\<close>)
  show ?thesis
  proof (cases "wb_module (fst s) = 0")
    case True
    let ?a = "windows_answer w (snd s) (Wintun Load_library)"
    have "wp (io_each (load_function w (answer_handle ?a)) wb_exports) (\<lambda>_ s'. ?I (answer_handle ?a) s')
        ((fst s)\<lparr>wb_module := answer_handle ?a\<rparr>, snd s @ [Wintun Load_library])" if "answer_handle ?a \<noteq> 0"
      by (rule each) (use assms True that in \<open>auto simp: backend_inv_def handles_match_def\<close>)
    then show ?thesis using True assms
      by (simp add: wb_load_library_def)
        (auto elim!: wp_mono simp: backend_inv_def handles_match_def split: sum.split)
  next
    case False
    then show ?thesis using assms by (simp add: wb_load_library_def)
  qed
qed

lemma find_wp:
  assumes "backend_inv w t" "wb_adapter (fst t) = 0" "wb_module (fst t) \<noteq> 0"
  shows "wp (find_adapter w) (\<lambda>r s'. handles_match w s' \<and> wb_luid (fst s') = 0
      \<and> (if r = Inr () then wb_adapter (fst s') \<noteq> 0 else wb_adapter (fst s') = 0)) t"
  using assms by (auto simp: find_adapter_def backend_inv_def handles_match_def)

lemma luid_wp:
  assumes "handles_match w t" "wb_adapter (fst t) \<noteq> 0"
  shows "wp (read_luid w) (\<lambda>r s'. backend_inv w s' \<and> (r = Inr () \<longrightarrow> wb_adapter (fst s') \<noteq> 0)) t"
proof -
  let ?t = "((fst t)\<lparr>wb_luid := 0\<rparr>, snd t @ [Wintun (Wintun_luid (wb_adapter (fst t)))])"
  have "handles_match w ?t" using assms by (auto simp: handles_match_def)
  from close_wp [OF this] have "wp (io_then (wb_close_adapter w) (io_throw e))
      (\<lambda>r s'. backend_inv w s' \<and> (r = Inr () \<longrightarrow> wb_adapter (fst s') \<noteq> 0)) ?t" for e :: cxx_exception
    unfolding wp_then by (rule wp_mono) (auto split: sum.split)
  then show ?thesis using assms by (auto simp: read_luid_def backend_inv_def handles_match_def)
qed

lemma open_wp:
  assumes inv: "backend_inv w s"
  shows "wp (wb_open_adapter w) (\<lambda>r s'. backend_inv w s' \<and> (r = Inr () \<longrightarrow> wb_adapter (fst s') \<noteq> 0)) s"
proof (cases "wb_adapter (fst s) = 0")
  case True
  let ?Q = "\<lambda>r s'. backend_inv w s' \<and> (r = Inr () \<longrightarrow> wb_adapter (fst s') \<noteq> 0)"
  have closed: "backend_inv w t" if "handles_match w t" "wb_luid (fst t) = 0" "wb_adapter (fst t) = 0" for t
    using that by (simp add: backend_inv_def)
  have "wp (io_then (find_adapter w) (read_luid w)) ?Q t"
    if "backend_inv w t" "wb_adapter (fst t) = 0" "wb_module (fst t) \<noteq> 0" for t
    unfolding wp_then by (rule wp_mono [OF find_wp [OF that]]) (auto split: sum.split if_splits intro: closed luid_wp simp del: neq0_conv)
  then have "wp (io_then (wb_load_library w) (io_then (find_adapter w) (read_luid w))) ?Q s"
    unfolding wp_then [of "wb_load_library w"]
    by (intro wp_mono [OF load_wp [OF inv True]]) (auto split: sum.split simp del: wp_then)
  then show ?thesis using True by (simp add: wb_open_adapter_def del: wp_then)
next
  case False
  then show ?thesis using inv by (simp add: wb_open_adapter_def)
qed

text \<open>Computations that do not call Wintun.\<close>

fun no_wintun :: "win_call \<Rightarrow> bool" where
  "no_wintun (Wintun _) = False"
| "no_wintun _ = True"

abbreviation elsewhere :: "'a win \<Rightarrow> bool" where
  "elsewhere \<equiv> only no_wintun"

lemma only_win [simp]: "only P (win_call w c) = P c" "only P (win_ignore w c) = P c"
  by (simp_all add: only_def emits_def win_ignore_def io_then_def io_bind_def win_call_def io_return_def)

lemma only_check: "P (Wfp c) \<Longrightarrow> only P (check_wfp w c operation)"
  unfolding check_wfp_def by (rule only_bind) simp_all

lemmas only_wfp = only_intros only_check

lemma inner_no_wintun: "inner_call c \<Longrightarrow> no_wintun c"
  by (cases c) simp_all

lemma elsewhere_enable: "elsewhere (enable_windows_kill_switch w endpoints)"
proof -
  have inner: "list_all no_wintun mid" if "list_all inner_call mid" for mid
    using that by (auto simp: list_all_iff inner_no_wintun)
  have close: "list_all no_wintun (closing h)" for h by (simp add: closing_def)
  show ?thesis unfolding only_def
  proof (rule emits_mono [OF enable_emits])
    fix log cs and r :: "unit result"
    assume "cs = [] \<and> (\<exists>e. r = Inl e) \<or> cs = [Wfp (Engine_open False)] \<and> (\<exists>e. r = Inl e)
      \<or> (\<exists>h mid. cs = Wfp (Engine_open False) # mid @ closing h
           \<and> transaction_calls w (kill_switch_filters endpoints) h (log @ [Wfp (Engine_open False)]) r mid)"
    then show "list_all no_wintun cs" by (cases r) (auto simp: transaction_calls_def inner close)
  qed
qed

lemma elsewhere_routes: "elsewhere (remove_owned_default_routes w luid)" "elsewhere (add_transport_bypass_routes w endpoints luid)"
  unfolding remove_owned_default_routes_def add_transport_bypass_routes_def remove_row_def add_bypass_def Let_def
  by (auto intro!: only_wfp)

lemma replace_elsewhere:
  assumes "replace_windows_tunnel_permit w session index log = Some (r, log')"
  shows "\<exists>cs. log' = log @ cs \<and> list_all no_wintun cs"
proof -
  have c: "elsewhere (close_windows_tunnel_permit w session)"
    unfolding close_windows_tunnel_permit_def by (auto intro!: only_wfp)
  have o: "elsewhere (open_tunnel_permit w index)"
    unfolding open_tunnel_permit_def with_transaction_def add_interface_allow_def add_filter_def Let_def
    by (intro only_wfp) simp_all
  show ?thesis
  proof (cases "index = 0")
    case True
    then show ?thesis using assms by (simp add: replace_windows_tunnel_permit_def)
  next
    case False
    then obtain x mid where m: "close_windows_tunnel_permit w session log = Some (x, mid)"
      using assms by (auto simp: replace_windows_tunnel_permit_def split: option.splits)
    then obtain y where "open_tunnel_permit w index mid = Some (y, log')"
      using assms False unfolding replace_windows_tunnel_permit_def by (auto split: option.splits sum.splits simp del: io_each.simps)
    from emitsD [OF o [unfolded only_def] this] obtain cs2 where "log' = mid @ cs2" "list_all no_wintun cs2" .
    moreover from emitsD [OF c [unfolded only_def] m] obtain cs1 where "mid = log @ cs1" "list_all no_wintun cs1" .
    ultimately show ?thesis by (intro exI [of _ "cs1 @ cs2"]) simp
  qed
qed

text \<open>Operations that keep the invariant.\<close>

definition keeps :: "windows \<Rightarrow> 'a backend \<Rightarrow> bool" where
  "keeps w m \<longleftrightarrow> (\<forall>s. backend_inv w s \<longrightarrow> wp m (\<lambda>_ s'. backend_inv w s') s)"

lemma keepsD: "keeps w m \<Longrightarrow> backend_inv w s \<Longrightarrow> wp m (\<lambda>_ s'. backend_inv w s') s"
  unfolding keeps_def by blast

lemma keeps_bind: "keeps w m \<Longrightarrow> (\<And>x. keeps w (f x)) \<Longrightarrow> keeps w (io_bind m f)"
  unfolding keeps_def wp_bind
proof (intro allI impI)
  fix s
  assume m: "\<forall>s. backend_inv w s \<longrightarrow> wp m (\<lambda>_ s'. backend_inv w s') s"
    and f: "\<And>x. \<forall>s. backend_inv w s \<longrightarrow> wp (f x) (\<lambda>_ s'. backend_inv w s') s" and s: "backend_inv w s"
  show "wp m (\<lambda>r s. case r of Inl e \<Rightarrow> backend_inv w s | Inr x \<Rightarrow> wp (f x) (\<lambda>_ s'. backend_inv w s') s) s"
    by (rule wp_mono [OF m [rule_format, OF s]]) (auto simp: f split: sum.split)
qed

lemma keeps_then: "keeps w m \<Longrightarrow> keeps w n \<Longrightarrow> keeps w (io_then m n)"
  by (simp add: io_then_def keeps_bind)

lemma keeps_simps [simp]: "keeps w (io_return x)" "keeps w (io_throw e)" "keeps w (wb_get f)"
  by (simp_all add: keeps_def)

lemma keeps_lift: "elsewhere m \<Longrightarrow> keeps w (lift_win m)"
  unfolding keeps_def
proof (intro allI impI)
  fix s
  assume m: "elsewhere m" and s: "backend_inv w s"
  have "list_all (\<lambda>c. \<nexists>x. c = Wintun x) cs" if "list_all no_wintun cs" for cs using that by (auto simp: list_all_iff)
  then show "wp (lift_win m) (\<lambda>_ s'. backend_inv w s') s"
    using m s backend_inv_log [of w "fst s" "snd s"]
    by (auto simp: wp_def lift_win_def only_def emits_def split: option.split) blast
qed

lemmas keeps_intros = keeps_bind keeps_then keeps_lift

lemma inv_match: "backend_inv w s \<Longrightarrow> handles_match w s"
  by (simp add: backend_inv_def)

lemma keeps_session:
  "keeps w (wb_open_adapter w)" "keeps w (wb_close_adapter w)" "keeps w (wb_stop_packet_session w)"
  "keeps w (wb_start_packet_session w)" "keeps w (wb_interrupt_receive w)"
proof -
  show "keeps w (wb_open_adapter w)" unfolding keeps_def by (blast intro: wp_mono [OF open_wp])
  show "keeps w (wb_close_adapter w)" unfolding keeps_def by (blast intro: wp_mono [OF close_wp] inv_match)
  show "keeps w (wb_stop_packet_session w)" unfolding keeps_def
  proof (intro allI impI)
    fix s assume "backend_inv w s"
    then show "wp (wb_stop_packet_session w) (\<lambda>_ s'. backend_inv w s') s"
      by (intro wp_mono [OF stop_wp [OF inv_match]]) (simp_all add: backend_inv_def)
  qed
  show "keeps w (wb_start_packet_session w)"
    by (auto simp: keeps_def wb_start_packet_session_def backend_inv_def handles_match_def)
  show "keeps w (wb_interrupt_receive w)"
    by (auto simp: keeps_def wb_interrupt_receive_def backend_inv_def handles_match_def)
qed

lemma try_receive_wp:
  "backend_inv w s \<Longrightarrow> wp (try_receive_packet w) (\<lambda>_ s'. backend_inv w s' \<and> fst s' = fst s) s"
  by (auto simp: try_receive_packet_def require_session_def backend_inv_def handles_match_def on_session_def)

lemma wait_inv:
  "backend_inv w (b, log) \<Longrightarrow> wb_session b \<noteq> 0
    \<Longrightarrow> backend_inv w (b, log @ [Wintun (Wait_for_events (interrupt_event b) readable)])"
  by (auto simp: backend_inv_def handles_match_def)

lemma receive_loop_inv:
  assumes "receive_loop w interrupt readable s = Some y"
  shows "backend_inv w s \<and> interrupt = interrupt_event (fst s) \<and> wb_session (fst s) \<noteq> 0 \<longrightarrow> backend_inv w (snd y)"
proof (rule receive_loop.raw_induct [OF _ assms], goal_cases)
  case (1 loop w interrupt readable s y)
  let ?c = "Wintun (Wait_for_events interrupt readable)"
  let ?s = "(fst s, snd s @ [?c])"
  show ?case
  proof
    assume s: "backend_inv w s \<and> interrupt = interrupt_event (fst s) \<and> wb_session (fst s) \<noteq> 0"
    then have t: "backend_inv w ?s" using wait_inv [of w "fst s" "snd s" readable] by simp
    show "backend_inv w (snd y)"
    proof (cases "answer_number (windows_answer w (snd s) ?c) = 1")
      case False
      then show ?thesis using 1(2) t by (auto simp: Let_def split: if_splits)
    next
      case True
      then obtain r u where r: "try_receive_packet w ?s = Some (r, u)"
        using 1(2) by (auto simp: Let_def split: option.splits)
      then have u: "backend_inv w u" "fst u = fst s" using try_receive_wp [OF t] by (simp_all add: wp_def)
      then show ?thesis
      proof (cases "r = Inr None")
        case True
        then have "loop w interrupt readable u = Some y"
          using 1(2) r \<open>answer_number (windows_answer w (snd s) ?c) = 1\<close> by (simp add: Let_def)
        from 1(1) [OF this] show ?thesis using s u by simp
      next
        case False
        then have "snd y = u" using 1(2) r True by (auto simp: Let_def split: sum.splits option.splits)
        then show ?thesis using u by simp
      qed
    qed
  qed
qed

lemma keeps_packets: "keeps w (wb_receive_packet w)" "keeps w (wb_send_packet w packet)"
proof -
  show "keeps w (wb_receive_packet w)" unfolding keeps_def
  proof (intro allI impI)
    fix s assume s: "backend_inv w s"
    let ?s = "(fst s, snd s @ [Wintun (Wintun_read_event (wb_session (fst s)))])"
    have "wp (receive_loop w (interrupt_event (fst s)) readable) (\<lambda>_ s'. backend_inv w s') ?s" if "wb_session (fst s) \<noteq> 0" for readable
    proof -
      have "backend_inv w ?s" using s that by (auto simp: backend_inv_def handles_match_def on_session_def)
      then show ?thesis using that receive_loop_inv [of w "interrupt_event (fst s)" readable ?s]
        by (auto simp: wp_def split: option.split)
    qed
    then show "wp (wb_receive_packet w) (\<lambda>_ s'. backend_inv w s') s" using s
      by (simp add: wb_receive_packet_def require_session_def)
  qed
  show "keeps w (wb_send_packet w packet)"
    by (auto simp: keeps_def wb_send_packet_def require_session_def backend_inv_def handles_match_def on_session_def)
qed

lemma keeps_luid: "keeps w require_luid"
  by (simp add: keeps_def require_luid_def)

lemma keeps_created: "keeps w rest \<Longrightarrow> keeps w (created_or_throw w operation a rest)"
  unfolding created_or_throw_def by (simp add: keeps_then)

lemma keeps_interface_row: "keeps w (interface_row w ipv6)"
  unfolding interface_row_def by (auto intro!: keeps_intros keeps_luid)

lemma keeps_swallow: "keeps w m \<Longrightarrow> keeps w (swallow m)"
  unfolding keeps_def wp_def swallow_def by (auto split: option.splits)

lemma keeps_replace: "keeps w (wb_replace_permit w index)"
  unfolding keeps_def wp_def
proof (intro allI impI)
  fix s assume s: "backend_inv w s"
  have "backend_inv w ((fst s)\<lparr>tunnel_policy_session := session\<rparr>, log)"
    if run: "replace_windows_tunnel_permit w (tunnel_policy_session (fst s)) index (snd s) = Some ((r, session), log)" for r session log
  proof -
    from replace_elsewhere [OF run] obtain cs where "log = snd s @ cs" "list_all no_wintun cs" by blast
    moreover from this have "list_all (\<lambda>c. \<nexists>x. c = Wintun x) cs" by (auto simp: list_all_iff)
    ultimately have "backend_inv w (fst s, log)" using backend_inv_log [of w "fst s" "snd s" cs] s by simp
    then show ?thesis by (auto simp: backend_inv_def handles_match_def)
  qed
  then show "case wb_replace_permit w index s of None \<Rightarrow> True | Some (r, s') \<Rightarrow> backend_inv w s'"
    by (auto simp: wb_replace_permit_def split: option.split)
qed

lemmas keeps_parts = keeps_intros keeps_luid keeps_created keeps_interface_row keeps_swallow keeps_replace keeps_session

lemma keeps_interface:
  "keeps w (wb_add_interface_address w address4)" "keeps w (wb_add_interface_address6 w address6)"
  "keeps w (wb_add_route w route4)" "keeps w (wb_add_route6 w route6)"
  "keeps w (wb_remove_interface_address w address4)" "keeps w (wb_remove_interface_address6 w address6)"
  "keeps w (wb_remove_route w route4)" "keeps w (wb_remove_route6 w route6)"
  "keeps w (wb_restore_interface_mtu w snapshot)"
  unfolding wb_add_interface_address_def wb_add_interface_address6_def wb_add_route_def wb_add_route6_def
    wb_remove_interface_address_def wb_remove_interface_address6_def wb_remove_route_def wb_remove_route6_def
    wb_restore_interface_mtu_def
  by (auto intro!: keeps_parts)

lemma keeps_set_mtu: "keeps w (wb_set_interface_mtu w new_mtu)"
  unfolding wb_set_interface_mtu_def by (auto intro!: keeps_parts)

lemma keeps_enable: "keeps w (enable_kill_switch w endpoints)"
  unfolding enable_kill_switch_def by (auto intro!: keeps_parts elsewhere_enable elsewhere_routes)

section \<open>Runs of the object\<close>

text \<open>The public operations, whatever they answer; one that does not return changes nothing further.\<close>

datatype backend_op =
    Op_open_adapter
  | Op_start_packet_session
  | Op_add_address InterfaceAddress
  | Op_add_address6 Ipv6InterfaceAddress
  | Op_set_mtu u32
  | Op_add_route Ipv4Route
  | Op_add_route6 Ipv6Route
  | Op_remove_route Ipv4Route
  | Op_remove_route6 Ipv6Route
  | Op_restore_mtu InterfaceMtuSnapshot
  | Op_remove_address InterfaceAddress
  | Op_remove_address6 Ipv6InterfaceAddress
  | Op_stop_packet_session
  | Op_close_adapter
  | Op_receive_packet
  | Op_interrupt_receive
  | Op_send_packet bytes
  | Op_enable_kill_switch "WindowsVpnEndpoint list"

definition after :: "'a backend \<Rightarrow> backend_state \<Rightarrow> backend_state" where
  "after m s = (case m s of None \<Rightarrow> s | Some (_, s) \<Rightarrow> s)"

fun backend_step :: "windows \<Rightarrow> backend_op \<Rightarrow> backend_state \<Rightarrow> backend_state" where
  "backend_step w Op_open_adapter = after (wb_open_adapter w)"
| "backend_step w Op_start_packet_session = after (wb_start_packet_session w)"
| "backend_step w (Op_add_address address) = after (wb_add_interface_address w address)"
| "backend_step w (Op_add_address6 address) = after (wb_add_interface_address6 w address)"
| "backend_step w (Op_set_mtu new_mtu) = after (wb_set_interface_mtu w new_mtu)"
| "backend_step w (Op_add_route route) = after (wb_add_route w route)"
| "backend_step w (Op_add_route6 route) = after (wb_add_route6 w route)"
| "backend_step w (Op_remove_route route) = after (wb_remove_route w route)"
| "backend_step w (Op_remove_route6 route) = after (wb_remove_route6 w route)"
| "backend_step w (Op_restore_mtu snapshot) = after (wb_restore_interface_mtu w snapshot)"
| "backend_step w (Op_remove_address address) = after (wb_remove_interface_address w address)"
| "backend_step w (Op_remove_address6 address) = after (wb_remove_interface_address6 w address)"
| "backend_step w Op_stop_packet_session = after (wb_stop_packet_session w)"
| "backend_step w Op_close_adapter = after (wb_close_adapter w)"
| "backend_step w Op_receive_packet = after (wb_receive_packet w)"
| "backend_step w Op_interrupt_receive = after (wb_interrupt_receive w)"
| "backend_step w (Op_send_packet packet) = after (wb_send_packet w packet)"
| "backend_step w (Op_enable_kill_switch endpoints) = after (enable_kill_switch w endpoints)"

lemma keeps_after: "keeps w m \<Longrightarrow> backend_inv w s \<Longrightarrow> backend_inv w (after m s)"
  by (drule (1) keepsD) (auto simp: wp_def after_def split: option.splits)

lemmas keeps_operations = keeps_session keeps_packets keeps_interface keeps_set_mtu keeps_enable

interpretation backend: event_machine "backend_step w" "backend_inv w" for w
proof
  fix op s assume "backend_inv w s"
  then show "backend_inv w (backend_step w op s)" by (cases op) (simp_all add: keeps_after keeps_operations)
qed

lemma new_inv: "new_Impl w adapter_name [] = (Inr b, log) \<Longrightarrow> backend_inv w (b, log)"
  by (auto simp: new_Impl_def Let_def backend_inv_def handles_match_def open_handles_def split: if_splits)

lemma stop_run: "\<exists>t. wb_stop_packet_session w s = Some (Inr (), t)"
  by (auto simp: wb_stop_packet_session_def wb_interrupt_receive_def io_bind_def io_then_def wb_get_def wb_modify_def
      lift_win_def win_ignore_def win_call_def io_return_def)


lemma close_run: "\<exists>t. wb_close_adapter w s = Some (Inr (), t)"
proof -
  obtain t where "wb_stop_packet_session w s = Some (Inr (), t)" using stop_run by blast
  then show ?thesis by (auto simp: wb_close_adapter_def io_bind_def io_then_def wb_get_def wb_modify_def
      lift_win_def win_ignore_def win_call_def io_return_def)
qed

text \<open>The destructor returns, and every handle is closed then.\<close>

lemma destroy_run: "\<exists>t. destroy_Impl w s = Some (Inr (), t)"
proof -
  have permit: "\<exists>h log'. close_windows_tunnel_permit w session log = Some (Inr h, log')" for session log
    by (auto simp: close_windows_tunnel_permit_def io_then_def io_bind_def win_ignore_def win_call_def io_return_def)
  obtain h log where "close_windows_tunnel_permit w (tunnel_policy_session (fst s)) (snd s) = Some (Inr h, log)"
    using permit by blast
  moreover obtain t where t: "wb_stop_packet_session w ((fst s)\<lparr>tunnel_policy_session := h\<rparr>, log) = Some (Inr (), t)"
    using stop_run by blast
  moreover obtain u where "wb_close_adapter w t = Some (Inr (), u)" using close_run by blast
  ultimately show ?thesis by (auto simp: destroy_Impl_def io_bind_def io_then_def wb_get_def wb_modify_def
      lift_win_def win_ignore_def win_call_def io_return_def)
qed

lemma match_session [simp]: "handles_match w (b\<lparr>tunnel_policy_session := session\<rparr>, log) = handles_match w (b, log)"
  by (simp add: handles_match_def)

lemma permit_match:
  assumes "handles_match w s"
  shows "wp (lift_win (close_windows_tunnel_permit w session)) (\<lambda>r s'. handles_match w s' \<and> (\<exists>h. r = Inr h)) s"
  using assms by (auto simp: handles_match_def close_windows_tunnel_permit_def wp_def lift_win_def io_then_def io_bind_def
      win_ignore_def win_call_def io_return_def)

lemma destroy_wp:
  assumes s: "handles_match w s"
  shows "wp (destroy_Impl w) (\<lambda>r s'. open_handles w (snd s') = Some (0, 0, 0, 0)) s"
proof -
  let ?Q = "\<lambda>r s'. open_handles w (snd s') = Some (0, 0, 0, 0)"
  let ?finish = "io_then
       (io_bind (wb_get wb_module) (\<lambda>module.
          if module \<noteq> 0 then wb_ignore w (Wintun (Free_library module)) else io_return ()))
       (io_bind (wb_get interrupt_event) (\<lambda>e. wb_ignore w (Wintun (Close_event e))))"
  have rest: "wp (io_then (wb_stop_packet_session w) (io_then (wb_close_adapter w) ?finish)) ?Q t" if "handles_match w t" for t
  proof -
    have last: "wp ?finish ?Q u" if "backend_inv w u \<and> wb_session (fst u) = 0 \<and> wb_adapter (fst u) = 0" for u
      using that by (auto simp: backend_inv_def handles_match_def)
    have mid: "wp (io_then (wb_close_adapter w) ?finish) ?Q u" if "handles_match w u" for u
      unfolding wp_then [of "wb_close_adapter w"]
      by (rule wp_mono [OF close_wp [OF that]]) (auto split: sum.split intro!: last simp del: wp_then wp_bind neq0_conv)
    show ?thesis unfolding wp_then [of "wb_stop_packet_session w"]
      by (rule wp_mono [OF stop_wp [OF that]]) (auto split: sum.split intro!: mid simp del: wp_then wp_bind neq0_conv)
  qed
  have "wp (lift_win (close_windows_tunnel_permit w (tunnel_policy_session (fst s)))) (\<lambda>r s. case r of Inl e \<Rightarrow> ?Q r s | Inr session \<Rightarrow>
      wp (io_then (wb_stop_packet_session w) (io_then (wb_close_adapter w) ?finish)) ?Q ((fst s)\<lparr>tunnel_policy_session := session\<rparr>, snd s)) s"
    by (rule wp_mono [OF permit_match [OF s]]) (auto split: sum.split intro!: rest simp del: wp_then wp_bind neq0_conv)
  then show ?thesis unfolding destroy_Impl_def wp_bind [of "wb_get tunnel_policy_session"] wp_state sum.case
      wp_bind [of "lift_win m" for m] wp_then [of "wb_modify f" for f] .
qed


definition demo_packets :: windows where
  "demo_packets = \<lparr>windows_answer = (\<lambda>log c. (windows_answer demo_windows log c)\<lparr>answer_number := 1, answer_bytes := [69]\<rparr>),
     windows_message = (\<lambda>_. [])\<rparr>"


section \<open>The routes\<close>

fun created_rows :: "win_call list \<Rightarrow> forward_row list" where
  "created_rows [] = []"
| "created_rows (Ip (Create_forward row) # cs) = row # created_rows cs"
| "created_rows (c # cs) = created_rows cs"

fun deleted_rows :: "win_call list \<Rightarrow> forward_row list" where
  "deleted_rows [] = []"
| "deleted_rows (Ip (Delete_forward row) # cs) = row # deleted_rows cs"
| "deleted_rows (c # cs) = deleted_rows cs"

lemma created_rows_append [simp]: "created_rows (cs @ ds) = created_rows cs @ created_rows ds"
  by (induction cs rule: created_rows.induct) simp_all

lemma deleted_rows_append [simp]: "deleted_rows (cs @ ds) = deleted_rows cs @ deleted_rows ds"
  by (induction cs rule: deleted_rows.induct) simp_all

definition best_route :: "win_answer \<Rightarrow> forward_row" where
  "best_route a = (case answer_rows a of [] \<Rightarrow> zero_row | row # _ \<Rightarrow> row)"

text \<open>A route that Windows answered, at some moment, as the best one to the endpoint, and not through the tunnel.\<close>

definition physical_route :: "windows \<Rightarrow> u64 \<Rightarrow> WindowsVpnEndpoint \<Rightarrow> forward_row \<Rightarrow> bool" where
  "physical_route w luid endpoint prior \<longleftrightarrow> fr_luid prior \<noteq> luid
     \<and> (\<exists>past. prior = best_route (windows_answer w past (Ip (Get_best_route (ve_ipv6 endpoint) (endpoint_bytes endpoint)))))"

lemma add_bypass_emits:
  "emits (add_bypass w luid endpoint) (\<lambda>_ r cs. (\<exists>e. r = Inl e) \<and> created_rows cs = []
     \<or> (\<exists>prior. created_rows cs = [bypass_row endpoint prior] \<and> physical_route w luid endpoint prior))"
  unfolding add_bypass_def
proof (rule emits_bind [where P = "\<lambda>log r cs. created_rows cs = []
        \<and> r = Inr (windows_answer w log (Ip (Get_best_route (ve_ipv6 endpoint) (endpoint_bytes endpoint))))"
      and Q = "\<lambda>a _ r cs. (\<exists>e. r = Inl e) \<and> created_rows cs = []
     \<or> created_rows cs = [bypass_row endpoint (best_route a)] \<and> fr_luid (best_route a) \<noteq> luid"], goal_cases)
  case (2 a)
  show ?case (is "emits _ ?R")
  proof (cases "status a = Success \<and> fr_luid (best_route a) \<noteq> luid")
    case True
    have "emits (io_bind (win_call w (Ip (Create_forward (bypass_row endpoint (best_route a))))) (\<lambda>a.
        if status a \<noteq> Success \<and> status a \<noteq> Object_already_exists then
          io_throw (windows_error w ''add VPN server bypass route'' (status a)) else io_return ())) ?R"
      by (rule emits_bind [where P = "\<lambda>_ r cs. (\<exists>a. r = Inr a) \<and> created_rows cs = [bypass_row endpoint (best_route a)]"
            and Q = "\<lambda>_ _ _ cs. created_rows cs = []"]) (use True in auto)
    then show ?thesis using True by (simp add: best_route_def Let_def)
  next
    case False
    then show ?thesis by (auto simp: best_route_def Let_def)
  qed
qed (auto simp: physical_route_def)

lemma bypass_each_emits:
  "emits (io_each (add_bypass w luid) endpoints) (\<lambda>_ r cs. \<exists>priors. created_rows cs = map2 bypass_row endpoints priors
     \<and> length priors \<le> length endpoints \<and> (r = Inr () \<longrightarrow> length priors = length endpoints)
     \<and> list_all2 (physical_route w luid) (take (length priors) endpoints) priors)"
proof (induction endpoints)
  case (Cons endpoint endpoints)
  show ?case unfolding io_each.simps
  proof (rule emits_then [OF add_bypass_emits Cons], goal_cases)
    case (1 log e cs)
    then show ?case
    proof
      assume "\<exists>prior. created_rows cs = [bypass_row endpoint prior] \<and> physical_route w luid endpoint prior"
      then obtain prior where "created_rows cs = [bypass_row endpoint prior]" "physical_route w luid endpoint prior" by blast
      then show ?thesis by (intro exI [of _ "[prior]"]) simp
    qed (intro exI [of _ "[]"], simp)
  next
    case (2 log x cs1 r cs2)
    then obtain prior priors where "created_rows cs1 = [bypass_row endpoint prior]" "physical_route w luid endpoint prior"
      "created_rows cs2 = map2 bypass_row endpoints priors" "length priors \<le> length endpoints"
      "r = Inr () \<longrightarrow> length priors = length endpoints" "list_all2 (physical_route w luid) (take (length priors) endpoints) priors" by blast
    then show ?case by (intro exI [of _ "prior # priors"]) simp
  qed
qed simp

lemma bypass_routes_emits:
  "emits (add_transport_bypass_routes w endpoints luid) (\<lambda>_ r cs. \<exists>priors. created_rows cs = map2 bypass_row endpoints priors
     \<and> length priors \<le> length endpoints \<and> (r = Inr () \<longrightarrow> length priors = length endpoints)
     \<and> list_all2 (physical_route w luid) (take (length priors) endpoints) priors)"
proof -
  have flush: "emits (io_then (win_ignore w (Ip (Flush_path_table False))) (win_ignore w (Ip (Flush_path_table True))))
      (\<lambda>_ r cs. created_rows cs = [])"
    by (simp add: emits_def win_ignore_def io_then_def io_bind_def win_call_def io_return_def)
  show ?thesis unfolding add_transport_bypass_routes_def by (rule emits_then [OF bypass_each_emits flush]) auto
qed

text \<open>
  The routes that \<^verbatim>\<open>add_transport_bypass_routes\<close> creates are host routes to the first endpoints
  in order, at most one each and exactly one each if it does not throw, and each leaves through the
  interface of the best route that Windows had for its endpoint, never through the tunnel.\<close>

theorem bypass_avoids_tunnel:
  assumes "add_transport_bypass_routes w endpoints tunnel_luid log = Some (r, log')"
  shows "\<exists>cs priors. log' = log @ cs \<and> created_rows cs = map2 bypass_row endpoints priors
     \<and> length priors \<le> length endpoints \<and> (r = Inr () \<longrightarrow> length priors = length endpoints)
     \<and> list_all2 (physical_route w tunnel_luid) (take (length priors) endpoints) priors
     \<and> (\<forall>row \<in> set (created_rows cs). fr_luid row \<noteq> tunnel_luid)"
proof -
  from emitsD [OF bypass_routes_emits assms] obtain cs priors where "log' = log @ cs" "created_rows cs = map2 bypass_row endpoints priors"
    "length priors \<le> length endpoints" "r = Inr () \<longrightarrow> length priors = length endpoints"
    "list_all2 (physical_route w tunnel_luid) (take (length priors) endpoints) priors" by metis
  moreover from this have "\<forall>row \<in> set (created_rows cs). fr_luid row \<noteq> tunnel_luid"
    by (auto simp: bypass_row_def physical_route_def list_all2_conv_all_nth set_zip)
  ultimately show ?thesis by blast
qed

theorem bypass_avoids_tunnel_witness:
  "\<exists>log cs priors. add_transport_bypass_routes demo_windows [demo_endpoint] 9 [] = Some (Inr (), log)
     \<and> log = [] @ cs \<and> created_rows cs = map2 bypass_row [demo_endpoint] priors \<and> length priors = 1"
proof -
  have "map_option fst (add_transport_bypass_routes demo_windows [demo_endpoint] 9 []) = Some (Inr ())" by code_simp
  then obtain log where log: "add_transport_bypass_routes demo_windows [demo_endpoint] 9 [] = Some (Inr (), log)" by auto
  from bypass_avoids_tunnel [OF this] show ?thesis using log by auto
qed

lemma remove_each_emits:
  "emits (io_each (remove_row w luid) rows) (\<lambda>_ r cs. prefix (deleted_rows cs) (filter (owned_default_route luid) rows)
     \<and> (r = Inr () \<longrightarrow> deleted_rows cs = filter (owned_default_route luid) rows))"
proof (induction rows)
  case (Cons row rows)
  have row: "emits (remove_row w luid row) (\<lambda>_ r cs. deleted_rows cs = filter (owned_default_route luid) [row])"
  proof (cases "owned_default_route luid row")
    case True
    have "emits (io_bind (win_call w (Ip (Delete_forward row))) (\<lambda>a.
        if status a \<noteq> Success \<and> status a \<noteq> Not_found then
          io_throw (windows_error w ''remove stale VPN default route'' (status a)) else io_return ()))
        (\<lambda>_ r cs. deleted_rows cs = [row])"
      by (rule emits_bind [where P = "\<lambda>_ r cs. (\<exists>a. r = Inr a) \<and> deleted_rows cs = [row]"
            and Q = "\<lambda>_ _ _ cs. deleted_rows cs = []"]) auto
    then show ?thesis using True by (simp add: remove_row_def)
  qed (simp add: remove_row_def)
  show ?case unfolding io_each.simps by (rule emits_then [OF row Cons]) auto
qed simp

text \<open>
  \<^verbatim>\<open>remove_owned_default_routes\<close> deletes only default routes on the tunnel's interface with the
  protocol and metric that \<^verbatim>\<open>add_route\<close> gives them, in the order of the table and all of them if it does
  not throw, and it frees the table on every path once it has it.\<close>

theorem stale_routes_only_owned:
  assumes "remove_owned_default_routes w luid log = Some (r, log')"
  shows "let a = windows_answer w log (Ip Get_forward_table); owned = filter (owned_default_route luid) (answer_rows a)
         in if status a \<noteq> Success then log' = log @ [Ip Get_forward_table] \<and> r \<noteq> Inr ()
            else \<exists>cs. log' = log @ Ip Get_forward_table # cs @ [Ip Free_forward_table]
                   \<and> prefix (deleted_rows cs) owned \<and> (r = Inr () \<longrightarrow> deleted_rows cs = owned)"
proof -
  let ?a = "windows_answer w log (Ip Get_forward_table)"
  let ?body = "io_then (io_each (remove_row w luid) (answer_rows ?a))
           (io_then (win_ignore w (Ip (Flush_path_table False))) (win_ignore w (Ip (Flush_path_table True))))"
  let ?P = "\<lambda>r cs. prefix (deleted_rows cs) (filter (owned_default_route luid) (answer_rows ?a))
     \<and> (r = Inr () \<longrightarrow> deleted_rows cs = filter (owned_default_route luid) (answer_rows ?a))"
  have flush: "emits (io_then (win_ignore w (Ip (Flush_path_table False))) (win_ignore w (Ip (Flush_path_table True))))
      (\<lambda>_ r cs. deleted_rows cs = [])"
    by (simp add: emits_def win_ignore_def io_then_def io_bind_def win_call_def io_return_def)
  have body: "emits ?body (\<lambda>_. ?P)" by (rule emits_then [OF remove_each_emits flush]) auto
  have "emits (io_finally ?body (win_ignore w (Ip Free_forward_table))) (\<lambda>_ r cs. \<exists>ds. cs = ds @ [Ip Free_forward_table] \<and> ?P r ds)"
    by (rule emits_finally [OF body]) blast
  note this [THEN emitsD, of "log @ [Ip Get_forward_table]" r log']
  then show ?thesis using assms
    by (auto simp: remove_owned_default_routes_def Let_def io_bind_def [of "win_call w c" for c] win_call_def io_throw_def
        split: if_splits)
qed

definition demo_routes :: windows where
  "demo_routes = \<lparr>windows_answer = (\<lambda>log c. (windows_answer demo_windows log c)\<lparr>answer_rows :=
      [route_row 9 \<lparr>r4_network = [0, 0, 0, 0], r4_prefix_length = 0, r4_gateway = [10, 8, 0, 1]\<rparr>,
       route_row 5 \<lparr>r4_network = [0, 0, 0, 0], r4_prefix_length = 0, r4_gateway = [10, 0, 0, 1]\<rparr>]\<rparr>),
     windows_message = (\<lambda>_. [])\<rparr>"

theorem stale_routes_only_owned_witness:
  "\<exists>log cs. remove_owned_default_routes demo_routes 9 [] = Some (Inr (), log)
     \<and> log = [] @ Ip Get_forward_table # cs @ [Ip Free_forward_table] \<and> length (deleted_rows cs) = 1"
proof -
  have "map_option fst (remove_owned_default_routes demo_routes 9 []) = Some (Inr ())" by code_simp
  then obtain log where log: "remove_owned_default_routes demo_routes 9 [] = Some (Inr (), log)" by auto
  have "status (windows_answer demo_routes [] (Ip Get_forward_table)) = Success"
    "length (filter (owned_default_route 9) (answer_rows (windows_answer demo_routes [] (Ip Get_forward_table)))) = 1" by code_simp+
  then show ?thesis using stale_routes_only_owned [OF log] log by (auto simp: Let_def)
qed

end
