(* ===== verification/Full_Tunnel.thy ===== *)
theory Full_Tunnel
  imports Windows_Backend
begin

text \<open>
  \<^verbatim>\<open>enable_kill_switch\<close> of \<^verbatim>\<open>src/client/windows_network_backend.cpp\<close> as a whole: the adapter, the filters
  of the kill switch, the stale and the bypass routes and the permit of the tunnel interface together
  make a full tunnel.
\<close>

section \<open>The calls of the parts\<close>

text \<open>Calls that create no route and add no filter.\<close>

fun quiet :: "win_call \<Rightarrow> bool" where
  "quiet (Ip (Create_forward _)) = False"
| "quiet (Wfp (Filter_add _ _)) = False"
| "quiet _ = True"

lemma quiet_calls: "list_all quiet cs \<Longrightarrow> added cs = [] \<and> created_rows cs = []"
proof (induction cs)
  case (Cons c cs)
  then show ?case by (cases c rule: quiet.cases) simp_all
qed simp

lemma wfp_creates_nothing: "list_all inner_call cs \<Longrightarrow> created_rows cs = []"
proof (induction cs)
  case (Cons c cs)
  then show ?case by (cases c) simp_all
qed simp

text \<open>Operations of the object that make only such calls.\<close>

definition quietly :: "'a backend \<Rightarrow> bool" where
  "quietly m \<longleftrightarrow> (\<forall>s. wp m (\<lambda>_ s'. \<exists>cs. snd s' = snd s @ cs \<and> list_all quiet cs) s)"

lemma quietly_wp: "quietly m \<Longrightarrow> (\<And>r s' cs. snd s' = snd s @ cs \<Longrightarrow> list_all quiet cs \<Longrightarrow> Q r s') \<Longrightarrow> wp m Q s"
  unfolding quietly_def by (erule allE [of _ s], erule wp_mono) blast

lemma quietly_bind:
  assumes "quietly m" "\<And>x. quietly (f x)"
  shows "quietly (io_bind m f)"
  unfolding quietly_def wp_bind
proof
  fix s :: backend_state
  show "wp m (\<lambda>r t. case r of Inl e \<Rightarrow> \<exists>cs. snd t = snd s @ cs \<and> list_all quiet cs
      | Inr x \<Rightarrow> wp (f x) (\<lambda>_ s'. \<exists>cs. snd s' = snd s @ cs \<and> list_all quiet cs) t) s"
  proof (rule quietly_wp [OF assms(1)])
    fix r cs and t :: backend_state
    assume t: "snd t = snd s @ cs" "list_all quiet cs"
    have "wp (f x) (\<lambda>_ s'. \<exists>cs. snd s' = snd s @ cs \<and> list_all quiet cs) t" for x
      by (rule quietly_wp [OF assms(2)]) (use t in \<open>auto intro!: exI [of _ "cs @ ds" for ds]\<close>)
    then show "case r of Inl e \<Rightarrow> \<exists>cs. snd t = snd s @ cs \<and> list_all quiet cs
      | Inr x \<Rightarrow> wp (f x) (\<lambda>_ s'. \<exists>cs. snd s' = snd s @ cs \<and> list_all quiet cs) t"
      using t by (auto split: sum.split)
  qed
qed

lemma quietly_then: "quietly m \<Longrightarrow> quietly n \<Longrightarrow> quietly (io_then m n)"
  by (simp add: io_then_def quietly_bind)

lemma quietly_basic [simp]:
  "quietly (io_return x)" "quietly (io_throw e)" "quietly (wb_get f)" "quietly (wb_modify g)"
  "quiet c \<Longrightarrow> quietly (wb_call w c)" "quiet c \<Longrightarrow> quietly (wb_ignore w c)"
  by (simp_all add: quietly_def)

lemma quietly_each: "(\<And>x. quietly (f x)) \<Longrightarrow> quietly (io_each f xs)"
  by (induction xs) (simp_all add: quietly_then)

lemma quietly_on_throw:
  assumes "quietly m" "quietly c"
  shows "quietly (io_on_throw m c)"
  unfolding quietly_def wp_on_throw
proof
  fix s :: backend_state
  let ?Q = "\<lambda>s'. \<exists>cs. snd s' = snd s @ cs \<and> list_all quiet cs"
  show "wp m (\<lambda>r t. case r of Inr x \<Rightarrow> ?Q t
      | Inl e \<Rightarrow> wp c (\<lambda>r s'. case r of Inl e' \<Rightarrow> ?Q s' | Inr _ \<Rightarrow> ?Q s') t) s"
  proof (rule quietly_wp [OF assms(1)])
    fix r cs and t :: backend_state
    assume t: "snd t = snd s @ cs" "list_all quiet cs"
    have "wp c (\<lambda>r s'. case r of Inl e' \<Rightarrow> ?Q s' | Inr _ \<Rightarrow> ?Q s') t"
      by (rule quietly_wp [OF assms(2)]) (use t in \<open>auto split: sum.split intro!: exI [of _ "cs @ ds" for ds]\<close>)
    then show "case r of Inr x \<Rightarrow> ?Q t | Inl e \<Rightarrow> wp c (\<lambda>r s'. case r of Inl e' \<Rightarrow> ?Q s' | Inr _ \<Rightarrow> ?Q s') t"
      using t by (auto split: sum.split)
  qed
qed

lemmas quietly_intros = quietly_bind quietly_then quietly_each quietly_on_throw

lemma open_quietly: "quietly (wb_open_adapter w)"
  unfolding wb_open_adapter_def wb_load_library_def load_function_def find_adapter_def read_luid_def
    wb_close_adapter_def wb_stop_packet_session_def wb_interrupt_receive_def
  by (auto intro!: quietly_intros simp del: io_each.simps)

lemma wp_lift: "emits m P \<Longrightarrow> (\<And>r cs. P (snd s) r cs \<Longrightarrow> Q r (fst s, snd s @ cs)) \<Longrightarrow> wp (lift_win m) Q s"
  unfolding emits_def wp_def lift_win_def by (cases "m (snd s)") (auto, blast)

lemma enable_parts: "emits (enable_windows_kill_switch w endpoints) (\<lambda>_ r cs. created_rows cs = []
     \<and> (r = Inr () \<longrightarrow> added cs = kill_switch_filters endpoints))"
proof (rule emits_mono [OF enable_emits])
  fix log cs and r :: "unit result"
  assume "cs = [] \<and> (\<exists>e. r = Inl e) \<or> cs = [Wfp (Engine_open False)] \<and> (\<exists>e. r = Inl e)
    \<or> (\<exists>h mid. cs = Wfp (Engine_open False) # mid @ closing h
         \<and> transaction_calls w (kill_switch_filters endpoints) h (log @ [Wfp (Engine_open False)]) r mid)"
  then show "created_rows cs = [] \<and> (r = Inr () \<longrightarrow> added cs = kill_switch_filters endpoints)"
    by (cases r) (auto simp: transaction_calls_def closing_def wfp_creates_nothing)
qed

lemma remove_only: "only quiet (remove_owned_default_routes w luid)"
  unfolding remove_owned_default_routes_def remove_row_def by (auto intro!: only_wfp)

lemma bypass_adds_nothing: "only (\<lambda>c. added [c] = []) (add_transport_bypass_routes w endpoints luid)"
  unfolding add_transport_bypass_routes_def add_bypass_def Let_def by (auto intro!: only_wfp)

lemma adds_nothing: "list_all (\<lambda>c. added [c] = []) cs \<Longrightarrow> added cs = []"
proof (induction cs)
  case (Cons c cs)
  then have "added ([c] @ cs) = []" unfolding added_append by simp
  then show ?case by simp
qed simp

lemma bypass_emits: "emits (add_transport_bypass_routes w endpoints luid) (\<lambda>_ r cs. added cs = []
     \<and> (\<forall>row \<in> set (created_rows cs). fr_luid row \<noteq> luid)
     \<and> (r = Inr () \<longrightarrow> map fr_prefix (created_rows cs) = map endpoint_bytes endpoints))"
  unfolding emits_def
proof (intro allI impI)
  fix log r log'
  assume run: "add_transport_bypass_routes w endpoints luid log = Some (r, log')"
  from emitsD [OF bypass_adds_nothing [unfolded only_def] run] obtain cs where
    cs: "log' = log @ cs" "list_all (\<lambda>c. added [c] = []) cs" .
  from emitsD [OF bypass_routes_emits run] cs obtain priors where
    priors: "created_rows cs = map2 bypass_row endpoints priors" "r = Inr () \<longrightarrow> length priors = length endpoints"
      "length priors \<le> length endpoints" "list_all2 (physical_route w luid) (take (length priors) endpoints) priors" by auto
  have "\<forall>row \<in> set (created_rows cs). fr_luid row \<noteq> luid" unfolding priors(1) using priors(3,4)
    by (auto simp: bypass_row_def physical_route_def list_all2_conv_all_nth set_zip)
  moreover have "map fr_prefix (created_rows cs) = map endpoint_bytes endpoints" if "r = Inr ()"
    unfolding priors(1) using priors(2) that by (auto simp: bypass_row_def intro: nth_equalityI)
  ultimately show "\<exists>cs. log' = log @ cs \<and> added cs = [] \<and> (\<forall>row \<in> set (created_rows cs). fr_luid row \<noteq> luid)
     \<and> (r = Inr () \<longrightarrow> map fr_prefix (created_rows cs) = map endpoint_bytes endpoints)"
    using cs adds_nothing by blast
qed

lemma permit_parts: "emits (open_tunnel_permit w index) (\<lambda>_ r cs. created_rows cs = []
     \<and> (\<forall>x. r = Inr x \<longrightarrow> added cs = tunnel_filters index))"
proof -
  have each: "performs w (tunnel_filters index) (io_each (add_interface_allow w h index)
      [kOutboundIpPacketV4, kOutboundIpPacketV6, kOutboundTransportV4, kOutboundTransportV6])" for h
  proof -
    have "performs w [make_filter layer 0 Action_permit kAllowWeight [interface_condition index] False]
        (add_interface_allow w h index layer)" for layer
      unfolding add_interface_allow_def by (rule performs_add)
    from performs_each [where f = "add_interface_allow w h index", OF this] show ?thesis
      unfolding tunnel_filters_def concat_map_singleton .
  qed
  have body: "emits (io_then (with_transaction w h (io_each (add_interface_allow w h index)
      [kOutboundIpPacketV4, kOutboundIpPacketV6, kOutboundTransportV4, kOutboundTransportV6])) (io_return h))
      (\<lambda>_ r cs. created_rows cs = [] \<and> (\<forall>x. r = Inr x \<longrightarrow> added cs = tunnel_filters index))" for h
    by (rule emits_then [OF transaction_emits [OF each], where Q = "\<lambda>_ r cs. cs = []"])
      (auto simp: transaction_calls_def wfp_creates_nothing)
  show ?thesis unfolding open_tunnel_permit_def Let_def
  proof (rule emits_bind [OF check_emits, where Q = "\<lambda>_ _ r cs. created_rows cs = [] \<and> (\<forall>x. r = Inr x \<longrightarrow> added cs = tunnel_filters index)"],
      goal_cases)
    case (1 a)
    show ?case by (rule emits_on_throw [OF body]) simp_all
  qed auto
qed

lemma permit_close: "\<exists>x. close_windows_tunnel_permit w session log = Some (x, log @ closing session)"
  by (simp add: close_windows_tunnel_permit_def closing_def io_return_def)

lemma replace_wp:
  "wp (wb_replace_permit w index) (\<lambda>r s'. \<exists>cs. snd s' = snd s @ cs \<and> wb_luid (fst s') = wb_luid (fst s) \<and> created_rows cs = []
     \<and> (r = Inr () \<longrightarrow> index \<noteq> 0 \<and> added cs = tunnel_filters index)) s"
proof (cases "index = 0")
  case True
  then show ?thesis by (simp add: wp_def wb_replace_permit_def replace_windows_tunnel_permit_def)
next
  case False
  let ?mid = "snd s @ closing (tunnel_policy_session (fst s))"
  obtain x where x: "close_windows_tunnel_permit w (tunnel_policy_session (fst s)) (snd s) = Some (x, ?mid)"
    using permit_close by blast
  show ?thesis
  proof (cases "open_tunnel_permit w index ?mid")
    case None
    then show ?thesis using False x by (simp add: wp_def wb_replace_permit_def replace_windows_tunnel_permit_def)
  next
    case (Some y)
    obtain r log where y: "y = (r, log)" by (cases y)
    from emitsD [OF permit_parts Some [unfolded y]] obtain cs where cs: "log = ?mid @ cs" "created_rows cs = []"
      "\<forall>x. r = Inr x \<longrightarrow> added cs = tunnel_filters index" by blast
    have "created_rows (closing h @ cs) = []" "added (closing h @ cs) = added cs" for h
      by (simp_all add: closing_def cs)
    then show ?thesis using False x Some y cs
      by (auto simp: wp_def wb_replace_permit_def replace_windows_tunnel_permit_def split: sum.split
          intro!: exI [of _ "closing (tunnel_policy_session (fst s)) @ cs"])
  qed
qed

section \<open>The full tunnel\<close>

text \<open>The filters added and the routes created since the state \<open>s\<close>.\<close>

definition since :: "backend_state \<Rightarrow> fwpm_filter list \<Rightarrow> forward_row list \<Rightarrow> backend_state \<Rightarrow> bool" where
  "since s fs rows t \<longleftrightarrow> (\<exists>cs. snd t = snd s @ cs \<and> added cs = fs \<and> created_rows cs = rows)"

lemma since_refl: "since s [] [] s"
  by (simp add: since_def)

lemma since_trans: "since s fs rows t \<Longrightarrow> snd u = snd t @ cs \<Longrightarrow> since s (fs @ added cs) (rows @ created_rows cs) u"
  unfolding since_def by (auto intro: exI [of _ "ds @ cs" for ds])

lemma since_quiet: "since s fs rows t \<Longrightarrow> snd u = snd t @ cs \<Longrightarrow> list_all quiet cs \<Longrightarrow> since s fs rows u"
  using since_trans [of s fs rows t u cs] quiet_calls [of cs] by simp

definition full_tunnel :: "windows \<Rightarrow> WindowsVpnEndpoint list \<Rightarrow> backend_state \<Rightarrow> unit result \<Rightarrow> backend_state \<Rightarrow> bool" where
  "full_tunnel w endpoints s r s' \<longleftrightarrow> (\<exists>fs rows. since s fs rows s'
     \<and> (\<forall>row \<in> set rows. fr_luid row \<noteq> wb_luid (fst s'))
     \<and> (r = Inr () \<longrightarrow> map fr_prefix rows = map endpoint_bytes endpoints
          \<and> (\<exists>index past. index \<noteq> 0
               \<and> index = ucast (answer_number (windows_answer w past (Ip (Luid_to_index (wb_luid (fst s'))))))
               \<and> fs = kill_switch_filters endpoints @ tunnel_filters index)))"

lemma permit_step:
  assumes "since s (kill_switch_filters endpoints) rows t" "wb_luid (fst t) = luid"
    and "\<forall>row \<in> set rows. fr_luid row \<noteq> luid" "map fr_prefix rows = map endpoint_bytes endpoints"
  shows "wp (io_bind (wb_call w (Ip (Luid_to_index luid))) (\<lambda>a.
      if status a \<noteq> Success then io_throw (windows_error w ''read Wintun interface index for WFP'' (status a))
      else wb_replace_permit w (ucast (answer_number a)))) (full_tunnel w endpoints s) t"
proof -
  let ?c = "Ip (Luid_to_index luid)"
  let ?a = "windows_answer w (snd t) ?c"
  let ?u = "(fst t, snd t @ [?c])"
  have u: "since s (kill_switch_filters endpoints) rows ?u" using since_quiet [OF assms(1), of ?u "[?c]"] by simp
  have "wp (wb_replace_permit w (ucast (answer_number ?a))) (full_tunnel w endpoints s) ?u"
  proof (rule wp_mono [OF replace_wp])
    fix r :: "unit result" and s' :: backend_state
    assume "\<exists>cs. snd s' = snd ?u @ cs \<and> wb_luid (fst s') = wb_luid (fst ?u) \<and> created_rows cs = []
      \<and> (r = Inr () \<longrightarrow> ucast (answer_number ?a) \<noteq> (0 :: u32) \<and> added cs = tunnel_filters (ucast (answer_number ?a)))"
    then obtain cs where cs: "snd s' = snd ?u @ cs" "wb_luid (fst s') = luid" "created_rows cs = []"
      "r = Inr () \<longrightarrow> ucast (answer_number ?a) \<noteq> (0 :: u32) \<and> added cs = tunnel_filters (ucast (answer_number ?a))"
      using assms(2) by auto
    from since_trans [OF u cs(1)] show "full_tunnel w endpoints s r s'" unfolding full_tunnel_def
      using assms(3,4) cs by (intro exI conjI; (assumption | simp)?) (auto intro!: exI [of _ "snd t"])
  qed
  moreover have "full_tunnel w endpoints s (Inl e) ?u" for e
    using u assms by (auto simp: full_tunnel_def)
  ultimately show ?thesis by simp
qed

lemma routes_step:
  assumes "since s (kill_switch_filters endpoints) [] t" "wb_luid (fst t) = luid"
  shows "wp (lift_win (add_transport_bypass_routes w endpoints luid)) (\<lambda>r u. wb_luid (fst u) = luid
     \<and> (\<exists>rows. since s (kill_switch_filters endpoints) rows u \<and> (\<forall>row \<in> set rows. fr_luid row \<noteq> luid)
          \<and> (r = Inr () \<longrightarrow> map fr_prefix rows = map endpoint_bytes endpoints))) t"
proof (rule wp_lift [OF bypass_emits])
  fix r cs
  assume "added cs = [] \<and> (\<forall>row \<in> set (created_rows cs). fr_luid row \<noteq> luid)
    \<and> (r = Inr () \<longrightarrow> map fr_prefix (created_rows cs) = map endpoint_bytes endpoints)"
  with since_trans [OF assms(1), of "(fst t, snd t @ cs)" cs] assms(2)
  show "wb_luid (fst (fst t, snd t @ cs)) = luid
     \<and> (\<exists>rows. since s (kill_switch_filters endpoints) rows (fst t, snd t @ cs) \<and> (\<forall>row \<in> set rows. fr_luid row \<noteq> luid)
          \<and> (r = Inr () \<longrightarrow> map fr_prefix rows = map endpoint_bytes endpoints))"
    by (intro conjI exI [of _ "created_rows cs"]) simp_all
qed

lemma enable_wp: "wp (enable_kill_switch w endpoints) (full_tunnel w endpoints s) s"
proof -
  let ?permit = "\<lambda>luid. io_bind (wb_call w (Ip (Luid_to_index luid))) (\<lambda>a.
      if status a \<noteq> Success then io_throw (windows_error w ''read Wintun interface index for WFP'' (status a))
      else wb_replace_permit w (ucast (answer_number a)))"
  let ?routes = "\<lambda>luid. io_then (lift_win (add_transport_bypass_routes w endpoints luid)) (?permit luid)"
  let ?stale = "\<lambda>luid. io_then (lift_win (remove_owned_default_routes w luid)) (?routes luid)"
  let ?Q = "full_tunnel w endpoints s"
  have failed: "?Q (Inl e) t" if "since s fs rows t" "\<forall>row \<in> set rows. fr_luid row \<noteq> wb_luid (fst t)" for e fs rows t
    using that by (auto simp: full_tunnel_def)
  have routes: "wp (?routes (wb_luid (fst t))) ?Q t" if "since s (kill_switch_filters endpoints) [] t" for t
    unfolding wp_then [of "lift_win m" for m]
    by (rule wp_mono [OF routes_step [OF that refl]]) (auto split: sum.split intro: permit_step failed simp del: wp_bind)
  have stale: "wp (?stale (wb_luid (fst t))) ?Q t" if t: "since s (kill_switch_filters endpoints) [] t" for t
    unfolding wp_then [of "lift_win (remove_owned_default_routes w l)" for l]
  proof (rule wp_lift [OF remove_only [unfolded only_def]], goal_cases)
    case (1 r cs)
    then have u: "since s (kill_switch_filters endpoints) [] (fst t, snd t @ cs)" using since_quiet [OF t] by simp
    then show ?case using routes [OF u] failed [OF u] by (simp split: sum.split del: wp_then wp_bind)
  qed
  have filters: "wp (io_then (lift_win (enable_windows_kill_switch w endpoints)) (io_bind (wb_get wb_luid) ?stale)) ?Q t"
    if t: "since s [] [] t" for t
    unfolding wp_then [of "lift_win (enable_windows_kill_switch w l)" for l]
  proof (rule wp_lift [OF enable_parts], goal_cases)
    case (1 r cs)
    then have u: "since s (added cs) [] (fst t, snd t @ cs)" using since_trans [OF t, of "(fst t, snd t @ cs)" cs] by simp
    then show ?case using 1 stale [of "(fst t, snd t @ cs)"] failed [OF u] by (auto split: sum.split simp del: wp_then)
  qed
  show ?thesis unfolding enable_kill_switch_def wp_then [of "wb_open_adapter w"]
  proof (rule quietly_wp [OF open_quietly], goal_cases)
    case (1 r t cs)
    then have t: "since s [] [] t" by (rule since_quiet [OF since_refl])
    then show ?case using filters [OF t] failed [OF t] by (simp split: sum.split del: wp_then wp_bind)
  qed
qed



end
