(* ===== verification/Key_Files.thy ===== *)
theory Key_Files
  imports Effects "HOL-Library.Multiset"
begin

text \<open>
  How the private keys are opened: \<^verbatim>\<open>open_validated_server_private_key\<close> of
  \<^verbatim>\<open>src/server/tls_security.cpp\<close> and \<^verbatim>\<open>src/client/credential_security.cpp\<close>. The calls of POSIX, of
  Windows, of the C library and of OpenSSL are logged; their answers are a parameter.
\<close>

unbundle bit_operations_syntax

section \<open>Calls and answers\<close>

datatype open_flag = O_RDONLY | O_CLOEXEC | O_NOFOLLOW | O_NONBLOCK

datatype file_call =
    Posix_open string "open_flag list"
  | Fd_open nat
  | Fd_close nat
  | Fd_stat nat
  | Get_euid
  | C_open string
  | C_close nat
  | C_read nat nat
  | C_error nat

text \<open>
  The calls of Windows. The first entry of \<open>Create_file\<close> tells that the file is opened for reading
  together with its access-control list, the second that reparse points are opened themselves and
  the third that others may only read meanwhile.
\<close>

datatype acl_call =
    Create_file string bool bool bool
  | Close_handle nat
  | File_info nat
  | File_type nat
  | Get_security nat
  | Local_free nat
  | Open_token
  | Token_size nat
  | Token_user nat nat
  | Well_known_sid nat
  | Get_ace nat nat
  | Open_osf_handle nat

text \<open>The calls of OpenSSL and of Boost.Asio around it.\<close>

datatype ssl_method = Tls_server | Tls_client

datatype tls_version = SSLv2 | SSLv3 | TLSv1 | TLSv1_1 | TLSv1_2 | TLSv1_3

datatype context_call =
    Set_options "tls_version list"
  | Use_chain_file string
  | Use_key nat
  | Use_key_file string
  | Load_verify_file string
  | Set_verify_mode bool bool
  | Set_host_callback string
  | Add_file_lookup
  | Load_crl_file string
  | Set_crl_check bool
  | Check_private_key
  | Set_min_version tls_version
  | Set_cipher_list string
  | Set_ciphersuites string

datatype ssl_call =
    Context_new ssl_method
  | Context_free nat
  | Context nat context_call
  | Bio_new bytes
  | Bio_free nat
  | Read_key nat
  | Key_free nat
  | Cleanse nat
  | Err_get_error
  | Verify_result nat
  | Peer_certificate nat
  | Read_certificate nat
  | Certificate_free nat
  | Certificate_digest nat
  | Set_host_name nat string

datatype sys_call = File file_call | Acl acl_call | Ssl ssl_call

type_synonym sid = bytes

text \<open>An entry of an access-control list; other kinds of entries are rejected unseen.\<close>

datatype ace = Access_denied u32 sid | Access_allowed u32 sid | Other_ace

record sys_answer =
  sa_ok :: bool
  sa_handle :: nat
  sa_error :: nat
  sa_number :: nat
  sa_bits :: u32
  sa_user :: u32
  sa_bytes :: bytes
  sa_text :: string
  sa_ace :: ace

text \<open>\<open>sys_message\<close> is the text that the error category has for a code.\<close>

record sys =
  sys_answer :: "sys_call list \<Rightarrow> sys_call \<Rightarrow> sys_answer"
  sys_message :: "nat \<Rightarrow> string"

type_synonym 'a sys_comp = "(sys_call list, 'a) comp"

abbreviation sys_ask :: "sys \<Rightarrow> sys_call \<Rightarrow> sys_answer sys_comp" where
  "sys_ask env c \<equiv> ask (sys_answer env) c"

definition sys_do :: "sys \<Rightarrow> sys_call \<Rightarrow> unit sys_comp" where
  "sys_do env c = io_then (sys_ask env c) (io_return ())"

text \<open>\<^verbatim>\<open>std::system_error\<close>, a \<^verbatim>\<open>std::runtime_error\<close> whose text is that of the operation and of the code.\<close>

definition system_error :: "sys \<Rightarrow> string \<Rightarrow> nat \<Rightarrow> cxx_exception" where
  "system_error env operation code = Runtime_error (operation @ '': '' @ sys_message env code)"

section \<open>The key of the server\<close>

definition ELOOP :: nat where "ELOOP = 40"
definition S_IFMT :: u32 where "S_IFMT = 0xF000"
definition S_IFREG :: u32 where "S_IFREG = 0x8000"
definition group_and_other :: u32 where "group_and_other = 0x3F"

text \<open>What is checked of an open file.\<close>

definition check_server_key :: "sys \<Rightarrow> nat \<Rightarrow> unit sys_comp" where
  "check_server_key env descriptor =
     io_bind (sys_ask env (File (Fd_stat descriptor))) (\<lambda>a.
       if \<not> sa_ok a then io_throw (system_error env ''failed to inspect server private key permissions'' (sa_error a))
       else if sa_bits a AND S_IFMT \<noteq> S_IFREG then io_throw (Invalid_argument ''server private key must be a regular file'')
       else
         io_bind (sys_ask env (File Get_euid)) (\<lambda>e.
           if sa_user a \<noteq> sa_user e then
             io_throw (Invalid_argument ''server private key must be owned by the service user'')
           else if sa_bits a AND group_and_other \<noteq> 0 then
             io_throw (Invalid_argument ''server private key must not grant group or other permissions'')
           else io_return ()))"

definition open_validated_server_private_key :: "sys \<Rightarrow> string \<Rightarrow> nat sys_comp" where
  "open_validated_server_private_key env path =
     io_bind (sys_ask env (File (Posix_open path [O_RDONLY, O_CLOEXEC, O_NOFOLLOW, O_NONBLOCK]))) (\<lambda>a.
       if \<not> sa_ok a then
         io_throw (if sa_error a = ELOOP then Invalid_argument ''server private key must not be a symlink''
                   else system_error env ''failed to open server private key'' (sa_error a))
       else
        (let descriptor = sa_handle a
         in io_bind (sys_ask env (File (Fd_open descriptor))) (\<lambda>a.
              if \<not> sa_ok a then
                io_then (sys_do env (File (Fd_close descriptor)))
                  (io_throw (system_error env ''failed to read server private key'' (sa_error a)))
              else
               (let file = sa_handle a
                in io_on_throw (io_then (check_server_key env descriptor) (io_return file))
                     (sys_do env (File (C_close file)))))))"

section \<open>The access-control list of the client's key\<close>

definition FILE_READ_DATA :: u32 where "FILE_READ_DATA = 0x00000001"
definition GENERIC_ALL :: u32 where "GENERIC_ALL = 0x10000000"
definition GENERIC_READ :: u32 where "GENERIC_READ = 0x80000000"

definition readable :: u32 where "readable = (FILE_READ_DATA OR GENERIC_READ) OR GENERIC_ALL"

definition check_ace :: "sid list \<Rightarrow> ace \<Rightarrow> unit sys_comp" where
  "check_ace trusted entry =
     (case entry of
        Access_denied _ _ \<Rightarrow> io_return ()
      | Other_ace \<Rightarrow> io_throw (Invalid_argument ''client private key ACL contains an unsupported access ACE'')
      | Access_allowed access sid \<Rightarrow>
          if access AND readable = 0 then io_return ()
          else if list_ex (\<lambda>principal. sid = principal) trusted then io_return ()
          else io_throw (Invalid_argument ''client private key ACL grants read access to an unauthorized principal''))"

definition read_ace :: "sys \<Rightarrow> nat \<Rightarrow> sid list \<Rightarrow> nat \<Rightarrow> unit sys_comp" where
  "read_ace env dacl trusted index =
     io_bind (sys_ask env (Acl (Get_ace dacl index))) (\<lambda>a.
       if \<not> sa_ok a then io_throw (system_error env ''inspect client private-key ACL entry'' (sa_error a))
       else check_ace trusted (sa_ace a))"

text \<open>The user of the process token, asked for its size first.\<close>

definition ERROR_INSUFFICIENT_BUFFER :: nat where "ERROR_INSUFFICIENT_BUFFER = 122"

definition token_user :: "sys \<Rightarrow> nat \<Rightarrow> sid sys_comp" where
  "token_user env token =
     io_bind (sys_ask env (Acl (Token_size token))) (\<lambda>a.
       if sa_error a \<noteq> ERROR_INSUFFICIENT_BUFFER \<or> sa_number a = 0 then
         io_throw (system_error env ''query client token user size'' (sa_error a))
       else
         io_bind (sys_ask env (Acl (Token_user token (sa_number a)))) (\<lambda>a.
           if \<not> sa_ok a then io_throw (system_error env ''read client token user'' (sa_error a))
           else io_return (sa_bytes a)))"

text \<open>\<^verbatim>\<open>WinLocalSystemSid\<close> and \<^verbatim>\<open>WinBuiltinAdministratorsSid\<close>.\<close>

definition well_known_sid :: "sys \<Rightarrow> nat \<Rightarrow> sid sys_comp" where
  "well_known_sid env kind =
     io_bind (sys_ask env (Acl (Well_known_sid kind))) (\<lambda>a.
       if \<not> sa_ok a then io_throw (system_error env ''create trusted ACL policy SID'' (sa_error a))
       else io_return (sa_bytes a))"

definition WinLocalSystemSid :: nat where "WinLocalSystemSid = 22"
definition WinBuiltinAdministratorsSid :: nat where "WinBuiltinAdministratorsSid = 26"

text \<open>A handle that its owner closes when it leaves its scope, unless it is null.\<close>

definition owned :: "sys \<Rightarrow> (nat \<Rightarrow> sys_call) \<Rightarrow> nat \<Rightarrow> unit sys_comp" where
  "owned env closing_call h = (if h \<noteq> 0 then sys_do env (closing_call h) else io_return ())"

text \<open>The entries of the list, after the principals that are trusted have been found out.\<close>

definition check_entries :: "sys \<Rightarrow> nat \<Rightarrow> nat \<Rightarrow> nat \<Rightarrow> unit sys_comp" where
  "check_entries env dacl ace_count token =
     io_bind (token_user env token) (\<lambda>user.
     io_bind (well_known_sid env WinLocalSystemSid) (\<lambda>system.
     io_bind (well_known_sid env WinBuiltinAdministratorsSid) (\<lambda>administrators.
       io_each (read_ace env dacl [user, system, administrators]) [0 ..< ace_count])))"

definition check_dacl :: "sys \<Rightarrow> nat \<Rightarrow> nat \<Rightarrow> unit sys_comp" where
  "check_dacl env dacl ace_count =
     io_bind (sys_ask env (Acl Open_token)) (\<lambda>t.
       if \<not> sa_ok t then io_throw (system_error env ''open client process token'' (sa_error t))
       else io_finally (check_entries env dacl ace_count (sa_handle t)) (owned env (\<lambda>h. Acl (Close_handle h)) (sa_handle t)))"

text \<open>
  Of the answer to \<^verbatim>\<open>GetSecurityInfo\<close>, \<open>sa_handle\<close> is the descriptor, \<open>sa_number\<close> the list in it
  and \<open>sa_bits\<close> the number of its entries.
\<close>

definition validate_private_key_acl :: "sys \<Rightarrow> nat \<Rightarrow> unit sys_comp" where
  "validate_private_key_acl env handle =
     io_bind (sys_ask env (Acl (Get_security handle))) (\<lambda>s.
       io_finally
        (if \<not> sa_ok s then io_throw (system_error env ''read client private-key ACL'' (sa_error s))
         else if sa_number s = 0 then
           io_throw (Invalid_argument ''client private key must not have an unrestricted DACL'')
         else check_dacl env (sa_number s) (unat (sa_bits s)))
        (owned env (\<lambda>h. Acl (Local_free h)) (sa_handle s)))"

section \<open>The key of the client\<close>

definition FILE_ATTRIBUTE_DIRECTORY :: u32 where "FILE_ATTRIBUTE_DIRECTORY = 0x10"
definition FILE_ATTRIBUTE_REPARSE_POINT :: u32 where "FILE_ATTRIBUTE_REPARSE_POINT = 0x400"
definition FILE_TYPE_DISK :: nat where "FILE_TYPE_DISK = 1"

text \<open>The checks of the open file; the type is asked for only if the attributes are good.\<close>

definition check_client_key :: "sys \<Rightarrow> nat \<Rightarrow> unit sys_comp" where
  "check_client_key env handle =
     io_bind (sys_ask env (Acl (File_info handle))) (\<lambda>a.
       if \<not> sa_ok a then io_throw (system_error env ''inspect client private key'' (sa_error a))
       else
         io_bind (if sa_bits a AND (FILE_ATTRIBUTE_REPARSE_POINT OR FILE_ATTRIBUTE_DIRECTORY) \<noteq> 0 then io_return False
                  else io_bind (sys_ask env (Acl (File_type handle))) (\<lambda>t. io_return (sa_number t = FILE_TYPE_DISK)))
           (\<lambda>regular.
             if \<not> regular then io_throw (Invalid_argument ''client private key must be a regular non-reparse file'')
             else validate_private_key_acl env handle))"

text \<open>The owner of the handle closes it unless a descriptor has taken it over.\<close>

definition key_descriptor :: "sys \<Rightarrow> nat \<Rightarrow> nat sys_comp" where
  "key_descriptor env handle =
     io_on_throw
       (io_then (check_client_key env handle)
         (io_bind (sys_ask env (Acl (Open_osf_handle handle))) (\<lambda>d.
            if \<not> sa_ok d then io_throw (system_error env ''create client private-key stream'' (sa_error d))
            else io_return (sa_handle d))))
       (owned env (\<lambda>h. Acl (Close_handle h)) handle)"

definition key_stream :: "sys \<Rightarrow> nat \<Rightarrow> nat sys_comp" where
  "key_stream env descriptor =
     io_bind (sys_ask env (File (Fd_open descriptor))) (\<lambda>f.
       if \<not> sa_ok f then
         io_then (sys_do env (File (Fd_close descriptor)))
           (io_throw (system_error env ''read client private key'' (sa_error f)))
       else io_return (sa_handle f))"

definition open_validated_private_key_file_windows :: "sys \<Rightarrow> string \<Rightarrow> nat sys_comp" where
  "open_validated_private_key_file_windows env path =
     io_bind (sys_ask env (Acl (Create_file path True True True))) (\<lambda>a.
       if \<not> sa_ok a then io_throw (system_error env ''open client private key'' (sa_error a))
       else io_bind (key_descriptor env (sa_handle a)) (key_stream env))"

definition open_validated_private_key_file_portable :: "sys \<Rightarrow> string \<Rightarrow> nat sys_comp" where
  "open_validated_private_key_file_portable env path =
     io_bind (sys_ask env (File (C_open path))) (\<lambda>f.
       if \<not> sa_ok f then io_throw (system_error env ''open client private key'' (sa_error f))
       else io_return (sa_handle f))"

text \<open>\<open>win32\<close> is the macro \<^verbatim>\<open>_WIN32\<close>.\<close>

definition open_validated_private_key_file :: "sys \<Rightarrow> bool \<Rightarrow> string \<Rightarrow> nat sys_comp" where
  "open_validated_private_key_file env win32 path =
     (if win32 then open_validated_private_key_file_windows env path
      else open_validated_private_key_file_portable env path)"

text \<open>The stream is closed when the temporary that holds it is destroyed.\<close>

definition validate_private_key_permissions :: "sys \<Rightarrow> bool \<Rightarrow> string \<Rightarrow> unit sys_comp" where
  "validate_private_key_permissions env win32 path =
     io_bind (open_validated_private_key_file env win32 path) (\<lambda>file. sys_do env (File (C_close file)))"

section \<open>Resources\<close>

text \<open>
  What a program holds of the system, as a multiset: an account of the calls that acquire and give
  back. It is \<open>None\<close> once something is given back that is not held.
\<close>

datatype resource =
    R_descriptor nat
  | R_file nat
  | R_handle nat
  | R_memory nat
  | R_context nat
  | R_bio nat
  | R_key nat
  | R_certificate nat

definition unless_null :: "(nat \<Rightarrow> resource) \<Rightarrow> nat \<Rightarrow> resource multiset" where
  "unless_null kind h = (if h = 0 then {#} else {#kind h#})"

definition if_ok :: "sys_answer \<Rightarrow> resource multiset \<Rightarrow> resource multiset" where
  "if_ok a R = (if sa_ok a then R else {#})"

definition gains :: "sys_call \<Rightarrow> sys_answer \<Rightarrow> resource multiset" where
  "gains call a = (case call of
       File f \<Rightarrow> (case f of
         Posix_open _ _ \<Rightarrow> if_ok a {#R_descriptor (sa_handle a)#}
       | Fd_open _ \<Rightarrow> if_ok a {#R_file (sa_handle a)#}
       | C_open _ \<Rightarrow> if_ok a {#R_file (sa_handle a)#}
       | _ \<Rightarrow> {#})
     | Acl w \<Rightarrow> (case w of
         Create_file _ _ _ _ \<Rightarrow> if_ok a (unless_null R_handle (sa_handle a))
       | Open_token \<Rightarrow> if_ok a (unless_null R_handle (sa_handle a))
       | Get_security _ \<Rightarrow> unless_null R_memory (sa_handle a)
       | Open_osf_handle _ \<Rightarrow> if_ok a {#R_descriptor (sa_handle a)#}
       | _ \<Rightarrow> {#})
     | Ssl t \<Rightarrow> (case t of
         Context_new _ \<Rightarrow> if_ok a {#R_context (sa_handle a)#}
       | Bio_new _ \<Rightarrow> unless_null R_bio (sa_handle a)
       | Read_key _ \<Rightarrow> unless_null R_key (sa_handle a)
       | Peer_certificate _ \<Rightarrow> unless_null R_certificate (sa_handle a)
       | Read_certificate _ \<Rightarrow> unless_null R_certificate (sa_handle a)
       | _ \<Rightarrow> {#}))"

definition gives_back :: "sys_call \<Rightarrow> sys_answer \<Rightarrow> resource multiset" where
  "gives_back call a = (case call of
       File f \<Rightarrow> (case f of
         Fd_open d \<Rightarrow> if_ok a {#R_descriptor d#}
       | Fd_close d \<Rightarrow> {#R_descriptor d#}
       | C_close f \<Rightarrow> {#R_file f#}
       | _ \<Rightarrow> {#})
     | Acl w \<Rightarrow> (case w of
         Close_handle h \<Rightarrow> {#R_handle h#}
       | Local_free h \<Rightarrow> {#R_memory h#}
       | Open_osf_handle h \<Rightarrow> if_ok a (unless_null R_handle h)
       | _ \<Rightarrow> {#})
     | Ssl t \<Rightarrow> (case t of
         Context_free h \<Rightarrow> {#R_context h#}
       | Bio_free h \<Rightarrow> {#R_bio h#}
       | Key_free h \<Rightarrow> {#R_key h#}
       | Certificate_free h \<Rightarrow> {#R_certificate h#}
       | _ \<Rightarrow> {#}))"

lemmas account = gains_def gives_back_def if_ok_def unless_null_def

fun held :: "sys \<Rightarrow> sys_call list \<Rightarrow> sys_call list \<Rightarrow> resource multiset \<Rightarrow> resource multiset option" where
  "held env past [] H = Some H"
| "held env past (c # cs) H =
     (let a = sys_answer env past c
      in if gives_back c a \<subseteq># H then held env (past @ [c]) cs (H - gives_back c a + gains c a) else None)"

lemma account_append: "held env past (cs @ ds) H = (case held env past cs H of None \<Rightarrow> None | Some H \<Rightarrow> held env (past @ cs) ds H)"
  by (induction cs arbitrary: past H) (auto simp: Let_def split: option.split)

text \<open>
  \<open>triple env P m Q\<close>: started with \<open>P\<close> and anything else, \<open>m\<close> gives nothing back that it does not
  hold, and leaves \<open>Q r\<close> and the rest when it returns or throws \<open>r\<close>.
\<close>

definition triple :: "sys \<Rightarrow> resource multiset \<Rightarrow> 'a sys_comp \<Rightarrow> ('a result \<Rightarrow> resource multiset) \<Rightarrow> bool" where
  "triple env P m Q \<longleftrightarrow> (\<forall>log r log' H. m log = Some (r, log')
     \<longrightarrow> (\<exists>cs. log' = log @ cs \<and> held env log cs (H + P) = Some (H + Q r)))"

lemma tripleD:
  assumes "triple env P m Q" "m log = Some (r, log')"
  obtains cs where "log' = log @ cs" "held env log cs (H + P) = Some (H + Q r)"
  using assms unfolding triple_def by blast

lemma triple_return: "Q (Inr x) = P \<Longrightarrow> triple env P (io_return x) Q"
  by (simp add: triple_def io_return_def)

lemma triple_throw: "Q (Inl e) = P \<Longrightarrow> triple env P (io_throw e) Q"
  by (simp add: triple_def io_throw_def)

lemma triple_bind:
  assumes m: "triple env P m Q" and f: "\<And>x. triple env (Q (Inr x)) (f x) R" and e: "\<And>e. Q (Inl e) = R (Inl e)"
  shows "triple env P (io_bind m f) R"
  unfolding triple_def
proof (intro allI impI)
  fix log r log' H
  assume run: "io_bind m f log = Some (r, log')"
  then obtain s mid where s: "m log = Some (s, mid)" by (auto simp: io_bind_def split: option.splits)
  from tripleD [OF m s] obtain cs1 where cs1: "mid = log @ cs1" "held env log cs1 (H + P) = Some (H + Q s)" .
  show "\<exists>cs. log' = log @ cs \<and> held env log cs (H + P) = Some (H + R r)"
  proof (cases s)
    case (Inl x)
    then show ?thesis using run s cs1 e by (auto simp: io_bind_def)
  next
    case (Inr x)
    then have "f x mid = Some (r, log')" using run s by (simp add: io_bind_def)
    from tripleD [OF f this] obtain cs2 where "log' = mid @ cs2" "held env mid cs2 (H + Q (Inr x)) = Some (H + R r)" .
    then show ?thesis using cs1 Inr by (intro exI [of _ "cs1 @ cs2"]) (simp add: account_append)
  qed
qed

lemma triple_then:
  "triple env P m Q \<Longrightarrow> (\<And>x. triple env (Q (Inr x)) n R) \<Longrightarrow> (\<And>e. Q (Inl e) = R (Inl e)) \<Longrightarrow> triple env P (io_then m n) R"
  unfolding io_then_def by (rule triple_bind)

lemma triple_frame: "triple env P m Q \<Longrightarrow> triple env (P + F) m (\<lambda>r. Q r + F)"
  unfolding triple_def
proof (intro allI impI)
  fix log r log' H
  assume "\<forall>log r log' H. m log = Some (r, log') \<longrightarrow> (\<exists>cs. log' = log @ cs \<and> held env log cs (H + P) = Some (H + Q r))"
    and "m log = Some (r, log')"
  then have "\<exists>cs. log' = log @ cs \<and> held env log cs ((H + F) + P) = Some ((H + F) + Q r)" by blast
  then show "\<exists>cs. log' = log @ cs \<and> held env log cs (H + (P + F)) = Some (H + (Q r + F))" by (simp add: ac_simps)
qed

lemma triple_ask:
  assumes "\<And>a. gives_back c a \<subseteq># P" "\<And>a. triple env (P - gives_back c a + gains c a) (f a) R"
  shows "triple env P (io_bind (sys_ask env c) f) R"
  unfolding triple_def
proof (intro allI impI)
  fix log r log' H
  let ?a = "sys_answer env log c"
  assume "io_bind (sys_ask env c) f log = Some (r, log')"
  then have "f ?a (log @ [c]) = Some (r, log')" by (simp add: io_bind_def ask_def)
  from tripleD [OF assms(2) this] obtain cs where cs: "log' = (log @ [c]) @ cs"
    "held env (log @ [c]) cs (H + (P - gives_back c ?a + gains c ?a)) = Some (H + R r)" .
  have "gives_back c ?a \<subseteq># H + P" using assms(1) by (simp add: subset_mset.add_increasing)
  moreover have "H + P - gives_back c ?a + gains c ?a = H + (P - gives_back c ?a + gains c ?a)"
  proof -
    obtain P' where "P = gives_back c ?a + P'" using assms(1) [of ?a] by (metis mset_subset_eq_exists_conv)
    then have "H + P = gives_back c ?a + (H + P')" by (simp add: ac_simps)
    then show ?thesis using \<open>P = gives_back c ?a + P'\<close> by (simp only: add_diff_cancel_left' add.assoc)
  qed
  ultimately show "\<exists>cs. log' = log @ cs \<and> held env log cs (H + P) = Some (H + R r)"
    using cs by (intro exI [of _ "c # cs"]) (simp add: Let_def)
qed

lemma triple_do: "(\<And>a. gives_back c a \<subseteq># P) \<Longrightarrow> (\<And>a. P - gives_back c a + gains c a = R (Inr ())) \<Longrightarrow> triple env P (sys_do env c) R"
  unfolding sys_do_def io_then_def by (rule triple_ask) (auto intro: triple_return)

lemma triple_on_throw:
  assumes m: "triple env P m Q" and c: "\<And>e. triple env (Q (Inl e)) c (\<lambda>_. R (Inl e))"
    and r: "\<And>x. Q (Inr x) = R (Inr x)" "\<And>e e'. R (Inl e) = R (Inl e')"
  shows "triple env P (io_on_throw m c) R"
  unfolding triple_def
proof (intro allI impI)
  fix log r log' H
  assume run: "io_on_throw m c log = Some (r, log')"
  then obtain s mid where s: "m log = Some (s, mid)" by (auto simp: io_on_throw_def split: option.splits)
  from tripleD [OF m s] obtain cs1 where cs1: "mid = log @ cs1" "held env log cs1 (H + P) = Some (H + Q s)" .
  show "\<exists>cs. log' = log @ cs \<and> held env log cs (H + P) = Some (H + R r)"
  proof (cases s)
    case (Inl e)
    then have then_run: "io_then c (io_throw e) mid = Some (r, log')" using run s by (simp add: io_on_throw_def)
    then obtain x where "c mid = Some (x, log')" "\<exists>e'. r = Inl e'"
      by (auto simp: io_then_def io_bind_def io_throw_def split: option.splits sum.splits)
    from tripleD [OF c this(1)] this(2) obtain cs2 where "log' = mid @ cs2" "held env mid cs2 (H + Q (Inl e)) = Some (H + R r)"
      using r(2) by (metis (no_types))
    then show ?thesis using cs1 Inl by (intro exI [of _ "cs1 @ cs2"]) (simp add: account_append)
  next
    case (Inr x)
    then show ?thesis using run s cs1 r(1) by (auto simp: io_on_throw_def)
  qed
qed

text \<open>A destructor does not throw.\<close>

lemma triple_finally:
  assumes m: "triple env P m Q" and c: "\<And>r. triple env (Q r) c (\<lambda>_. R r)"
    and quiet: "\<And>log e log'. c log \<noteq> Some (Inl e, log')"
  shows "triple env P (io_finally m c) R"
  unfolding triple_def
proof (intro allI impI)
  fix log r log' H
  assume run: "io_finally m c log = Some (r, log')"
  then obtain s mid where s: "m log = Some (s, mid)" by (auto simp: io_finally_def split: option.splits)
  from tripleD [OF m s] obtain cs1 where cs1: "mid = log @ cs1" "held env log cs1 (H + P) = Some (H + Q s)" .
  have "\<exists>x. c mid = Some (Inr x, log') \<and> r = s"
    using run s quiet by (cases s; cases "c mid")
      (auto simp: io_finally_def io_then_def io_bind_def io_return_def io_throw_def split: sum.splits)
  then obtain x where x: "c mid = Some (Inr x, log')" "r = s" by blast
  from tripleD [OF c x(1)] obtain cs2 where "log' = mid @ cs2" "held env mid cs2 (H + Q s) = Some (H + R s)" .
  then show "\<exists>cs. log' = log @ cs \<and> held env log cs (H + P) = Some (H + R r)"
    using cs1 x(2) by (intro exI [of _ "cs1 @ cs2"]) (simp add: account_append)
qed

lemma triple_each: "(\<And>x. triple env {#} (f x) (\<lambda>_. {#})) \<Longrightarrow> triple env {#} (io_each f xs) (\<lambda>_. {#})"
  by (induction xs) (auto intro: triple_return triple_then)

definition on_ok :: "('a \<Rightarrow> resource multiset) \<Rightarrow> 'a result \<Rightarrow> resource multiset" where
  "on_ok f r = (case r of Inl _ \<Rightarrow> {#} | Inr x \<Rightarrow> f x)"

lemma on_ok_simps [simp]: "on_ok f (Inl e) = {#}" "on_ok f (Inr x) = f x"
  by (simp_all add: on_ok_def)

text \<open>Calls that acquire nothing and give nothing back.\<close>

definition neutral :: "sys_call \<Rightarrow> bool" where
  "neutral c \<longleftrightarrow> (\<forall>a. gains c a = {#} \<and> gives_back c a = {#})"

lemma triple_neutral: "neutral c \<Longrightarrow> (\<And>a. triple env P (f a) R) \<Longrightarrow> triple env P (io_bind (sys_ask env c) f) R"
  by (rule triple_ask) (simp_all add: neutral_def)

lemma triple_if: "(b \<Longrightarrow> triple env P m Q) \<Longrightarrow> (\<not> b \<Longrightarrow> triple env P n Q) \<Longrightarrow> triple env P (if b then m else n) Q"
  by simp

lemma neutral_calls [simp]:
  "neutral (File (Fd_stat d))" "neutral (File Get_euid)" "neutral (File (C_read f n))" "neutral (File (C_error f))"
  "neutral (Acl (File_info h))" "neutral (Acl (File_type h))" "neutral (Acl (Token_size h))" "neutral (Acl (Token_user h n))"
  "neutral (Acl (Well_known_sid n))" "neutral (Acl (Get_ace h n))" "neutral (Ssl (Context h c))" "neutral (Ssl (Cleanse n))"
  "neutral (Ssl Err_get_error)" "neutral (Ssl (Verify_result h))" "neutral (Ssl (Certificate_digest h))"
  "neutral (Ssl (Set_host_name h t))"
  by (simp_all add: neutral_def account)

lemmas triple_intros = triple_if triple_neutral triple_return triple_throw

lemma do_quiet: "sys_do env c log \<noteq> Some (Inl e, log')"
  by (simp add: sys_do_def io_then_def io_bind_def ask_def io_return_def)

lemma owned_quiet: "owned env f h log \<noteq> Some (Inl e, log')"
  using do_quiet [of env "f h"] by (auto simp: owned_def io_return_def)

lemma owned_triple: "gives_back (f h) = (\<lambda>_. {#kind h#}) \<Longrightarrow> gains (f h) = (\<lambda>_. {#})
    \<Longrightarrow> triple env (F + unless_null kind h) (owned env f h) (\<lambda>_. F)"
  unfolding owned_def unless_null_def by (auto intro!: triple_do triple_return)

lemma triple_owned:
  assumes "triple env (F + unless_null kind h) m (\<lambda>r. Q r + unless_null kind h)"
    and "gives_back (f h) = (\<lambda>_. {#kind h#})" "gains (f h) = (\<lambda>_. {#})"
  shows "triple env (F + unless_null kind h) (io_finally m (owned env f h)) Q"
  by (rule triple_finally [OF assms(1) owned_triple [where f = f and h = h and kind = kind, OF assms(2,3)] owned_quiet])

text \<open>What a computation with no account of its own does inside another.\<close>

lemma triple_inside: "triple env {#} m (on_ok f) \<Longrightarrow> triple env F m (\<lambda>r. on_ok f r + F)"
  using triple_frame [of env "{#}" m "on_ok f" F] by simp

section \<open>The files\<close>

lemma server_check_triple: "triple env F (check_server_key env d) (\<lambda>_. F)"
  unfolding check_server_key_def by (intro triple_intros) simp_all

lemma open_server_key_triple:
  "triple env {#} (open_validated_server_private_key env path) (on_ok (\<lambda>file. {#R_file file#}))"
  unfolding open_validated_server_private_key_def Let_def
proof (rule triple_ask, goal_cases)
  case (2 a)
  have streamed: "triple env {#R_file stream#} (io_on_throw (io_then (check_server_key env d) (io_return stream))
      (sys_do env (File (C_close stream)))) (on_ok (\<lambda>file. {#R_file file#}))" for d stream
    by (rule triple_on_throw [where Q = "case_sum (\<lambda>_. {#R_file stream#}) (\<lambda>x. {#R_file x#})", OF triple_then [OF server_check_triple]])
      (auto intro!: triple_return triple_do simp: account)
  have no_stream: "triple env {#R_descriptor d#} (io_then (sys_do env (File (Fd_close d))) (io_throw e))
      (on_ok (\<lambda>file. {#R_file file#}))" for d e
    by (rule triple_then [where Q = "\<lambda>_. {#}"]) (auto intro!: triple_throw triple_do simp: account)
  have "triple env {#R_descriptor d#} (io_bind (sys_ask env (File (Fd_open d))) (\<lambda>f.
      if \<not> sa_ok f then io_then (sys_do env (File (Fd_close d))) (io_throw (e f))
      else io_on_throw (io_then (check_server_key env d) (io_return (sa_handle f))) (sys_do env (File (C_close (sa_handle f))))))
      (on_ok (\<lambda>file. {#R_file file#}))" for d e
    by (rule triple_ask) (auto simp: account streamed no_stream)
  then show ?case by (auto simp: account intro: triple_throw)
qed (simp add: account)

lemma token_triple: "triple env F (token_user env token) (\<lambda>_. F)"
  unfolding token_user_def by (intro triple_intros) simp_all

lemma sid_triple: "triple env F (well_known_sid env kind) (\<lambda>_. F)"
  unfolding well_known_sid_def by (intro triple_intros) simp_all

lemma aces_triple: "triple env F (io_each (read_ace env dacl trusted) indices) (\<lambda>_. F)"
proof -
  have "triple env {#} (read_ace env dacl trusted index) (\<lambda>_. {#})" for index
    unfolding read_ace_def check_ace_def by (intro triple_intros) (auto split: ace.split intro!: triple_intros)
  from triple_frame [OF triple_each [OF this], where F = F] show ?thesis by simp
qed

lemma entries_triple: "triple env F (check_entries env dacl ace_count token) (\<lambda>_. F)"
  unfolding check_entries_def by (intro triple_bind [OF token_triple] triple_bind [OF sid_triple] aces_triple refl)

lemma dacl_triple: "triple env F (check_dacl env dacl ace_count) (\<lambda>_. F)"
  unfolding check_dacl_def
proof (rule triple_ask, goal_cases)
  case (2 t)
  have "triple env (F + unless_null R_handle (sa_handle t)) (io_finally (check_entries env dacl ace_count (sa_handle t))
      (owned env (\<lambda>h. Acl (Close_handle h)) (sa_handle t))) (\<lambda>_. F)"
    by (rule triple_owned [OF entries_triple]) (simp_all add: account fun_eq_iff)
  then show ?case by (auto simp: gains_def gives_back_def if_ok_def intro: triple_throw)
qed (simp add: gives_back_def)

lemma acl_triple: "triple env F (validate_private_key_acl env handle) (\<lambda>_. F)"
  unfolding validate_private_key_acl_def
proof (rule triple_ask, goal_cases)
  case (2 s)
  have eq: "F - gives_back (Acl (Get_security handle)) s + gains (Acl (Get_security handle)) s = F + unless_null R_memory (sa_handle s)"
    by (simp add: gains_def gives_back_def)
  show ?case unfolding eq by (rule triple_owned) (auto simp: account fun_eq_iff intro: dacl_triple triple_throw)
qed (simp add: gives_back_def)

lemma client_check_triple: "triple env F (check_client_key env handle) (\<lambda>_. F)"
  unfolding check_client_key_def
  by (intro triple_neutral triple_if triple_throw refl triple_bind [where Q = "\<lambda>_. F"] acl_triple) (auto intro!: triple_intros)

lemma descriptor_triple: "triple env (unless_null R_handle h) (key_descriptor env h) (on_ok (\<lambda>d. {#R_descriptor d#}))"
  unfolding key_descriptor_def
proof (rule triple_on_throw [where Q = "case_sum (\<lambda>_. unless_null R_handle h) (\<lambda>d. {#R_descriptor d#})"], goal_cases)
  case 1
  show ?case by (rule triple_then [OF client_check_triple], rule triple_ask)
      (auto simp: gains_def gives_back_def if_ok_def intro!: triple_throw triple_return)
next
  case (2 e)
  have "triple env ({#} + unless_null R_handle h) (owned env (\<lambda>h. Acl (Close_handle h)) h) (\<lambda>_. {#})"
    by (rule owned_triple) (simp_all add: account fun_eq_iff)
  then show ?case by simp
qed simp_all

lemma stream_triple: "triple env {#R_descriptor d#} (key_stream env d) (on_ok (\<lambda>file. {#R_file file#}))"
  unfolding key_stream_def
  by (rule triple_ask) (auto simp: account intro!: triple_return triple_throw triple_then [where Q = "\<lambda>_. {#}"] triple_do)

lemma open_windows_key_triple:
  "triple env {#} (open_validated_private_key_file_windows env path) (on_ok (\<lambda>file. {#R_file file#}))"
  unfolding open_validated_private_key_file_windows_def
proof (rule triple_ask, goal_cases)
  case (2 a)
  have "triple env (unless_null R_handle h) (io_bind (key_descriptor env h) (key_stream env)) (on_ok (\<lambda>file. {#R_file file#}))" for h
    by (rule triple_bind [OF descriptor_triple]) (simp_all add: stream_triple)
  then show ?case by (auto simp: gains_def gives_back_def if_ok_def intro: triple_throw)
qed (simp add: gives_back_def)

lemma open_client_key_triple:
  "triple env {#} (open_validated_private_key_file env win32 path) (on_ok (\<lambda>file. {#R_file file#}))"
proof -
  have "triple env {#} (open_validated_private_key_file_portable env path) (on_ok (\<lambda>file. {#R_file file#}))"
    unfolding open_validated_private_key_file_portable_def
    by (rule triple_ask) (auto simp: account intro!: triple_return triple_throw)
  then show ?thesis using open_windows_key_triple by (simp add: open_validated_private_key_file_def)
qed

section \<open>What the access-control list allows\<close>

text \<open>
  The documented access check of Windows: the entries are walked in order; a denied right that is
  still wanted ends it, allowed rights are struck off, and access is granted if nothing is left.
\<close>

fun access_check :: "ace list \<Rightarrow> sid list \<Rightarrow> u32 \<Rightarrow> bool" where
  "access_check [] token desired \<longleftrightarrow> desired = 0"
| "access_check (Access_denied access sid # entries) token desired \<longleftrightarrow>
     \<not> (sid \<in> set token \<and> access AND desired \<noteq> 0) \<and> access_check entries token desired"
| "access_check (Access_allowed access sid # entries) token desired \<longleftrightarrow>
     access_check entries token (if sid \<in> set token then desired AND NOT access else desired)"
| "access_check (Other_ace # entries) token desired \<longleftrightarrow> access_check entries token desired"

fun ace_acceptable :: "sid list \<Rightarrow> ace \<Rightarrow> bool" where
  "ace_acceptable trusted (Access_allowed access sid) \<longleftrightarrow> access AND readable = 0 \<or> sid \<in> set trusted"
| "ace_acceptable trusted (Access_denied _ _) \<longleftrightarrow> True"
| "ace_acceptable trusted Other_ace \<longleftrightarrow> False"

lemma acceptable_denies:
  assumes "list_all (ace_acceptable trusted) entries" "set token \<inter> set trusted = {}" "desired AND readable \<noteq> 0"
  shows "\<not> access_check entries token desired"
  using assms
proof (induction entries token desired rule: access_check.induct)
  case (1 token desired)
  then show ?case by auto
next
  case (3 access sid entries token desired)
  show ?case
  proof (cases "sid \<in> set token")
    case True
    then have "access AND readable = 0" using 3 by auto
    then have "bit (access AND readable) n = False" for n by simp
    then have "\<not> (bit access n \<and> bit readable n)" for n by (simp add: bit_and_iff)
    then have "(desired AND NOT access) AND readable = desired AND readable"
      by (intro bit_word_eqI) (auto simp: bit_and_iff bit_not_iff)
    then show ?thesis using 3 True by auto
  next
    case False
    then show ?thesis using 3 by auto
  qed
qed auto

text \<open>The answers to the calls of one kind.\<close>

fun answers :: "(sys_call \<Rightarrow> bool) \<Rightarrow> sys \<Rightarrow> sys_call list \<Rightarrow> sys_call list \<Rightarrow> sys_answer list" where
  "answers sel env past [] = []"
| "answers sel env past (c # cs) = (if sel c then [sys_answer env past c] else []) @ answers sel env (past @ [c]) cs"

lemma answers_append [simp]: "answers sel env past (cs @ ds) = answers sel env past cs @ answers sel env (past @ cs) ds"
  by (induction cs arbitrary: past) simp_all

definition entry_call :: "sys_call \<Rightarrow> bool" where
  "entry_call c = (case c of Acl (Get_ace _ _) \<Rightarrow> True | _ \<Rightarrow> False)"

definition principal_call :: "sys_call \<Rightarrow> bool" where
  "principal_call c = (case c of Acl (Token_user _ _) \<Rightarrow> True | Acl (Well_known_sid _) \<Rightarrow> True | _ \<Rightarrow> False)"

definition list_call :: "sys_call \<Rightarrow> bool" where
  "list_call c = (case c of Acl (Get_security _) \<Rightarrow> True | _ \<Rightarrow> False)"

lemmas kinds = entry_call_def principal_call_def list_call_def

text \<open>What the system said of the list: its entries, and the principals in the order they were asked for.\<close>

abbreviation reported_aces :: "sys \<Rightarrow> sys_call list \<Rightarrow> sys_call list \<Rightarrow> ace list" where
  "reported_aces env past cs \<equiv> map sa_ace (answers entry_call env past cs)"

abbreviation reported_sids :: "sys \<Rightarrow> sys_call list \<Rightarrow> sys_call list \<Rightarrow> sid list" where
  "reported_sids env past cs \<equiv> map sa_bytes (answers principal_call env past cs)"

abbreviation reported_lists :: "sys \<Rightarrow> sys_call list \<Rightarrow> sys_call list \<Rightarrow> sys_answer list" where
  "reported_lists env past cs \<equiv> answers list_call env past cs"

lemma ace_emits: "emits (read_ace env dacl trusted index) (\<lambda>log r cs. reported_sids env log cs = [] \<and> reported_lists env log cs = []
     \<and> (r = Inr () \<longrightarrow> list_all (ace_acceptable trusted) (reported_aces env log cs) \<and> length (reported_aces env log cs) = 1))"
  unfolding read_ace_def
proof (rule emits_bind [where P = "\<lambda>log r cs. cs = [Acl (Get_ace dacl index)] \<and> r = Inr (sys_answer env log (Acl (Get_ace dacl index)))"
      and Q = "\<lambda>a log r cs. cs = [] \<and> (r = Inr () \<longrightarrow> ace_acceptable trusted (sa_ace a))"], goal_cases)
  case (2 a)
  show ?case by (cases "sa_ace a") (auto simp: check_ace_def list_ex_iff)
qed (auto simp: kinds)

lemma aces_emits: "emits (io_each (read_ace env dacl trusted) indices) (\<lambda>log r cs. reported_sids env log cs = [] \<and> reported_lists env log cs = []
     \<and> (r = Inr () \<longrightarrow> list_all (ace_acceptable trusted) (reported_aces env log cs)
          \<and> length (reported_aces env log cs) = length indices))"
proof (induction indices)
  case (Cons index indices)
  show ?case unfolding io_each.simps by (rule emits_then [OF ace_emits Cons]) auto
qed simp

lemma principal_emits:
  "emits (token_user env token) (\<lambda>log r cs. reported_aces env log cs = [] \<and> reported_lists env log cs = []
     \<and> (\<forall>x. r = Inr x \<longrightarrow> reported_sids env log cs = [x]))"
  "emits (well_known_sid env kind) (\<lambda>log r cs. reported_aces env log cs = [] \<and> reported_lists env log cs = []
     \<and> (\<forall>x. r = Inr x \<longrightarrow> reported_sids env log cs = [x]))"
  by (auto simp: token_user_def well_known_sid_def emits_def io_bind_def ask_def io_throw_def io_return_def kinds split: if_splits)

text \<open>\<open>protects\<close>: the principals asked for are three, and every entry is acceptable for them.\<close>

definition protects :: "sys \<Rightarrow> sys_call list \<Rightarrow> nat \<Rightarrow> sys_call list \<Rightarrow> bool" where
  "protects env log entries cs \<longleftrightarrow> length (reported_sids env log cs) = 3 \<and> length (reported_aces env log cs) = entries
     \<and> list_all (ace_acceptable (reported_sids env log cs)) (reported_aces env log cs)"

lemma entries_emits: "emits (check_entries env dacl entries token) (\<lambda>log r cs. reported_lists env log cs = []
     \<and> (r = Inr () \<longrightarrow> protects env log entries cs))"
  unfolding check_entries_def
proof (rule emits_bind [OF principal_emits(1), where Q = "\<lambda>user log r cs. reported_lists env log cs = [] \<and> (r = Inr () \<longrightarrow>
      length (reported_sids env log cs) = 2 \<and> length (reported_aces env log cs) = entries
      \<and> list_all (ace_acceptable (user # reported_sids env log cs)) (reported_aces env log cs))"], goal_cases)
  case (1 user)
  show ?case
  proof (rule emits_bind [OF principal_emits(2), where Q = "\<lambda>system log r cs. reported_lists env log cs = [] \<and> (r = Inr () \<longrightarrow>
      length (reported_sids env log cs) = 1 \<and> length (reported_aces env log cs) = entries
      \<and> list_all (ace_acceptable (user # system # reported_sids env log cs)) (reported_aces env log cs))"], goal_cases)
    case (1 system)
    show ?case by (rule emits_bind [OF principal_emits(2) aces_emits]) auto
  qed auto
qed (auto simp: protects_def)

lemma owned_emits: "emits (owned env f h) (\<lambda>log r cs. cs = [] \<or> cs = [f h])"
  by (auto simp: owned_def sys_do_def emits_def io_then_def io_bind_def ask_def io_return_def)

lemma dacl_emits: "emits (check_dacl env dacl entries) (\<lambda>log r cs. reported_lists env log cs = [] \<and> (r = Inr () \<longrightarrow> protects env log entries cs))"
  unfolding check_dacl_def
proof (rule emits_bind [where P = "\<lambda>log r cs. cs = [Acl Open_token] \<and> (\<exists>a. r = Inr a)" and
      Q = "\<lambda>_ log r cs. reported_lists env log cs = [] \<and> (r = Inr () \<longrightarrow> protects env log entries cs)"], goal_cases)
  case (2 t)
  have "emits (io_finally (check_entries env dacl entries h) (owned env (\<lambda>h. Acl (Close_handle h)) h))
      (\<lambda>log r cs. reported_lists env log cs = [] \<and> (r = Inr () \<longrightarrow> protects env log entries cs))" for h
    by (rule emits_cleanup [OF entries_emits owned_emits owned_quiet]) (auto simp: protects_def kinds)
  then show ?case by simp
qed (auto simp: protects_def kinds)

lemma acl_emits: "emits (validate_private_key_acl env handle) (\<lambda>log r cs. r = Inr () \<longrightarrow> (\<exists>s. reported_lists env log cs = [s]
     \<and> sa_number s \<noteq> 0 \<and> protects env log (unat (sa_bits s)) cs))"
  unfolding validate_private_key_acl_def
proof (rule emits_bind [where P = "\<lambda>log r cs. cs = [Acl (Get_security handle)] \<and> r = Inr (sys_answer env log (Acl (Get_security handle)))" and
      Q = "\<lambda>s log r cs. reported_lists env log cs = [] \<and> (r = Inr () \<longrightarrow> sa_number s \<noteq> 0 \<and> protects env log (unat (sa_bits s)) cs)"], goal_cases)
  case (2 s)
  have body: "emits (if \<not> sa_ok s then io_throw e1 else if sa_number s = 0 then io_throw e2
      else check_dacl env (sa_number s) (unat (sa_bits s)))
      (\<lambda>log r cs. reported_lists env log cs = [] \<and> (r = Inr () \<longrightarrow> sa_number s \<noteq> 0 \<and> protects env log (unat (sa_bits s)) cs))" for e1 e2
    using dacl_emits [of env "sa_number s" "unat (sa_bits s)"] by (auto intro: emits_mono)
  show ?case by (rule emits_cleanup [OF body owned_emits owned_quiet]) (auto simp: protects_def kinds)
qed (auto simp: protects_def kinds)

section \<open>Properties\<close>

lemma client_key_run:
  assumes "open_validated_private_key_file_windows env path log = Some (Inr stream, log')"
  shows "\<exists>h d mid cs. log' = mid @ cs @ [Acl (Open_osf_handle h), File (Fd_open d)]
     \<and> mid = log @ [Acl (Create_file path True True True), Acl (File_info h), Acl (File_type h)]
     \<and> validate_private_key_acl env h mid = Some (Inr (), mid @ cs)"
proof -
  let ?a = "sys_answer env log (Acl (Create_file path True True True))"
  let ?h = "sa_handle ?a"
  let ?mid = "log @ [Acl (Create_file path True True True), Acl (File_info ?h), Acl (File_type ?h)]"
  from assms obtain d end1 where d: "key_descriptor env ?h (log @ [Acl (Create_file path True True True)]) = Some (Inr d, end1)"
    and s: "key_stream env d end1 = Some (Inr stream, log')"
    by (auto simp: open_validated_private_key_file_windows_def run_Inr split: if_splits)
  from d obtain end2 where c: "check_client_key env ?h (log @ [Acl (Create_file path True True True)]) = Some (Inr (), end2)"
    "end1 = end2 @ [Acl (Open_osf_handle ?h)]"
    by (auto simp: key_descriptor_def run_Inr split: if_splits)
  from c(1) have "validate_private_key_acl env ?h ?mid = Some (Inr (), end2)"
    by (auto simp: check_client_key_def run_Inr split: if_splits)
  moreover obtain cs where "end2 = ?mid @ cs" by (rule emitsD [OF acl_emits calculation])
  moreover have "log' = end1 @ [File (Fd_open d)]" using s by (auto simp: key_stream_def run_Inr split: if_splits)
  ultimately show ?thesis using c(2) by (intro exI [of _ ?h] exI [of _ d] exI [of _ ?mid] exI [of _ cs]) simp
qed


text \<open>A system with one list: its user may read the key, another one may not; a file has 32 bytes.\<close>

definition is_read :: "sys_call \<Rightarrow> bool" where
  "is_read c = (case c of File f \<Rightarrow> (case f of C_read _ _ \<Rightarrow> True | _ \<Rightarrow> False) | _ \<Rightarrow> False)"

definition demo_bytes :: "sys_call list \<Rightarrow> sys_call \<Rightarrow> bytes" where
  "demo_bytes log c =
     (case c of
        File f \<Rightarrow> (case f of C_read _ _ \<Rightarrow> if list_ex is_read log then [] else replicate 32 5 | _ \<Rightarrow> [])
      | Acl a \<Rightarrow> (case a of Token_user _ _ \<Rightarrow> [1] | Well_known_sid n \<Rightarrow> [2, of_nat n] | _ \<Rightarrow> [])
      | Ssl _ \<Rightarrow> replicate 32 5)"

definition demo_sys :: sys where
  "demo_sys = \<lparr>sys_answer = (\<lambda>log c.
       \<lparr>sa_ok = True, sa_handle = 7, sa_error = (case c of Acl _ \<Rightarrow> ERROR_INSUFFICIENT_BUFFER | _ \<Rightarrow> 0), sa_number = 1,
        sa_bits = (case c of Acl (Get_security _) \<Rightarrow> 2 | File (Fd_stat _) \<Rightarrow> 0x8180 | _ \<Rightarrow> 0), sa_user = 33,
        sa_bytes = demo_bytes log c,
        sa_text = [], sa_ace = (case c of Acl (Get_ace _ n) \<Rightarrow> if n = 0 then Access_denied 1 [9] else Access_allowed 1 [1] | _ \<Rightarrow> Other_ace)\<rparr>),
     sys_message = (\<lambda>_. [])\<rparr>"

lemma demo_sids: "x \<in> set (reported_sids demo_sys past cs) \<Longrightarrow> hd x = 1 \<or> hd x = 2"
  by (induction cs arbitrary: past) (auto simp: demo_sys_def demo_bytes_def principal_call_def split: sys_call.splits acl_call.splits if_splits)


end
