(* ===== verification/Tls_Context.thy ===== *)
theory Tls_Context
  imports Key_Files
begin

text \<open>
  The TLS contexts of the two ends, \<^verbatim>\<open>src/server/tls_security.cpp\<close> and
  \<^verbatim>\<open>src/client/client_tls_security.cpp\<close>: how they are set up, which key they take, and the identity of
  a peer. Objects with destructors are scopes: what a function does while they live is their body.
\<close>

section \<open>Common parts\<close>

text \<open>The conditions of the preprocessor.\<close>

record build =
  bf_unix :: bool
  bf_win32 :: bool
  bf_ciphersuites :: bool

record ServerTlsConfig =
  st_certificate_chain_file :: string
  st_private_key_file :: string
  st_client_ca_file :: string
  st_client_crl_file :: string

record ClientTlsConfig =
  ct_ca_file :: string
  ct_certificate_chain_file :: string
  ct_private_key_file :: string
  ct_expected_server_name :: string

definition openssl_error :: "sys \<Rightarrow> string \<Rightarrow> string sys_comp" where
  "openssl_error env message =
     io_bind (sys_ask env (Ssl Err_get_error)) (\<lambda>a.
       io_return (if sa_error a = 0 then message else message @ '': '' @ take 255 (sa_text a)))"

definition openssl_throw :: "sys \<Rightarrow> string \<Rightarrow> 'a sys_comp" where
  "openssl_throw env message = io_bind (openssl_error env message) (\<lambda>t. io_throw (Runtime_error t))"

text \<open>A setting through Boost.Asio, which throws with its own text, and one of OpenSSL itself.\<close>

definition boost_set :: "sys \<Rightarrow> nat \<Rightarrow> context_call \<Rightarrow> unit sys_comp" where
  "boost_set env ctx c =
     io_bind (sys_ask env (Ssl (Context ctx c))) (\<lambda>a.
       if sa_ok a then io_return () else io_throw (Runtime_error (sa_text a)))"

definition openssl_set :: "sys \<Rightarrow> nat \<Rightarrow> context_call \<Rightarrow> string \<Rightarrow> unit sys_comp" where
  "openssl_set env ctx c message =
     io_bind (sys_ask env (Ssl (Context ctx c))) (\<lambda>a. if sa_ok a then io_return () else openssl_throw env message)"

definition cipher_list :: string where
  "cipher_list = ''ECDHE-ECDSA-AES256-GCM-SHA384:'' @ ''ECDHE-RSA-AES256-GCM-SHA384:'' @ ''ECDHE-ECDSA-CHACHA20-POLY1305:''
     @ ''ECDHE-RSA-CHACHA20-POLY1305:'' @ ''ECDHE-ECDSA-AES128-GCM-SHA256:'' @ ''ECDHE-RSA-AES128-GCM-SHA256''"

definition ciphersuites :: string where
  "ciphersuites = ''TLS_AES_256_GCM_SHA384:'' @ ''TLS_CHACHA20_POLY1305_SHA256:'' @ ''TLS_AES_128_GCM_SHA256''"

definition set_versions_and_ciphers :: "sys \<Rightarrow> build \<Rightarrow> nat \<Rightarrow> string \<Rightarrow> unit sys_comp" where
  "set_versions_and_ciphers env b ctx mismatch =
     io_then (openssl_set env ctx Check_private_key mismatch)
    (io_then (openssl_set env ctx (Set_min_version TLSv1_2) ''failed to set minimum TLS version'')
    (io_then (openssl_set env ctx (Set_cipher_list cipher_list) ''failed to configure TLS 1.2 cipher suites'')
       (if bf_ciphersuites b then openssl_set env ctx (Set_ciphersuites ciphersuites) ''failed to configure TLS 1.3 cipher suites''
        else io_return ())))"

text \<open>The key in memory, and what is done while it lives; \<open>who\<close> is the word for it in the texts.\<close>

definition with_key :: "sys \<Rightarrow> nat \<Rightarrow> string \<Rightarrow> string \<Rightarrow> bytes \<Rightarrow> unit sys_comp \<Rightarrow> unit sys_comp" where
  "with_key env ctx who no_buffer key rest =
     io_bind (sys_ask env (Ssl (Bio_new key))) (\<lambda>b.
       if sa_handle b = 0 then openssl_throw env no_buffer
       else
         io_finally
          (io_bind (sys_ask env (Ssl (Read_key (sa_handle b)))) (\<lambda>k.
             if sa_handle k = 0 then openssl_throw env (''failed to parse '' @ who @ '' private key'')
             else
               io_finally
                (io_then (openssl_set env ctx (Use_key (sa_handle k)) (''failed to load '' @ who @ '' private key'')) rest)
                (sys_do env (Ssl (Key_free (sa_handle k))))))
          (sys_do env (Ssl (Bio_free (sa_handle b)))))"

text \<open>\<^verbatim>\<open>tls_server\<close> and \<^verbatim>\<open>tls_client\<close> contexts with the options of both ends.\<close>

definition with_context :: "sys \<Rightarrow> ssl_method \<Rightarrow> (nat \<Rightarrow> unit sys_comp) \<Rightarrow> nat sys_comp" where
  "with_context env method body =
     io_bind (sys_ask env (Ssl (Context_new method))) (\<lambda>a.
       if \<not> sa_ok a then io_throw (Runtime_error (sa_text a))
       else
        (let ctx = sa_handle a
         in io_on_throw
              (io_then (boost_set env ctx (Set_options [SSLv2, SSLv3, TLSv1, TLSv1_1]))
              (io_then (body ctx) (io_return ctx)))
              (sys_do env (Ssl (Context_free ctx)))))"

section \<open>The server\<close>

definition maximum_private_key_file_size :: nat where
  "maximum_private_key_file_size = 1024 * 1024"

definition with_server_key :: "sys \<Rightarrow> nat \<Rightarrow> string \<Rightarrow> unit sys_comp \<Rightarrow> unit sys_comp" where
  "with_server_key env ctx path rest =
     io_bind (open_validated_server_private_key env path) (\<lambda>file.
     io_finally
      (io_finally
        (io_bind (sys_ask env (File (C_read file (maximum_private_key_file_size + 1)))) (\<lambda>a.
         io_bind (sys_ask env (File (C_error file))) (\<lambda>e.
          let key = take (maximum_private_key_file_size + 1) (sa_bytes a)
          in if sa_error e \<noteq> 0 then io_throw (Runtime_error ''failed to read server private key'')
             else if length key > maximum_private_key_file_size then
               io_throw (Invalid_argument ''server private key file must not exceed 1 MiB'')
             else with_key env ctx ''server'' ''failed to buffer server private key'' key rest)))
        (sys_do env (Ssl (Cleanse (maximum_private_key_file_size + 1)))))
      (sys_do env (File (C_close file))))"

definition load_client_crl :: "sys \<Rightarrow> nat \<Rightarrow> string \<Rightarrow> unit sys_comp" where
  "load_client_crl env ctx crl =
     io_then
      (io_bind (sys_ask env (Ssl (Context ctx Add_file_lookup))) (\<lambda>a.
         if \<not> sa_ok a then openssl_throw env ''failed to load client certificate CRL''
         else openssl_set env ctx (Load_crl_file crl) ''failed to load client certificate CRL''))
      (openssl_set env ctx (Set_crl_check True) ''failed to enable client CRL checking'')"

definition server_settings :: "sys \<Rightarrow> build \<Rightarrow> ServerTlsConfig \<Rightarrow> nat \<Rightarrow> unit sys_comp" where
  "server_settings env b config ctx =
     io_then (boost_set env ctx (Load_verify_file (st_client_ca_file config)))
    (io_then (boost_set env ctx (Set_verify_mode True True))
    (io_then (if st_client_crl_file config \<noteq> [] then load_client_crl env ctx (st_client_crl_file config) else io_return ())
       (set_versions_and_ciphers env b ctx ''server private key does not match certificate'')))"

definition make_server_tls_context :: "sys \<Rightarrow> build \<Rightarrow> ServerTlsConfig \<Rightarrow> nat sys_comp" where
  "make_server_tls_context env b config =
     (if st_certificate_chain_file config = [] \<or> st_private_key_file config = [] \<or> st_client_ca_file config = [] then
        io_throw (Invalid_argument ''server TLS credential paths must not be empty'')
      else
        with_context env Tls_server (\<lambda>ctx.
          io_then (boost_set env ctx (Use_chain_file (st_certificate_chain_file config)))
           (if bf_unix b then with_server_key env ctx (st_private_key_file config) (server_settings env b config ctx)
            else io_then (boost_set env ctx (Use_key_file (st_private_key_file config))) (server_settings env b config ctx))))"

definition validate_server_private_key_permissions :: "sys \<Rightarrow> build \<Rightarrow> string \<Rightarrow> unit sys_comp" where
  "validate_server_private_key_permissions env b path =
     (if path = [] then io_throw (Invalid_argument ''server private key path must not be empty'')
      else if bf_unix b then
        io_bind (open_validated_server_private_key env path) (\<lambda>file. sys_do env (File (C_close file)))
      else io_return ())"

section \<open>The identity of a certificate\<close>

definition hex_digit :: "nat \<Rightarrow> char" where
  "hex_digit n = ''0123456789abcdef'' ! n"

fun hex_text :: "bytes \<Rightarrow> string" where
  "hex_text [] = []"
| "hex_text (octet # rest) =
     hex_digit (unat (drop_bit 4 octet AND 0x0F)) # hex_digit (unat (octet AND 0x0F)) # hex_text rest"

definition certificate_sha256 :: "sys \<Rightarrow> nat \<Rightarrow> string sys_comp" where
  "certificate_sha256 env certificate =
     (if certificate = 0 then io_throw (Runtime_error ''peer did not provide an X.509 certificate'')
      else
        io_bind (sys_ask env (Ssl (Certificate_digest certificate))) (\<lambda>a.
          if \<not> sa_ok a then openssl_throw env ''failed to calculate certificate fingerprint''
          else io_return (''sha256:'' @ hex_text (sa_bytes a))))"

definition peer_certificate_sha256 :: "sys \<Rightarrow> nat \<Rightarrow> string sys_comp" where
  "peer_certificate_sha256 env ssl_handle =
     (if ssl_handle = 0 then io_throw (Invalid_argument ''SSL handle must not be null'')
      else
        io_bind (sys_ask env (Ssl (Verify_result ssl_handle))) (\<lambda>a.
          if \<not> sa_ok a then io_throw (Runtime_error ''peer certificate verification did not succeed'')
          else
            io_bind (sys_ask env (Ssl (Peer_certificate ssl_handle))) (\<lambda>p.
              io_finally (certificate_sha256 env (sa_handle p)) (owned env (\<lambda>h. Ssl (Certificate_free h)) (sa_handle p)))))"

definition certificate_file_sha256 :: "sys \<Rightarrow> string \<Rightarrow> string sys_comp" where
  "certificate_file_sha256 env path =
     io_bind (sys_ask env (File (C_open path))) (\<lambda>f.
       if \<not> sa_ok f then io_throw (Runtime_error (''failed to open certificate file: '' @ path))
       else
         io_finally
          (io_bind (sys_ask env (Ssl (Read_certificate (sa_handle f)))) (\<lambda>p.
             io_finally
              (if sa_handle p = 0 then openssl_throw env ''failed to parse certificate file''
               else certificate_sha256 env (sa_handle p))
              (owned env (\<lambda>h. Ssl (Certificate_free h)) (sa_handle p))))
          (sys_do env (File (C_close (sa_handle f)))))"

section \<open>The client\<close>

definition kMaximumPrivateKeyBytes :: nat where
  "kMaximumPrivateKeyBytes = 1024 * 1024"

text \<open>The loop that reads the key; \<^verbatim>\<open>fread\<close> reads at most what it is asked for.\<close>

function read_key_loop :: "sys \<Rightarrow> nat \<Rightarrow> bytes \<Rightarrow> bytes sys_comp" where
  "read_key_loop env file read_so_far log =
     (if length read_so_far < kMaximumPrivateKeyBytes + 1 then
       (let room = kMaximumPrivateKeyBytes + 1 - length read_so_far;
            c = File (C_read file room);
            got = take room (sa_bytes (sys_answer env log c));
            log = log @ [c]
        in if got = [] then
             (let e = sys_answer env log (File (C_error file)); log = log @ [File (C_error file)]
              in if sa_error e \<noteq> 0 then Some (Inl (Runtime_error ''failed to read client private key''), log)
                 else Some (Inr read_so_far, log))
           else read_key_loop env file (read_so_far @ got) log)
      else Some (Inr read_so_far, log))"
  by pat_completeness auto

termination
  by (relation "measure (\<lambda>(_, _, read_so_far, _). kMaximumPrivateKeyBytes + 1 - length read_so_far)")
    (auto simp: min_def simp flip: length_greater_0_conv)

declare read_key_loop.simps [simp del]

definition read_client_key :: "sys \<Rightarrow> nat \<Rightarrow> bytes sys_comp" where
  "read_client_key env file =
     io_bind (read_key_loop env file []) (\<lambda>key.
       if key = [] \<or> length key > kMaximumPrivateKeyBytes then
         io_throw (Invalid_argument ''client private key must be between 1 byte and 1 MiB'')
       else io_return key)"

text \<open>The buffer is cleared in full, or as far as it was kept once it has been cut to the size of the key.\<close>

definition with_client_key :: "sys \<Rightarrow> bool \<Rightarrow> nat \<Rightarrow> string \<Rightarrow> unit sys_comp \<Rightarrow> unit sys_comp" where
  "with_client_key env win32 ctx path rest =
     io_bind (open_validated_private_key_file env win32 path) (\<lambda>file.
     io_finally
      (io_bind
        (io_on_throw (read_client_key env file) (sys_do env (Ssl (Cleanse (kMaximumPrivateKeyBytes + 1)))))
        (\<lambda>key.
          io_finally (with_key env ctx ''client'' ''failed to create private-key memory BIO'' key rest)
            (sys_do env (Ssl (Cleanse (length key))))))
      (sys_do env (File (C_close file))))"

definition client_settings :: "sys \<Rightarrow> build \<Rightarrow> ClientTlsConfig \<Rightarrow> nat \<Rightarrow> unit sys_comp" where
  "client_settings env b config ctx =
     io_then (boost_set env ctx (Set_verify_mode True False))
    (io_then (boost_set env ctx (Set_host_callback (ct_expected_server_name config)))
       (set_versions_and_ciphers env b ctx ''client private key does not match certificate''))"

definition make_client_tls_context :: "sys \<Rightarrow> build \<Rightarrow> ClientTlsConfig \<Rightarrow> nat sys_comp" where
  "make_client_tls_context env b config =
     (if ct_ca_file config = [] \<or> ct_certificate_chain_file config = [] \<or> ct_private_key_file config = []
         \<or> ct_expected_server_name config = [] then
        io_throw (Invalid_argument ''client TLS credential paths and server name must not be empty'')
      else
        with_context env Tls_client (\<lambda>ctx.
          io_then (boost_set env ctx (Load_verify_file (ct_ca_file config)))
         (io_then (boost_set env ctx (Use_chain_file (ct_certificate_chain_file config)))
           (with_client_key env (bf_win32 b) ctx (ct_private_key_file config) (client_settings env b config ctx)))))"

text \<open>\<open>is_address\<close> tells whether \<^verbatim>\<open>boost::asio::ip::make_address\<close> accepts the name.\<close>

definition configure_client_sni :: "sys \<Rightarrow> (string \<Rightarrow> bool) \<Rightarrow> nat \<Rightarrow> string \<Rightarrow> unit sys_comp" where
  "configure_client_sni env is_address ssl_handle expected_server_name =
     (if ssl_handle = 0 \<or> expected_server_name = [] then
        io_throw (Invalid_argument ''SSL handle and expected server name must be provided'')
      else if is_address expected_server_name then io_return ()
      else
        io_bind (sys_ask env (Ssl (Set_host_name ssl_handle expected_server_name))) (\<lambda>a.
          if sa_ok a then io_return () else openssl_throw env ''failed to configure TLS server name indication''))"

section \<open>Resources\<close>

lemma openssl_throw_triple: "triple env F (openssl_throw env message) (\<lambda>_. F)"
  unfolding openssl_throw_def openssl_error_def
  by (intro triple_bind [where Q = "\<lambda>_. F"] triple_neutral) (auto intro!: triple_return triple_throw)

lemma set_triple:
  "triple env F (boost_set env ctx c) (\<lambda>_. F)" "triple env F (openssl_set env ctx c message) (\<lambda>_. F)"
  unfolding boost_set_def openssl_set_def
  by (rule triple_neutral; auto intro!: triple_return triple_throw openssl_throw_triple)+

lemma versions_triple: "triple env F (set_versions_and_ciphers env b ctx message) (\<lambda>_. F)"
  unfolding set_versions_and_ciphers_def by (auto intro!: triple_then [OF set_triple(2)] set_triple triple_return)

lemma do_finally_triple:
  assumes "triple env P m (\<lambda>_. P)" "\<And>a. gives_back c a = R" "\<And>a. gains c a = {#}" "P = F + R"
  shows "triple env P (io_finally m (sys_do env c)) (\<lambda>_. F)"
proof (rule triple_finally [OF assms(1)])
  show "triple env P (sys_do env c) (\<lambda>_. F)" by (rule triple_do) (simp_all add: assms(2-))
qed (simp add: do_quiet)

lemma with_key_triple:
  assumes rest: "\<And>F. triple env F rest (\<lambda>_. F)"
  shows "triple env F (with_key env ctx who no_buffer key rest) (\<lambda>_. F)"
  unfolding with_key_def
proof (rule triple_ask, goal_cases)
  case (2 b)
  have key: "triple env (G + {#R_key k#}) (io_finally (io_then (openssl_set env ctx (Use_key k) m) rest) (sys_do env (Ssl (Key_free k)))) (\<lambda>_. G)" for G k m
    by (rule do_finally_triple) (auto intro: triple_then [OF set_triple(2)] rest simp: account)
  have read: "triple env G (io_bind (sys_ask env (Ssl (Read_key h))) (\<lambda>k.
      if sa_handle k = 0 then openssl_throw env m1
      else io_finally (io_then (openssl_set env ctx (Use_key (sa_handle k)) m2) rest) (sys_do env (Ssl (Key_free (sa_handle k))))))
      (\<lambda>_. G)" for G h m1 m2
    by (rule triple_ask) (use key [of G] in \<open>auto simp: account intro: openssl_throw_triple\<close>)
  have "triple env (F + {#R_bio h#}) (io_finally (io_bind (sys_ask env (Ssl (Read_key h))) (\<lambda>k.
      if sa_handle k = 0 then openssl_throw env m1
      else io_finally (io_then (openssl_set env ctx (Use_key (sa_handle k)) m2) rest) (sys_do env (Ssl (Key_free (sa_handle k))))))
      (sys_do env (Ssl (Bio_free h)))) (\<lambda>_. F)" for h m1 m2
    by (rule do_finally_triple [OF read]) (auto simp: account)
  then show ?case by (auto simp: account intro: openssl_throw_triple)
qed (simp add: gives_back_def)

lemma do_neutral_triple: "neutral c \<Longrightarrow> triple env F (sys_do env c) (\<lambda>_. F)"
  by (rule triple_do) (simp_all add: neutral_def)

lemma neutral_finally_triple: "triple env P m Q \<Longrightarrow> neutral c \<Longrightarrow> triple env P (io_finally m (sys_do env c)) Q"
  by (erule triple_finally) (simp_all add: do_neutral_triple do_quiet)

text \<open>A stream that is closed when the scope is left.\<close>

lemma stream_scope_triple:
  assumes "triple env {#} m (on_ok (\<lambda>file. {#R_file file#}))" and body: "\<And>file G. triple env G (body file) (\<lambda>_. G)"
  shows "triple env F (io_bind m (\<lambda>file. io_finally (body file) (sys_do env (File (C_close file))))) (\<lambda>_. F)"
proof (rule triple_bind [OF triple_inside [OF assms(1), of F]], goal_cases)
  case (1 f)
  show ?case by (rule do_finally_triple [OF body]) (auto simp: account)
qed simp

lemma server_key_triple:
  assumes rest: "\<And>F. triple env F rest (\<lambda>_. F)"
  shows "triple env F (with_server_key env ctx path rest) (\<lambda>_. F)"
  unfolding with_server_key_def
  by (rule stream_scope_triple [OF open_server_key_triple], rule neutral_finally_triple)
    (auto simp: Let_def intro!: triple_neutral triple_throw with_key_triple rest)

lemma server_settings_triple: "triple env F (server_settings env b config ctx) (\<lambda>_. F)"
proof -
  have "triple env G (load_client_crl env ctx crl) (\<lambda>_. G)" for G crl
    unfolding load_client_crl_def
    by (rule triple_then [where Q = "\<lambda>_. G"]) (auto intro!: triple_neutral openssl_throw_triple set_triple)
  then show ?thesis unfolding server_settings_def
    by (intro triple_then [OF set_triple(1)] triple_then [where Q = "\<lambda>_. F"] versions_triple refl) (auto intro: triple_return)
qed

lemma context_triple:
  assumes body: "\<And>ctx F. triple env F (body ctx) (\<lambda>_. F)"
  shows "triple env {#} (with_context env kind body) (on_ok (\<lambda>ctx. {#R_context ctx#}))"
  unfolding with_context_def Let_def
proof (rule triple_ask, goal_cases)
  case (2 a)
  have "triple env {#R_context h#} (io_on_throw
      (io_then (boost_set env h (Set_options [SSLv2, SSLv3, TLSv1, TLSv1_1])) (io_then (body h) (io_return h)))
      (sys_do env (Ssl (Context_free h)))) (on_ok (\<lambda>ctx. {#R_context ctx#}))" for h
    by (rule triple_on_throw [where Q = "case_sum (\<lambda>_. {#R_context h#}) (\<lambda>x. {#R_context x#})",
          OF triple_then [OF set_triple(1) triple_then [OF body]]])
      (auto intro!: triple_return triple_do simp: account)
  then show ?case by (auto simp: account intro: triple_throw)
qed (simp add: gives_back_def)

lemma server_context_triple: "triple env {#} (make_server_tls_context env b config) (on_ok (\<lambda>ctx. {#R_context ctx#}))"
  unfolding make_server_tls_context_def
  by (intro triple_if triple_throw context_triple triple_then [OF set_triple(1)] server_key_triple server_settings_triple refl) simp_all

fun reads_file :: "nat \<Rightarrow> sys_call \<Rightarrow> bool" where
  "reads_file f (File (C_read g n)) \<longleftrightarrow> g = f"
| "reads_file f (File (C_error g)) \<longleftrightarrow> g = f"
| "reads_file f c \<longleftrightarrow> False"

lemma read_loop_calls:
  assumes "read_key_loop env f acc log = Some (r, log')"
  shows "\<exists>cs. log' = log @ cs \<and> list_all (reads_file f) cs"
  using assms
proof (induction env f acc log rule: read_key_loop.induct)
  case (1 env f acc log)
  let ?room = "kMaximumPrivateKeyBytes + 1 - length acc"
  let ?c = "File (C_read f ?room)"
  let ?got = "take ?room (sa_bytes (sys_answer env log ?c))"
  consider "\<not> length acc < kMaximumPrivateKeyBytes + 1" | "length acc < kMaximumPrivateKeyBytes + 1" "?got = []"
    | "length acc < kMaximumPrivateKeyBytes + 1" "?got \<noteq> []" by blast
  then show ?case
  proof cases
    case 1
    then show ?thesis using "1.prems" by (simp add: read_key_loop.simps [of env f acc])
  next
    case 2
    then have "log' = log @ [?c, File (C_error f)]"
      using "1.prems" by (simp add: read_key_loop.simps [of env f acc] Let_def split: if_splits)
    then show ?thesis by (intro exI [of _ "[?c, File (C_error f)]"]) simp
  next
    case 3
    then have "read_key_loop env f (acc @ ?got) (log @ [?c]) = Some (r, log')"
      using "1.prems" by (simp add: read_key_loop.simps [of env f acc] Let_def)
    from "1.IH" [OF 3(1) refl refl refl refl 3(2) this] obtain cs where "log' = (log @ [?c]) @ cs" "list_all (reads_file f) cs"
      by blast
    then show ?thesis by (intro exI [of _ "?c # cs"]) simp
  qed
qed

lemma reads_held: "list_all (reads_file f) cs \<Longrightarrow> held env log cs H = Some H"
proof (induction cs arbitrary: log)
  case (Cons c cs)
  then show ?case by (cases "(f, c)" rule: reads_file.cases) (simp_all add: account)
qed simp

lemma read_key_triple: "triple env F (read_client_key env file) (\<lambda>_. F)"
proof -
  have "triple env F (read_key_loop env file []) (\<lambda>_. F)" unfolding triple_def using read_loop_calls reads_held by blast
  then show ?thesis unfolding read_client_key_def by (rule triple_bind) (auto intro: triple_return triple_throw)
qed

lemma client_key_triple:
  assumes rest: "\<And>F. triple env F rest (\<lambda>_. F)"
  shows "triple env F (with_client_key env win32 ctx path rest) (\<lambda>_. F)"
  unfolding with_client_key_def
proof (rule stream_scope_triple [OF open_client_key_triple])
  fix f G
  have "triple env G (io_on_throw (read_client_key env f) (sys_do env (Ssl (Cleanse n)))) (\<lambda>_. G)" for n
    by (rule triple_on_throw [OF read_key_triple]) (simp_all add: do_neutral_triple)
  then show "triple env G (io_bind (io_on_throw (read_client_key env f) (sys_do env (Ssl (Cleanse (kMaximumPrivateKeyBytes + 1)))))
      (\<lambda>key. io_finally (with_key env ctx ''client'' ''failed to create private-key memory BIO'' key rest)
         (sys_do env (Ssl (Cleanse (length key)))))) (\<lambda>_. G)"
    by (rule triple_bind) (simp_all add: neutral_finally_triple with_key_triple rest)
qed

lemma client_context_triple: "triple env {#} (make_client_tls_context env b config) (on_ok (\<lambda>ctx. {#R_context ctx#}))"
proof -
  have "triple env F (client_settings env b config ctx) (\<lambda>_. F)" for F ctx
    unfolding client_settings_def by (intro triple_then [OF set_triple(1)] versions_triple refl)
  then show ?thesis unfolding make_client_tls_context_def
    by (intro triple_if triple_throw context_triple triple_then [OF set_triple(1)] client_key_triple refl) simp_all
qed

section \<open>What a context is set to\<close>

text \<open>The settings that matter, as the calls make them; a context accepts everything at first.\<close>

record tls_settings =
  ts_disabled :: "tls_version list"
  ts_minimum :: tls_version
  ts_verify_peer :: bool
  ts_require_certificate :: bool
  ts_authorities :: "string option"
  ts_revoked :: "string option"
  ts_check_revoked :: bool
  ts_host :: "string option"
  ts_key :: bool
  ts_key_checked :: bool
  ts_ciphers :: "string option"

definition initial_settings :: tls_settings where
  "initial_settings = \<lparr>ts_disabled = [], ts_minimum = SSLv2, ts_verify_peer = False, ts_require_certificate = False,
     ts_authorities = None, ts_revoked = None, ts_check_revoked = False, ts_host = None, ts_key = False,
     ts_key_checked = False, ts_ciphers = None\<rparr>"

definition configure :: "context_call \<Rightarrow> tls_settings \<Rightarrow> tls_settings" where
  "configure c st = (case c of
       Set_options versions \<Rightarrow> st\<lparr>ts_disabled := versions @ ts_disabled st\<rparr>
     | Use_key _ \<Rightarrow> st\<lparr>ts_key := True\<rparr>
     | Use_key_file _ \<Rightarrow> st\<lparr>ts_key := True\<rparr>
     | Load_verify_file ca \<Rightarrow> st\<lparr>ts_authorities := Some ca\<rparr>
     | Set_verify_mode peer required \<Rightarrow> st\<lparr>ts_verify_peer := peer, ts_require_certificate := required\<rparr>
     | Set_host_callback host \<Rightarrow> st\<lparr>ts_host := Some host\<rparr>
     | Load_crl_file crl \<Rightarrow> st\<lparr>ts_revoked := Some crl\<rparr>
     | Set_crl_check all_certificates \<Rightarrow> st\<lparr>ts_check_revoked := all_certificates\<rparr>
     | Check_private_key \<Rightarrow> st\<lparr>ts_key_checked := True\<rparr>
     | Set_min_version v \<Rightarrow> st\<lparr>ts_minimum := v\<rparr>
     | Set_cipher_list ciphers \<Rightarrow> st\<lparr>ts_ciphers := Some ciphers\<rparr>
     | _ \<Rightarrow> st)"

definition context_step :: "nat \<Rightarrow> sys_call \<Rightarrow> tls_settings \<Rightarrow> tls_settings" where
  "context_step ctx call st = (case call of
       Ssl t \<Rightarrow> (case t of Context h c \<Rightarrow> if h = ctx then configure c st else st | _ \<Rightarrow> st)
     | _ \<Rightarrow> st)"

definition settings :: "nat \<Rightarrow> sys_call list \<Rightarrow> tls_settings" where
  "settings ctx cs = fold (context_step ctx) cs initial_settings"

fun version_rank :: "tls_version \<Rightarrow> nat" where
  "version_rank SSLv2 = 0"
| "version_rank SSLv3 = 1"
| "version_rank TLSv1 = 2"
| "version_rank TLSv1_1 = 3"
| "version_rank TLSv1_2 = 4"
| "version_rank TLSv1_3 = 5"

definition accepts_version :: "tls_settings \<Rightarrow> tls_version \<Rightarrow> bool" where
  "accepts_version st v \<longleftrightarrow> v \<notin> set (ts_disabled st) \<and> version_rank (ts_minimum st) \<le> version_rank v"

text \<open>\<open>sets ctx m f\<close>: when \<open>m\<close> returns, its calls have changed the settings of the context by \<open>f\<close>.\<close>

definition sets :: "nat \<Rightarrow> 'a sys_comp \<Rightarrow> (tls_settings \<Rightarrow> tls_settings) \<Rightarrow> bool" where
  "sets ctx m f \<longleftrightarrow> (\<forall>log y log'. m log = Some (Inr y, log') \<longrightarrow> (\<exists>cs. log' = log @ cs \<and> fold (context_step ctx) cs = f))"

lemma sets_bind: "sets ctx m f \<Longrightarrow> (\<And>x. sets ctx (n x) g) \<Longrightarrow> sets ctx (io_bind m n) (g \<circ> f)"
  unfolding sets_def bind_Inr by (metis append.assoc fold_append)

lemma sets_cong: "sets ctx m f \<Longrightarrow> f = g \<Longrightarrow> sets ctx m g"
  by simp

lemma sets_then: "sets ctx m f \<Longrightarrow> sets ctx n g \<Longrightarrow> sets ctx (io_then m n) (g \<circ> f)"
  unfolding io_then_def by (rule sets_bind)

lemma sets_basic [simp]: "sets ctx (io_return x) id" "sets ctx (io_throw e) f" "sets ctx (openssl_throw env message) f"
  by (auto simp: sets_def run_Inr openssl_throw_def)

lemma sets_ask: "context_step ctx c = id \<Longrightarrow> sets ctx (sys_ask env c) id"
  by (simp add: sets_def run_Inr)

lemma sets_on_throw: "sets ctx m f \<Longrightarrow> sets ctx (io_on_throw m c) f"
  by (simp add: sets_def run_Inr)

lemma sets_finally:
  assumes m: "sets ctx m f" and c: "sets ctx c id"
  shows "sets ctx (io_finally m c) f"
  unfolding sets_def finally_Inr
proof (intro allI impI, elim exE conjE)
  fix log y log' x mid
  assume run: "m log = Some (Inr y, mid)" "c mid = Some (Inr x, log')"
  obtain cs where cs: "mid = log @ cs" "fold (context_step ctx) cs = f" using m run(1) unfolding sets_def by blast
  obtain ds where ds: "log' = mid @ ds" "fold (context_step ctx) ds = id" using c run(2) unfolding sets_def by blast
  have "fold (context_step ctx) (cs @ ds) = f" by (simp only: fold_append cs ds id_comp)
  then show "\<exists>cs. log' = log @ cs \<and> fold (context_step ctx) cs = f" using cs(1) ds(1) by (intro exI [of _ "cs @ ds"]) simp
qed

lemma sets_do: "context_step ctx c = id \<Longrightarrow> sets ctx (sys_do env c) id"
  unfolding sys_do_def by (simp add: sets_def run_Inr)

lemma sets_if: "(b \<Longrightarrow> sets ctx m f) \<Longrightarrow> (\<not> b \<Longrightarrow> sets ctx n f) \<Longrightarrow> sets ctx (if b then m else n) f"
  by simp

lemma sets_each: "(\<And>x. sets ctx (n x) id) \<Longrightarrow> sets ctx (io_each n xs) id"
proof (induction xs)
  case (Cons x xs)
  from sets_then [OF Cons.prems Cons.IH [OF Cons.prems], of x] show ?case by (simp only: io_each.simps id_comp)
qed (simp only: io_each.simps sets_basic)

lemma sets_calls:
  "sets ctx (boost_set env ctx c) (configure c)" "sets ctx (openssl_set env ctx c message) (configure c)"
  unfolding boost_set_def openssl_set_def
  by (auto simp: sets_def run_Inr openssl_throw_def context_step_def fun_eq_iff split: if_splits)

lemma sets_bind_id: "sets ctx m id \<Longrightarrow> (\<And>x. sets ctx (n x) f) \<Longrightarrow> sets ctx (io_bind m n) f"
  using sets_bind [of ctx m id n f] by simp

lemma sets_then_id: "sets ctx m id \<Longrightarrow> sets ctx n f \<Longrightarrow> sets ctx (io_then m n) f"
  unfolding io_then_def by (rule sets_bind_id)

lemma other_calls [simp]: "context_step ctx (File f) = id" "context_step ctx (Acl a) = id"
  "context_step ctx (Ssl (Bio_new k)) = id" "context_step ctx (Ssl (Bio_free h)) = id" "context_step ctx (Ssl (Read_key h)) = id"
  "context_step ctx (Ssl (Key_free h)) = id" "context_step ctx (Ssl (Cleanse n)) = id"
  by (simp_all add: context_step_def fun_eq_iff)

lemma sets_owned: "context_step ctx (f h) = id \<Longrightarrow> sets ctx (owned env f h) id"
  unfolding owned_def by (simp add: sets_do)

lemmas sets_intros = sets_bind_id sets_then_id sets_if sets_on_throw sets_finally sets_each sets_ask sets_do sets_owned sets_basic

lemma sets_open_server_key: "sets ctx (open_validated_server_private_key env path) id"
  unfolding open_validated_server_private_key_def check_server_key_def Let_def by (intro sets_intros) simp_all

lemma sets_acl: "sets ctx (validate_private_key_acl env h) id"
proof -
  have "sets ctx (check_ace trusted e) id" for trusted e by (simp add: check_ace_def split: ace.split)
  then show ?thesis unfolding validate_private_key_acl_def check_dacl_def check_entries_def token_user_def well_known_sid_def read_ace_def
    by (intro sets_intros) simp_all
qed

lemma sets_open_client_key: "sets ctx (open_validated_private_key_file env win32 path) id"
  unfolding open_validated_private_key_file_def open_validated_private_key_file_windows_def open_validated_private_key_file_portable_def
    key_descriptor_def key_stream_def check_client_key_def
  by (intro sets_intros sets_acl) simp_all

lemma sets_read_key: "sets ctx (read_client_key env f) id"
proof -
  have "fold (context_step ctx) cs = id" if "list_all (reads_file f) cs" for cs
    using that
  proof (induction cs)
    case (Cons c cs)
    then have "context_step ctx c = id" by (cases "(f, c)" rule: reads_file.cases) simp_all
    then show ?case using Cons by simp
  qed simp
  then have "sets ctx (read_key_loop env f []) id" unfolding sets_def using read_loop_calls by blast
  then show ?thesis unfolding read_client_key_def by (intro sets_intros)
qed

lemma sets_with_key:
  assumes "sets ctx rest g"
  shows "sets ctx (with_key env ctx who no_buffer key rest) (g \<circ> (\<lambda>st. st\<lparr>ts_key := True\<rparr>))"
proof -
  have "sets ctx (io_then (openssl_set env ctx (Use_key k) message) rest) (g \<circ> (\<lambda>st. st\<lparr>ts_key := True\<rparr>))" for k message
    using sets_then [OF sets_calls(2) [of ctx env "Use_key k" message] assms] by (simp add: configure_def [abs_def])
  then show ?thesis unfolding with_key_def
    by (intro sets_bind_id sets_if sets_finally sets_ask sets_do sets_basic other_calls)
qed

lemma sets_versions: "sets ctx (set_versions_and_ciphers env b ctx message)
    (\<lambda>st. st\<lparr>ts_key_checked := True, ts_minimum := TLSv1_2, ts_ciphers := Some cipher_list\<rparr>)"
proof -
  have "configure (Set_ciphersuites t) = id" for t by (simp add: configure_def fun_eq_iff)
  then have last: "sets ctx (if bf_ciphersuites b then openssl_set env ctx (Set_ciphersuites ciphersuites) m else io_return ()) id" for m
    using sets_calls(2) [of ctx env "Set_ciphersuites ciphersuites" m] by (auto intro: sets_if)
  show ?thesis unfolding set_versions_and_ciphers_def
    by (rule sets_cong, (rule sets_then sets_calls last)+) (simp add: configure_def fun_eq_iff)
qed

lemma context_run:
  assumes run: "with_context env kind body log = Some (Inr ctx, log')" and body: "sets ctx (body ctx) f"
  shows "\<exists>cs. log' = log @ cs \<and> settings ctx cs = f (initial_settings\<lparr>ts_disabled := [SSLv2, SSLv3, TLSv1, TLSv1_1]\<rparr>)"
proof -
  let ?new = "Ssl (Context_new kind)"
  let ?opts = "Set_options [SSLv2, SSLv3, TLSv1, TLSv1_1]"
  from run have "io_then (boost_set env ctx ?opts) (io_then (body ctx) (io_return ctx)) (log @ [?new]) = Some (Inr ctx, log')"
    by (auto simp: with_context_def run_Inr Let_def split: if_splits)
  moreover have "sets ctx (io_then (boost_set env ctx ?opts) (io_then (body ctx) (io_return ctx))) (id \<circ> f \<circ> configure ?opts)"
    by (intro sets_then sets_calls body sets_basic)
  ultimately obtain cs where cs: "log' = (log @ [?new]) @ cs" "fold (context_step ctx) cs = id \<circ> f \<circ> configure ?opts"
    unfolding sets_def by blast
  have "context_step ctx ?new = id" by (simp add: context_step_def fun_eq_iff)
  then have "settings ctx (?new # cs) = f (initial_settings\<lparr>ts_disabled := [SSLv2, SSLv3, TLSv1, TLSv1_1]\<rparr>)"
    by (simp add: settings_def cs(2) configure_def) (simp add: initial_settings_def)
  then show ?thesis using cs(1) by (intro exI [of _ "?new # cs"]) simp
qed

lemma sets_server:
  assumes "make_server_tls_context env b config log = Some (Inr ctx, log')"
  shows "\<exists>cs. log' = log @ cs \<and> settings ctx cs = initial_settings
    \<lparr>ts_disabled := [SSLv2, SSLv3, TLSv1, TLSv1_1], ts_minimum := TLSv1_2, ts_verify_peer := True, ts_require_certificate := True,
     ts_authorities := Some (st_client_ca_file config),
     ts_revoked := (if st_client_crl_file config = [] then None else Some (st_client_crl_file config)),
     ts_check_revoked := (st_client_crl_file config \<noteq> []), ts_key := True, ts_key_checked := True, ts_ciphers := Some cipher_list\<rparr>"
proof -
  let ?crl = "st_client_crl_file config"
  let ?rest = "\<lambda>st. st\<lparr>ts_authorities := Some (st_client_ca_file config), ts_verify_peer := True, ts_require_certificate := True,
      ts_revoked := (if ?crl = [] then ts_revoked st else Some ?crl),
      ts_check_revoked := (ts_check_revoked st \<or> ?crl \<noteq> []), ts_key_checked := True, ts_minimum := TLSv1_2, ts_ciphers := Some cipher_list\<rparr>"
  have lookup: "sets ctx (sys_ask env (Ssl (Context ctx Add_file_lookup))) id"
    by (rule sets_ask) (simp add: context_step_def configure_def fun_eq_iff)
  have crl: "sets ctx (load_client_crl env ctx ?crl) (\<lambda>st. st\<lparr>ts_revoked := Some ?crl, ts_check_revoked := True\<rparr>)"
    unfolding load_client_crl_def
    by (rule sets_cong, (rule sets_then sets_bind_id [OF lookup] sets_if sets_basic sets_calls)+) (simp add: configure_def fun_eq_iff)
  have maybe: "sets ctx (if ?crl \<noteq> [] then load_client_crl env ctx ?crl else io_return ())
      (if ?crl = [] then id else (\<lambda>st. st\<lparr>ts_revoked := Some ?crl, ts_check_revoked := True\<rparr>))"
    using crl by simp
  have rest: "sets ctx (server_settings env b config ctx) ?rest"
    unfolding server_settings_def
    by (rule sets_cong, (rule sets_then sets_calls maybe sets_versions)+) (auto simp: configure_def fun_eq_iff)
  have unix: "sets ctx (with_server_key env ctx path (server_settings env b config ctx)) (?rest \<circ> (\<lambda>st. st\<lparr>ts_key := True\<rparr>))" for path
    unfolding with_server_key_def Let_def
    by (intro sets_bind_id sets_open_server_key sets_finally sets_ask sets_do sets_if sets_basic other_calls sets_with_key rest)
  have other: "sets ctx (io_then (boost_set env ctx (Use_key_file path)) (server_settings env b config ctx))
      (?rest \<circ> (\<lambda>st. st\<lparr>ts_key := True\<rparr>))" for path
    by (rule sets_cong, (rule sets_then sets_calls rest)+) (simp add: configure_def fun_eq_iff)
  show ?thesis
  proof -
    let ?body = "\<lambda>ctx. io_then (boost_set env ctx (Use_chain_file (st_certificate_chain_file config)))
       (if bf_unix b then with_server_key env ctx (st_private_key_file config) (server_settings env b config ctx)
        else io_then (boost_set env ctx (Use_key_file (st_private_key_file config))) (server_settings env b config ctx))"
    have "with_context env Tls_server ?body log = Some (Inr ctx, log')"
      using assms by (simp add: make_server_tls_context_def io_throw_def split: if_splits)
    moreover have "sets ctx (?body ctx) (?rest \<circ> (\<lambda>st. st\<lparr>ts_key := True\<rparr>) \<circ> configure (Use_chain_file (st_certificate_chain_file config)))"
      by (intro sets_then sets_calls sets_if unix other)
    ultimately show ?thesis by (rule context_run [THEN exE]) (auto simp: configure_def initial_settings_def)
  qed
qed

lemma sets_client:
  assumes "make_client_tls_context env b config log = Some (Inr ctx, log')"
  shows "\<exists>cs. log' = log @ cs \<and> settings ctx cs = initial_settings
    \<lparr>ts_disabled := [SSLv2, SSLv3, TLSv1, TLSv1_1], ts_minimum := TLSv1_2, ts_verify_peer := True,
     ts_authorities := Some (ct_ca_file config), ts_host := Some (ct_expected_server_name config),
     ts_key := True, ts_key_checked := True, ts_ciphers := Some cipher_list\<rparr>"
proof -
  let ?rest = "\<lambda>st. st\<lparr>ts_verify_peer := True, ts_require_certificate := False, ts_host := Some (ct_expected_server_name config),
      ts_key_checked := True, ts_minimum := TLSv1_2, ts_ciphers := Some cipher_list\<rparr>"
  have rest: "sets ctx (client_settings env b config ctx) ?rest"
    unfolding client_settings_def
    by (rule sets_cong, (rule sets_then sets_calls sets_versions)+) (auto simp: configure_def fun_eq_iff)
  have key: "sets ctx (with_client_key env win32 ctx path (client_settings env b config ctx)) (?rest \<circ> (\<lambda>st. st\<lparr>ts_key := True\<rparr>))" for win32 path
    unfolding with_client_key_def
    by (intro sets_bind_id sets_open_client_key sets_on_throw sets_read_key sets_finally sets_do other_calls sets_with_key rest)
  let ?body = "\<lambda>ctx. io_then (boost_set env ctx (Load_verify_file (ct_ca_file config)))
     (io_then (boost_set env ctx (Use_chain_file (ct_certificate_chain_file config)))
       (with_client_key env (bf_win32 b) ctx (ct_private_key_file config) (client_settings env b config ctx)))"
  have "with_context env Tls_client ?body log = Some (Inr ctx, log')"
    using assms by (simp add: make_client_tls_context_def io_throw_def split: if_splits)
  moreover have "sets ctx (?body ctx) (?rest \<circ> (\<lambda>st. st\<lparr>ts_key := True\<rparr>) \<circ> configure (Use_chain_file (ct_certificate_chain_file config))
      \<circ> configure (Load_verify_file (ct_ca_file config)))"
    by (intro sets_then sets_calls key)
  ultimately show ?thesis by (rule context_run [THEN exE]) (auto simp: configure_def initial_settings_def)
qed

lemma versions_accepted:
  "ts_disabled st = [SSLv2, SSLv3, TLSv1, TLSv1_1] \<Longrightarrow> ts_minimum st = TLSv1_2
    \<Longrightarrow> accepts_version st v \<longleftrightarrow> v = TLSv1_2 \<or> v = TLSv1_3"
  by (cases v) (simp_all add: accepts_version_def)

section \<open>The key that was read\<close>

lemma server_key_run:
  assumes "open_validated_server_private_key env path log = Some (Inr f, log')"
  shows "\<exists>d mid a. log' = mid @ [File (Fd_stat d), File Get_euid]
     \<and> mid = log @ [File (Posix_open path [O_RDONLY, O_CLOEXEC, O_NOFOLLOW, O_NONBLOCK]), File (Fd_open d)]
     \<and> a = sys_answer env mid (File (Fd_stat d)) \<and> sa_bits a AND S_IFMT = S_IFREG \<and> sa_bits a AND group_and_other = 0
     \<and> sa_user a = sa_user (sys_answer env (mid @ [File (Fd_stat d)]) (File Get_euid))"
  using assms by (auto simp: open_validated_server_private_key_def check_server_key_def run_Inr Let_def split: if_splits)

lemma triple_extends: "triple env P m Q \<Longrightarrow> m log = Some (r, log') \<Longrightarrow> \<exists>cs. log' = log @ cs"
  unfolding triple_def by blast

lemma scope_opens:
  assumes "io_bind m (\<lambda>f. io_finally (body f) (sys_do env (c f))) log = Some (r, log')" "r = Inr y"
    and "\<And>f. triple env {#} (body f) (\<lambda>_. {#})"
  shows "\<exists>f mid cs. m log = Some (Inr f, mid) \<and> log' = mid @ cs"
  using assms(1,2) triple_extends [OF assms(3)] by (fastforce simp: run_Inr sys_do_def)

text \<open>The file that was opened was checked, by its descriptor and before anything was read from it.\<close>

definition key_file_private :: "sys \<Rightarrow> string \<Rightarrow> sys_call list \<Rightarrow> sys_call list \<Rightarrow> bool" where
  "key_file_private env path log cs \<longleftrightarrow> (\<exists>pre d post a. cs = pre
       @ [File (Posix_open path [O_RDONLY, O_CLOEXEC, O_NOFOLLOW, O_NONBLOCK]), File (Fd_open d), File (Fd_stat d), File Get_euid] @ post
     \<and> a = sys_answer env (log @ pre @ [File (Posix_open path [O_RDONLY, O_CLOEXEC, O_NOFOLLOW, O_NONBLOCK]), File (Fd_open d)])
             (File (Fd_stat d))
     \<and> sa_bits a AND S_IFMT = S_IFREG \<and> sa_bits a AND group_and_other = 0
     \<and> sa_user a = sa_user (sys_answer env (log @ pre @ [File (Posix_open path [O_RDONLY, O_CLOEXEC, O_NOFOLLOW, O_NONBLOCK]),
             File (Fd_open d), File (Fd_stat d)]) (File Get_euid)))"

lemma server_key_private:
  assumes "make_server_tls_context env b config log = Some (Inr ctx, log @ cs)" "bf_unix b"
  shows "key_file_private env (st_private_key_file config) log cs"
proof -
  let ?new = "Ssl (Context_new Tls_server)"
  let ?h = "sa_handle (sys_answer env log ?new)"
  let ?pre = "[?new, Ssl (Context ?h (Set_options [SSLv2, SSLv3, TLSv1, TLSv1_1])),
    Ssl (Context ?h (Use_chain_file (st_certificate_chain_file config)))]"
  from assms have "with_server_key env ?h (st_private_key_file config) (server_settings env b config ?h) (log @ ?pre) = Some (Inr (), log @ cs)"
    by (auto simp: make_server_tls_context_def with_context_def boost_set_def run_Inr Let_def split: if_splits)
  then obtain f mid where f: "open_validated_server_private_key env (st_private_key_file config) (log @ ?pre) = Some (Inr f, mid)"
    and post: "\<exists>post. log @ cs = mid @ post"
    unfolding with_server_key_def
    by (atomize_elim, drule_tac scope_opens [OF _ refl])
      (auto intro!: neutral_finally_triple triple_neutral triple_throw with_key_triple server_settings_triple simp: Let_def)
  from server_key_run [OF f] obtain d m a where k: "mid = m @ [File (Fd_stat d), File Get_euid]"
    "m = (log @ ?pre) @ [File (Posix_open (st_private_key_file config) [O_RDONLY, O_CLOEXEC, O_NOFOLLOW, O_NONBLOCK]), File (Fd_open d)]"
    "a = sys_answer env m (File (Fd_stat d))" "sa_bits a AND S_IFMT = S_IFREG" "sa_bits a AND group_and_other = 0"
    "sa_user a = sa_user (sys_answer env (m @ [File (Fd_stat d)]) (File Get_euid))" by blast
  from post obtain post where "log @ cs = mid @ post" ..
  then show ?thesis unfolding key_file_private_def using k
    by (intro exI [of _ ?pre] exI [of _ d] exI [of _ post] exI [of _ a]) simp
qed

section \<open>Properties\<close>

fun split_colon :: "string \<Rightarrow> string \<Rightarrow> string list" where
  "split_colon word [] = [word]"
| "split_colon word (c # cs) = (if c = CHR '':'' then word # split_colon [] cs else split_colon (word @ [c]) cs)"

definition forward_secret :: "string \<Rightarrow> bool" where
  "forward_secret ciphers \<longleftrightarrow> list_all (\<lambda>cipher. take 6 cipher = ''ECDHE-'') (split_colon [] ciphers)"

definition hardened :: "tls_settings \<Rightarrow> bool" where
  "hardened st \<longleftrightarrow> (\<forall>v. accepts_version st v \<longleftrightarrow> v = TLSv1_2 \<or> v = TLSv1_3) \<and> ts_verify_peer st \<and> ts_key st \<and> ts_key_checked st
     \<and> (\<exists>ciphers. ts_ciphers st = Some ciphers \<and> forward_secret ciphers)"

lemma ciphers_forward_secret: "forward_secret cipher_list"
  by code_simp

lemma server_hardened:
  assumes run: "make_server_tls_context env b config log = Some (Inr ctx, log')"
  shows "\<exists>cs. log' = log @ cs \<and> hardened (settings ctx cs) \<and> ts_require_certificate (settings ctx cs)
         \<and> ts_authorities (settings ctx cs) = Some (st_client_ca_file config)
         \<and> (st_client_crl_file config \<noteq> [] \<longrightarrow>
              ts_check_revoked (settings ctx cs) \<and> ts_revoked (settings ctx cs) = Some (st_client_crl_file config))
         \<and> (bf_unix b \<longrightarrow> key_file_private env (st_private_key_file config) log cs)"
proof -
  from sets_server [OF run] obtain cs where cs: "log' = log @ cs" and st: "settings ctx cs = initial_settings
    \<lparr>ts_disabled := [SSLv2, SSLv3, TLSv1, TLSv1_1], ts_minimum := TLSv1_2, ts_verify_peer := True, ts_require_certificate := True,
     ts_authorities := Some (st_client_ca_file config),
     ts_revoked := (if st_client_crl_file config = [] then None else Some (st_client_crl_file config)),
     ts_check_revoked := (st_client_crl_file config \<noteq> []), ts_key := True, ts_key_checked := True, ts_ciphers := Some cipher_list\<rparr>"
    by blast
  have "hardened (settings ctx cs)" unfolding hardened_def st by (simp add: versions_accepted ciphers_forward_secret)
  then show ?thesis
    using cs run server_key_private [of env b config log ctx cs] by (intro exI [of _ cs]) (simp add: st)
qed

lemma client_hardened:
  assumes "make_client_tls_context env b config log = Some (Inr ctx, log')"
  shows "\<exists>cs. log' = log @ cs \<and> hardened (settings ctx cs) \<and> ts_host (settings ctx cs) = Some (ct_expected_server_name config)
         \<and> ts_authorities (settings ctx cs) = Some (ct_ca_file config)"
proof -
  from sets_client [OF assms] obtain cs where cs: "log' = log @ cs" and st: "settings ctx cs = initial_settings
    \<lparr>ts_disabled := [SSLv2, SSLv3, TLSv1, TLSv1_1], ts_minimum := TLSv1_2, ts_verify_peer := True,
     ts_authorities := Some (ct_ca_file config), ts_host := Some (ct_expected_server_name config),
     ts_key := True, ts_key_checked := True, ts_ciphers := Some cipher_list\<rparr>" by blast
  have "hardened (settings ctx cs)" unfolding hardened_def st by (simp add: versions_accepted ciphers_forward_secret)
  then show ?thesis
    using cs by (intro exI [of _ cs]) (simp add: st)
qed


definition demo_build :: build where
  "demo_build = \<lparr>bf_unix = True, bf_win32 = True, bf_ciphersuites = True\<rparr>"

definition demo_server_tls :: ServerTlsConfig where
  "demo_server_tls = \<lparr>st_certificate_chain_file = ''chain'', st_private_key_file = ''key'', st_client_ca_file = ''ca'', st_client_crl_file = ''crl''\<rparr>"

definition demo_client_tls :: ClientTlsConfig where
  "demo_client_tls = \<lparr>ct_ca_file = ''ca'', ct_certificate_chain_file = ''chain'', ct_private_key_file = ''key'', ct_expected_server_name = ''vpn''\<rparr>"

lemma demo_answers: "sa_ok (sys_answer demo_sys log c)" "sa_handle (sys_answer demo_sys log c) = 7"
  "sa_error (sys_answer demo_sys log (File f)) = 0" "sa_bytes (sys_answer demo_sys log c) = demo_bytes log c"
  by (simp_all add: demo_sys_def)

lemma demo_runs [simp]:
  "boost_set demo_sys ctx c log = Some (Inr (), log @ [Ssl (Context ctx c)])"
  "openssl_set demo_sys ctx c message log = Some (Inr (), log @ [Ssl (Context ctx c)])"
  "sys_do demo_sys s log = Some (Inr (), log @ [s])"
  "ask (sys_answer demo_sys) s log = Some (Inr (sys_answer demo_sys log s), log @ [s])"
  by (simp_all add: boost_set_def openssl_set_def sys_do_def io_then_def io_bind_def ask_def io_return_def demo_answers)

lemmas demo_run = io_then_def io_bind_def io_return_def io_finally_def io_on_throw_def demo_answers

lemma demo_with_key:
  assumes "\<And>log. \<exists>log'. rest log = Some (Inr (), log')"
  shows "\<exists>log'. with_key demo_sys ctx who no_buffer key rest log = Some (Inr (), log')"
proof -
  obtain log' where "rest (log @ [Ssl (Bio_new key), Ssl (Read_key 7), Ssl (Context ctx (Use_key 7))]) = Some (Inr (), log')"
    using assms by blast
  then show ?thesis by (simp add: with_key_def demo_run)
qed

lemma demo_short: "length (demo_bytes log c) \<le> 32"
  by (simp add: demo_bytes_def split: sys_call.split file_call.split acl_call.split)

lemma demo_settings:
  "\<exists>log'. server_settings demo_sys demo_build demo_server_tls 7 log = Some (Inr (), log')"
  "\<exists>log'. client_settings demo_sys demo_build demo_client_tls 7 log = Some (Inr (), log')"
  by (simp_all add: server_settings_def client_settings_def load_client_crl_def set_versions_and_ciphers_def demo_run demo_build_def)

lemma demo_server_key: "open_validated_server_private_key demo_sys ''key'' log = Some (Inr 7, log @ [File (Posix_open ''key'' [O_RDONLY, O_CLOEXEC, O_NOFOLLOW, O_NONBLOCK]),
      File (Fd_open 7), File (Fd_stat 7), File Get_euid])"
  by (simp add: open_validated_server_private_key_def check_server_key_def demo_run Let_def)
    (simp add: demo_sys_def S_IFMT_def S_IFREG_def group_and_other_def)

lemma demo_server_context: "\<exists>log'. make_server_tls_context demo_sys demo_build demo_server_tls log = Some (Inr 7, log')"
proof -
  have key: "\<exists>log'. with_server_key demo_sys 7 ''key'' (server_settings demo_sys demo_build demo_server_tls 7) log = Some (Inr (), log')" for log
  proof -
    let ?mid = "log @ [File (Posix_open ''key'' [O_RDONLY, O_CLOEXEC, O_NOFOLLOW, O_NONBLOCK]), File (Fd_open 7), File (Fd_stat 7), File Get_euid]"
    let ?c = "File (C_read 7 (maximum_private_key_file_size + 1))"
    let ?key = "take (maximum_private_key_file_size + 1) (demo_bytes ?mid ?c)"
    obtain log' where k: "with_key demo_sys 7 ''server'' ''failed to buffer server private key'' ?key
        (server_settings demo_sys demo_build demo_server_tls 7) (?mid @ [?c, File (C_error 7)]) = Some (Inr (), log')"
      using demo_with_key [where rest = "server_settings demo_sys demo_build demo_server_tls 7", OF demo_settings(1)] by blast
    have "\<not> length ?key > maximum_private_key_file_size"
      using demo_short [of ?mid ?c] by (simp add: maximum_private_key_file_size_def)
    with k show ?thesis by (simp add: with_server_key_def demo_server_key demo_run Let_def)
  qed
  show ?thesis using key [of "log @ [Ssl (Context_new Tls_server), Ssl (Context 7 (Set_options [SSLv2, SSLv3, TLSv1, TLSv1_1])),
      Ssl (Context 7 (Use_chain_file ''chain''))]"]
    by (auto simp: make_server_tls_context_def with_context_def Let_def demo_run demo_build_def demo_server_tls_def)
qed

lemma demo_read:
  assumes "\<not> list_ex is_read log"
  shows "\<exists>log'. read_client_key demo_sys 7 log = Some (Inr (replicate 32 5), log')"
proof -
  let ?c = "\<lambda>n. File (C_read 7 n)"
  have first: "demo_bytes log (?c n) = replicate 32 5" for n using assms by (simp add: demo_bytes_def)
  have next_read: "demo_bytes (log @ [?c m]) (?c n) = []" for m n by (simp add: demo_bytes_def is_read_def)
  have "\<exists>log'. read_key_loop demo_sys 7 (replicate 32 5) (log @ [?c n]) = Some (Inr (replicate 32 5), log')" for n
    by (simp add: read_key_loop.simps [of demo_sys 7 "replicate 32 5"] demo_answers next_read Let_def)
  then have "\<exists>log'. read_key_loop demo_sys 7 [] log = Some (Inr (replicate 32 5), log')"
    by (simp add: read_key_loop.simps [of demo_sys 7 "[]"] demo_answers first Let_def kMaximumPrivateKeyBytes_def)
  then show ?thesis by (auto simp: read_client_key_def io_bind_def io_return_def kMaximumPrivateKeyBytes_def)
qed

lemma demo_client_context: "\<exists>log'. make_client_tls_context demo_sys demo_build demo_client_tls [] = Some (Inr 7, log')"
proof -
  let ?pre = "[Ssl (Context_new Tls_client), Ssl (Context 7 (Set_options [SSLv2, SSLv3, TLSv1, TLSv1_1])),
      Ssl (Context 7 (Load_verify_file ''ca'')), Ssl (Context 7 (Use_chain_file ''chain''))]"
  have "map_option (\<lambda>(r, log). (r, list_ex is_read log)) (open_validated_private_key_file demo_sys True ''key'' ?pre) = Some (Inr 7, False)"
    by code_simp
  then obtain mid where opened: "open_validated_private_key_file demo_sys True ''key'' ?pre = Some (Inr 7, mid)" "\<not> list_ex is_read mid" by auto
  obtain mid2 where key: "read_client_key demo_sys 7 mid = Some (Inr (replicate 32 5), mid2)" using demo_read [OF opened(2)] by blast
  obtain log' where "with_key demo_sys 7 ''client'' ''failed to create private-key memory BIO'' (replicate 32 5)
      (client_settings demo_sys demo_build demo_client_tls 7) mid2 = Some (Inr (), log')"
    using demo_with_key [where rest = "client_settings demo_sys demo_build demo_client_tls 7", OF demo_settings(2)] by blast
  then have "\<exists>log'. with_client_key demo_sys True 7 ''key'' (client_settings demo_sys demo_build demo_client_tls 7) ?pre = Some (Inr (), log')"
    by (simp add: with_client_key_def opened(1) key demo_run)
  then show ?thesis by (auto simp: make_client_tls_context_def with_context_def Let_def demo_run demo_build_def demo_client_tls_def)
qed


section \<open>Traces of the key\<close>

definition is_cleanse :: "sys_call \<Rightarrow> bool" where
  "is_cleanse c = (case c of Ssl t \<Rightarrow> (case t of Cleanse _ \<Rightarrow> True | _ \<Rightarrow> False) | _ \<Rightarrow> False)"

lemma is_read_simps [simp]: "is_read (File (C_read f n))" "\<not> is_read (Acl a)" "\<not> is_read (Ssl t)"
  "\<not> is_read (File (Posix_open p fs))" "\<not> is_read (File (Fd_open d))" "\<not> is_read (File (Fd_close d))" "\<not> is_read (File (Fd_stat d))"
  "\<not> is_read (File Get_euid)" "\<not> is_read (File (C_open p))" "\<not> is_read (File (C_close f))" "\<not> is_read (File (C_error f))"
  by (simp_all add: is_read_def)

text \<open>Whether a buffer holds what was read from a file, from what it was before.\<close>

fun dirty :: "bool \<Rightarrow> sys_call list \<Rightarrow> bool" where
  "dirty d [] \<longleftrightarrow> d"
| "dirty d (c # cs) \<longleftrightarrow> dirty (is_read c \<or> d \<and> \<not> is_cleanse c) cs"

lemma dirty_append [simp]: "dirty d (cs @ ds) = dirty (dirty d cs) ds"
  by (induction cs arbitrary: d) simp_all

text \<open>Computations after which a clean buffer is clean, and after which any buffer is.\<close>

definition clean :: "'a sys_comp \<Rightarrow> bool" where
  "clean m \<longleftrightarrow> emits m (\<lambda>_ _ cs. \<not> dirty False cs)"

definition cleaning :: "'a sys_comp \<Rightarrow> bool" where
  "cleaning m \<longleftrightarrow> emits m (\<lambda>_ _ cs. \<not> dirty True cs \<and> \<not> dirty False cs)"

lemma dirty_unread: "list_all (\<lambda>c. \<not> is_read c) cs \<Longrightarrow> \<not> dirty False cs"
  by (induction cs) simp_all

lemma clean_unread: "only (\<lambda>c. \<not> is_read c) m \<Longrightarrow> clean m"
  unfolding only_def clean_def by (erule emits_mono) (rule dirty_unread)

lemma cleaning_clean: "cleaning m \<Longrightarrow> clean m"
  unfolding cleaning_def clean_def by (erule emits_mono) simp

lemma clean_bind: "clean m \<Longrightarrow> (\<And>x. clean (f x)) \<Longrightarrow> clean (io_bind m f)"
  unfolding clean_def by (erule emits_bind, assumption) auto

lemma clean_then: "clean m \<Longrightarrow> clean n \<Longrightarrow> clean (io_then m n)"
  by (simp add: io_then_def clean_bind)

lemma clean_finally: "clean m \<Longrightarrow> \<not> is_read c \<Longrightarrow> clean (io_finally m (sys_do env c))"
  unfolding clean_def
  by (erule emits_cleanup [where C = "\<lambda>_ _ cs. cs = [c]"])
    (auto simp: do_quiet emits_def sys_do_def io_then_def io_bind_def ask_def io_return_def)

lemma cleanse_finally:
  assumes "triple env P m Q"
  shows "cleaning (io_finally m (sys_do env (Ssl (Cleanse n))))"
  unfolding cleaning_def
proof (rule emits_cleanup [where P = "\<lambda>_ _ _. True" and C = "\<lambda>_ _ cs. cs = [Ssl (Cleanse n)]"])
  show "emits m (\<lambda>_ _ _. True)" using triple_extends [OF assms] by (auto simp: emits_def)
  show "emits (sys_do env (Ssl (Cleanse n))) (\<lambda>_ _ cs. cs = [Ssl (Cleanse n)])"
    by (auto simp: emits_def sys_do_def io_then_def io_bind_def ask_def io_return_def)
qed (auto simp: do_quiet is_cleanse_def)

lemma unread_do: "\<not> is_read c \<Longrightarrow> only (\<lambda>c. \<not> is_read c) (sys_do env c)"
  by (simp add: sys_do_def only_then)

lemma unread_owned: "\<not> is_read (f h) \<Longrightarrow> only (\<lambda>c. \<not> is_read c) (owned env f h)"
  by (simp add: owned_def unread_do)

lemma unread_set: "only (\<lambda>c. \<not> is_read c) (boost_set env ctx c)"
  by (auto simp: boost_set_def intro!: only_intros)

lemma unread_open: "only (\<lambda>c. \<not> is_read c) (open_validated_server_private_key env path)"
  "only (\<lambda>c. \<not> is_read c) (open_validated_private_key_file env win32 path)"
proof -
  show "only (\<lambda>c. \<not> is_read c) (open_validated_server_private_key env path)"
    unfolding open_validated_server_private_key_def check_server_key_def Let_def
    by (auto intro!: only_intros unread_do)
  have "only (\<lambda>c. \<not> is_read c) (check_ace trusted e)" for trusted e by (simp add: check_ace_def split: ace.split)
  then have "only (\<lambda>c. \<not> is_read c) (validate_private_key_acl env h)" for h
    unfolding validate_private_key_acl_def check_dacl_def check_entries_def token_user_def well_known_sid_def read_ace_def
    by (auto intro!: only_intros unread_owned)
  then show "only (\<lambda>c. \<not> is_read c) (open_validated_private_key_file env win32 path)"
    unfolding open_validated_private_key_file_def open_validated_private_key_file_windows_def
      open_validated_private_key_file_portable_def key_descriptor_def key_stream_def check_client_key_def
    by (auto intro!: only_intros unread_owned unread_do)
qed

lemma clean_on_throw: "clean m \<Longrightarrow> clean c \<Longrightarrow> clean (io_on_throw m c)"
  unfolding clean_def by (erule emits_recover, assumption) auto

lemma cleaning_bind:
  "emits m (\<lambda>_ r cs. \<forall>e. r = Inl e \<longrightarrow> \<not> dirty True cs \<and> \<not> dirty False cs) \<Longrightarrow> (\<And>x. cleaning (f x)) \<Longrightarrow> cleaning (io_bind m f)"
  unfolding cleaning_def
proof (erule emits_bind, assumption)
  fix log x cs1 r cs2
  assume "\<not> dirty True cs2 \<and> \<not> dirty False cs2"
  then show "\<not> dirty True (cs1 @ cs2) \<and> \<not> dirty False (cs1 @ cs2)" by (cases "dirty True cs1"; cases "dirty False cs1") simp_all
qed simp

lemma unread_settings: "only (\<lambda>c. \<not> is_read c) (server_settings env b config ctx)"
proof -
  have s: "only (\<lambda>c. \<not> is_read c) (openssl_set env ctx c message)" "only (\<lambda>c. \<not> is_read c) (openssl_throw env message :: unit sys_comp)" for c message
    by (auto simp: openssl_set_def openssl_throw_def openssl_error_def intro!: only_intros)
  show ?thesis unfolding server_settings_def load_client_crl_def set_versions_and_ciphers_def
    by (auto intro!: only_intros unread_set s)
qed

lemma clean_basic [simp]: "clean (io_return x)" "clean (io_throw e)" "\<not> is_read c \<Longrightarrow> clean (sys_ask env c)"
  "\<not> is_read c \<Longrightarrow> clean (sys_do env c)" "clean (boost_set env ctx s)"
  by (simp_all add: clean_unread unread_do unread_set)

lemma clean_context: "(\<And>ctx. clean (body ctx)) \<Longrightarrow> clean (with_context env kind body)"
  unfolding with_context_def Let_def
  by (auto intro!: clean_bind clean_on_throw clean_then)

lemma server_clean: "clean (make_server_tls_context env b config)"
proof -
  have "triple env {#} (io_bind (sys_ask env (File (C_read f (maximum_private_key_file_size + 1)))) (\<lambda>a.
         io_bind (sys_ask env (File (C_error f))) (\<lambda>e.
          let key = take (maximum_private_key_file_size + 1) (sa_bytes a)
          in if sa_error e \<noteq> 0 then io_throw (Runtime_error ''failed to read server private key'')
             else if length key > maximum_private_key_file_size then
               io_throw (Invalid_argument ''server private key file must not exceed 1 MiB'')
             else with_key env ctx ''server'' ''failed to buffer server private key'' key (server_settings env b config ctx)))) (\<lambda>_. {#})" for f ctx
    by (auto simp: Let_def intro!: triple_neutral triple_throw with_key_triple server_settings_triple)
  then have "clean (with_server_key env ctx path (server_settings env b config ctx))" for ctx path
    unfolding with_server_key_def
    by (intro clean_bind clean_unread [OF unread_open(1)] clean_finally cleaning_clean cleanse_finally) simp_all
  then show ?thesis unfolding make_server_tls_context_def
    by (auto intro!: clean_context clean_then clean_unread [OF unread_settings])
qed

lemma client_clean: "clean (make_client_tls_context env b config)"
proof -
  have read: "emits (io_on_throw (read_client_key env f) (sys_do env (Ssl (Cleanse n))))
      (\<lambda>_ r cs. \<forall>e. r = Inl e \<longrightarrow> \<not> dirty True cs \<and> \<not> dirty False cs)" for f n
  proof (rule emits_recover [where P = "\<lambda>_ _ _. True" and C = "\<lambda>_ _ cs. cs = [Ssl (Cleanse n)]"])
    show "emits (read_client_key env f) (\<lambda>_ _ _. True)" using triple_extends [OF read_key_triple] by (auto simp: emits_def)
    show "emits (sys_do env (Ssl (Cleanse n))) (\<lambda>_ _ cs. cs = [Ssl (Cleanse n)])"
      by (auto simp: emits_def sys_do_def io_then_def io_bind_def ask_def io_return_def)
  qed (auto simp: is_cleanse_def)
  have settings: "triple env {#} (with_key env ctx who m key (client_settings env b config ctx)) (\<lambda>_. {#})" for ctx who m key
    by (rule with_key_triple) (auto simp: client_settings_def intro!: triple_then [OF set_triple(1)] versions_triple)
  have "clean (with_client_key env win32 ctx path (client_settings env b config ctx))" for win32 ctx path
    unfolding with_client_key_def
    by (intro clean_bind [OF clean_unread [OF unread_open(2)]] clean_finally cleaning_clean cleaning_bind read cleanse_finally [OF settings]) simp_all
  then show ?thesis unfolding make_client_tls_context_def
    by (auto intro!: clean_context clean_then)
qed

text \<open>The other functions keep nothing, and every one of them returns.\<close>

lemma close_triple: "triple env (on_ok (\<lambda>file. {#R_file file#}) (Inr f)) (sys_do env (File (C_close f))) (\<lambda>_. {#})"
  by (rule triple_do) (simp_all add: account)

lemma permissions_triple:
  "triple env {#} (validate_private_key_permissions env win32 path) (\<lambda>_. {#})"
  "triple env {#} (validate_server_private_key_permissions env b path) (\<lambda>_. {#})"
  unfolding validate_private_key_permissions_def validate_server_private_key_permissions_def
  by (intro triple_if triple_throw triple_return refl triple_bind [OF open_client_key_triple close_triple]
      triple_bind [OF open_server_key_triple close_triple]; simp)+

lemma digest_triple: "triple env F (certificate_sha256 env certificate) (\<lambda>_. F)"
  unfolding certificate_sha256_def by (auto intro!: triple_neutral triple_throw triple_return openssl_throw_triple)

lemma certificate_scope_triple:
  assumes body: "\<And>G a. triple env G (m a) (\<lambda>_. G)" and c: "gains c = (\<lambda>a. unless_null R_certificate (sa_handle a))" "gives_back c = (\<lambda>_. {#})"
  shows "triple env F (io_bind (sys_ask env c)
    (\<lambda>a. io_finally (m a) (owned env (\<lambda>h. Ssl (Certificate_free h)) (sa_handle a)))) (\<lambda>_. F)"
proof (rule triple_ask, goal_cases)
  case (2 a)
  show ?case unfolding c by (simp, rule triple_owned [OF body]) (simp_all add: account fun_eq_iff)
qed (simp add: c)

lemma identity_triple:
  "triple env {#} (peer_certificate_sha256 env ssl) (\<lambda>_. {#})"
  "triple env {#} (certificate_file_sha256 env path) (\<lambda>_. {#})"
proof -
  show "triple env {#} (peer_certificate_sha256 env ssl) (\<lambda>_. {#})"
    unfolding peer_certificate_sha256_def
    by (intro triple_if triple_throw triple_neutral refl certificate_scope_triple digest_triple) (simp_all add: account fun_eq_iff)
  have scope: "triple env (F + {#R_file f#}) (io_finally (io_bind (sys_ask env (Ssl (Read_certificate f))) (\<lambda>p.
             io_finally (if sa_handle p = 0 then openssl_throw env ''failed to parse certificate file''
               else certificate_sha256 env (sa_handle p)) (owned env (\<lambda>h. Ssl (Certificate_free h)) (sa_handle p))))
          (sys_do env (File (C_close f)))) (\<lambda>_. F)" for F f
    by (rule do_finally_triple [OF certificate_scope_triple]) (auto simp: account intro: openssl_throw_triple digest_triple)
  show "triple env {#} (certificate_file_sha256 env path) (\<lambda>_. {#})"
    unfolding certificate_file_sha256_def
    by (rule triple_ask) (use scope [of "{#}"] in \<open>auto simp: account intro: triple_throw\<close>)
qed

lemma read_loop_returns: "read_key_loop env f so_far log \<noteq> None"
  by (induction env f so_far log rule: read_key_loop.induct) (subst read_key_loop.simps, simp add: Let_def)

lemma sys_do_returns: "returns (sys_do env c)"
  unfolding sys_do_def by (intro returns_then) simp_all

lemma ssl_returns:
  "returns (openssl_throw env message)" "returns (boost_set env ctx c)" "returns (openssl_set env ctx c message)" "returns (owned env f h)"
  unfolding openssl_throw_def openssl_error_def boost_set_def openssl_set_def owned_def
  by (auto intro!: returns_bind sys_do_returns)

lemmas sys_returns = returns_bind returns_then returns_each returns_on_throw returns_finally sys_do_returns ssl_returns

lemma opening_returns:
  "returns (open_validated_server_private_key env path)" "returns (open_validated_private_key_file env win32 path)"
proof -
  show "returns (open_validated_server_private_key env path)"
    unfolding open_validated_server_private_key_def check_server_key_def Let_def by (auto intro!: sys_returns)
  have "returns (check_ace trusted entry)" for trusted entry by (simp add: check_ace_def split: ace.split)
  then have "returns (validate_private_key_acl env h)" for h
    unfolding validate_private_key_acl_def check_dacl_def check_entries_def token_user_def well_known_sid_def read_ace_def
    by (auto intro!: sys_returns)
  then have "returns (check_client_key env h)" for h unfolding check_client_key_def by (auto intro!: sys_returns)
  then show "returns (open_validated_private_key_file env win32 path)"
    unfolding open_validated_private_key_file_def open_validated_private_key_file_windows_def
      open_validated_private_key_file_portable_def key_descriptor_def key_stream_def by (auto intro!: sys_returns)
qed

lemma context_returns:
  "returns (make_server_tls_context env b config)" "returns (make_client_tls_context env b config')"
proof -
  have versions: "returns (set_versions_and_ciphers env b ctx m)" for ctx m
    unfolding set_versions_and_ciphers_def by (auto intro!: sys_returns)
  then have settings: "returns (server_settings env b config ctx)" "returns (client_settings env b config' ctx)" for ctx
    unfolding server_settings_def client_settings_def load_client_crl_def by (auto intro!: sys_returns)
  have key: "returns (with_key env ctx who m k rest)" if "returns rest" for ctx who m k rest
    unfolding with_key_def using that by (auto intro!: sys_returns)
  have read: "returns (read_client_key env f)" for f
  proof -
    have "returns (read_key_loop env f [])" by (simp only: returns_def read_loop_returns not_False_eq_True simp_thms)
    then show ?thesis unfolding read_client_key_def by (auto intro!: returns_bind)
  qed
  have "returns (with_server_key env ctx path (server_settings env b config ctx))"
    "returns (with_client_key env win32 ctx path (client_settings env b config' ctx))" for ctx path win32
    unfolding with_server_key_def with_client_key_def Let_def by (auto intro!: sys_returns key settings opening_returns read)
  then show "returns (make_server_tls_context env b config)" "returns (make_client_tls_context env b config')"
    unfolding make_server_tls_context_def make_client_tls_context_def with_context_def Let_def by (auto intro!: sys_returns settings)
qed

lemma others_return:
  "returns (validate_private_key_permissions env win32 path)" "returns (validate_server_private_key_permissions env b path)"
  "returns (peer_certificate_sha256 env ssl)" "returns (certificate_file_sha256 env path)"
  unfolding validate_private_key_permissions_def validate_server_private_key_permissions_def peer_certificate_sha256_def
    certificate_file_sha256_def certificate_sha256_def
  by (auto intro!: sys_returns opening_returns)

lemma returns_account:
  assumes "returns m" "triple env {#} m Q"
  shows "\<exists>r cs. m log = Some (r, log @ cs) \<and> held env log cs H = Some (H + Q r)"
proof -
  obtain r log' where run: "m log = Some (r, log')" using assms(1) by (fastforce simp: returns_def)
  obtain cs where "log' = log @ cs" "held env log cs (H + {#}) = Some (H + Q r)" by (rule tripleD [OF assms(2) run])
  then show ?thesis using run by auto
qed

lemma context_account:
  assumes "returns m" "triple env {#} m Q" "clean m"
  shows "\<exists>r cs. m log = Some (r, log @ cs) \<and> held env log cs H = Some (H + Q r) \<and> \<not> dirty False cs"
proof -
  from returns_account [OF assms(1,2)] obtain r cs where run: "m log = Some (r, log @ cs)" "held env log cs H = Some (H + Q r)" by blast
  obtain ds where "log @ cs = log @ ds" "\<not> dirty False ds" by (rule emitsD [OF assms(3) [unfolded clean_def] run(1)])
  then show ?thesis using run by auto
qed


section \<open>Identities\<close>

lemma hex_digit_inject: "m < 16 \<Longrightarrow> n < 16 \<Longrightarrow> hex_digit m = hex_digit n \<longleftrightarrow> m = n"
proof -
  assume "m < 16" "n < 16"
  moreover have "\<forall>m\<in>set [0..<16]. \<forall>n\<in>set [0..<16]. hex_digit m = hex_digit n \<longrightarrow> m = n" by code_simp
  ultimately show ?thesis by auto
qed

lemma nibble_bound: "unat ((x :: u8) AND 0x0F) < 16"
proof -
  have "x AND 0x0F \<le> 0x0F" by (rule word_and_le1)
  then show ?thesis by (simp add: word_le_nat_alt)
qed

lemma octet_nibbles: "(x :: u8) AND 0x0F = y AND 0x0F \<Longrightarrow> drop_bit 4 x AND 0x0F = drop_bit 4 y AND 0x0F \<Longrightarrow> x = y"
proof (rule bit_word_eqI)
  fix n
  assume low: "x AND 0x0F = y AND 0x0F" and high: "drop_bit 4 x AND 0x0F = drop_bit 4 y AND 0x0F" and n: "n < LENGTH(8)"
  have m: "(0x0F :: u8) = mask 4" by (simp add: mask_eq_exp_minus_1)
  from low have "bit (x AND mask 4) n = bit (y AND mask 4) n" unfolding m by simp
  moreover from high have "bit (drop_bit 4 x AND mask 4) (n - 4) = bit (drop_bit 4 y AND mask 4) (n - 4)" unfolding m by simp
  moreover have "n - 4 < 4" using n by simp
  ultimately show "bit x n = bit y n" using n by (cases "n < 4") (simp_all add: bit_and_iff bit_mask_iff bit_drop_bit_eq)
qed

lemma hex_octet_inject:
  assumes "hex_digit (unat (drop_bit 4 x AND 0x0F)) = hex_digit (unat (drop_bit 4 y AND 0x0F))"
    "hex_digit (unat (x AND 0x0F)) = hex_digit (unat (y AND 0x0F))"
  shows "x = (y :: u8)"
proof (rule octet_nibbles)
  show "x AND 0x0F = y AND 0x0F"
    using assms(2) hex_digit_inject [OF nibble_bound nibble_bound, of x y] by (simp only: word_unat_eq_iff)
  show "drop_bit 4 x AND 0x0F = drop_bit 4 y AND 0x0F"
    using assms(1) hex_digit_inject [OF nibble_bound nibble_bound, of "drop_bit 4 x" "drop_bit 4 y"] by (simp only: word_unat_eq_iff)
qed

lemma hex_text_inject: "hex_text xs = hex_text ys \<Longrightarrow> xs = ys"
proof (induction xs arbitrary: ys)
  case Nil
  then show ?case by (cases ys) simp_all
next
  case (Cons x xs)
  show ?case
  proof (cases ys)
    case Nil
    then show ?thesis using Cons.prems by simp
  next
    case ys: (Cons y zs)
    note eq = Cons.prems [unfolded ys hex_text.simps list.inject]
    have "x = y" using eq hex_octet_inject [of x y] by blast
    moreover have "xs = zs" using eq Cons.IH by blast
    ultimately show ?thesis using ys by (simp only:)
  qed
qed

lemma certificate_run:
  assumes "certificate_sha256 env h log = Some (Inr identity, log')"
  shows "log' = log @ [Ssl (Certificate_digest h)] \<and> identity = ''sha256:'' @ hex_text (sa_bytes (sys_answer env log (Ssl (Certificate_digest h))))"
  using assms by (auto simp: certificate_sha256_def openssl_throw_def run_Inr split: if_splits)

definition digest_call :: "sys_call \<Rightarrow> bool" where
  "digest_call c = (case c of Ssl t \<Rightarrow> (case t of Certificate_digest _ \<Rightarrow> True | _ \<Rightarrow> False) | _ \<Rightarrow> False)"

definition verdict_call :: "sys_call \<Rightarrow> bool" where
  "verdict_call c = (case c of Ssl t \<Rightarrow> (case t of Verify_result _ \<Rightarrow> True | _ \<Rightarrow> False) | _ \<Rightarrow> False)"

lemma peer_run:
  assumes "peer_certificate_sha256 env ssl log = Some (Inr identity, log')"
  shows "\<exists>cs d v. log' = log @ cs \<and> answers verdict_call env log cs = [v] \<and> sa_ok v
     \<and> answers digest_call env log cs = [d] \<and> identity = ''sha256:'' @ hex_text (sa_bytes d)"
proof -
  let ?v = "Ssl (Verify_result ssl)"
  let ?p = "Ssl (Peer_certificate ssl)"
  let ?h = "sa_handle (sys_answer env (log @ [?v]) ?p)"
  let ?d = "Ssl (Certificate_digest ?h)"
  from assms have ok: "sa_ok (sys_answer env log ?v)"
    and run: "io_finally (certificate_sha256 env ?h) (owned env (\<lambda>h. Ssl (Certificate_free h)) ?h) (log @ [?v, ?p]) = Some (Inr identity, log')"
    by (auto simp: peer_certificate_sha256_def run_Inr split: if_splits)
  from run obtain x mid where c: "certificate_sha256 env ?h (log @ [?v, ?p]) = Some (Inr identity, mid)"
    "owned env (\<lambda>h. Ssl (Certificate_free h)) ?h mid = Some (Inr x, log')" unfolding finally_Inr by blast
  obtain ds where ds: "log' = mid @ ds" "ds = [] \<or> ds = [Ssl (Certificate_free ?h)]"
    by (rule emitsD [OF owned_emits c(2)])
  show ?thesis using ok ds certificate_run [OF c(1)]
    by (intro exI [of _ "[?v, ?p, ?d] @ ds"]) (auto simp: digest_call_def verdict_call_def)
qed



end
