(* ===== verification/Server_Program.thy ===== *)
theory Server_Program
  imports Server_Config Server_Metrics Tls_Context
begin

text \<open>
  The server as a program, \<^verbatim>\<open>src/server/main.cpp\<close> and \<^verbatim>\<open>server_usage\<close>: what is constructed, how signals,
  the timer of the metrics and the functions posted to the strand of the server interleave, and what
  the process prints and returns. The TLS contexts are those of \<^verbatim>\<open>Tls_Context\<close>, at the start and at
  every reload.
\<close>

section \<open>State\<close>

datatype os_signal = SIGINT | SIGTERM | SIGHUP

text \<open>
  An asynchronous wait. A wait that has completed, with a result or (\<open>None\<close>) because it was
  cancelled, has a handler that is still to run; cancelling does not reach it any more.
\<close>

datatype 'r async_wait = Unarmed | Armed | Completed "'r option"

fun cancel_wait :: "'r async_wait \<Rightarrow> 'r async_wait" where
  "cancel_wait Armed = Completed None"
| "cancel_wait w = w"

text \<open>What \<^verbatim>\<open>start\<close>, \<^verbatim>\<open>stop\<close> and \<^verbatim>\<open>reload_tls_context\<close> of the server hand to its strand.\<close>

datatype posted = Post_start | Post_stop | Post_reload

text \<open>
  \<open>pr_undelivered\<close> are the signals that arrived and were not yet given to a wait, \<open>pr_calls\<close> the calls
  that the TLS set-up has made, \<open>pr_out\<close> what was written to the standard output.
\<close>

record program =
  pr_config :: ServerConfig
  pr_world :: server_world
  pr_posted :: "posted list"
  pr_signals :: "os_signal async_wait"
  pr_undelivered :: "os_signal list"
  pr_timer :: "unit async_wait"
  pr_calls :: "sys_call list"
  pr_out :: "string list"

abbreviation pr_server :: "program \<Rightarrow> TlsTunnelServer" where
  "pr_server p \<equiv> sw_server (pr_world p)"

definition print_out :: "string \<Rightarrow> program \<Rightarrow> program" where
  "print_out line p = p\<lparr>pr_out := pr_out p @ [line]\<rparr>"

section \<open>Handlers\<close>

definition tls_config :: "ServerConfig \<Rightarrow> ServerTlsConfig" where
  "tls_config config =
     \<lparr>st_certificate_chain_file = cfg_certificate_chain_file config, st_private_key_file = cfg_private_key_file config,
      st_client_ca_file = cfg_client_ca_file config, st_client_crl_file = cfg_client_crl_file config\<rparr>"

text \<open>What the start and every reload do to get a context.\<close>

definition load_context :: "sys \<Rightarrow> build \<Rightarrow> ServerTlsConfig \<Rightarrow> nat sys_comp" where
  "load_context env b config =
     io_then (validate_server_private_key_permissions env b (st_private_key_file config)) (make_server_tls_context env b config)"

definition schedule_metrics :: "program \<Rightarrow> program" where
  "schedule_metrics p = (if cfg_metrics_interval_seconds (pr_config p) = 0 then p else p\<lparr>pr_timer := Armed\<rparr>)"

text \<open>The handler of the timer; the server exists as long as \<^verbatim>\<open>run_server\<close> has not returned.\<close>

definition metrics_text :: "program \<Rightarrow> string" where
  "metrics_text p =
     (let metrics = snapshot (sv_metrics (pr_server p)); active_sessions = of_nat (active_session_count (pr_server p))
      in if cfg_metrics_format (pr_config p) = Prometheus then render_server_metrics_prometheus metrics active_sessions
         else render_server_metrics_json metrics active_sessions)"

definition timer_handler :: "program \<Rightarrow> program" where
  "timer_handler p =
     (case pr_timer p of
        Completed result \<Rightarrow>
         (let p = p\<lparr>pr_timer := Unarmed\<rparr>
          in case result of None \<Rightarrow> p | Some _ \<Rightarrow> schedule_metrics (print_out (metrics_text p) p))
      | _ \<Rightarrow> p)"

definition post :: "posted \<Rightarrow> program \<Rightarrow> program" where
  "post f p = p\<lparr>pr_posted := pr_posted p @ [f]\<rparr>"

definition wait_for_signal :: "program \<Rightarrow> program" where
  "wait_for_signal p = p\<lparr>pr_signals := Armed\<rparr>"

definition signal_handler :: "program \<Rightarrow> program" where
  "signal_handler p =
     (case pr_signals p of
        Completed result \<Rightarrow>
         (let p = p\<lparr>pr_signals := Unarmed\<rparr>
          in case result of
               None \<Rightarrow> p
             | Some signal \<Rightarrow> if signal = SIGHUP then wait_for_signal (post Post_reload p) else post Post_stop p)
      | _ \<Rightarrow> p)"

text \<open>The two functions that \<^verbatim>\<open>run_server\<close> gives to the server: on shutdown, and on the end of a reload.\<close>

definition reload_text :: "bool \<Rightarrow> string" where
  "reload_text success =
     ''{'' @ quoted ''event'' @ '':'' @ quoted ''tls_context_reload'' @ '','' @ quoted ''success'' @ '':''
     @ (if success then ''true'' else ''false'') @ ''}'' @ new_line"

fun react :: "sv_effect \<Rightarrow> program \<Rightarrow> program" where
  "react Sv_shutdown p = p\<lparr>pr_signals := cancel_wait (pr_signals p), pr_timer := cancel_wait (pr_timer p)\<rparr>"
| "react (Sv_completion success) p = print_out (reload_text success) p"
| "react _ p = p"

text \<open>An event of the server, with the calls of these functions that it makes.\<close>

definition serve :: "server_event \<Rightarrow> program \<Rightarrow> program" where
  "serve e p =
     (let w = server_step e (pr_world p)
      in fold react (drop (length (sv_log (pr_server p))) (sv_log (sw_server w))) (p\<lparr>pr_world := w\<rparr>))"

text \<open>The body of \<^verbatim>\<open>reload_tls_context\<close>: nothing is loaded once the server is stopping.\<close>

definition reload :: "sys \<Rightarrow> build \<Rightarrow> program \<Rightarrow> program" where
  "reload env b p =
     (if sv_stopping (pr_server p) then serve (Sx_reload None True) p
      else
       (case load_context env b (tls_config (pr_config p)) (pr_calls p) of
          None \<Rightarrow> p
        | Some (Inl _, calls) \<Rightarrow> serve (Sx_reload None True) (p\<lparr>pr_calls := calls\<rparr>)
        | Some (Inr context, calls) \<Rightarrow> serve (Sx_reload (Some context) True) (p\<lparr>pr_calls := calls\<rparr>)))"

section \<open>Events\<close>

text \<open>
  \<open>Px_server\<close> are the events of connections and sessions; starting, stopping and reloading come
  from the strand only.
\<close>

datatype program_event =
    Px_signal os_signal
  | Px_deliver os_signal
  | Px_signal_handler
  | Px_timer_expires
  | Px_timer_handler
  | Px_strand
  | Px_tun_error
  | Px_server server_event

fun own_event :: "server_event \<Rightarrow> bool" where
  "own_event Sx_start = False"
| "own_event Sx_stop = False"
| "own_event (Sx_reload _ _) = False"
| "own_event _ = True"

fun run_posted :: "sys \<Rightarrow> build \<Rightarrow> posted \<Rightarrow> program \<Rightarrow> program" where
  "run_posted env b Post_start p = serve Sx_start p"
| "run_posted env b Post_stop p = serve Sx_stop p"
| "run_posted env b Post_reload p = reload env b p"

fun program_step :: "sys \<Rightarrow> build \<Rightarrow> program_event \<Rightarrow> program \<Rightarrow> program" where
  "program_step env b (Px_signal signal) p = p\<lparr>pr_undelivered := pr_undelivered p @ [signal]\<rparr>"
| "program_step env b (Px_deliver signal) p =
     (if pr_signals p = Armed \<and> signal \<in> set (pr_undelivered p) then
        p\<lparr>pr_signals := Completed (Some signal), pr_undelivered := remove1 signal (pr_undelivered p)\<rparr>
      else p)"
| "program_step env b Px_signal_handler p = signal_handler p"
| "program_step env b Px_timer_expires p = (if pr_timer p = Armed then p\<lparr>pr_timer := Completed (Some ())\<rparr> else p)"
| "program_step env b Px_timer_handler p = timer_handler p"
| "program_step env b Px_strand p =
     (case pr_posted p of [] \<Rightarrow> p | f # rest \<Rightarrow> run_posted env b f (p\<lparr>pr_posted := rest\<rparr>))"
| "program_step env b Px_tun_error p = post Post_stop p"
| "program_step env b (Px_server e) p = (if own_event e then serve e p else p)"

section \<open>The process\<close>

text \<open>
  The construction of \<^verbatim>\<open>run_server\<close>. \<open>listening\<close> is what opening the acceptor returns or throws; the
  other parameters are those of \<open>start_server\<close>.
\<close>

definition listening_text :: "ServerConfig \<Rightarrow> string \<Rightarrow> string" where
  "listening_text config name =
     ''Personal-VPN server listening on '' @ cfg_listen_address config @ '':'' @ to_string (unat (cfg_listen_port config))
     @ '' using TUN '' @ name @ new_line"

definition launch :: "sys \<Rightarrow> build \<Rightarrow> unit result \<Rightarrow> (string \<Rightarrow> bool) \<Rightarrow> (string \<Rightarrow> (bytes \<times> u32) option) \<Rightarrow> int
    \<Rightarrow> (string \<Rightarrow> string option) \<Rightarrow> ServerConfig \<Rightarrow> program sys_comp" where
  "launch env b listening is_address make_address_v6 open_tun set_iff config log =
     (case load_context env b (tls_config config) log of
        None \<Rightarrow> None
      | Some (context, calls) \<Rightarrow>
         (case and_then (start_server context is_address make_address_v6 open_tun set_iff config)
                 (\<lambda>objects. and_then listening (\<lambda>_. Inr objects)) of
            Inl e \<Rightarrow> Some (Inl e, calls)
          | Inr (leases, tun_device, server) \<Rightarrow>
              Some (Inr (print_out (listening_text config (tun_name tun_device))
                (schedule_metrics (post Post_start (wait_for_signal
                  \<lparr>pr_config = config, pr_world = server_initial server, pr_posted = [], pr_signals = Unarmed,
                   pr_undelivered = [], pr_timer = Unarmed, pr_calls = calls, pr_out = []\<rparr>)))), calls)))"

text \<open>What the workers do when \<^verbatim>\<open>io_context.run()\<close> returns to them or throws, in the order in which they end.\<close>

datatype exit_code = EXIT_SUCCESS | EXIT_FAILURE

definition workers_end :: "unit result list \<Rightarrow> exit_code \<times> string list" where
  "workers_end runs =
    (let failures = [what e. Inl e \<leftarrow> runs]
     in (if failures = [] then EXIT_SUCCESS else EXIT_FAILURE, map (\<lambda>t. ''I/O worker failed: '' @ t @ new_line) failures))"

definition usage_lines :: "string list" where
  "usage_lines =
     [''Required:'',
      ''  --server-cert PATH       Server certificate chain (PEM)'',
      ''  --server-key PATH        Server private key (PEM)'',
      ''  --client-ca PATH         CA bundle trusted for client certificates'',
      [],
      ''Optional security:'',
      ''  --client-crl PATH        PEM CRL for revoked client certificates'',
      [],
      ''Network:'',
      ''  --listen-address IP      Listen address (default: 0.0.0.0)'',
      ''  --port NUMBER            Listen port (default: 8443)'',
      ''  --tun-name NAME          Existing/created TUN name (default: pvpn0)'',
      ''  --lease-start IPV4       First client address (default: 10.8.0.2)'',
      ''  --lease-end IPV4         Last client address (default: 10.8.0.254)'',
      ''  --gateway IPV4           Tunnel gateway (default: 10.8.0.1)'',
      ''  --ipv6-prefix IPV6        Canonical /64 ULA prefix (default: fd00:8::)'',
      ''  --ipv6-gateway IPV6       IPv6 tunnel gateway (default: fd00:8::1)'',
      ''  --prefix-length NUMBER   Tunnel prefix length (default: 24)'',
      ''  --mtu NUMBER             Tunnel MTU (default: 1400)'',
      ''  --lease-seconds NUMBER   Lease lifetime (default: 3600)'',
      [],
      ''Runtime:'',
      ''  --threads NUMBER         I/O workers, 1-256 (default: 2)'',
      ''  --max-sessions NUMBER    Admission limit (default: 1024)'',
      ''  --handshake-timeout SEC  TLS handshake deadline, 1-300 (default: 10)'',
      ''  --idle-timeout SEC       Inbound frame idle deadline (default: 300)'',
      ''  --metrics-interval SEC   Metrics interval; 0 disables (default: 60)'',
      ''  --metrics-format FORMAT  json or prometheus (default: json)'',
      ''  --version                Show the product version'',
      ''  -h, --help               Show this help'']"

definition server_usage :: "string \<Rightarrow> string" where
  "server_usage executable_name =
     ''Usage: '' @ executable_name @ '' [options]'' @ new_line @ new_line @ concat (map (\<lambda>line. line @ new_line) usage_lines)"

text \<open>
  \<^verbatim>\<open>main\<close>: the exit code, the standard output and the standard error. \<open>running\<close> is what
  \<^verbatim>\<open>run_server\<close> does once everything is constructed: the events it sees and how the workers end.
\<close>

record process =
  ps_code :: exit_code
  ps_out :: "string list"
  ps_err :: "string list"

definition main_catch :: "string \<Rightarrow> cxx_exception \<Rightarrow> process" where
  "main_catch executable_name e = \<lparr>ps_code = EXIT_FAILURE, ps_out = [],
     ps_err = [''personal-vpn-server: '' @ what e @ new_line @ new_line @ server_usage executable_name]\<rparr>"

definition main_program :: "sys \<Rightarrow> build \<Rightarrow> string \<Rightarrow> (program_event list \<times> unit result list) \<Rightarrow> unit result
    \<Rightarrow> (string \<Rightarrow> bool) \<Rightarrow> (string \<Rightarrow> (bytes \<times> u32) option) \<Rightarrow> int \<Rightarrow> (string \<Rightarrow> string option)
    \<Rightarrow> string list \<Rightarrow> process option" where
  "main_program env b version running listening is_address make_address_v6 open_tun set_iff argv =
    (let executable_name = (if argv = [] then ''personal-vpn-server'' else hd argv)
     in case parse_server_arguments is_address make_address_v6 (drop 1 argv) of
          Inl e \<Rightarrow> Some (main_catch executable_name e)
        | Inr config \<Rightarrow>
            if show_help config then Some \<lparr>ps_code = EXIT_SUCCESS, ps_out = [server_usage executable_name], ps_err = []\<rparr>
            else if show_version config then
              Some \<lparr>ps_code = EXIT_SUCCESS, ps_out = [''personal-vpn-server '' @ version @ new_line], ps_err = []\<rparr>
            else
             (case launch env b listening is_address make_address_v6 open_tun set_iff config [] of
                None \<Rightarrow> None
              | Some (Inl e, _) \<Rightarrow> Some (main_catch executable_name e)
              | Some (Inr p, _) \<Rightarrow>
                 (let (code, errors) = workers_end (snd running)
                  in Some \<lparr>ps_code = code, ps_out = pr_out (fold (program_step env b) (fst running) p), ps_err = errors\<rparr>)))"

section \<open>What an event of the server does\<close>

text \<open>
  The log grows; a server that is stopping stays so and does not shut down again; sessions start with
  the context of the server.
\<close>

definition grows :: "TlsTunnelServer \<Rightarrow> TlsTunnelServer \<Rightarrow> bool" where
  "grows s s' \<longleftrightarrow> (\<exists>new. sv_log s' = sv_log s @ new
     \<and> (sv_stopping s \<longrightarrow> sv_stopping s' \<and> Sv_shutdown \<notin> set new)
     \<and> (\<forall>session ctx. Sv_session_start session ctx \<in> set new \<longrightarrow> ctx = sv_tls_context s))"

lemma grows_refl [simp]: "grows s s"
  by (simp add: grows_def)

lemma grows_state: "sv_log s' = sv_log s \<Longrightarrow> sv_stopping s' = sv_stopping s \<Longrightarrow> grows s s'"
  by (simp add: grows_def)

lemma grows_emit: "grows s s' \<Longrightarrow> e \<noteq> Sv_shutdown \<Longrightarrow> (\<And>session ctx. e = Sv_session_start session ctx \<Longrightarrow> ctx = sv_tls_context s)
    \<Longrightarrow> grows s (sv_emit e s')"
  unfolding grows_def sv_emit_def by (elim exE conjE) (rule_tac x = "new @ [e]" in exI, auto)

lemma stop_result:
  "\<not> sv_stopping s \<Longrightarrow> sv_stop_on_strand s = s\<lparr>sv_stopping := True, sv_shutdown_handler := False,
     sv_log := sv_log s @ [Sv_close_acceptor, Sv_tun_stop] @ map Sv_session_stop (sv_sessions s)
       @ (if sv_shutdown_handler s then [Sv_shutdown] else [])\<rparr>"
proof -
  have "foldl (\<lambda>s session. sv_emit (Sv_session_stop session) s) t ps = t\<lparr>sv_log := sv_log t @ map Sv_session_stop ps\<rparr>" for t ps
    by (induction ps arbitrary: t) (simp_all add: sv_emit_def)
  then show "\<not> sv_stopping s \<Longrightarrow> ?thesis"
    by (simp only: sv_stop_on_strand_def Let_def if_False) (simp add: sv_emit_def)
qed

lemma grows_stop: "grows s (sv_stop_on_strand s)" "sv_tls_context (sv_stop_on_strand s) = sv_tls_context s"
proof -
  have "sv_stop_on_strand s = s" if "sv_stopping s" using that by (simp add: sv_stop_on_strand_def)
  then show "grows s (sv_stop_on_strand s)" "sv_tls_context (sv_stop_on_strand s) = sv_tls_context s"
    using stop_result [of s] by (cases "sv_stopping s"; auto simp: grows_def)+
qed

lemma grows_accept: "grows s (handle_accept error s)" "sv_tls_context (handle_accept error s) = sv_tls_context s"
  using grows_stop [of s]
  by (auto simp: handle_accept_def accept_next_def Let_def sv_emit_def grows_def split: option.split)

lemma grows_tun: "grows s (sv_tun_packet alive packet s)" "sv_tls_context (sv_tun_packet alive packet s) = sv_tls_context s"
  by (auto simp: sv_tun_packet_def grows_def split_beta Let_def)

lemma grows_closed: "grows s (handle_session_closed alive lease session s)"
  "sv_tls_context (handle_session_closed alive lease session s) = sv_tls_context s"
  by (auto simp: handle_session_closed_def grows_def sv_emit_def Let_def split: option.split)

lemma grows_established: "grows s (snd (sv_established alive lease session s))"
  "sv_tls_context (snd (sv_established alive lease session s)) = sv_tls_context s"
  by (auto simp: sv_established_def grows_def split: prod.split bool.split)

lemma server_step_grows: "grows (sw_server w) (sw_server (server_step e w))"
proof (cases e)
  case (Sx_established p lease others)
  then show ?thesis using grows_established(1) [of "sw_server w" "existing w others" lease p] by (simp add: split_beta Let_def)
next
  case (Sx_closed p others)
  then show ?thesis by (auto simp: grows_closed split: option.split session_life.split)
qed (auto simp: sv_start_on_strand_def accept_next_def sv_packet_sink_def remove_session_def reload_tls_context_def
    active_route_count_def split_beta Let_def grows_accept grows_tun grows_stop grows_state
    intro!: grows_emit split: option.split)

lemma server_step_context:
  "(\<And>c h. e \<noteq> Sx_reload (Some c) h) \<Longrightarrow> sv_tls_context (sw_server (server_step e w)) = sv_tls_context (sw_server w)"
proof (cases e)
  case (Sx_established p lease others)
  then show ?thesis using grows_established(2) [of "existing w others" lease p "sw_server w"] by (simp add: split_beta Let_def)
next
  case (Sx_closed p others)
  then show ?thesis by (auto simp: grows_closed split: option.split session_life.split)
qed (auto simp: sv_start_on_strand_def accept_next_def sv_packet_sink_def remove_session_def reload_tls_context_def
    active_route_count_def split_beta Let_def grows_accept grows_tun grows_stop sv_emit_def split: option.split)

lemma reload_context:
  "sv_tls_context (sw_server (server_step (Sx_reload (Some c) h) w)) \<in> {c, sv_tls_context (sw_server w)}"
  by (simp add: reload_tls_context_def sv_emit_def Let_def)

section \<open>What the program does around it\<close>

lemma react_frame [simp]:
  "pr_config (react e p) = pr_config p" "pr_world (react e p) = pr_world p" "pr_posted (react e p) = pr_posted p"
  "pr_undelivered (react e p) = pr_undelivered p" "pr_calls (react e p) = pr_calls p"
  by (cases e; simp add: print_out_def)+

lemma reacts_frame [simp]:
  "pr_config (fold react es p) = pr_config p" "pr_world (fold react es p) = pr_world p" "pr_posted (fold react es p) = pr_posted p"
  "pr_undelivered (fold react es p) = pr_undelivered p" "pr_calls (fold react es p) = pr_calls p"
  by (induction es arbitrary: p) simp_all

lemma reacts_waits:
  "Sv_shutdown \<notin> set es \<Longrightarrow> pr_timer (fold react es p) = pr_timer p \<and> pr_signals (fold react es p) = pr_signals p"
proof (induction es arbitrary: p)
  case (Cons e es)
  then have "pr_timer (react e p) = pr_timer p" "pr_signals (react e p) = pr_signals p"
    by (cases e; simp add: print_out_def)+
  then show ?case using Cons by simp
qed simp

lemma serve_frame [simp]:
  "pr_config (serve e p) = pr_config p" "pr_world (serve e p) = server_step e (pr_world p)" "pr_posted (serve e p) = pr_posted p"
  "pr_undelivered (serve e p) = pr_undelivered p" "pr_calls (serve e p) = pr_calls p"
  by (simp_all add: serve_def Let_def)

lemma serve_stopping:
  assumes "sv_stopping (pr_server p)"
  shows "sv_stopping (pr_server (serve e p))" "pr_timer (serve e p) = pr_timer p" "pr_signals (serve e p) = pr_signals p"
proof -
  from server_step_grows [of "pr_world p" e] assms obtain new where
    new: "sv_log (sw_server (server_step e (pr_world p))) = sv_log (pr_server p) @ new" "Sv_shutdown \<notin> set new"
      "sv_stopping (sw_server (server_step e (pr_world p)))" by (auto simp: grows_def)
  then show "sv_stopping (pr_server (serve e p))" "pr_timer (serve e p) = pr_timer p" "pr_signals (serve e p) = pr_signals p"
    using reacts_waits [OF new(2)] by (simp_all add: serve_def Let_def)
qed

section \<open>The contexts in use\<close>

text \<open>A context that was made from the files of the configuration.\<close>

definition made_context :: "sys \<Rightarrow> build \<Rightarrow> ServerConfig \<Rightarrow> nat \<Rightarrow> bool" where
  "made_context env b config ctx \<longleftrightarrow> (\<exists>past log'. make_server_tls_context env b (tls_config config) past = Some (Inr ctx, log'))"

definition contexts_ok :: "sys \<Rightarrow> build \<Rightarrow> ServerConfig \<Rightarrow> program \<Rightarrow> bool" where
  "contexts_ok env b config p \<longleftrightarrow> pr_config p = config \<and> made_context env b config (sv_tls_context (pr_server p))
     \<and> (\<forall>session ctx. Sv_session_start session ctx \<in> set (sv_log (pr_server p)) \<longrightarrow> made_context env b config ctx)"

lemma loaded_context: "load_context env b (tls_config config) log = Some (Inr ctx, calls) \<Longrightarrow> made_context env b config ctx"
  unfolding load_context_def made_context_def by (auto simp: run_Inr)

lemma contexts_frame:
  "contexts_ok env b config p \<Longrightarrow> pr_config p' = pr_config p \<Longrightarrow> pr_world p' = pr_world p \<Longrightarrow> contexts_ok env b config p'"
  by (simp add: contexts_ok_def)

lemma contexts_serve:
  assumes ok: "contexts_ok env b config p" and new: "\<And>c h. e = Sx_reload (Some c) h \<Longrightarrow> made_context env b config c"
  shows "contexts_ok env b config (serve e p)"
proof -
  have in_use: "made_context env b config (sv_tls_context (pr_server p))" using ok by (simp add: contexts_ok_def)
  have "made_context env b config (sv_tls_context (sw_server (server_step e (pr_world p))))"
  proof (cases "\<exists>c h. e = Sx_reload (Some c) h")
    case True
    then obtain c h where e: "e = Sx_reload (Some c) h" by blast
    then show ?thesis using reload_context [of c h "pr_world p"] new [OF e] in_use by auto
  next
    case False
    then show ?thesis using server_step_context [of e "pr_world p"] in_use by simp
  qed
  then show ?thesis using server_step_grows [of "pr_world p" e] ok by (auto simp: contexts_ok_def grows_def)
qed

lemma contexts_reload:
  assumes ok: "contexts_ok env b config p"
  shows "contexts_ok env b config (reload env b p)"
proof -
  have calls: "contexts_ok env b config (p\<lparr>pr_calls := calls\<rparr>)" for calls using ok by (simp add: contexts_ok_def)
  have config: "pr_config p = config" using ok by (simp add: contexts_ok_def)
  show ?thesis unfolding reload_def config
    by (auto split: option.split sum.split intro!: contexts_serve [OF ok] contexts_serve [OF calls] intro: ok loaded_context)
qed

lemma contexts_posted: "contexts_ok env b config p \<Longrightarrow> contexts_ok env b config (run_posted env b f p)"
  by (cases f) (auto intro: contexts_serve contexts_reload)

lemma handlers_frame [simp]:
  "pr_config (signal_handler p) = pr_config p" "pr_world (signal_handler p) = pr_world p"
  "pr_config (timer_handler p) = pr_config p" "pr_world (timer_handler p) = pr_world p"
  by (auto simp: signal_handler_def timer_handler_def post_def wait_for_signal_def schedule_metrics_def print_out_def Let_def
      split: async_wait.split option.split)

lemma contexts_step: "contexts_ok env b config p \<Longrightarrow> contexts_ok env b config (program_step env b e p)"
proof (induction env b e p rule: program_step.induct)
  case (6 env b p)
  then show ?case by (auto split: list.split intro!: contexts_posted elim: contexts_frame)
next
  case (8 env b e p)
  then show ?case by (auto intro!: contexts_serve)
qed (auto elim: contexts_frame simp: post_def)

interpretation contexts: event_machine "program_step env b" "contexts_ok env b config"
  by unfold_locales (rule contexts_step)

lemma start_server_context:
  "start_server (Inr ctx) is_address mk6 open_tun set_iff config = Inr (leases, tun_device, server) \<Longrightarrow> sv_tls_context server = ctx \<and> sv_log server = []"
  by (auto simp: start_server_def new_TlsTunnelServer_def and_then_Inr_iff split: if_splits)

lemma launch_contexts:
  assumes "launch env b listening is_address mk6 open_tun set_iff config log = Some (Inr p, log')"
  shows "contexts_ok env b config p"
proof -
  from assms obtain result calls leases tun_device server where
    l: "load_context env b (tls_config config) log = Some (result, calls)"
      "start_server result is_address mk6 open_tun set_iff config = Inr (leases, tun_device, server)"
    and p: "p = print_out (listening_text config (tun_name tun_device)) (schedule_metrics (post Post_start (wait_for_signal
                  \<lparr>pr_config = config, pr_world = server_initial server, pr_posted = [], pr_signals = Unarmed,
                   pr_undelivered = [], pr_timer = Unarmed, pr_calls = calls, pr_out = []\<rparr>)))"
    by (auto simp: launch_def and_then_Inr_iff split: option.splits sum.splits prod.splits)
  from l(2) obtain ctx where ctx: "result = Inr ctx" by (auto simp: start_server_def and_then_Inr_iff)
  with l(1) have "made_context env b config ctx" by (auto intro: loaded_context)
  with start_server_context [OF l(2) [unfolded ctx]] show ?thesis
    by (simp add: p contexts_ok_def print_out_def schedule_metrics_def post_def wait_for_signal_def server_initial_def)
qed


text \<open>A server that starts on \<open>demo_sys\<close> and accepts a connection.\<close>

definition demo_program_config :: ServerConfig where
  "demo_program_config = demo_config\<lparr>cfg_certificate_chain_file := ''chain'', cfg_private_key_file := ''key'',
     cfg_client_ca_file := ''ca'', cfg_client_crl_file := ''crl''\<rparr>"

lemma demo_load: "\<exists>calls. load_context demo_sys demo_build (tls_config demo_program_config) log = Some (Inr 7, calls)"
proof -
  have config: "tls_config demo_program_config = demo_server_tls"
    by (simp add: tls_config_def demo_program_config_def demo_server_tls_def)
  have "\<exists>mid. validate_server_private_key_permissions demo_sys demo_build ''key'' log = Some (Inr (), mid)"
    by (simp add: validate_server_private_key_permissions_def demo_build_def io_bind_def demo_server_key)
  then obtain mid where "validate_server_private_key_permissions demo_sys demo_build ''key'' log = Some (Inr (), mid)" ..
  moreover obtain calls where "make_server_tls_context demo_sys demo_build demo_server_tls mid = Some (Inr 7, calls)"
    using demo_server_context by blast
  moreover have "st_private_key_file demo_server_tls = ''key''" by (simp add: demo_server_tls_def)
  ultimately show ?thesis unfolding config load_context_def by (simp add: io_then_def io_bind_def)
qed

lemma demo_start: "\<exists>leases tun_device server. start_server (Inr 7) (\<lambda>_. True) demo_mk6 3 Some demo_program_config = Inr (leases, tun_device, server)
   \<and> \<not> sv_stopping server \<and> \<not> sv_started server \<and> sv_shutdown_handler server \<and> sv_sessions server = [] \<and> sv_maximum_sessions server = 1024"
proof -
  obtain m where "new_LeaseManager [10, 8, 0, 2] [10, 8, 0, 254] [10, 8, 0, 1] 24 1400 3600 ([0xFD, 0, 0, 8] @ replicate 12 0)
     ([0xFD, 0, 0, 8] @ replicate 11 0 @ [1]) 64 = Inr m" using demo_pool by blast
  then have "config_lease_manager demo_mk6 demo_program_config = Inr m"
    by (simp add: config_lease_manager_def demo_program_config_def demo_config_def default_ServerConfig_def demo_addresses
      parse_ipv6_address_def demo_mk6_def)
  then show ?thesis
    by (simp add: start_server_def tun_open_def tun_adopt_def IFNAMSIZ_def new_TlsTunnelServer_def demo_program_config_def demo_config_def
        default_ServerConfig_def)
qed

lemma demo_launch: "\<exists>p log'. launch demo_sys demo_build (Inr ()) (\<lambda>_. True) demo_mk6 3 Some demo_program_config [] = Some (Inr p, log')
   \<and> pr_posted p = [Post_start] \<and> pr_config p = demo_program_config \<and> pr_timer p = Armed \<and> pr_signals p = Armed \<and> pr_undelivered p = []
   \<and> \<not> sv_stopping (pr_server p) \<and> \<not> sv_started (pr_server p) \<and> sv_shutdown_handler (pr_server p) \<and> sv_sessions (pr_server p) = []
   \<and> sv_maximum_sessions (pr_server p) = 1024"
proof -
  obtain calls where "load_context demo_sys demo_build (tls_config demo_program_config) [] = Some (Inr 7, calls)" using demo_load by blast
  moreover have "cfg_metrics_interval_seconds demo_program_config \<noteq> 0"
    by (simp add: demo_program_config_def demo_config_def default_ServerConfig_def)
  ultimately show ?thesis using demo_start
    by (auto simp: launch_def print_out_def schedule_metrics_def post_def wait_for_signal_def server_initial_def)
qed


section \<open>The end of the program\<close>

text \<open>While the server is stopping, only the handlers and completions of a wait change it.\<close>

lemma stopping_reload: "sv_stopping (pr_server p) \<Longrightarrow> reload env b p = serve (Sx_reload None True) p"
  by (simp add: reload_def)

lemma stopping_posted:
  assumes "sv_stopping (pr_server p)"
  shows "sv_stopping (pr_server (run_posted env b f p))" "pr_timer (run_posted env b f p) = pr_timer p"
    "pr_signals (run_posted env b f p) = pr_signals p" "pr_config (run_posted env b f p) = pr_config p"
    "pr_undelivered (run_posted env b f p) = pr_undelivered p"
  using serve_stopping [OF assms] by (cases f; simp add: stopping_reload [OF assms] del: serve_frame(2))+

lemma stopping_strand:
  assumes "sv_stopping (pr_server p)"
  shows "sv_stopping (pr_server (program_step env b Px_strand p))" "pr_timer (program_step env b Px_strand p) = pr_timer p"
    "pr_signals (program_step env b Px_strand p) = pr_signals p" "pr_config (program_step env b Px_strand p) = pr_config p"
    "pr_undelivered (program_step env b Px_strand p) = pr_undelivered p"
  using stopping_posted [of "p\<lparr>pr_posted := q\<rparr>" for q] assms by (simp_all split: list.split)

lemma handlers_other [simp]:
  "pr_timer (signal_handler p) = pr_timer p" "pr_undelivered (signal_handler p) = pr_undelivered p"
  "pr_signals (timer_handler p) = pr_signals p" "pr_undelivered (timer_handler p) = pr_undelivered p"
  by (auto simp: signal_handler_def timer_handler_def post_def wait_for_signal_def schedule_metrics_def print_out_def Let_def
      split: async_wait.split option.split)

lemma stopping_step:
  assumes "sv_stopping (pr_server p)"
  shows "sv_stopping (pr_server (program_step env b e p))" "pr_config (program_step env b e p) = pr_config p"
    "e \<noteq> Px_timer_expires \<Longrightarrow> e \<noteq> Px_timer_handler \<Longrightarrow> pr_timer (program_step env b e p) = pr_timer p"
    "\<forall>s. e \<noteq> Px_deliver s \<Longrightarrow> e \<noteq> Px_signal_handler \<Longrightarrow> pr_signals (program_step env b e p) = pr_signals p"
    "\<forall>s. e \<noteq> Px_signal s \<Longrightarrow> \<forall>s. e \<noteq> Px_deliver s \<Longrightarrow> pr_undelivered (program_step env b e p) = pr_undelivered p"
proof -
  note rules = assms stopping_strand [OF assms] serve_stopping [OF assms]
  show "sv_stopping (pr_server (program_step env b e p))" "pr_config (program_step env b e p) = pr_config p"
    by (cases e; insert rules; simp add: post_def del: serve_frame(2) program_step.simps(6))+
  show "e \<noteq> Px_timer_expires \<Longrightarrow> e \<noteq> Px_timer_handler \<Longrightarrow> pr_timer (program_step env b e p) = pr_timer p"
    by (cases e; insert rules; auto simp add: post_def simp del: program_step.simps(6))
  show "\<forall>s. e \<noteq> Px_deliver s \<Longrightarrow> e \<noteq> Px_signal_handler \<Longrightarrow> pr_signals (program_step env b e p) = pr_signals p"
    by (cases e; insert rules; auto simp add: post_def simp del: program_step.simps(6))
  show "\<forall>s. e \<noteq> Px_signal s \<Longrightarrow> \<forall>s. e \<noteq> Px_deliver s \<Longrightarrow> pr_undelivered (program_step env b e p) = pr_undelivered p"
    by (cases e; insert rules; auto simp add: post_def simp del: program_step.simps(6))
qed

text \<open>The timer of the metrics in a stopping server: it goes on for ever, or not at all.\<close>

definition timer_lives :: "program \<Rightarrow> bool" where
  "timer_lives p \<longleftrightarrow> sv_stopping (pr_server p) \<and> cfg_metrics_interval_seconds (pr_config p) \<noteq> 0
     \<and> (pr_timer p = Armed \<or> pr_timer p = Completed (Some ()))"

definition timer_ends :: "program \<Rightarrow> bool" where
  "timer_ends p \<longleftrightarrow> sv_stopping (pr_server p) \<and> (pr_timer p = Unarmed \<or> pr_timer p = Completed None)"

definition timer_over :: "program \<Rightarrow> bool" where
  "timer_over p \<longleftrightarrow> sv_stopping (pr_server p) \<and> pr_timer p = Unarmed"

lemma timer_steps:
  "timer_lives p \<Longrightarrow> timer_lives (program_step env b e p)" "timer_ends p \<Longrightarrow> timer_ends (program_step env b e p)"
  "timer_over p \<Longrightarrow> timer_over (program_step env b e p)"
  "timer_ends p \<Longrightarrow> timer_over (program_step env b Px_timer_handler p)"
  using stopping_step(1-3) [where p = p and env = env and b = b and e = e]
  by (cases "e = Px_timer_expires"; cases "e = Px_timer_handler";
      auto simp: timer_lives_def timer_ends_def timer_over_def timer_handler_def schedule_metrics_def print_out_def Let_def)+

interpretation timer_on: event_machine "program_step env b" timer_lives
  by unfold_locales (rule timer_steps(1))

interpretation timer_off: event_machine "program_step env b" timer_ends
  by unfold_locales (rule timer_steps(2))

interpretation timer_gone: event_machine "program_step env b" timer_over
  by unfold_locales (rule timer_steps(3))

lemma timer_finishes: "timer_ends p \<Longrightarrow> Px_timer_handler \<in> set es \<Longrightarrow> timer_over (fold (program_step env b) es p)"
  by (drule split_list, elim exE, hypsubst, unfold fold_append fold.simps o_apply, intro timer_gone.run_invar timer_steps(4) timer_off.run_invar)

text \<open>The wait for a signal, as long as no further signal arrives.\<close>

definition quiet :: "program_event \<Rightarrow> bool" where
  "quiet e \<longleftrightarrow> (\<forall>s. e \<noteq> Px_signal s)"

definition quiet_step :: "sys \<Rightarrow> build \<Rightarrow> program_event \<Rightarrow> program \<Rightarrow> program" where
  "quiet_step env b e p = (if quiet e then program_step env b e p else p)"

definition wait_lives :: "program \<Rightarrow> bool" where
  "wait_lives p \<longleftrightarrow> sv_stopping (pr_server p) \<and> pr_undelivered p = [] \<and> (pr_signals p = Armed \<or> pr_signals p = Completed (Some SIGHUP))"

definition wait_ends :: "program \<Rightarrow> bool" where
  "wait_ends p \<longleftrightarrow> sv_stopping (pr_server p) \<and> pr_undelivered p = [] \<and> pr_signals p \<noteq> Armed \<and> pr_signals p \<noteq> Completed (Some SIGHUP)"

definition wait_over :: "program \<Rightarrow> bool" where
  "wait_over p \<longleftrightarrow> sv_stopping (pr_server p) \<and> pr_undelivered p = [] \<and> pr_signals p = Unarmed"

lemma wait_steps:
  "wait_lives p \<Longrightarrow> wait_lives (quiet_step env b e p)" "wait_ends p \<Longrightarrow> wait_ends (quiet_step env b e p)"
  "wait_over p \<Longrightarrow> wait_over (quiet_step env b e p)" "wait_ends p \<Longrightarrow> wait_over (quiet_step env b Px_signal_handler p)"
  using stopping_step(1,4,5) [where p = p and env = env and b = b and e = e]
  by (cases e; auto simp: wait_lives_def wait_ends_def wait_over_def quiet_step_def quiet_def signal_handler_def post_def wait_for_signal_def
      Let_def split: async_wait.splits option.splits)+

interpretation wait_on: event_machine "quiet_step env b" wait_lives
  by unfold_locales (rule wait_steps(1))

interpretation wait_off: event_machine "quiet_step env b" wait_ends
  by unfold_locales (rule wait_steps(2))

interpretation wait_gone: event_machine "quiet_step env b" wait_over
  by unfold_locales (rule wait_steps(3))

lemma wait_finishes: "wait_ends p \<Longrightarrow> Px_signal_handler \<in> set es \<Longrightarrow> wait_over (fold (quiet_step env b) es p)"
  by (drule split_list, elim exE, hypsubst, unfold fold_append fold.simps o_apply, intro wait_gone.run_invar wait_steps(4) wait_off.run_invar)

lemma quiet_run: "\<forall>e\<in>set es. quiet e \<Longrightarrow> fold (program_step env b) es p = fold (quiet_step env b) es p"
  by (induction es arbitrary: p) (simp_all add: quiet_step_def)

lemma stop_cancels:
  assumes "\<not> sv_stopping (pr_server p)" "sv_shutdown_handler (pr_server p)"
  shows "sv_stopping (pr_server (run_posted env b Post_stop p))"
    "pr_timer (run_posted env b Post_stop p) = cancel_wait (pr_timer p)"
    "pr_signals (run_posted env b Post_stop p) = cancel_wait (pr_signals p)"
proof -
  have ignored: "fold react (map Sv_session_stop ps) q = q" for ps q by (induction ps arbitrary: q) simp_all
  have "run_posted env b Post_stop p = react Sv_shutdown (p\<lparr>pr_world := server_step Sx_stop (pr_world p)\<rparr>)"
    using assms by (simp add: serve_def stop_result Let_def ignored)
  then show "sv_stopping (pr_server (run_posted env b Post_stop p))"
    "pr_timer (run_posted env b Post_stop p) = cancel_wait (pr_timer p)"
    "pr_signals (run_posted env b Post_stop p) = cancel_wait (pr_signals p)"
    using assms by (simp_all add: stop_result)
qed

lemma unit_option: "x \<noteq> Some () \<longleftrightarrow> x = None"
  by (cases x) auto

text \<open>
  C39: When the server stops, it cancels the waits of the program for the metrics timer and for signals.
  That ends the timer, once its handler has run, exactly if its expiry was not already waiting for the
  handler at that moment; otherwise the timer is never over, so that \<^verbatim>\<open>io_context.run()\<close> does not return.
  In the same way the wait for signals is over, if no further signal arrives, exactly if no SIGHUP was
  already waiting for its handler.\<close>

theorem shutdown_ends_exactly:
  assumes "\<not> sv_stopping (pr_server p)" "sv_shutdown_handler (pr_server p)"
    and "cfg_metrics_interval_seconds (pr_config p) \<noteq> 0"
    and "p' = run_posted env b Post_stop p"
  shows "(\<forall>es. Px_timer_handler \<in> set es \<longrightarrow>
      (pr_timer (fold (program_step env b) es p') = Unarmed \<longleftrightarrow> pr_timer p \<noteq> Completed (Some ())))
   \<and> (\<forall>es. pr_undelivered p = [] \<and> Px_signal_handler \<in> set es \<and> (\<forall>e\<in>set es. quiet e) \<longrightarrow>
      (pr_signals (fold (program_step env b) es p') = Unarmed \<longleftrightarrow> pr_signals p \<noteq> Completed (Some SIGHUP)))"
proof (intro conjI allI impI)
  note stop = stop_cancels [OF assms(1,2), of env b, folded assms(4)]
  have frame: "pr_config p' = pr_config p" "pr_undelivered p' = pr_undelivered p" by (simp_all add: assms(4))
  fix es
  show "pr_timer (fold (program_step env b) es p') = Unarmed \<longleftrightarrow> pr_timer p \<noteq> Completed (Some ())" if "Px_timer_handler \<in> set es"
  proof (cases "pr_timer p = Completed (Some ())")
    case True
    then have "timer_lives p'" using stop frame assms(3) by (simp add: timer_lives_def)
    then show ?thesis using timer_on.run_invar [of p' env b es] True by (auto simp: timer_lives_def)
  next
    case False
    then have "timer_ends p'" using stop by (cases "pr_timer p") (auto simp: timer_ends_def unit_option)
    then show ?thesis using timer_finishes [OF _ that, of p' env b] False by (simp add: timer_over_def)
  qed
  show "pr_signals (fold (program_step env b) es p') = Unarmed \<longleftrightarrow> pr_signals p \<noteq> Completed (Some SIGHUP)"
    if es: "pr_undelivered p = [] \<and> Px_signal_handler \<in> set es \<and> (\<forall>e\<in>set es. quiet e)"
  proof (cases "pr_signals p = Completed (Some SIGHUP)")
    case True
    then have "wait_lives p'" using stop frame es by (simp add: wait_lives_def)
    then show ?thesis using wait_on.run_invar [of p' env b es] True es by (auto simp: wait_lives_def quiet_run)
  next
    case False
    then have "wait_ends p'" using stop frame es by (cases "pr_signals p") (auto simp: wait_ends_def)
    then show ?thesis using wait_finishes [of p' es env b] False es by (simp add: wait_over_def quiet_run)
  qed
qed

text \<open>The program is started, the timer expires, and a SIGTERM is handled before the handler of the timer.\<close>

theorem shutdown_ends_exactly_witness:
  "\<exists>p log' p'. launch demo_sys demo_build (Inr ()) (\<lambda>_. True) demo_mk6 3 Some demo_program_config [] = Some (Inr p, log')
     \<and> p' = fold (program_step demo_sys demo_build)
         [Px_strand, Px_timer_expires, Px_signal SIGTERM, Px_deliver SIGTERM, Px_signal_handler, Px_strand] p
     \<and> sv_stopping (pr_server p') \<and> (\<forall>n. pr_timer (fold (program_step demo_sys demo_build) (replicate (Suc n) Px_timer_handler) p') \<noteq> Unarmed)
     \<and> pr_signals (fold (program_step demo_sys demo_build) [Px_signal_handler] p') = Unarmed"
proof -
  obtain p log' where p: "launch demo_sys demo_build (Inr ()) (\<lambda>_. True) demo_mk6 3 Some demo_program_config [] = Some (Inr p, log')"
      "pr_posted p = [Post_start]" "pr_config p = demo_program_config" "pr_timer p = Armed" "pr_signals p = Armed" "pr_undelivered p = []"
      "\<not> sv_stopping (pr_server p)" "\<not> sv_started (pr_server p)" "sv_shutdown_handler (pr_server p)" using demo_launch by blast
  define q where "q = fold (program_step demo_sys demo_build) [Px_strand, Px_timer_expires, Px_signal SIGTERM, Px_deliver SIGTERM, Px_signal_handler] p"
  define q' where "q' = q\<lparr>pr_posted := []\<rparr>"
  have q: "pr_posted q = [Post_stop]" "pr_timer q = Completed (Some ())" "pr_signals q = Unarmed" "pr_undelivered q = []"
      "pr_config q = demo_program_config" "\<not> sv_stopping (pr_server q)" "sv_shutdown_handler (pr_server q)"
    using p(2-) by (simp_all add: q_def serve_def signal_handler_def post_def Let_def sv_start_on_strand_def accept_next_def sv_emit_def)
  have interval: "cfg_metrics_interval_seconds (pr_config q') \<noteq> 0"
    by (simp add: q q'_def demo_program_config_def demo_config_def default_ServerConfig_def)
  let ?p' = "run_posted demo_sys demo_build Post_stop q'"
  have "fold (program_step demo_sys demo_build)
      [Px_strand, Px_timer_expires, Px_signal SIGTERM, Px_deliver SIGTERM, Px_signal_handler, Px_strand] p = program_step demo_sys demo_build Px_strand q"
    unfolding q_def by (simp only: fold.simps o_apply id_apply)
  also have "\<dots> = ?p'" by (simp add: q q'_def)
  finally have p': "?p' = fold (program_step demo_sys demo_build)
      [Px_strand, Px_timer_expires, Px_signal SIGTERM, Px_deliver SIGTERM, Px_signal_handler, Px_strand] p" ..
  have "\<not> sv_stopping (pr_server q')" "sv_shutdown_handler (pr_server q')" using q by (simp_all add: q'_def)
  note ends = shutdown_ends_exactly [OF this interval refl, of demo_sys demo_build] and stop = stop_cancels(1) [OF this]
  have q': "pr_timer q' = Completed (Some ())" "pr_signals q' = Unarmed" "pr_undelivered q' = []" using q by (simp_all add: q'_def)
  have "pr_timer (fold (program_step demo_sys demo_build) (replicate (Suc n) Px_timer_handler) ?p') \<noteq> Unarmed" for n
  proof -
    have "Px_timer_handler \<in> set (replicate (Suc n) Px_timer_handler)" by simp
    from mp [OF spec [OF conjunct1 [OF ends]] this] show ?thesis unfolding q'(1) by blast
  qed
  moreover have "pr_signals (fold (program_step demo_sys demo_build) [Px_signal_handler] ?p') = Unarmed"
  proof -
    have "pr_undelivered q' = [] \<and> Px_signal_handler \<in> set [Px_signal_handler] \<and> (\<forall>e\<in>set [Px_signal_handler]. quiet e)"
      by (simp add: q' quiet_def)
    from mp [OF spec [OF conjunct2 [OF ends]] this] show ?thesis unfolding q'(2) by blast
  qed
  ultimately show ?thesis using p(1) p' stop by blast
qed

section \<open>The process\<close>

lemma load_returns: "returns (load_context env b config)"
  unfolding load_context_def by (intro returns_then others_return(2) context_returns(1))

lemma launch_returns: "returns (launch env b listening is_address make_address_v6 open_tun set_iff config)"
proof -
  have "load_context env b (tls_config config) log \<noteq> None" for log using load_returns [of env b "tls_config config"] by (simp add: returns_def)
  then show ?thesis unfolding returns_def launch_def
    by (auto split: option.split sum.split prod.split)
qed

lemma workers_code: "fst (workers_end runs) = EXIT_SUCCESS \<longleftrightarrow> (\<forall>e. Inl e \<notin> set runs)"
proof -
  have "[what e. Inl e \<leftarrow> runs] = [] \<longleftrightarrow> (\<forall>e. Inl e \<notin> set runs)"
    by (induction runs) (auto split: sum.splits)
  then show ?thesis by (simp add: workers_end_def Let_def)
qed

text \<open>
  The process ends its construction on every command line. It succeeds exactly if help or the version
  was asked for, or the server was launched and no worker failed.
\<close>

lemma main_outcome:
  "\<exists>ps. main_program env b version running listening is_address make_address_v6 open_tun set_iff argv = Some ps
     \<and> (ps_code ps = EXIT_SUCCESS \<longleftrightarrow> (\<exists>config. parse_server_arguments is_address make_address_v6 (drop 1 argv) = Inr config
          \<and> (show_help config \<or> show_version config
             \<or> (\<exists>p calls. launch env b listening is_address make_address_v6 open_tun set_iff config [] = Some (Inr p, calls))
               \<and> (\<forall>e. Inl e \<notin> set (snd running)))))"
proof (cases "parse_server_arguments is_address make_address_v6 (drop 1 argv)")
  case (Inr config)
  obtain r calls where launched: "launch env b listening is_address make_address_v6 open_tun set_iff config [] = Some (r, calls)"
    using launch_returns [of env b listening is_address make_address_v6 open_tun set_iff config] by (fastforce simp: returns_def)
  show ?thesis
  proof (cases r)
    case (Inl e)
    then show ?thesis using Inr launched by (simp add: main_program_def main_catch_def Let_def)
  next
    case started: (Inr p)
    show ?thesis using Inr launched workers_code [of "snd running"]
      by (simp add: main_program_def started Let_def split_beta)
  qed
qed (simp add: main_program_def main_catch_def Let_def)

end
