(* ===== verification/Prototype_Server.thy ===== *)
theory Prototype_Server
  imports Ip_Address
begin

text \<open>
  The server of the earlier prototype, \<^verbatim>\<open>vpn_base/server\<close>: the pool of addresses, the sessions and the
  server that maps addresses to sessions. Functions that the source posts to the I/O context are
  collected; its threads may run them in any order. What is only printed to the console is left out.
  \<open>inet_pton\<close> is the function of the C library, a parameter.
\<close>

section \<open>The pool\<close>

text \<open>An unordered set of strings is a list without duplicates.\<close>

record IpPoolManager =
  used_ips :: "string list"
  start_ip :: string
  end_ip :: string

definition new_IpPoolManager :: "string \<Rightarrow> string \<Rightarrow> IpPoolManager" where
  "new_IpPoolManager first_ip last_ip = \<lparr>used_ips = [], start_ip = first_ip, end_ip = last_ip\<rparr>"

definition mark_ip_used :: "string \<Rightarrow> IpPoolManager \<Rightarrow> IpPoolManager" where
  "mark_ip_used ip pool = pool\<lparr>used_ips := List.insert ip (used_ips pool)\<rparr>"

definition release_ip :: "string \<Rightarrow> IpPoolManager \<Rightarrow> IpPoolManager" where
  "release_ip ip pool = pool\<lparr>used_ips := removeAll ip (used_ips pool)\<rparr>"

text \<open>A text that \<open>inet_pton\<close> refuses leaves the address uninitialised.\<close>

definition ip_to_uint :: "(string \<Rightarrow> bytes option) \<Rightarrow> string \<Rightarrow> u32 result" where
  "ip_to_uint inet_pton ip_str = (case inet_pton ip_str of None \<Rightarrow> Inl Undefined_behaviour | Some addr \<Rightarrow> Inr (to_integer addr))"

definition uint_to_ip :: "u32 \<Rightarrow> string" where
  "uint_to_ip ip = format_ipv4_address (from_integer ip)"

text \<open>The counter wraps around, so the loop need not end when the pool ends at the greatest address.\<close>

partial_function (option) available_loop :: "IpPoolManager \<Rightarrow> u32 \<Rightarrow> u32 \<Rightarrow> string result option" where
  "available_loop pool last_ip ip =
     (if ip \<le> last_ip then
        if uint_to_ip ip \<notin> set (used_ips pool) then Some (Inr (uint_to_ip ip)) else available_loop pool last_ip (ip + 1)
      else Some (Inl (Runtime_error ''No available IP in pool'')))"

declare available_loop.simps [code]

definition get_available_ip :: "(string \<Rightarrow> bytes option) \<Rightarrow> IpPoolManager \<Rightarrow> string result option" where
  "get_available_ip inet_pton pool =
     (case ip_to_uint inet_pton (start_ip pool) of
        Inl e \<Rightarrow> Some (Inl e)
      | Inr first_ip \<Rightarrow>
         (case ip_to_uint inet_pton (end_ip pool) of
            Inl e \<Rightarrow> Some (Inl e)
          | Inr last_ip \<Rightarrow> available_loop pool last_ip first_ip))"

definition get_available_ip_size :: "IpPoolManager \<Rightarrow> u64" where
  "get_available_ip_size pool = 252 - of_nat (length (used_ips pool))"

text \<open>
  The file that \<^verbatim>\<open>generate_config_file\<close> writes; \<open>get_vm_ip\<close> and \<open>read_file\<close> are what these functions
  return or throw. An exception is caught and only reported.
\<close>

record client_file =
  cf_server_ip :: string
  cf_server_port :: u16
  cf_tun_ip :: string
  cf_tun_mask :: string
  cf_client_crt :: string
  cf_client_key :: string
  cf_server_crt :: string

definition generate_config_file :: "(string \<Rightarrow> bytes option) \<Rightarrow> string result \<Rightarrow> u16 \<Rightarrow> (string \<Rightarrow> string result)
    \<Rightarrow> IpPoolManager \<Rightarrow> client_file result option" where
  "generate_config_file inet_pton get_vm_ip port read_file pool =
     (case get_available_ip inet_pton pool of
        None \<Rightarrow> None
      | Some (Inl e) \<Rightarrow> Some (Inl e)
      | Some (Inr available_ip) \<Rightarrow> Some (
         and_then get_vm_ip (\<lambda>vm_ip.
         and_then (read_file ''client_config/client.crt'') (\<lambda>client_crt.
         and_then (read_file ''client_config/client.key'') (\<lambda>client_key.
         and_then (read_file ''certs/server.crt'') (\<lambda>server_crt.
           Inr \<lparr>cf_server_ip = vm_ip, cf_server_port = port, cf_tun_ip = available_ip, cf_tun_mask = ''24'',
                cf_client_crt = client_crt, cf_client_key = client_key, cf_server_crt = server_crt\<rparr>))))))"

section \<open>Sessions and the server\<close>

text \<open>\<open>handshaking\<close> tells that the TLS handshake is outstanding.\<close>

record Session =
  active :: bool
  client_ip :: string
  handshaking :: bool

datatype posted_call = Assign nat | Release nat | Forward bytes string

datatype proto_effect = Accept_next | Start_handshake nat | Read_some nat | Tun_write_packet bytes | Write_client nat bytes

text \<open>
  A shared pointer to a session is its number, in the order of creation, or \<open>None\<close> when it is null;
  a session object is only read and changed through it.
\<close>

record Server =
  ip_pool :: IpPoolManager
  sessions :: "nat option list"
  ip_to_session :: "(string \<times> nat) list"
  objects :: "nat \<Rightarrow> Session"
  next_session :: nat
  posted_calls :: "posted_call list"
  proto_log :: "proto_effect list"

definition proto_emit :: "proto_effect \<Rightarrow> Server \<Rightarrow> Server" where
  "proto_emit e s = s\<lparr>proto_log := proto_log s @ [e]\<rparr>"

definition proto_post :: "posted_call \<Rightarrow> Server \<Rightarrow> Server" where
  "proto_post f s = s\<lparr>posted_calls := posted_calls s @ [f]\<rparr>"

definition set_session :: "nat \<Rightarrow> Session \<Rightarrow> Server \<Rightarrow> Server" where
  "set_session i x s = s\<lparr>objects := (objects s)(i := x)\<rparr>"

definition new_Server :: "IpPoolManager \<Rightarrow> Server" where
  "new_Server pool = \<lparr>ip_pool = pool, sessions = [], ip_to_session = [],
     objects = (\<lambda>_. \<lparr>active = False, client_ip = [], handshaking = False\<rparr>), next_session = 0, posted_calls = [],
     proto_log = [Accept_next]\<rparr>"

definition session_stop :: "nat \<Rightarrow> Server \<Rightarrow> Server" where
  "session_stop i s =
     (if active (objects s i) then proto_post (Release i) (set_session i ((objects s i)\<lparr>active := False\<rparr>) s) else s)"

definition async_write :: "nat \<Rightarrow> bytes \<Rightarrow> Server \<Rightarrow> Server" where
  "async_write i data s = (if \<not> active (objects s i) then s else proto_emit (Write_client i data) s)"

definition write_done :: "nat \<Rightarrow> bool \<Rightarrow> Server \<Rightarrow> Server" where
  "write_done i failed s = (if failed then session_stop i s else s)"

definition handshake_done :: "nat \<Rightarrow> bool \<Rightarrow> Server \<Rightarrow> Server" where
  "handshake_done i failed s =
     (if \<not> handshaking (objects s i) then s
      else
       (let x = (objects s i)\<lparr>handshaking := False\<rparr>
        in if failed then set_session i (x\<lparr>active := False\<rparr>) s else proto_post (Assign i) (set_session i x s)))"

definition start_reading :: "nat \<Rightarrow> Server \<Rightarrow> Server" where
  "start_reading i s = (if \<not> active (objects s i) then s else proto_emit (Read_some i) s)"

definition handle_assigned_ip :: "nat \<Rightarrow> string \<Rightarrow> Server \<Rightarrow> Server" where
  "handle_assigned_ip i assigned_ip s = start_reading i (set_session i ((objects s i)\<lparr>client_ip := assigned_ip\<rparr>) s)"

text \<open>\<open>None\<close> is an error of the read.\<close>

definition read_done :: "nat \<Rightarrow> bytes option \<Rightarrow> Server \<Rightarrow> Server" where
  "read_done i received s =
     (case received of
        Some data \<Rightarrow> if active (objects s i) then start_reading i (proto_emit (Tun_write_packet data) s) else session_stop i s
      | None \<Rightarrow> session_stop i s)"

text \<open>
  The posted part of \<^verbatim>\<open>assign_client_ip\<close>. \<open>received\<close> are the characters read, none when the read
  failed; a C string ends at its first NUL.
\<close>

definition assign_client_ip :: "(string \<Rightarrow> bytes option) \<Rightarrow> string \<Rightarrow> nat \<Rightarrow> Server \<Rightarrow> Server" where
  "assign_client_ip inet_pton received i s =
     (let ip = filter (\<lambda>c. c \<noteq> CHR 0x0A) received
      in if inet_pton (takeWhile (\<lambda>c. c \<noteq> CHR 0x00) ip) = None then session_stop i s
         else
          (let s = s\<lparr>ip_pool := mark_ip_used ip (ip_pool s), ip_to_session := AList.update ip i (ip_to_session s),
                     sessions := sessions s @ [Some i]\<rparr>
           in handle_assigned_ip i ip s))"

text \<open>\<^verbatim>\<open>std::remove\<close> on shared pointers: an element that is moved to the front leaves a null pointer behind.\<close>

function remove_loop :: "'a \<Rightarrow> 'a option list \<Rightarrow> nat \<Rightarrow> nat \<Rightarrow> 'a option list \<times> nat" where
  "remove_loop x v result i =
     (if i < length v then
        if v ! i = Some x then remove_loop x v result (i + 1)
        else remove_loop x (v[result := v ! i, i := None]) (result + 1) (i + 1)
      else (v, result))"
  by pat_completeness auto

termination
  by (relation "measure (\<lambda>(_, v, _, i). length v - i)") auto

definition std_remove :: "'a \<Rightarrow> 'a option list \<Rightarrow> 'a option list \<times> nat" where
  "std_remove x v =
     (let i = length (takeWhile (\<lambda>y. y \<noteq> Some x) v) in if i < length v then remove_loop x v i (i + 1) else (v, i))"

definition erase_at :: "nat \<Rightarrow> 'a list \<Rightarrow> 'a list" where
  "erase_at i v = take i v @ drop (i + 1) v"

text \<open>The posted part of \<^verbatim>\<open>release_client_ip\<close>.\<close>

definition release_client_ip :: "nat \<Rightarrow> Server \<Rightarrow> Server" where
  "release_client_ip i s =
     (let ip = client_ip (objects s i);
          s = (if ip \<noteq> [] then s\<lparr>ip_to_session := map_erase ip (ip_to_session s), ip_pool := release_ip ip (ip_pool s)\<rparr> else s);
          (v, it) = std_remove i (sessions s)
      in s\<lparr>sessions := (if it < length v then erase_at it v else v)\<rparr>)"

text \<open>A packet in \<^verbatim>\<open>tun_read_loop\<close>, with the size of the header, and the function that it posts.\<close>

definition tun_packet :: "bytes \<Rightarrow> Server \<Rightarrow> Server" where
  "tun_packet packet s =
     (if length packet < 20 then s
      else proto_post (Forward packet (uint_to_ip (to_integer (take 4 (drop 16 packet))))) s)"

definition forward :: "bytes \<Rightarrow> string \<Rightarrow> Server \<Rightarrow> Server" where
  "forward packet dest_ip s =
     (case map_of (ip_to_session s) dest_ip of
        Some i \<Rightarrow> if active (objects s i) then async_write i packet s else s
      | None \<Rightarrow> s)"

definition accept_done :: "bool \<Rightarrow> Server \<Rightarrow> Server" where
  "accept_done failed s =
     proto_emit Accept_next
      (if failed then s
       else
        (let i = next_session s;
             s = set_session i \<lparr>active = True, client_ip = [], handshaking = True\<rparr> (s\<lparr>next_session := i + 1\<rparr>)
         in proto_emit (Start_handshake i) (s\<lparr>sessions := sessions s @ [Some i]\<rparr>)))"

text \<open>The destructor stops every session of the vector; a null pointer there is dereferenced.\<close>

fun stop_all :: "nat option list \<Rightarrow> Server \<Rightarrow> Server result" where
  "stop_all [] s = Inr s"
| "stop_all (None # rest) s = Inl Undefined_behaviour"
| "stop_all (Some i # rest) s = stop_all rest (session_stop i s)"

definition destroy_Server :: "Server \<Rightarrow> Server result" where
  "destroy_Server s = and_then (stop_all (sessions s) s) (\<lambda>s. Inr (s\<lparr>sessions := []\<rparr>))"

section \<open>Events\<close>

text \<open>\<open>Pt_run n received\<close> runs the posted function at position \<open>n\<close>; \<open>received\<close> is what \<open>Assign\<close> reads.\<close>

datatype proto_event =
    Pt_accept bool
  | Pt_handshake nat bool
  | Pt_run nat string
  | Pt_read nat "bytes option"
  | Pt_written nat bool
  | Pt_packet bytes

fun run_call :: "(string \<Rightarrow> bytes option) \<Rightarrow> string \<Rightarrow> posted_call \<Rightarrow> Server \<Rightarrow> Server" where
  "run_call inet_pton received (Assign i) s = assign_client_ip inet_pton received i s"
| "run_call inet_pton received (Release i) s = release_client_ip i s"
| "run_call inet_pton received (Forward packet dest_ip) s = forward packet dest_ip s"

fun proto_step :: "(string \<Rightarrow> bytes option) \<Rightarrow> proto_event \<Rightarrow> Server \<Rightarrow> Server" where
  "proto_step inet_pton (Pt_accept failed) s = accept_done failed s"
| "proto_step inet_pton (Pt_handshake i failed) s = handshake_done i failed s"
| "proto_step inet_pton (Pt_run n received) s =
     (if n < length (posted_calls s) then
        run_call inet_pton received (posted_calls s ! n) (s\<lparr>posted_calls := erase_at n (posted_calls s)\<rparr>)
      else s)"
| "proto_step inet_pton (Pt_read i received) s = read_done i received s"
| "proto_step inet_pton (Pt_written i failed) s = write_done i failed s"
| "proto_step inet_pton (Pt_packet packet) s = tun_packet packet s"

section \<open>The pool hands out the lowest free address\<close>

definition lowest_free :: "IpPoolManager \<Rightarrow> u32 \<Rightarrow> u32 \<Rightarrow> string result" where
  "lowest_free pool last_ip ip =
     (case find (\<lambda>k. uint_to_ip (word_of_nat k) \<notin> set (used_ips pool)) [unat ip ..< Suc (unat last_ip)] of
        Some k \<Rightarrow> Inr (uint_to_ip (word_of_nat k))
      | None \<Rightarrow> Inl (Runtime_error ''No available IP in pool''))"

lemma available_loop_exact: "last_ip \<noteq> - 1 \<Longrightarrow> available_loop pool last_ip ip = Some (lowest_free pool last_ip ip)"
proof (induction "Suc (unat last_ip) - unat ip" arbitrary: ip)
  case 0
  then have "\<not> ip \<le> last_ip" by (simp add: word_le_nat_alt)
  then show ?case using 0 by (subst available_loop.simps) (simp add: lowest_free_def)
next
  case (Suc n)
  then have le: "ip \<le> last_ip" "unat ip \<le> unat last_ip" by (simp_all add: word_le_nat_alt)
  have "ip \<noteq> - 1" using Suc.prems le(1) by (auto simp: word_order.extremum_unique)
  then have step: "unat (ip + 1) = Suc (unat ip)" using unatSuc [of ip] by (simp add: add.commute eq_neg_iff_add_eq_0)
  have "available_loop pool last_ip (ip + 1) = Some (lowest_free pool last_ip (ip + 1))"
    using Suc step by (intro Suc.hyps(1)) simp_all
  then show ?case using le by (subst available_loop.simps) (simp add: lowest_free_def upt_rec [of "unat ip"] step del: upt_Suc)
qed

section \<open>Addresses and sessions\<close>

definition is_assign :: "posted_call \<Rightarrow> bool" where
  "is_assign f = (case f of Assign _ \<Rightarrow> True | _ \<Rightarrow> False)"

text \<open>
  The pool has marked exactly the addresses of the map, and each of them is the address of its session.
  A session is assigned an address at most once.
\<close>

definition proto_inv :: "Server \<Rightarrow> bool" where
  "proto_inv s \<longleftrightarrow> set (used_ips (ip_pool s)) = dom (map_of (ip_to_session s))
     \<and> (\<forall>ip i. map_of (ip_to_session s) ip = Some i \<longrightarrow> client_ip (objects s i) = ip \<and> ip \<noteq> [])
     \<and> (\<forall>i. handshaking (objects s i) \<or> Assign i \<in> set (posted_calls s) \<longrightarrow> client_ip (objects s i) = [] \<and> i < next_session s)
     \<and> (\<forall>i. handshaking (objects s i) \<longrightarrow> Assign i \<notin> set (posted_calls s))
     \<and> (\<forall>i. client_ip (objects s i) \<noteq> [] \<longrightarrow> i < next_session s)
     \<and> distinct (filter is_assign (posted_calls s))"

lemma proto_invI:
  assumes "proto_inv s" "ip_pool s' = ip_pool s" "ip_to_session s' = ip_to_session s" "next_session s' = next_session s"
    and "\<And>i. client_ip (objects s' i) = client_ip (objects s i)"
    and "\<And>i. handshaking (objects s' i) \<Longrightarrow> handshaking (objects s i)"
    and "set (posted_calls s') \<inter> {f. is_assign f} \<subseteq> set (posted_calls s)" "distinct (filter is_assign (posted_calls s'))"
  shows "proto_inv s'"
proof -
  have "Assign i \<in> set (posted_calls s') \<Longrightarrow> Assign i \<in> set (posted_calls s)" for i
    using assms(7) by (auto simp: is_assign_def)
  then show ?thesis using assms(1,6,8) by (auto simp: proto_inv_def assms(2-5)) blast
qed

lemma proto_frame:
  "proto_inv s \<Longrightarrow> proto_inv (proto_emit e s)" "proto_inv s \<Longrightarrow> proto_inv (s\<lparr>sessions := v\<rparr>)"
  "proto_inv s \<Longrightarrow> \<not> is_assign f \<Longrightarrow> proto_inv (proto_post f s)"
  "proto_inv s \<Longrightarrow> proto_inv (set_session i ((objects s i)\<lparr>active := b\<rparr>) s)"
  by (auto simp: proto_emit_def proto_post_def set_session_def proto_inv_def is_assign_def split: posted_call.splits)

lemma stop_inv: "proto_inv s \<Longrightarrow> proto_inv (session_stop i s)"
  by (simp add: session_stop_def proto_frame is_assign_def)

lemma quiet_inv:
  "proto_inv s \<Longrightarrow> proto_inv (async_write i data s)" "proto_inv s \<Longrightarrow> proto_inv (start_reading i s)"
  "proto_inv s \<Longrightarrow> proto_inv (write_done i failed s)" "proto_inv s \<Longrightarrow> proto_inv (read_done i received s)"
  "proto_inv s \<Longrightarrow> proto_inv (tun_packet packet s)" "proto_inv s \<Longrightarrow> proto_inv (forward packet dest_ip s)"
  by (simp_all add: async_write_def start_reading_def write_done_def read_done_def tun_packet_def forward_def proto_frame stop_inv
      is_assign_def split: option.split)

lemma handshake_inv: "proto_inv s \<Longrightarrow> proto_inv (handshake_done i failed s)"
  by (auto simp: handshake_done_def proto_inv_def proto_post_def set_session_def is_assign_def Let_def)

lemma proto_accept_inv:
  assumes "proto_inv s"
  shows "proto_inv (accept_done failed s)"
proof -
  have "client_ip (objects s (next_session s)) = []" "Assign (next_session s) \<notin> set (posted_calls s)"
    using assms unfolding proto_inv_def by (metis less_irrefl)+
  then have "proto_inv (set_session (next_session s) \<lparr>active = True, client_ip = [], handshaking = True\<rparr> (s\<lparr>next_session := next_session s + 1\<rparr>))"
    using assms by (auto simp: proto_inv_def set_session_def less_Suc_eq)
  then show ?thesis using assms by (simp add: accept_done_def Let_def proto_frame)
qed

lemma erase_at_props:
  assumes "n < length xs"
  shows "set (erase_at n xs) \<subseteq> set xs" "distinct (filter P xs) \<Longrightarrow> distinct (filter P (erase_at n xs))"
    "distinct (filter P xs) \<Longrightarrow> P (xs ! n) \<Longrightarrow> xs ! n \<notin> set (erase_at n xs)"
proof -
  have split: "xs = take n xs @ xs ! n # drop (n + 1) xs" using assms id_take_nth_drop by fastforce
  have "set (take n xs) \<subseteq> set xs" "set (drop (n + 1) xs) \<subseteq> set xs" by (simp_all add: set_take_subset set_drop_subset)
  then show "set (erase_at n xs) \<subseteq> set xs" by (auto simp: erase_at_def)
  have eq: "filter P xs = filter P (take n xs) @ filter P [xs ! n] @ filter P (drop (n + 1) xs)" for P
    by (subst split) simp
  show "distinct (filter P xs) \<Longrightarrow> distinct (filter P (erase_at n xs))"
    "distinct (filter P xs) \<Longrightarrow> P (xs ! n) \<Longrightarrow> xs ! n \<notin> set (erase_at n xs)"
    unfolding eq [of P] by (auto simp: erase_at_def split: if_splits)
qed

lemma assign_inv:
  assumes inv: "proto_inv s" and ip: "client_ip (objects s i) = []" "i < next_session s" "\<not> handshaking (objects s i)"
    "Assign i \<notin> set (posted_calls s)" and pton: "inet_pton [] = None"
  shows "proto_inv (assign_client_ip inet_pton received i s)"
proof -
  let ?ip = "filter (\<lambda>c. c \<noteq> CHR 0x0A) received"
  have "proto_inv (set_session i ((objects s i)\<lparr>client_ip := ?ip\<rparr>)
     (s\<lparr>ip_pool := mark_ip_used ?ip (ip_pool s), ip_to_session := AList.update ?ip i (ip_to_session s), sessions := sessions s @ [Some i]\<rparr>))"
    if "?ip \<noteq> []"
    using inv ip that
    by (simp add: proto_inv_def set_session_def mark_ip_used_def update_conv') fastforce
  moreover have "?ip \<noteq> []" if "inet_pton (takeWhile (\<lambda>c. c \<noteq> CHR 0x00) ?ip) \<noteq> None" using that pton by auto
  ultimately show ?thesis using stop_inv [OF inv]
    by (auto simp: assign_client_ip_def handle_assigned_ip_def Let_def set_session_def intro!: quiet_inv(2))
qed

lemma release_inv: "proto_inv s \<Longrightarrow> proto_inv (release_client_ip i s)"
proof -
  assume inv: "proto_inv s"
  have "proto_inv (s\<lparr>ip_to_session := map_erase ip (ip_to_session s), ip_pool := release_ip ip (ip_pool s)\<rparr>)" for ip
    using inv by (auto simp: proto_inv_def release_ip_def)
  then show ?thesis using inv by (auto simp: release_client_ip_def Let_def proto_frame split: prod.split)
qed

lemma call_inv:
  assumes inv: "proto_inv s" and n: "n < length (posted_calls s)" and pton: "inet_pton [] = None"
  shows "proto_inv (run_call inet_pton received (posted_calls s ! n) (s\<lparr>posted_calls := erase_at n (posted_calls s)\<rparr>))"
proof -
  let ?s = "s\<lparr>posted_calls := erase_at n (posted_calls s)\<rparr>"
  have d: "distinct (filter is_assign (posted_calls s))" using inv by (simp add: proto_inv_def)
  have inv': "proto_inv ?s" using erase_at_props(1,2) [OF n] d by (intro proto_invI [OF inv]) auto
  show ?thesis
  proof (cases "posted_calls s ! n")
    case (Assign i)
    have "posted_calls s ! n \<in> set (posted_calls s)" using n by simp
    then have "client_ip (objects s i) = []" "i < next_session s" "\<not> handshaking (objects s i)"
      using inv Assign by (auto simp: proto_inv_def)
    moreover have "Assign i \<notin> set (erase_at n (posted_calls s))"
      using erase_at_props(3) [OF n d] Assign by (simp add: is_assign_def)
    ultimately show ?thesis using assign_inv [of ?s i inet_pton received] inv' pton Assign by simp
  qed (use inv' in \<open>simp_all add: release_inv quiet_inv(6)\<close>)
qed

lemma proto_step_inv: "inet_pton [] = None \<Longrightarrow> proto_inv s \<Longrightarrow> proto_inv (proto_step inet_pton e s)"
  by (cases e) (simp_all add: proto_accept_inv handshake_inv call_inv quiet_inv)

interpretation proto: event_machine "proto_step inet_pton" "\<lambda>s. inet_pton [] = None \<longrightarrow> proto_inv s"
  by unfold_locales (blast intro: proto_step_inv)

lemma proto_inv_new: "used_ips pool = [] \<Longrightarrow> proto_inv (new_Server pool)"
  by (simp add: proto_inv_def new_Server_def)

lemma release_result:
  "objects (release_client_ip i s) = objects s"
  "client_ip (objects s i) = ip \<Longrightarrow> ip \<noteq> [] \<Longrightarrow> map_of (ip_to_session (release_client_ip i s)) ip = None
     \<and> ip \<notin> set (used_ips (ip_pool (release_client_ip i s)))"
  by (auto simp: release_client_ip_def release_ip_def Let_def split: prod.split)

lemma assign_result:
  assumes "filter (\<lambda>c. c \<noteq> CHR 0x0A) ip = ip" "inet_pton (takeWhile (\<lambda>c. c \<noteq> CHR 0x00) ip) \<noteq> None"
  shows "map_of (ip_to_session (assign_client_ip inet_pton ip j s)) ip = Some j"
    "objects (assign_client_ip inet_pton ip j s) = (objects s)(j := (objects s j)\<lparr>client_ip := ip\<rparr>)"
  using assms by (auto simp: assign_client_ip_def handle_assigned_ip_def start_reading_def set_session_def proto_emit_def update_conv')


text \<open>Two clients that were given the same configuration file, and two with different ones.\<close>

definition demo_pton :: "string \<Rightarrow> bytes option" where
  "demo_pton text' = (if text' = ''10.8.0.2'' then Some [10, 8, 0, 2] else if text' = ''10.8.0.3'' then Some [10, 8, 0, 3]
     else if text' = ''10.8.0.254'' then Some [10, 8, 0, 254] else None)"

definition demo_pool_manager :: IpPoolManager where
  "demo_pool_manager = new_IpPoolManager ''10.8.0.2'' ''10.8.0.254''"

definition demo_connects :: "proto_event list" where
  "demo_connects = [Pt_accept False, Pt_accept False, Pt_handshake 0 False, Pt_handshake 1 False, Pt_run 0 ''10.8.0.2'']"


text \<open>
  The vector of sessions has each session twice, and \<open>erase\<close> takes only one element away: after one
  of two clients has gone, a null pointer is left that the destructor dereferences.
\<close>

lemma destructor_undefined:
  "destroy_Server (fold (proto_step demo_pton) (demo_connects @ [Pt_run 0 ''10.8.0.3'', Pt_read 0 None, Pt_run 0 []])
     (new_Server demo_pool_manager)) = Inl Undefined_behaviour"
proof -
  let ?s = "fold (proto_step demo_pton) (demo_connects @ [Pt_run 0 ''10.8.0.3'', Pt_read 0 None, Pt_run 0 []]) (new_Server demo_pool_manager)"
  have "case destroy_Server ?s of Inl e \<Rightarrow> e = Undefined_behaviour | Inr _ \<Rightarrow> False" by code_simp
  then show ?thesis by (simp only: split: sum.splits)
qed

text \<open>The pool of the configuration has 253 addresses; when all are marked, the number of free ones wraps around.\<close>

lemma pool_size_wraps: "length (used_ips pool) = 253 \<Longrightarrow> get_available_ip_size pool = - 1"
  by (simp add: get_available_ip_size_def)

lemma get_available_ip_exact:
  assumes "inet_pton (start_ip pool) = Some a" "inet_pton (end_ip pool) = Some b" "to_integer b \<noteq> - 1"
  shows "get_available_ip inet_pton pool = Some (lowest_free pool (to_integer b) (to_integer a))"
  using available_loop_exact [OF assms(3)] by (simp add: get_available_ip_def ip_to_uint_def assms)

text \<open>A generated file does not mark its address: the next one has the same.\<close>

lemma generated_files_share:
  assumes "inet_pton (start_ip pool) = Some a" "inet_pton (end_ip pool) = Some b" "to_integer b \<noteq> - 1"
    and "generate_config_file inet_pton vm_ip port read_file pool = Some (Inr config)"
  shows "lowest_free pool (to_integer b) (to_integer a) = Inr (cf_tun_ip config) \<and> cf_tun_ip config \<notin> set (used_ips pool)"
proof -
  have l: "lowest_free pool (to_integer b) (to_integer a) = Inr (cf_tun_ip config)"
    using assms(4) get_available_ip_exact [OF assms(1-3)]
    by (auto simp: generate_config_file_def and_then_Inr_iff split: sum.splits)
  then show ?thesis by (auto simp: lowest_free_def find_Some_iff split: option.splits)
qed

end
