(* ===== verification/Spec2Isabelle.thy ===== *)
theory Spec2Isabelle
  imports Outbound_Queue Tunnel Tunnel_Router Broker_Protocol Network_Transaction Tun_Device Tls_Server
    Server_Config Client_Config Tls_Client Client_Runtime Full_Tunnel Server_Program Prototype_Server
begin

text \<open>
  A verification development for Personal VPN: a TLS tunnel with a Linux server and a Windows
  client. All paths are below \<^verbatim>\<open>src/\<close> of the repository.

  \<^bold>\<open>The program.\<close> A client opens a TLS connection with mutual authentication and sends frames
  (\<^verbatim>\<open>protocol/\<close>). Its first frame is a CLIENT_HELLO; the server gives it a lease of virtual
  addresses (\<^verbatim>\<open>core/lease_manager.cpp\<close>) and answers with IP_ASSIGN; then both exchange IP packets
  as DATA frames (\<^verbatim>\<open>core/session_controller.cpp\<close>, \<^verbatim>\<open>core/client_session_controller.cpp\<close>). Around
  these controllers stand the connections (\<^verbatim>\<open>server/tls_tunnel_session.cpp\<close>,
  \<^verbatim>\<open>client/tls_tunnel_client.cpp\<close>), which own the decoder, the bounded queue
  (\<^verbatim>\<open>core/outbound_frame_queue.cpp\<close>) and the single write in flight. At the server
  \<^verbatim>\<open>server/tls_tunnel_server.cpp\<close> accepts connections and routes the packets of the TUN device
  (\<^verbatim>\<open>server/linux_tun_device.cpp\<close>) to sessions (\<^verbatim>\<open>core/tunnel_router.cpp\<close>). At the client
  \<^verbatim>\<open>client/client_runtime.cpp\<close> connects, configures the network as one transaction
  (\<^verbatim>\<open>core/client_network_transaction.cpp\<close>) on the platform's backend, and reconnects.

  \<^bold>\<open>How it is modelled.\<close> Fixed-width integers are words and wrap around; \<^verbatim>\<open>size_t\<close> is a natural
  number; byte arrays are lists of 8-bit words; containers with an order are lists, maps are
  association lists. A thrown exception is an \<open>Inl\<close> result of the type \<open>cxx_exception\<close>; what C++
  leaves undefined (a null pointer is dereferenced) is an exception of its own, which the theorems
  exclude. An object is a record, a member function takes and returns it. Asynchronous classes run
  on a strand or on one I/O thread: each handler is one step, what it asks of its environment
  (start a read, a write, a timer, call a handler) is appended to a log, and a completion is an
  event that can happen only while its operation is outstanding. The theorems quantify over all
  sequences of events. Code that is not in the repository (Boost, OpenSSL, the file system, Linux
  and Windows) is a parameter: an argument of the definitions, whose answers are arbitrary except
  where a theorem names what it assumes of them.

  \<^bold>\<open>The theories.\<close>
  \<^item> Prelude: types, exceptions, decimal numbers, byte order, and the interfaces \<open>codec\<close> and
    \<open>event_machine\<close>.
  \<^item> Wire (\<^verbatim>\<open>protocol/protocol.cpp\<close>): frames and the incremental decoder. Round trip under every
    cutting of the stream, soundness, and refinement of a parser of the whole stream.
  \<^item> Control_Messages (\<^verbatim>\<open>protocol/control_messages.cpp\<close>), Error_Texts: the payloads, each an
    instance of \<open>codec\<close>: a payload is accepted if and only if it is the encoding of the message.
  \<^item> Ip_Address, Lease_Manager (\<^verbatim>\<open>core/lease_manager.cpp\<close>): address texts and the pool. Exclusive
    addresses, exact behaviour of \<open>acquire\<close>, leases are never revived; the locale
    \<open>lease_service\<close> is what the sessions rely on.
  \<^item> Outbound_Queue, Frame_Sequence, Wire_Order: the queue as a bounded first-in-first-out channel
    (locale \<open>fifo_channel\<close>), and consecutive frame numbers (locale \<open>numbering\<close>).
  \<^item> Session_Controller, Client_Session, Tunnel: both halves of the protocol. No exception escapes,
    no spoofed packet passes, order of frames, finality of closing, exactness of the client's
    address policy. The properties of this theory put both together: the handshake establishes
    both ends, and packets arrive in order in both directions.
  \<^item> Tunnel_Router (\<^verbatim>\<open>core/tunnel_router.cpp\<close>, locale \<open>peer_table\<close>), Tun_Device
    (\<^verbatim>\<open>server/linux_tun_device.cpp\<close>), Server_Metrics (\<^verbatim>\<open>server/metrics_exporter.cpp\<close>), Tls_Session,
    Tls_Server, Server_Config: the server. Whole frames in order on the wire, one end per session,
    capacity, live routes, packets of the device in order; the command line round trip, and that
    accepted arguments construct a server.
  \<^item> Effects: computations that call an environment, whose answers may depend on all calls before;
    what they call (\<open>emits\<close>, \<open>only\<close>), whether they return, and their final state.
  \<^item> Key_Files (\<^verbatim>\<open>client/credential_security.cpp\<close> and the key file of \<^verbatim>\<open>server/tls_security.cpp\<close>),
    Tls_Context (\<^verbatim>\<open>server/tls_security.cpp\<close>, \<^verbatim>\<open>client/client_tls_security.cpp\<close>): private keys and TLS
    contexts. An accepted key file is readable to nobody else, under the access check of Windows that
    \<open>access_check\<close> writes out; a context that is handed out is hardened, as \<open>settings\<close> reads its calls;
    with an account of resources (\<open>held\<close>, \<open>triple\<close>) every path gives back what it took and clears the
    key; different certificates have different identities.
  \<^item> Server_Program (\<^verbatim>\<open>server/main.cpp\<close>): signals, the metrics timer, the strand and the process.
    Every session of every run uses a hardened context, also after reloads; when a stop ends the
    program and when it does not.
  \<^item> Network_Transaction, Client_Config, Tls_Client, Client_Runtime: the client. Resources balance
    whatever the backend answers, activation is atomic, loaded configurations are usable, packets
    are gated by the assignment, the runtime ends clean, fails closed, backs off within bounds and
    ends after a stop.
  \<^item> Broker_Protocol (\<^verbatim>\<open>broker/broker_protocol.cpp\<close>): the requests of the user interface, a \<open>codec\<close>.
  \<^item> Windows_Api, Kill_Switch (\<^verbatim>\<open>client/windows_kill_switch.cpp\<close>), Windows_Backend
    (\<^verbatim>\<open>client/windows_network_backend.cpp\<close>), Full_Tunnel: the client on Windows, as
    computations that call Windows. The filters let out exactly what the policy says, under the
    arbitration of the filtering platform that \<open>passes\<close> writes out; they change in one transaction or not at all; the operations return
    if enumerations end; the backend never uses a closed handle and the destructor leaks none; bypass
    routes avoid the tunnel; filters, routes and the permit of the interface together are a full
    tunnel. \<open>keeps\<close> and \<open>quietly\<close> are the calculi these proofs use beside those of Effects.
  \<^item> Prototype_Server (\<^verbatim>\<open>vpn_base/server\<close>): the address pool, the sessions and the routing of the earlier
    prototype; what its map of addresses guarantees, and that addresses are not exclusive.

  \<^bold>\<open>Bounds.\<close> The loops of the sources that scan data are functions with termination proofs; no
  fuel is used for them. Two loops end only if Windows lets them, the enumeration of filters and the
  wait for a packet (and the search of the prototype's pool only if the pool does not end at the
  greatest address): they are partial functions, \<open>None\<close> is a call that does not return, and
  \<open>kill_switch_terminates\<close> proves that the first returns if no enumeration reports more than a
  given number of times. The counters \<open>connection_generation\<close> of the client runtime and the ids
  of sessions are natural numbers where the source has 64-bit integers that are only incremented.

  \<^bold>\<open>Not modelled.\<close> What OpenSSL, Boost, Linux and Windows do with the calls: only the calls and the
  use of their answers are modelled. The release of TLS contexts that sessions share is left to their
  reference counts, and the outstanding operations of the sessions do not take part in the question
  when the program of the server ends. Of the earlier prototype \<^verbatim>\<open>vpn_base/\<close>, the client, the shell
  commands and older copies are left out, and so is \<^verbatim>\<open>vpn_client_ui/\<close>, the Windows user interface; none
  of them is linked with the code above. Tests, fuzz targets and benchmarks are not part of the
  program.
\<close>

section \<open>A concrete tunnel\<close>

text \<open>The two ends of the concrete sessions after the handshake.\<close>

definition demo_server_end :: session where
  "demo_server_end = session_step (Se_frame alice_hello 0) (alice_session, small_pool)"

definition demo_client_end :: ClientSessionController where
  "demo_client_end = fold client_step demo_handshake demo_client"

lemma demo_ends:
  "reachable_session (fst demo_server_end, snd demo_server_end)" "client_inv demo_client_end"
  "in_sync demo_client_end (fst demo_server_end)"
  "lease_current (fst demo_server_end, snd demo_server_end) 5"
proof -
  show "reachable_session (fst demo_server_end, snd demo_server_end)"
    using alice_established unfolding demo_server_end_def by simp
  show "client_inv demo_client_end"
    unfolding demo_client_end_def by (rule client_session.run_invar [OF client_inv_new [OF demo_client_new]])
  show "in_sync demo_client_end (fst demo_server_end)" by code_simp
  show "lease_current (fst demo_server_end, snd demo_server_end) 5" by code_simp
qed


section \<open>The tunnel from end to end\<close>

text \<open>
  C11: the handshake works. If the operator's pool is usable and has a lease for the
  authenticated identity, then the client's hello makes the server answer with one IP_ASSIGN
  frame, the client accepts that assignment, and both ends are established on the same
  addresses and the smaller of the two MTUs, each expecting the sequence number the other one
  sends next.
\<close>

theorem handshake_establishes:
  assumes "new_LeaseManager first_a last_a gw len u d v6_prefix v6_gw v6_len = Inr m0"
    and "length gw = 4" "length v6_prefix = 16" "length v6_gw = 16" and "pool_usable m0"
    and "m = fold lease_step events m0"
    and "new_SessionController identity = Inr s" and "new_ClientSessionController client_mtu = Inr c"
    and "acquire m identity now = (Inr lease, m')"
  shows "\<exists>hello c1 reply s' a c2.
     client_start c = (Inr hello, c1)
     \<and> session_handle (s, m) hello now = (Inr (nothing\<lparr>outbound_frames := [reply]\<rparr>), (s', m'))
     \<and> client_handle c1 reply = (Inr (client_nothing\<lparr>cr_assignment := Some a\<rparr>), c2)
     \<and> in_sync c2 s' \<and> lease_current (s', m') now
     \<and> client_address a = lease_address lease \<and> mtu a = min client_mtu u"
proof -
  have inv: "lm_inv m" by (rule reachable_inv [OF assms(1-4,6)])
  let ?h = "client_hello_of client_mtu" and ?a = "hello_assignment m' lease (client_hello_of client_mtu)"
  obtain bs c1 where bs: "encode_client_hello ?h = Inr bs" and start: "client_start c = (Inr (hello_frame bs), c1)"
    and c1: "c1 = \<lparr>cs_requested_mtu = client_mtu, cs_state = CAwaitingAssignment, cs_assignment = None,
        pending_ping_nonce = None, cs_next_expected_sequence = 1, cs_next_outbound_sequence = 2\<rparr>"
    by (rule handshake_start [OF assms(8)]) blast
  have wf: "lm_inv m'" "lease_wf m' lease" using acquired_wf [OF inv assms(9)] by simp_all
  have cfg: "config_of m' = config_of m0"
    using config_of_acquire [of m identity now] unfolding assms(9) by (simp add: assms(6))
  then have use: "pool_usable m'" and u: "lm_mtu m' = u"
    using pool_usable_config [OF cfg] assms(5) config_of_new [OF assms(1)] by (simp_all add: config_of_def)
  have valid: "validate_ip_assignment ?a = Inr ()" by (rule hello_assignment_valid [OF wf use bs])
  then obtain payload where enc: "encode_ip_assignment ?a = Inr payload"
    by (simp add: encode_ip_assignment_def Let_def)
  have "wf_IpAssignment ?a"
    using to_assignment_wf [OF wf] by (simp add: hello_assignment_def wf_IpAssignment_def)
  then have dec: "decode_ip_assignment payload = Inr ?a" using enc by (rule ip_assignment.dec_enc)
  have "assignment_is_acceptable c1 ?a"
    by (rule hello_assignment_acceptable [OF wf use]) (simp add: client_hello_of_def c1)
  note client = handshake_client [OF dec c1 this]
  note server = handshake_server [OF assms(7,9) bs enc]
  show ?thesis
    using start server client acquired_current [OF inv assms(9)] assigned_v6 [OF valid wf(2)]
    by (intro exI conjI)
      (auto simp: hello_assignment_def to_assignment_def client_hello_of_def in_sync_def u)
qed

theorem handshake_establishes_witness:
  "\<exists>hello c1 reply s' m' a c2.
     client_start demo_client = (Inr hello, c1)
     \<and> session_handle (alice_session, small_pool) hello 0
         = (Inr (nothing\<lparr>outbound_frames := [reply]\<rparr>), (s', m'))
     \<and> client_handle c1 reply = (Inr (client_nothing\<lparr>cr_assignment := Some a\<rparr>), c2)
     \<and> in_sync c2 s' \<and> client_address a = [10, 8, 0, 2] \<and> mtu a = 1400"
proof -
  obtain m' where acq: "acquire small_pool ''alice'' 0
      = (Inr (small_pool_lease ''alice'' 2 1 3600000000000), m')"
  proof
    show "acquire small_pool ''alice'' 0 = (Inr (small_pool_lease ''alice'' 2 1 3600000000000),
        small_pool\<lparr>next_lease_id := 2,
          leases_by_identity := [(''alice'', small_pool_lease ''alice'' 2 1 3600000000000)],
          identity_by_address := [(0x0A080002, ''alice'')]\<rparr>)"
      by code_simp
  qed
  have usable: "pool_usable small_pool" by code_simp
  have "\<exists>hello c1 reply s' a c2. client_start demo_client = (Inr hello, c1)
     \<and> session_handle (alice_session, small_pool) hello 0
         = (Inr (nothing\<lparr>outbound_frames := [reply]\<rparr>), (s', m'))
     \<and> client_handle c1 reply = (Inr (client_nothing\<lparr>cr_assignment := Some a\<rparr>), c2)
     \<and> in_sync c2 s' \<and> lease_current (s', m') 0
     \<and> client_address a = lease_address (small_pool_lease ''alice'' 2 1 3600000000000)
     \<and> mtu a = min 1400 1400"
    by (rule handshake_establishes [OF small_pool_new _ _ _ usable _ alice_new demo_client_new acq, of "[]"])
      simp_all
  then show ?thesis by (simp add: small_pool_lease_def) blast
qed

text \<open>
  C12: the uplink. When the two ends are in sync and the lease has not expired, the packets a
  client hands to its session are encoded without error, and however the transport cuts the
  byte stream into chunks, the server's decoder and session deliver to the TUN device exactly
  the packets the client accepted, in order.
\<close>

theorem uplink_delivers:
  assumes "reachable_session (s, m)" and "client_inv c" and "in_sync c s" and "lease_current (s, m) now"
  shows "\<exists>stream. encode_all (trace client_step client_sent (map Ce_packet packets) c) = Inr stream
    \<and> (\<forall>chunks. concat chunks = stream \<longrightarrow>
         (\<exists>frames. fst (push_all new_FrameDecoder chunks) = Inr frames
            \<and> trace session_step session_delivered (map (\<lambda>f. Se_frame f now) frames) (s, m)
              = filter (client_accepts c) packets))"
proof -
  let ?frames = "trace client_step client_sent (map Ce_packet packets) c"
  obtain stream where "encode_all ?frames = Inr stream"
    using numbered_stream [OF client_session.run_numbered [OF assms(2)]] by blast
  with push_all_encoded [of ?frames stream]
    upstream_run [OF assms(3) reachable_session_inv [OF assms(1)] assms(4), of packets]
  show ?thesis by blast
qed

theorem uplink_delivers_witness:
  "\<exists>stream. encode_all (trace client_step client_sent (map Ce_packet [alice_packet, [1], alice_packet]) demo_client_end)
       = Inr stream
     \<and> (\<exists>frames. fst (push_all new_FrameDecoder [take 7 stream, drop 7 stream]) = Inr frames
          \<and> trace session_step session_delivered (map (\<lambda>f. Se_frame f 5) frames) demo_server_end
            = [alice_packet, alice_packet])"
proof -
  have accept: "filter (client_accepts demo_client_end) [alice_packet, [1], alice_packet] = [alice_packet, alice_packet]"
    by code_simp
  obtain stream where enc: "encode_all (trace client_step client_sent
      (map Ce_packet [alice_packet, [1], alice_packet]) demo_client_end) = Inr stream"
    and all: "\<And>chunks. concat chunks = stream \<Longrightarrow>
      \<exists>frames. fst (push_all new_FrameDecoder chunks) = Inr frames
        \<and> trace session_step session_delivered (map (\<lambda>f. Se_frame f 5) frames) demo_server_end
          = [alice_packet, alice_packet]"
    using uplink_delivers [OF demo_ends, of "[alice_packet, [1], alice_packet]"]
    unfolding accept prod.collapse by blast
  have "concat [take 7 stream, drop 7 stream] = stream" by simp
  with enc all show ?thesis by blast
qed

text \<open>
  C13: the downlink. Under the same conditions, the packets the router hands to the server's
  session reach the client's tunnel interface exactly when they are valid packets for the
  leased address within the MTU, in order and unchanged, however the stream is cut.
\<close>

theorem downlink_delivers:
  assumes "reachable_session (s, m)" and "in_sync c s" and "lease_current (s, m) now"
  shows "\<exists>stream.
    encode_all (trace session_step session_sent (map (\<lambda>p. Se_packet p now) packets) (s, m)) = Inr stream
    \<and> (\<forall>chunks. concat chunks = stream \<longrightarrow>
         (\<exists>frames. fst (push_all new_FrameDecoder chunks) = Inr frames
            \<and> trace client_step client_delivered (map Ce_frame frames) c = filter (for_client s) packets))"
proof -
  let ?frames = "trace session_step session_sent (map (\<lambda>p. Se_packet p now) packets) (s, m)"
  have inv: "sess_inv (s, m)" by (rule reachable_session_inv [OF assms(1)])
  obtain stream where "encode_all ?frames = Inr stream"
    using numbered_stream [OF server_session.run_numbered [OF inv]] by blast
  with push_all_encoded [of ?frames stream] downstream_run [OF assms(2) inv assms(3), of packets]
  show ?thesis by blast
qed

theorem downlink_delivers_witness:
  "\<exists>stream. encode_all (trace session_step session_sent
       (map (\<lambda>p. Se_packet p 5) [demo_packet, alice_packet]) demo_server_end) = Inr stream
     \<and> (\<exists>frames. fst (push_all new_FrameDecoder [take 3 stream, drop 3 stream]) = Inr frames
          \<and> trace client_step client_delivered (map Ce_frame frames) demo_client_end = [demo_packet])"
proof -
  have accept: "filter (for_client (fst demo_server_end)) [demo_packet, alice_packet] = [demo_packet]"
    by code_simp
  obtain stream where enc: "encode_all (trace session_step session_sent
      (map (\<lambda>p. Se_packet p 5) [demo_packet, alice_packet]) demo_server_end) = Inr stream"
    and all: "\<And>chunks. concat chunks = stream \<Longrightarrow>
      \<exists>frames. fst (push_all new_FrameDecoder chunks) = Inr frames
        \<and> trace client_step client_delivered (map Ce_frame frames) demo_client_end = [demo_packet]"
    using downlink_delivers [OF demo_ends(1,3,4), of "[demo_packet, alice_packet]"]
    unfolding accept prod.collapse by blast
  have "concat [take 3 stream, drop 3 stream] = stream" by simp
  with enc all show ?thesis by blast
qed

section \<open>The context of a loaded configuration\<close>

text \<open>The overload of \<^verbatim>\<open>make_client_tls_context\<close> for a configuration of the client.\<close>

definition make_client_tls_context_of :: "sys \<Rightarrow> build \<Rightarrow> ClientConfig \<Rightarrow> nat sys_comp" where
  "make_client_tls_context_of env b config =
     make_client_tls_context env b \<lparr>ct_ca_file = ca_file config, ct_certificate_chain_file = certificate_chain_file config,
       ct_private_key_file = private_key_file config, ct_expected_server_name = cc_expected_server_name config\<rparr>"

lemma client_context_of_config:
  assumes "make_client_tls_context_of env b config log = Some (Inr ctx, log')"
  shows "\<exists>cs. log' = log @ cs \<and> hardened (settings ctx cs) \<and> ts_host (settings ctx cs) = Some (cc_expected_server_name config)
     \<and> ts_authorities (settings ctx cs) = Some (ca_file config)"
  using client_hardened [OF assms [unfolded make_client_tls_context_of_def]] by simp

end
